(* ===== verification/Prelude.thy ===== *)
theory Prelude
  imports Complex_Main "HOL-Library.AList" "HOL-Library.Char_ord" "HOL-Library.List_Lexorder"
begin

text \<open>
  Shared vocabulary of the development: Python exceptions and the results of fallible
  code, insertion-ordered dictionaries, string operations, and the lemmas about them that
  the component theories use through the collections \<open>res_simps\<close> and \<open>dict_simps\<close>.
\<close>

named_theorems res_simps "computation rules of the result monad"
named_theorems dict_simps "facts about insertion-ordered dictionaries"

section \<open>Exceptions and results\<close>

text \<open>The exception classes the code raises or tells apart in an \<open>except\<close> clause.\<close>

datatype pyexc =
    KeyError | IndexError | TypeError | AttributeError | ValueError | AssertionError
  | RuntimeError | NotImplementedError | OverflowError | ZeroDivisionError
  | HTTPError | TimeoutError | IntegrityError | UnknownLiveExchangeError | DBAPIError

text \<open>The value of \<open>type(exc).__name__\<close>.\<close>

fun exc_name :: "pyexc \<Rightarrow> string" where
  "exc_name KeyError = ''KeyError''"
| "exc_name IndexError = ''IndexError''"
| "exc_name TypeError = ''TypeError''"
| "exc_name AttributeError = ''AttributeError''"
| "exc_name ValueError = ''ValueError''"
| "exc_name AssertionError = ''AssertionError''"
| "exc_name RuntimeError = ''RuntimeError''"
| "exc_name NotImplementedError = ''NotImplementedError''"
| "exc_name OverflowError = ''OverflowError''"
| "exc_name ZeroDivisionError = ''ZeroDivisionError''"
| "exc_name HTTPError = ''HTTPError''"
| "exc_name TimeoutError = ''TimeoutError''"
| "exc_name IntegrityError = ''IntegrityError''"
| "exc_name UnknownLiveExchangeError = ''UnknownLiveExchangeError''"
| "exc_name DBAPIError = ''DBAPIError''"

type_synonym 'a res = "pyexc + 'a"

definition rbind :: "'a res \<Rightarrow> ('a \<Rightarrow> 'b res) \<Rightarrow> 'b res" where
  "rbind m f = (case m of Inl e \<Rightarrow> Inl e | Inr x \<Rightarrow> f x)"

lemma rbind_simps [simp, res_simps]:
  "rbind (Inl e) f = Inl e"
  "rbind (Inr x) f = f x"
  by (simp_all add: rbind_def)

lemma rbind_eq_Inr [res_simps]: "rbind m f = Inr y \<longleftrightarrow> (\<exists>x. m = Inr x \<and> f x = Inr y)"
  by (cases m) auto

lemma rbind_eq_Inl [res_simps]:
  "rbind m f = Inl e \<longleftrightarrow> m = Inl e \<or> (\<exists>x. m = Inr x \<and> f x = Inl e)"
  by (cases m) auto

lemma rbind_cong [fundef_cong]:
  "m = m' \<Longrightarrow> (\<And>x. m' = Inr x \<Longrightarrow> f x = f' x) \<Longrightarrow> rbind m f = rbind m' f'"
  by (cases m') auto

text \<open>\<open>assert\<close> and an early \<open>raise\<close>.\<close>

definition rguard :: "bool \<Rightarrow> pyexc \<Rightarrow> unit res" where
  "rguard b e = (if b then Inr () else Inl e)"

lemma rguard_simps [simp, res_simps]:
  "rguard True e = Inr ()"
  "rguard False e = Inl e"
  "rguard b e = Inr u \<longleftrightarrow> b"
  by (simp_all add: rguard_def)

text \<open>A loop that appends one element per iteration and stops at the first exception.\<close>

fun rmap :: "('a \<Rightarrow> 'b res) \<Rightarrow> 'a list \<Rightarrow> 'b list res" where
  "rmap f [] = Inr []"
| "rmap f (x # xs) = rbind (f x) (\<lambda>y. rbind (rmap f xs) (\<lambda>ys. Inr (y # ys)))"

lemma rmap_cong [fundef_cong]:
  "xs = ys \<Longrightarrow> (\<And>x. x \<in> set ys \<Longrightarrow> f x = g x) \<Longrightarrow> rmap f xs = rmap g ys"
  by (induction ys arbitrary: xs) auto

lemma rmap_Inr_iff: "rmap f xs = Inr ys \<longleftrightarrow> list_all2 (\<lambda>x y. f x = Inr y) xs ys"
  by (induction xs arbitrary: ys) (auto simp: list_all2_Cons1 res_simps)

lemma rmap_length: "rmap f xs = Inr ys \<Longrightarrow> length ys = length xs"
  by (auto simp: rmap_Inr_iff dest: list_all2_lengthD)

lemma rmap_Inr_set:
  "rmap f xs = Inr ys \<Longrightarrow> y \<in> set ys \<Longrightarrow> \<exists>x\<in>set xs. f x = Inr y"
  by (induction xs arbitrary: ys) (auto simp: res_simps)

lemma rmap_pure [simp]: "rmap (\<lambda>x. Inr (f x)) xs = Inr (map f xs)"
  by (induction xs) auto

text \<open>A loop over a list that may skip elements (\<open>continue\<close>): \<open>None\<close> is a skip.\<close>

fun rcollect :: "('a \<Rightarrow> 'b option res) \<Rightarrow> 'a list \<Rightarrow> 'b list res" where
  "rcollect f [] = Inr []"
| "rcollect f (x # xs) = rbind (f x) (\<lambda>w. rbind (rcollect f xs)
     (\<lambda>ys. Inr (case w of None \<Rightarrow> ys | Some y \<Rightarrow> y # ys)))"

lemma rcollect_set:
  "rcollect f xs = Inr ys \<Longrightarrow> y \<in> set ys \<longleftrightarrow> (\<exists>x\<in>set xs. f x = Inr (Some y))"
proof (induction xs arbitrary: ys)
  case (Cons x xs)
  then obtain o1 zs where "f x = Inr o1" "rcollect f xs = Inr zs"
    "ys = (case o1 of None \<Rightarrow> zs | Some y \<Rightarrow> y # zs)"
    by (auto simp: res_simps)
  with Cons.IH [of zs] show ?case by (auto split: option.splits)
qed simp

lemma rcollect_length: "rcollect f xs = Inr ys \<Longrightarrow> length ys \<le> length xs"
proof (induction xs arbitrary: ys)
  case (Cons x xs)
  then obtain o1 zs where "rcollect f xs = Inr zs"
    "ys = (case o1 of None \<Rightarrow> zs | Some y \<Rightarrow> y # zs)"
    by (auto simp: res_simps)
  with Cons.IH [of zs] show ?case by (auto split: option.splits)
qed simp

text \<open>A loop that threads an accumulator and stops at the first exception.\<close>

fun rfold :: "('s \<Rightarrow> 'a \<Rightarrow> 's res) \<Rightarrow> 's \<Rightarrow> 'a list \<Rightarrow> 's res" where
  "rfold f s [] = Inr s"
| "rfold f s (x # xs) = rbind (f s x) (\<lambda>s'. rfold f s' xs)"

lemma rfold_append: "rfold f s (xs @ ys) = rbind (rfold f s xs) (\<lambda>s'. rfold f s' ys)"
proof (induction xs arbitrary: s)
  case (Cons x xs)
  then show ?case by (cases "f s x") auto
qed simp

lemma rfold_invariant:
  assumes "rfold f s xs = Inr t" and "P s"
    and "\<And>u x v. x \<in> set xs \<Longrightarrow> P u \<Longrightarrow> f u x = Inr v \<Longrightarrow> P v"
  shows "P t"
  using assms
proof (induction xs arbitrary: s)
  case (Cons x xs)
  then obtain u where "f s x = Inr u" "rfold f u xs = Inr t"
    by (auto simp: res_simps)
  with Cons show ?case by auto
qed simp

section \<open>Dictionaries\<close>

text \<open>
  A Python dict is an association list in insertion order with distinct keys.
  \<open>AList.update\<close> is \<open>d[k] = v\<close>: it replaces the value in place, or appends.
  \<open>dict_of\<close> is \<open>{k: v for ...}\<close>: a later pair overwrites the value of an earlier one.
\<close>

type_synonym ('k, 'v) dict = "('k \<times> 'v) list"

definition dict_of :: "('k \<times> 'v) list \<Rightarrow> ('k, 'v) dict" where
  "dict_of ps = foldl (\<lambda>d (k, v). AList.update k v d) [] ps"

lemma foldl_update_map_of:
  "map_of (foldl (\<lambda>d (k, v). AList.update k v d) d ps) = map_of d ++ map_of (rev ps)"
  by (induction ps arbitrary: d) (auto simp: update_conv' map_add_def fun_eq_iff split: option.splits)

lemma foldl_update_keys:
  "fst ` set (foldl (\<lambda>d (k, v). AList.update k v d) d ps) = fst ` set d \<union> fst ` set ps"
  by (induction ps arbitrary: d) (auto simp: update_conv' simp flip: dom_map_of_conv_image_fst)

lemma foldl_update_distinct:
  "distinct (map fst d) \<Longrightarrow> distinct (map fst (foldl (\<lambda>d (k, v). AList.update k v d) d ps))"
  by (induction ps arbitrary: d) (auto simp: distinct_update)

lemma dict_of_Nil [simp]: "dict_of [] = []"
  by (simp add: dict_of_def)

lemma map_of_dict_of [dict_simps]: "map_of (dict_of ps) = map_of (rev ps)"
  by (simp add: dict_of_def foldl_update_map_of)

lemma keys_dict_of [dict_simps]: "fst ` set (dict_of ps) = fst ` set ps"
  by (simp add: dict_of_def foldl_update_keys)

lemma distinct_dict_of [dict_simps, simp]: "distinct (map fst (dict_of ps))"
  by (simp add: dict_of_def foldl_update_distinct)

lemma update_append_new: "k \<notin> fst ` set d \<Longrightarrow> AList.update k v d = d @ [(k, v)]"
  by (induction d) auto

lemma foldl_update_append:
  "distinct (map fst (d @ ps)) \<Longrightarrow>
   foldl (\<lambda>d (k, v). AList.update k v d) d ps = d @ ps"
  by (induction ps arbitrary: d) (auto simp: update_append_new image_iff)

lemma dict_of_distinct [dict_simps]: "distinct (map fst ps) \<Longrightarrow> dict_of ps = ps"
  by (simp add: dict_of_def foldl_update_append)

lemma set_dict_of_subset: "set (dict_of ps) \<subseteq> set ps"
proof
  fix p assume p: "p \<in> set (dict_of ps)"
  then have "map_of (dict_of ps) (fst p) = Some (snd p)"
    by (simp add: map_of_is_SomeI)
  then have "map_of (rev ps) (fst p) = Some (snd p)"
    by (simp add: map_of_dict_of)
  then show "p \<in> set ps"
    by (auto dest!: map_of_SomeD)
qed

lemma length_dict_of: "length (dict_of ps) = card (fst ` set ps)"
  using distinct_card [OF distinct_dict_of [of ps]] by (simp add: keys_dict_of)

section \<open>Lists and options\<close>

lemma filter_empty_iff_all: "filter P xs = [] \<longleftrightarrow> (\<forall>x\<in>set xs. \<not> P x)"
  by (induction xs) auto

lemma list_all_map_iff: "list_all P (map f xs) \<longleftrightarrow> (\<forall>x\<in>set xs. P (f x))"
  by (induction xs) auto

lemma map_of_filter_key:
  "map_of (filter (\<lambda>p. P (fst p)) d) k = (if P k then map_of d k else None)"
  by (induction d) auto

lemma map_of_eq_None_keys: "map_of d k = None \<longleftrightarrow> k \<notin> fst ` set d"
  by (simp add: map_of_eq_None_iff)

lemma distinct_map_filter: "distinct (map f xs) \<Longrightarrow> distinct (map f (filter P xs))"
  by (induction xs) auto

section \<open>Strings\<close>

text \<open>\<open>str.split(sep)\<close> for a one-character separator, \<open>str.strip()\<close> on ASCII white space,
  and \<open>str.upper()\<close> on ASCII letters.\<close>

fun py_split :: "char \<Rightarrow> string \<Rightarrow> string list" where
  "py_split c [] = [[]]"
| "py_split c (x # xs) =
     (if x = c then [] # py_split c xs
      else case py_split c xs of [] \<Rightarrow> [[x]] | w # ws \<Rightarrow> (x # w) # ws)"

lemma py_split_nonempty [simp]: "py_split c s \<noteq> []"
  by (induction s) (auto split: list.splits)

lemma py_split_no_sep: "w \<in> set (py_split c s) \<Longrightarrow> c \<notin> set w"
proof (induction s arbitrary: w)
  case (Cons x xs)
  then show ?case by (auto split: if_splits list.splits)
qed simp

definition is_space :: "char \<Rightarrow> bool" where
  "is_space c \<longleftrightarrow> of_char c \<in> {9, 10, 11, 12, 13, 28, 29, 30, 31, 32 :: nat}"

definition py_strip :: "string \<Rightarrow> string" where
  "py_strip s = rev (dropWhile is_space (rev (dropWhile is_space s)))"

definition upper_char :: "char \<Rightarrow> char" where
  "upper_char c = (if 97 \<le> (of_char c :: nat) \<and> of_char c \<le> (122 :: nat)
     then char_of ((of_char c :: nat) - 32) else c)"

definition py_upper :: "string \<Rightarrow> string" where
  "py_upper = map upper_char"

definition starts_with :: "string \<Rightarrow> string \<Rightarrow> bool" where
  "starts_with p s \<longleftrightarrow> take (length p) s = p"

definition ends_with :: "string \<Rightarrow> string \<Rightarrow> bool" where
  "ends_with p s \<longleftrightarrow> length p \<le> length s \<and> drop (length s - length p) s = p"

lemma ends_with_append: "ends_with p s \<longleftrightarrow> (\<exists>q. s = q @ p)"
proof
  assume "ends_with p s"
  then have "s = take (length s - length p) s @ p"
    by (metis append_take_drop_id ends_with_def)
  then show "\<exists>q. s = q @ p" ..
qed (auto simp: ends_with_def)

end
