(* ===== verification/PyFloat.thy ===== *)
theory PyFloat
  imports Prelude "HOL-Library.Log_Nat"
begin

text \<open>
  Binary64 arithmetic as the code's float operations see it. A finite double is the rational
  number it denotes; \<open>fl\<close> rounds a rational to the nearest double (53 significant bits, ties
  to even), so \<open>x / y\<close> of the source is \<open>fl (x / y)\<close>. Infinities, NaN and subnormal results
  are outside the model: no value of the program comes near the limits of the exponent.
  \<open>round_half_even\<close> is Python's one-argument \<open>round\<close>, \<open>py_int\<close> its \<open>int\<close> on a float.
\<close>

definition pow2 :: "int \<Rightarrow> rat" where
  "pow2 e = (if 0 \<le> e then 2 ^ nat e else 1 / 2 ^ nat (- e))"

lemma pow2_pos [simp]: "0 < pow2 e"
  by (simp add: pow2_def)

lemma pow2_simps [simp]: "0 \<le> pow2 e" "pow2 e \<noteq> 0" "\<bar>pow2 e\<bar> = pow2 e"
  using pow2_pos [of e] by linarith+

lemma pow2_add: "pow2 (a + b) = pow2 a * pow2 b"
proof -
  have *: "pow2 e = power_int 2 e" for e
    by (auto simp: pow2_def power_int_def field_simps)
  show ?thesis by (simp add: * power_int_add)
qed

lemma pow2_minus: "pow2 (- a) = 1 / pow2 a"
  using pow2_add [of a "- a"] by (simp add: pow2_def field_simps)

definition round_half_even :: "rat \<Rightarrow> int" where
  "round_half_even x =
     (let n = \<lfloor>x\<rfloor>; d = x - of_int n
      in if d < 1/2 then n else if 1/2 < d then n + 1 else if even n then n else n + 1)"

lemma round_half_even_of_int [simp]: "round_half_even (of_int n) = n"
  by (simp add: round_half_even_def Let_def)

lemma round_half_even_error: "\<bar>of_int (round_half_even x) - x\<bar> \<le> 1/2"
proof -
  have f: "of_int \<lfloor>x\<rfloor> \<le> x" "x < of_int \<lfloor>x\<rfloor> + 1" by linarith+
  have "\<bar>(of_int n :: rat) - x\<bar> \<le> 1/2" if "n = \<lfloor>x\<rfloor> \<and> x - of_int \<lfloor>x\<rfloor> \<le> 1/2 \<or>
      n = \<lfloor>x\<rfloor> + 1 \<and> 1/2 \<le> x - of_int \<lfloor>x\<rfloor>" for n
    using that f by (elim disjE) auto
  moreover have "round_half_even x = \<lfloor>x\<rfloor> \<and> x - of_int \<lfloor>x\<rfloor> \<le> 1/2 \<or>
      round_half_even x = \<lfloor>x\<rfloor> + 1 \<and> 1/2 \<le> x - of_int \<lfloor>x\<rfloor>"
    by (simp add: round_half_even_def Let_def not_less)
  ultimately show ?thesis by blast
qed

lemma round_half_even_near: "\<bar>x - of_int n\<bar> < 1/2 \<Longrightarrow> round_half_even x = n"
  using round_half_even_error [of x] by linarith

definition expo :: "rat \<Rightarrow> int" where
  "expo x = (if 1 \<le> x then bitlen \<lfloor>x\<rfloor> - 1 else - bitlen (\<lceil>1 / x\<rceil> - 1))"

lemma bitlen_positive: "0 < n \<Longrightarrow> 0 < bitlen n"
  using bitlen_bounds [of n] bitlen_nonneg [of n] by (cases "bitlen n = 0") auto

lemma pow2_expo_le: "0 < x \<Longrightarrow> pow2 (expo x) \<le> x"
proof (cases "1 \<le> x")
  case True
  then have "0 < \<lfloor>x\<rfloor>" by linarith
  then have "2 ^ nat (bitlen \<lfloor>x\<rfloor> - 1) \<le> \<lfloor>x\<rfloor>" "0 < bitlen \<lfloor>x\<rfloor>"
    using bitlen_bounds bitlen_positive by blast+
  then have "(of_int (2 ^ nat (bitlen \<lfloor>x\<rfloor> - 1)) :: rat) \<le> of_int \<lfloor>x\<rfloor>"
    and "0 \<le> bitlen \<lfloor>x\<rfloor> - 1"
    by (simp_all only: of_int_le_iff)
  then have "pow2 (expo x) \<le> of_int \<lfloor>x\<rfloor>"
    using True by (simp add: pow2_def expo_def)
  also have "\<dots> \<le> x" by simp
  finally show ?thesis .
next
  case False
  assume "0 < x"
  let ?n = "\<lceil>1 / x\<rceil> - 1"
  from False \<open>0 < x\<close> have "1 < 1 / x" by simp
  then have "0 < ?n" by linarith
  then have b: "?n < 2 ^ nat (bitlen ?n)" using bitlen_bounds by blast
  have "1 / x \<le> of_int (?n + 1)" by simp
  also have "\<dots> \<le> (of_int (2 ^ nat (bitlen ?n)) :: rat)"
    using b by (simp only: of_int_le_iff)
  finally have le: "1 / x \<le> 2 ^ nat (bitlen ?n)" by simp
  have "bitlen ?n \<ge> 0" by (simp add: bitlen_nonneg)
  then have "pow2 (expo x) = 1 / 2 ^ nat (bitlen ?n)"
    using False by (auto simp: expo_def pow2_def)
  also have "\<dots> \<le> x"
    using le \<open>0 < x\<close> by (simp add: divide_le_eq mult.commute)
  finally show ?thesis .
qed

definition fl_pos :: "rat \<Rightarrow> rat" where
  "fl_pos x = (let e = expo x - 52 in of_int (round_half_even (x * pow2 (- e))) * pow2 e)"

definition fl :: "rat \<Rightarrow> rat" where
  "fl x = (if x = 0 then 0 else if x < 0 then - fl_pos (- x) else fl_pos x)"

lemma fl_pos_error:
  assumes "0 < x" shows "\<bar>fl_pos x - x\<bar> \<le> x / 2 ^ 53"
proof -
  let ?e = "expo x - 52"
  let ?y = "x * pow2 (- ?e)"
  have "pow2 (- ?e) * pow2 ?e = 1" by (simp only: pow2_minus) simp
  then have x: "x = ?y * pow2 ?e" by (simp only: mult.assoc mult_1_right)
  have "fl_pos x - x = (of_int (round_half_even ?y) - ?y) * pow2 ?e"
    by (subst (2) x) (simp add: fl_pos_def Let_def algebra_simps)
  then have "\<bar>fl_pos x - x\<bar> = \<bar>of_int (round_half_even ?y) - ?y\<bar> * pow2 ?e"
    by (simp add: abs_mult)
  also have "\<dots> \<le> 1/2 * pow2 ?e"
    by (rule mult_right_mono [OF round_half_even_error]) (rule pow2_simps)
  also have "\<dots> = pow2 (expo x) / 2 ^ 53"
    using pow2_add [of "expo x" "- 52"] by (simp add: pow2_def)
  also have "\<dots> \<le> x / 2 ^ 53"
    using pow2_expo_le [OF assms] by (simp add: divide_right_mono)
  finally show ?thesis .
qed

lemma fl_error: "\<bar>fl x - x\<bar> \<le> \<bar>x\<bar> / 2 ^ 53"
proof (cases "x < 0")
  case True
  then have "fl x = - fl_pos (- x)" "\<bar>x\<bar> = - x" by (simp_all add: fl_def)
  then show ?thesis using True fl_pos_error [of "- x"] by linarith
next
  case False
  then show ?thesis using fl_pos_error [of x] by (auto simp: fl_def)
qed

lemma fl_pos_of_int:
  assumes "0 < n" "n < 2 ^ 53" shows "fl_pos (of_int n) = of_int n"
proof -
  have "2 ^ nat (bitlen n - 1) \<le> n" "bitlen n > 0"
    using assms bitlen_bounds bitlen_positive by blast+
  with assms have "(2::int) ^ nat (bitlen n - 1) < 2 ^ 53" by linarith
  then have "nat (bitlen n - 1) < 53" by (rule power_less_imp_less_exp [rotated]) simp
  then have e: "expo (of_int n :: rat) - 52 \<le> 0"
    using assms by (simp add: expo_def)
  let ?k = "nat (52 - expo (of_int n :: rat))"
  have p: "pow2 (expo (of_int n) - 52) = 1 / 2 ^ ?k" "pow2 (- (expo (of_int n) - 52)) = 2 ^ ?k"
    using e by (auto simp: pow2_def)
  have "of_int n * (2::rat) ^ ?k = of_int (n * 2 ^ ?k)" by simp
  then show ?thesis
    by (simp only: fl_pos_def Let_def p round_half_even_of_int) simp
qed

lemma fl_of_int [simp]: "\<bar>n\<bar> < 2 ^ 53 \<Longrightarrow> fl (of_int n) = of_int n"
  using fl_pos_of_int [of n] fl_pos_of_int [of "- n"] by (auto simp: fl_def)

lemma fl_zero [simp]: "fl 0 = 0"
  by (simp add: fl_def)

lemma fl_nonneg: "0 \<le> x \<Longrightarrow> 0 \<le> fl x"
proof -
  assume "0 \<le> x"
  moreover have "x / 2 ^ 53 \<le> x" if "0 \<le> x" using that by (simp add: field_simps)
  ultimately show ?thesis using fl_error [of x] by (simp add: abs_if split: if_splits)
qed

text \<open>\<open>int(x)\<close> on a float truncates towards zero.\<close>

definition py_int :: "rat \<Rightarrow> int" where
  "py_int x = (if 0 \<le> x then \<lfloor>x\<rfloor> else \<lceil>x\<rceil>)"

lemma py_int_of_int [simp]: "py_int (of_int n) = n"
  by (simp add: py_int_def)

end
