(* ===== verification/PyTime.thy ===== *)
theory PyTime
  imports PyFloat
begin

text \<open>
  \<open>fundingpulse/time.py\<close>: the project's UTC time API. An aware UTC \<open>datetime\<close> is the
  number of microseconds since the Unix epoch; a \<open>timedelta\<close> is a number of microseconds.
  Conversions from and to Unix seconds and milliseconds go through a float in the source and
  do so here (\<open>fl\<close> of theory PyFloat), so their truncation is part of the model.
  Calendar output (\<open>isoformat\<close>) follows CPython's ordinal-to-date algorithm. Sums of a
  \<open>datetime\<close> and a \<open>timedelta\<close> are plain sums: the overflow at the years 1 and 9999 is outside
  the model, that of the conversions is inside.
\<close>

type_synonym utc = int
type_synonym timedelta = int

abbreviation us_per_second :: int where "us_per_second \<equiv> 1000000"
abbreviation us_per_minute :: int where "us_per_minute \<equiv> 60000000"
abbreviation us_per_hour :: int where "us_per_hour \<equiv> 3600000000"
abbreviation us_per_day :: int where "us_per_day \<equiv> 86400000000"

definition seconds :: "int \<Rightarrow> timedelta" where "seconds n = n * us_per_second"
definition hours :: "int \<Rightarrow> timedelta" where "hours n = n * us_per_hour"
definition days :: "int \<Rightarrow> timedelta" where "days n = n * us_per_day"

text \<open>Python's \<open>datetime\<close> covers the years 1 to 9999.\<close>

definition datetime_min :: utc where "datetime_min = - 62135596800000000"
definition datetime_max :: utc where "datetime_max = 253402300799999999"

definition mk_datetime :: "int \<Rightarrow> utc res" where
  "mk_datetime us = (if datetime_min \<le> us \<and> us \<le> datetime_max then Inr us else Inl ValueError)"

section \<open>Conversions\<close>

text \<open>
  \<open>datetime.timestamp()\<close>: the microseconds since the epoch divided by \<open>10**6\<close>, as a double.
  \<open>datetime.fromtimestamp(d, UTC)\<close> splits the double into whole seconds and a fraction and
  rounds the fraction, scaled to microseconds, half to even.
\<close>

definition timestamp_of :: "utc \<Rightarrow> rat" where
  "timestamp_of t = fl (of_int t / 1000000)"

definition fromtimestamp :: "rat \<Rightarrow> utc res" where
  "fromtimestamp d = (let i = py_int d; f = d - of_int i
     in mk_datetime (i * us_per_second + round_half_even (fl (f * 1000000))))"

definition from_unix_seconds :: "rat \<Rightarrow> utc res" where
  "from_unix_seconds v = fromtimestamp v"

definition from_unix_milliseconds :: "rat \<Rightarrow> utc res" where
  "from_unix_milliseconds v = from_unix_seconds (fl (v / 1000))"

definition to_unix_seconds :: "utc \<Rightarrow> int" where
  "to_unix_seconds t = py_int (timestamp_of t)"

definition to_unix_milliseconds :: "utc \<Rightarrow> int" where
  "to_unix_milliseconds t = py_int (fl (timestamp_of t * 1000))"

definition start_of_hour :: "utc \<Rightarrow> utc" where
  "start_of_hour t = t - t mod us_per_hour"

definition start_of_minute :: "utc \<Rightarrow> utc" where
  "start_of_minute t = t - t mod us_per_minute"

lemma start_of_hour_le: "start_of_hour t \<le> t" "t < start_of_hour t + us_per_hour"
  by (simp_all add: start_of_hour_def algebra_simps)

lemma start_of_hour_dvd [simp]: "us_per_hour dvd start_of_hour t"
  by (simp add: start_of_hour_def minus_mod_eq_mult_div)

lemma start_of_hour_idem [simp]: "us_per_hour dvd t \<Longrightarrow> start_of_hour t = t"
  by (auto simp: start_of_hour_def)

lemma start_of_hour_mono: "s \<le> t \<Longrightarrow> start_of_hour s \<le> start_of_hour t"
  by (simp add: start_of_hour_def minus_mod_eq_mult_div zdiv_mono1)

lemma start_of_minute_le: "start_of_minute t \<le> t" "t < start_of_minute t + us_per_minute"
  by (simp_all add: start_of_minute_def algebra_simps)

lemma start_of_minute_dvd [simp]: "us_per_minute dvd start_of_minute t"
  by (simp add: start_of_minute_def minus_mod_eq_mult_div)

lemma start_of_minute_idem [simp]: "us_per_minute dvd t \<Longrightarrow> start_of_minute t = t"
  by (auto simp: start_of_minute_def)

text \<open>
  The window in which a double of seconds still resolves one microsecond: from the epoch to
  \<open>2^32\<close> seconds after it (the year 2106).
\<close>

definition float_safe :: "utc \<Rightarrow> bool" where
  "float_safe t \<longleftrightarrow> 0 \<le> t \<and> t < 2 ^ 32 * us_per_second"

lemma timestamp_of_error:
  assumes "float_safe t"
  shows "\<bar>timestamp_of t - of_int t / 1000000\<bar> < 1 / 2097152"
proof -
  have "\<bar>of_int t / 1000000 :: rat\<bar> = of_int t / 1000000"
    using assms by (simp add: float_safe_def)
  moreover have "(of_int t :: rat) < of_int (2 ^ 32 * us_per_second)"
    using assms by (simp only: of_int_less_iff float_safe_def)
  ultimately have "\<bar>of_int t / 1000000 :: rat\<bar> / 2 ^ 53 < 1 / 2097152"
    by simp
  then show ?thesis
    using fl_error [of "of_int t / 1000000"] unfolding timestamp_of_def by linarith
qed

lemma timestamp_of_whole:
  assumes "\<bar>s\<bar> < 2 ^ 53" shows "timestamp_of (s * us_per_second) = of_int s"
  using assms by (simp add: timestamp_of_def)

lemma timestamp_of_nonneg: "0 \<le> t \<Longrightarrow> 0 \<le> timestamp_of t"
  by (simp add: timestamp_of_def fl_nonneg)

text \<open>Reading a timestamp back: a double within half a microsecond of an instant is that
  instant.\<close>

lemma fromtimestamp_near:
  assumes "0 \<le> d" and near: "\<bar>d - of_int t / 1000000\<bar> \<le> 1 / 2097152"
    and range: "datetime_min \<le> t" "t \<le> datetime_max"
  shows "fromtimestamp d = Inr t"
proof -
  let ?i = "py_int d" and ?f = "d - of_int (py_int d)"
  have i: "?i = \<lfloor>d\<rfloor>" using \<open>0 \<le> d\<close> by (simp add: py_int_def)
  have f: "0 \<le> ?f" "?f < 1" unfolding i by linarith+
  let ?g = "?f * 1000000"
  have "\<bar>fl ?g - ?g\<bar> \<le> \<bar>?g\<bar> / 2 ^ 53" by (rule fl_error)
  also have "\<dots> \<le> 1000000 / 9007199254740992" using f by (simp add: divide_right_mono)
  finally have e1: "\<bar>fl ?g - ?g\<bar> \<le> 1000000 / 9007199254740992" .
  have g: "?g - of_int (t - ?i * 1000000) = (d - of_int t / 1000000) * 1000000"
    by (simp add: algebra_simps)
  have "\<bar>x * 1000000\<bar> \<le> 1000000 / 2097152" if "\<bar>x\<bar> \<le> 1 / 2097152" for x :: rat
    using that by (simp add: abs_mult)
  from this [OF near] have "\<bar>?g - of_int (t - ?i * 1000000)\<bar> \<le> 1000000 / 2097152"
    by (simp only: g)
  with e1 have "\<bar>fl ?g - of_int (t - ?i * 1000000)\<bar> < 1/2" by linarith
  then have "round_half_even (fl ?g) = t - ?i * 1000000"
    by (rule round_half_even_near)
  then show ?thesis
    using range by (simp add: fromtimestamp_def Let_def mk_datetime_def)
qed

lemma float_safe_range: "float_safe t \<Longrightarrow> datetime_min \<le> t \<and> t \<le> datetime_max"
  by (simp add: float_safe_def datetime_min_def datetime_max_def)

lemma from_unix_seconds_timestamp:
  assumes "float_safe t" shows "from_unix_seconds (timestamp_of t) = Inr t"
  unfolding from_unix_seconds_def
proof (rule fromtimestamp_near)
  show "0 \<le> timestamp_of t"
    using assms by (simp add: timestamp_of_nonneg float_safe_def)
qed (use timestamp_of_error [OF assms] float_safe_range [OF assms] in simp_all)

lemma from_unix_seconds_of_int:
  assumes "0 \<le> s" "s < 2 ^ 32" shows "from_unix_seconds (of_int s) = Inr (s * us_per_second)"
  unfolding from_unix_seconds_def
  by (rule fromtimestamp_near)
     (use assms in \<open>simp_all add: datetime_min_def datetime_max_def\<close>)

lemma from_unix_milliseconds_of_int:
  assumes "0 \<le> m" "m < 2 ^ 32 * 1000"
  shows "from_unix_milliseconds (of_int m) = Inr (m * 1000)"
proof -
  have eq: "(of_int m :: rat) / 1000 = of_int (m * 1000) / 1000000" by simp
  have "float_safe (m * 1000)" using assms by (simp add: float_safe_def)
  then show ?thesis
    using from_unix_seconds_timestamp [of "m * 1000"]
    by (simp only: from_unix_milliseconds_def eq timestamp_of_def)
qed

lemma to_unix_seconds_floor:
  assumes "float_safe t" shows "to_unix_seconds t = t div us_per_second"
proof -
  have n: "0 \<le> timestamp_of t" using assms by (simp add: timestamp_of_nonneg float_safe_def)
  let ?q = "t div us_per_second" and ?r = "t mod us_per_second"
  have t: "t = ?q * us_per_second + ?r" by simp
  have t': "(of_int t :: rat) = of_int ?q * 1000000 + of_int ?r"
    by (subst t) (simp only: of_int_add of_int_mult of_int_numeral)
  show ?thesis
  proof (cases "?r = 0")
    case True
    then have "t = ?q * us_per_second" using t by simp
    moreover have "\<bar>?q\<bar> < 2 ^ 53" using assms by (simp add: float_safe_def) linarith
    ultimately show ?thesis
      using timestamp_of_whole [of ?q] by (simp add: to_unix_seconds_def)
  next
    case False
    have "0 \<le> ?r" "?r < us_per_second" by simp_all
    with False have r: "1 \<le> ?r" "?r \<le> us_per_second - 1" by linarith+
    have "(of_int t :: rat) / 1000000 = of_int ?q + of_int ?r / 1000000"
      by (simp only: t') simp
    moreover have "(of_int 1 :: rat) \<le> of_int ?r" "(of_int ?r :: rat) \<le> of_int 999999"
      using r by (simp_all only: of_int_le_iff)
    ultimately have "of_int ?q \<le> timestamp_of t" "timestamp_of t < of_int ?q + 1"
      using timestamp_of_error [OF assms] by linarith+
    then show ?thesis
      using n by (simp add: to_unix_seconds_def py_int_def floor_eq_iff)
  qed
qed

lemma to_unix_milliseconds_whole:
  assumes "\<bar>s\<bar> < 2 ^ 43" shows "to_unix_milliseconds (s * us_per_second) = s * 1000"
proof -
  have "timestamp_of (s * us_per_second) * 1000 = of_int (s * 1000)"
    using assms by (simp add: timestamp_of_whole)
  moreover have "fl (of_int (s * 1000)) = of_int (s * 1000)"
    using assms by (intro fl_of_int) simp
  ultimately show ?thesis
    by (simp only: to_unix_milliseconds_def py_int_of_int)
qed

end
