(* ===== verification/PyJson.thy ===== *)
theory PyJson
  imports PyFloat
begin

text \<open>
  JSON values as \<open>response.json()\<close> returns them, and the operations of Python that the
  adapters apply to them: subscripts, \<open>get\<close>, iteration, truth value, \<open>int\<close>, \<open>float\<close>,
  \<open>sum\<close>. Every operation that raises on the wrong type or a missing key does so here. An
  object has distinct keys, as the parser builds it. The strings \<open>nan\<close> and \<open>inf\<close>, which
  \<open>float\<close> would accept, are outside the model (doubles are finite here) and rejected.
\<close>

datatype json =
    JNull | JBool bool | JInt int | JFloat rat | JStr string
  | JArr "json list" | JObj "(string \<times> json) list"

fun truthy :: "json \<Rightarrow> bool" where
  "truthy JNull = False"
| "truthy (JBool b) = b"
| "truthy (JInt n) = (n \<noteq> 0)"
| "truthy (JFloat r) = (r \<noteq> 0)"
| "truthy (JStr s) = (s \<noteq> [])"
| "truthy (JArr xs) = (xs \<noteq> [])"
| "truthy (JObj d) = (d \<noteq> [])"

text \<open>\<open>v[k]\<close> with a string key, \<open>v[i]\<close> with a non-negative index, \<open>v.get(k)\<close>.\<close>

fun jkey :: "json \<Rightarrow> string \<Rightarrow> json res" where
  "jkey (JObj d) k = (case map_of d k of None \<Rightarrow> Inl KeyError | Some v \<Rightarrow> Inr v)"
| "jkey _ _ = Inl TypeError"

fun jidx :: "json \<Rightarrow> nat \<Rightarrow> json res" where
  "jidx (JArr xs) i = (if i < length xs then Inr (xs ! i) else Inl IndexError)"
| "jidx (JStr s) i = (if i < length s then Inr (JStr [s ! i]) else Inl IndexError)"
| "jidx (JObj _) _ = Inl KeyError"
| "jidx _ _ = Inl TypeError"

fun jget :: "json \<Rightarrow> string \<Rightarrow> json \<Rightarrow> json res" where
  "jget (JObj d) k dflt = Inr (case map_of d k of None \<Rightarrow> dflt | Some v \<Rightarrow> v)"
| "jget _ _ _ = Inl AttributeError"

text \<open>\<open>for x in v\<close>, and \<open>k in v\<close> for a string \<open>k\<close>.\<close>

fun jiter :: "json \<Rightarrow> json list res" where
  "jiter (JArr xs) = Inr xs"
| "jiter (JObj d) = Inr (map (\<lambda>p. JStr (fst p)) d)"
| "jiter (JStr s) = Inr (map (\<lambda>c. JStr [c]) s)"
| "jiter _ = Inl TypeError"

fun jitems :: "json \<Rightarrow> (string \<times> json) list res" where
  "jitems (JObj d) = Inr d"
| "jitems _ = Inl AttributeError"

fun jlen :: "json \<Rightarrow> nat res" where
  "jlen (JArr xs) = Inr (length xs)"
| "jlen (JObj d) = Inr (length d)"
| "jlen (JStr s) = Inr (length s)"
| "jlen _ = Inl TypeError"

text \<open>A value used where a string is needed (a dict key of type \<open>str\<close>, a symbol).\<close>

fun jstr :: "json \<Rightarrow> string res" where
  "jstr (JStr s) = Inr s"
| "jstr _ = Inl TypeError"

text \<open>\<open>v == w\<close>: numbers compare by value across \<open>bool\<close>, \<open>int\<close> and \<open>float\<close>.\<close>

fun jnum :: "json \<Rightarrow> rat option" where
  "jnum (JBool b) = Some (if b then 1 else 0)"
| "jnum (JInt n) = Some (of_int n)"
| "jnum (JFloat r) = Some r"
| "jnum _ = None"

definition jeq_str :: "json \<Rightarrow> string \<Rightarrow> bool" where
  "jeq_str v s \<longleftrightarrow> v = JStr s"

definition jeq_int :: "json \<Rightarrow> int \<Rightarrow> bool" where
  "jeq_int v n \<longleftrightarrow> jnum v = Some (of_int n)"

section \<open>Numbers from text\<close>

definition is_digit :: "char \<Rightarrow> bool" where
  "is_digit c \<longleftrightarrow> 48 \<le> (of_char c :: nat) \<and> of_char c \<le> (57 :: nat)"

definition digit_val :: "char \<Rightarrow> int" where
  "digit_val c = int (of_char c) - 48"

definition digits_val :: "string \<Rightarrow> int" where
  "digits_val s = foldl (\<lambda>n c. 10 * n + digit_val c) 0 s"

text \<open>A digit run of Python's number syntax: single underscores may separate digits.\<close>

definition digit_run :: "string \<Rightarrow> int option" where
  "digit_run s = (if list_all (\<lambda>w. w \<noteq> [] \<and> list_all is_digit w) (py_split (CHR ''_'') s)
     then Some (digits_val (filter is_digit s)) else None)"

definition split_sign :: "string \<Rightarrow> int \<times> string" where
  "split_sign s = (case s of [] \<Rightarrow> (1, [])
     | c # cs \<Rightarrow> if c = CHR ''-'' then (- 1, cs) else if c = CHR ''+'' then (1, cs) else (1, s))"

definition parse_int :: "string \<Rightarrow> int option" where
  "parse_int s = (case split_sign (py_strip s) of (sg, r) \<Rightarrow>
     map_option (\<lambda>n. sg * n) (digit_run r))"

definition ten_to :: "int \<Rightarrow> rat" where
  "ten_to e = (if 0 \<le> e then 10 ^ nat e else 1 / 10 ^ nat (- e))"

text \<open>The decimal value of \<open>digits[.digits]\<close>, with at least one digit on a side.\<close>

definition parse_mantissa :: "string \<Rightarrow> rat option" where
  "parse_mantissa s = (case py_split (CHR ''.'') s of
     [a] \<Rightarrow> map_option of_int (digit_run a)
   | [a, b] \<Rightarrow>
       (if a = [] \<and> b = [] then None
        else case (if a = [] then Some 0 else digit_run a, if b = [] then Some 0 else digit_run b) of
          (Some m, Some f) \<Rightarrow> Some (of_int m + of_int f * ten_to (- int (length (filter is_digit b))))
        | _ \<Rightarrow> None)
   | _ \<Rightarrow> None)"

definition lower_e :: "char \<Rightarrow> char" where
  "lower_e c = (if c = CHR ''E'' then CHR ''e'' else c)"

definition parse_decimal :: "string \<Rightarrow> rat option" where
  "parse_decimal s = (case split_sign (py_strip s) of (sg, r) \<Rightarrow>
     (case py_split (CHR ''e'') (map lower_e r) of
        [m] \<Rightarrow> map_option (\<lambda>x. of_int sg * x) (parse_mantissa m)
      | [m, e] \<Rightarrow> (case (parse_mantissa m, split_sign e) of
            (Some x, (es, ed)) \<Rightarrow>
              map_option (\<lambda>n. of_int sg * x * ten_to (es * n)) (digit_run ed)
          | _ \<Rightarrow> None)
      | _ \<Rightarrow> None))"

definition parse_float :: "string \<Rightarrow> rat option" where
  "parse_float s = map_option fl (parse_decimal s)"

fun jfloat :: "json \<Rightarrow> rat res" where
  "jfloat (JBool b) = Inr (if b then 1 else 0)"
| "jfloat (JInt n) = Inr (fl (of_int n))"
| "jfloat (JFloat r) = Inr r"
| "jfloat (JStr s) = (case parse_float s of None \<Rightarrow> Inl ValueError | Some r \<Rightarrow> Inr r)"
| "jfloat _ = Inl TypeError"

fun jint :: "json \<Rightarrow> int res" where
  "jint (JBool b) = Inr (if b then 1 else 0)"
| "jint (JInt n) = Inr n"
| "jint (JFloat r) = Inr (py_int r)"
| "jint (JStr s) = (case parse_int s of None \<Rightarrow> Inl ValueError | Some n \<Rightarrow> Inr n)"
| "jint _ = Inl TypeError"

text \<open>A value used as a number without conversion: \<open>v / 1000\<close>, \<open>v > 0\<close> (a string raises).\<close>

fun jnumber :: "json \<Rightarrow> rat res" where
  "jnumber (JBool b) = Inr (if b then 1 else 0)"
| "jnumber (JInt n) = Inr (of_int n)"
| "jnumber (JFloat r) = Inr r"
| "jnumber _ = Inl TypeError"

section \<open>Sums of floats\<close>

text \<open>
  \<open>sum\<close> on floats as CPython 3.12 and later compute it: the first element starts the sum,
  the others are added with Neumaier's compensation.
\<close>

definition neumaier :: "rat \<times> rat \<Rightarrow> rat \<Rightarrow> rat \<times> rat" where
  "neumaier s x = (case s of (hi, c) \<Rightarrow>
     (let t = fl (hi + x) in
      (t, if \<bar>x\<bar> \<le> \<bar>hi\<bar> then fl (c + fl (fl (hi - t) + x)) else fl (c + fl (fl (x - t) + hi)))))"

definition py_sum :: "rat list \<Rightarrow> rat" where
  "py_sum xs = (case xs of [] \<Rightarrow> 0
     | y # ys \<Rightarrow> (case foldl neumaier (y, 0) ys of (hi, c) \<Rightarrow> fl (hi + c)))"

lemma digit_val_range: "is_digit c \<Longrightarrow> 0 \<le> digit_val c \<and> digit_val c \<le> 9"
  by (simp add: is_digit_def digit_val_def)

lemma jfloat_error_cases:
  "jfloat v = Inl e \<Longrightarrow> e = ValueError \<or> e = TypeError"
  by (cases v) (auto split: option.splits)

lemma jkey_error_cases: "jkey v k = Inl e \<Longrightarrow> e = KeyError \<or> e = TypeError"
  by (cases v) (auto split: option.splits)

end
