(* ===== verification/Store.thy ===== *)
theory Store
  imports PyTime PyJson
begin

text \<open>
  The database the services share: the tables of \<open>models/\<close> as rows in insertion order, and
  the statements the query modules issue (\<open>tracker/queries/\<close>, the row queries of
  \<open>ingestion/live/queries.py\<close>). A transaction (\<open>async with db.begin()\<close>) is a function
  from a database to a result: \<open>Inl\<close> is a rollback, so the caller keeps the database it had.
  Unique constraints, foreign keys and the check constraint of \<open>contract_history_state\<close>
  are enforced by the statements, as PostgreSQL does. UUIDs are natural numbers.
\<close>

section \<open>Tables\<close>

record section_row =
  s_name :: string
  s_special :: json

record asset_row =
  a_name :: string
  a_rank :: "int option"

record contract_row =
  c_id :: nat
  c_asset :: string
  c_section :: string
  c_interval :: int
  c_quote :: string
  c_special :: json
  c_deprecated :: bool

record history_state =
  hs_contract :: nat
  hs_synced :: bool
  hs_oldest :: "utc option"
  hs_newest :: "utc option"
  hs_updated_at :: utc

record point =
  p_time :: utc
  p_contract :: nat
  p_rate :: rat

record db =
  sections :: "section_row list"
  assets :: "asset_row list"
  quotes :: "string list"
  contracts :: "contract_row list"
  history_states :: "history_state list"
  historical_points :: "point list"
  live_points :: "point list"

type_synonym 'a tx = "db \<Rightarrow> ('a \<times> db) res"

text \<open>The primary key of both point tables, and the unique constraint of \<open>contract\<close>.\<close>

definition p_key :: "point \<Rightarrow> nat \<times> utc" where
  "p_key p = (p_contract p, p_time p)"

definition c_key :: "contract_row \<Rightarrow> string \<times> string \<times> string" where
  "c_key c = (c_asset c, c_section c, c_quote c)"

text \<open>The check constraint of \<open>contract_history_state\<close>.\<close>

definition synced_has_bounds :: "history_state \<Rightarrow> bool" where
  "synced_has_bounds s \<longleftrightarrow> hs_synced s \<longrightarrow> hs_oldest s \<noteq> None \<and> hs_newest s \<noteq> None"

section \<open>Statements\<close>

text \<open>\<open>INSERT ... ON CONFLICT DO NOTHING\<close>: the rows whose key is free, in order, also among
  themselves; the count is what \<open>RETURNING\<close> yields.\<close>

fun insert_ignore :: "('a \<Rightarrow> 'k) \<Rightarrow> 'a list \<Rightarrow> 'a list \<Rightarrow> 'a list \<times> nat" where
  "insert_ignore key tbl [] = (tbl, 0)"
| "insert_ignore key tbl (r # rs) =
     (if key r \<in> key ` set tbl then insert_ignore key tbl rs
      else case insert_ignore key (tbl @ [r]) rs of (t, n) \<Rightarrow> (t, Suc n))"

text \<open>A plain \<open>INSERT\<close>: any clash with a unique constraint fails the statement.\<close>

fun insert_strict :: "('a \<Rightarrow> 'a \<Rightarrow> bool) \<Rightarrow> 'a list \<Rightarrow> 'a list \<Rightarrow> 'a list res" where
  "insert_strict clash tbl [] = Inr tbl"
| "insert_strict clash tbl (r # rs) =
     (if \<exists>x\<in>set tbl. clash x r then Inl IntegrityError else insert_strict clash (tbl @ [r]) rs)"

text \<open>\<open>UPDATE ... WHERE\<close> and its row count.\<close>

definition update_where :: "('a \<Rightarrow> bool) \<Rightarrow> ('a \<Rightarrow> 'a) \<Rightarrow> 'a list \<Rightarrow> 'a list \<times> nat" where
  "update_where P f tbl = (map (\<lambda>r. if P r then f r else r) tbl, length (filter P tbl))"

text \<open>\<open>values[i : i + chunk_size]\<close> for \<open>i in range(0, len(values), chunk_size)\<close>.\<close>

function chunks :: "nat \<Rightarrow> 'a list \<Rightarrow> 'a list list" where
  "chunks n xs = (if xs = [] \<or> n = 0 then [] else take n xs # chunks n (drop n xs))"
  by auto
termination by (relation "measure (length \<circ> snd)") auto

declare chunks.simps [simp del]

text \<open>\<open>bulk_insert\<close>; the statement function stands for the table and the mode. The two modes the
  program uses, \<open>on_conflict="ignore"\<close> and none, follow; the third is in the theory \<open>BulkUpsert\<close>. A
  \<open>chunk_size\<close> of 0 makes \<open>range\<close> raise.\<close>

definition bulk_insert :: "nat \<Rightarrow> ('t \<Rightarrow> 'a list \<Rightarrow> 't res) \<Rightarrow> 'a list \<Rightarrow> 't \<Rightarrow> 't res" where
  "bulk_insert chunk_size stmt records tbl =
     (if records = [] then Inr tbl
      else if chunk_size = 0 then Inl ValueError
      else rfold stmt tbl (chunks chunk_size records))"

definition ignore_stmt :: "('a \<Rightarrow> 'k) \<Rightarrow> 'a list \<Rightarrow> 'a list \<Rightarrow> 'a list res" where
  "ignore_stmt key tbl rows = Inr (fst (insert_ignore key tbl rows))"

definition strict_stmt :: "('a \<Rightarrow> 'a \<Rightarrow> bool) \<Rightarrow> ('a \<Rightarrow> bool) \<Rightarrow> 'a list \<Rightarrow> 'a list \<Rightarrow> 'a list res" where
  "strict_stmt clash fk tbl rows =
     (if list_all fk rows then insert_strict clash tbl rows else Inl IntegrityError)"

section \<open>Queries\<close>

definition get_active_by_section :: "db \<Rightarrow> string \<Rightarrow> contract_row list" where
  "get_active_by_section d sec = filter (\<lambda>c. c_section c = sec \<and> \<not> c_deprecated c) (contracts d)"

definition get_by_section :: "db \<Rightarrow> string \<Rightarrow> contract_row list" where
  "get_by_section d sec = filter (\<lambda>c. c_section c = sec) (contracts d)"

text \<open>The inner join of contracts with their state rows.\<close>

definition contract_state_join :: "db \<Rightarrow> (contract_row \<times> history_state) list" where
  "contract_state_join d =
     [(c, s). c \<leftarrow> contracts d, s \<leftarrow> history_states d, c_id c = hs_contract s]"

definition get_contracts_with_history_state_by_section ::
  "db \<Rightarrow> string \<Rightarrow> (contract_row \<times> history_state) list" where
  "get_contracts_with_history_state_by_section d sec =
     filter (\<lambda>(c, s). c_section c = sec \<and> \<not> c_deprecated c) (contract_state_join d)"

definition get_contracts_pending_history_backfill_by_section ::
  "db \<Rightarrow> string \<Rightarrow> (contract_row \<times> history_state) list" where
  "get_contracts_pending_history_backfill_by_section d sec =
     filter (\<lambda>(c, s). c_section c = sec \<and> \<not> c_deprecated c \<and> \<not> hs_synced s)
       (contract_state_join d)"

definition points_of :: "db \<Rightarrow> nat \<Rightarrow> point list" where
  "points_of d cid = filter (\<lambda>p. p_contract p = cid) (historical_points d)"

definition get_oldest_for_contract :: "db \<Rightarrow> nat \<Rightarrow> point option" where
  "get_oldest_for_contract d cid =
     (case sort_key p_time (points_of d cid) of [] \<Rightarrow> None | p # ps \<Rightarrow> Some p)"

definition get_newest_for_contract :: "db \<Rightarrow> nat \<Rightarrow> point option" where
  "get_newest_for_contract d cid =
     (case rev (sort_key p_time (points_of d cid)) of [] \<Rightarrow> None | p # ps \<Rightarrow> Some p)"

section \<open>Writing points\<close>

definition fk_contract :: "db \<Rightarrow> point \<Rightarrow> bool" where
  "fk_contract d p \<longleftrightarrow> p_contract p \<in> c_id ` set (contracts d)"

definition insert_historical_funding_points :: "point list \<Rightarrow> nat tx" where
  "insert_historical_funding_points records d =
     (if records = [] then Inr (0, d)
      else if \<not> list_all (fk_contract d) records then Inl IntegrityError
      else case insert_ignore p_key (historical_points d) records of
        (t, n) \<Rightarrow> Inr (n, d\<lparr>historical_points := t\<rparr>))"

definition insert_live_funding_points :: "point list \<Rightarrow> nat tx" where
  "insert_live_funding_points records d =
     (if records = [] then Inr (0, d)
      else if \<not> list_all (fk_contract d) records then Inl IntegrityError
      else case insert_ignore p_key (live_points d) records of
        (t, n) \<Rightarrow> Inr (n, d\<lparr>live_points := t\<rparr>))"

text \<open>The ingestion service has its own copy in \<open>ingestion/live/queries.py\<close>.\<close>

definition ingestion_insert_live_funding_points :: "point list \<Rightarrow> nat tx" where
  "ingestion_insert_live_funding_points records d =
     (if records = [] then Inr (0, d)
      else if \<not> list_all (fk_contract d) records then Inl IntegrityError
      else case insert_ignore p_key (live_points d) records of
        (t, n) \<Rightarrow> Inr (n, d\<lparr>live_points := t\<rparr>))"

section \<open>History state\<close>

definition create_missing_for_section :: "utc \<Rightarrow> string \<Rightarrow> unit tx" where
  "create_missing_for_section now sec d =
     (let rows = map (\<lambda>c. \<lparr>hs_contract = c_id c, hs_synced = False, hs_oldest = None,
                          hs_newest = None, hs_updated_at = now\<rparr>) (get_by_section d sec)
      in Inr ((), d\<lparr>history_states := fst (insert_ignore hs_contract (history_states d) rows)\<rparr>))"

text \<open>\<open>_execute_state_update\<close>: the row must exist, and the new row must satisfy the check.\<close>

definition execute_state_update :: "nat \<Rightarrow> (history_state \<Rightarrow> history_state) \<Rightarrow> unit tx" where
  "execute_state_update cid f d =
     (case update_where (\<lambda>s. hs_contract s = cid) f (history_states d) of (rows, n) \<Rightarrow>
        if \<not> list_all synced_has_bounds (map f (filter (\<lambda>s. hs_contract s = cid) (history_states d)))
        then Inl IntegrityError
        else if n \<noteq> 1 then Inl RuntimeError
        else Inr ((), d\<lparr>history_states := rows\<rparr>))"

text \<open>\<open>CASE WHEN col IS NULL THEN v ELSE LEAST(col, v)\<close>, and with \<open>GREATEST\<close>.\<close>

definition least_case :: "utc option \<Rightarrow> utc \<Rightarrow> utc option" where
  "least_case c v = (case c of None \<Rightarrow> Some v | Some w \<Rightarrow> Some (min w v))"

definition greatest_case :: "utc option \<Rightarrow> utc \<Rightarrow> utc option" where
  "greatest_case c v = (case c of None \<Rightarrow> Some v | Some w \<Rightarrow> Some (max w v))"

definition update_bounds :: "utc \<Rightarrow> nat \<Rightarrow> utc option \<Rightarrow> utc option \<Rightarrow> unit tx" where
  "update_bounds now cid oldest newest d =
     (if oldest = None \<and> newest = None then Inr ((), d)
      else execute_state_update cid
        (\<lambda>s. s\<lparr>hs_oldest := (case oldest of None \<Rightarrow> hs_oldest s | Some v \<Rightarrow> least_case (hs_oldest s) v),
               hs_newest := (case newest of None \<Rightarrow> hs_newest s | Some v \<Rightarrow> greatest_case (hs_newest s) v),
               hs_updated_at := now\<rparr>) d)"

definition mark_history_synced :: "utc \<Rightarrow> nat \<Rightarrow> unit tx" where
  "mark_history_synced now cid d =
     execute_state_update cid (\<lambda>s. s\<lparr>hs_synced := True, hs_updated_at := now\<rparr>) d"

section \<open>Persisting a batch of settled points\<close>

record funding_point =
  rate :: rat
  timestamp :: utc

record persisted_batch =
  b_oldest :: utc
  b_newest :: utc
  b_written :: nat

definition min_time :: "funding_point list \<Rightarrow> utc" where
  "min_time ps = fold min (map timestamp (tl ps)) (timestamp (hd ps))"

definition max_time :: "funding_point list \<Rightarrow> utc" where
  "max_time ps = fold max (map timestamp (tl ps)) (timestamp (hd ps))"

definition record_of :: "nat \<Rightarrow> funding_point \<Rightarrow> point" where
  "record_of cid p = \<lparr>p_time = timestamp p, p_contract = cid, p_rate = rate p\<rparr>"

definition persist_historical_funding_batch ::
  "utc \<Rightarrow> nat \<Rightarrow> funding_point list \<Rightarrow> persisted_batch tx" where
  "persist_historical_funding_batch now cid points d =
     (if points = [] then Inl ValueError
      else rbind (insert_historical_funding_points (map (record_of cid) points) d) (\<lambda>(n, d1).
           rbind (update_bounds now cid (Some (min_time points)) (Some (max_time points)) d1) (\<lambda>(_, d2).
             Inr (\<lparr>b_oldest = min_time points, b_newest = max_time points, b_written = n\<rparr>, d2))))"

section \<open>Lemmas: statements\<close>

lemma insert_ignore_spec:
  "insert_ignore key tbl rs = (t, n) \<Longrightarrow>
   \<exists>new. t = tbl @ new \<and> n = length new \<and> set new \<subseteq> set rs \<and>
     key ` set t = key ` set tbl \<union> key ` set rs \<and>
     (distinct (map key tbl) \<longrightarrow> distinct (map key t))"
proof (induction rs arbitrary: tbl t n)
  case (Cons r rs)
  show ?case
  proof (cases "key r \<in> key ` set tbl")
    case True
    with Cons.prems have "insert_ignore key tbl rs = (t, n)" by simp
    from Cons.IH [OF this] True show ?thesis by (auto simp: insert_absorb)
  next
    case False
    with Cons.prems obtain m where "insert_ignore key (tbl @ [r]) rs = (t, m)" "n = Suc m"
      by (auto split: prod.splits)
    from Cons.IH [OF this(1)] this(2) False show ?thesis by fastforce
  qed
qed simp

lemma insert_ignore_known:
  "key ` set rs \<subseteq> key ` set tbl \<Longrightarrow> insert_ignore key tbl rs = (tbl, 0)"
  by (induction rs) auto

lemma insert_ignore_append:
  "insert_ignore key tbl (xs @ ys) =
     (case insert_ignore key tbl xs of (t, n) \<Rightarrow>
        case insert_ignore key t ys of (u, m) \<Rightarrow> (u, n + m))"
  by (induction xs arbitrary: tbl) (auto split: prod.splits)

lemma insert_ignore_keys: "key ` set (fst (insert_ignore key tbl rs)) = key ` set tbl \<union> key ` set rs"
  using insert_ignore_spec [of key tbl rs] by (metis prod.collapse)

lemma insert_ignore_distinct:
  "distinct (map key tbl) \<Longrightarrow> distinct (map key (fst (insert_ignore key tbl rs)))"
  using insert_ignore_spec [of key tbl rs] by (metis prod.collapse)

lemma insert_strict_ok:
  "insert_strict clash tbl rs = Inr t \<Longrightarrow> t = tbl @ rs"
proof (induction rs arbitrary: tbl)
  case (Cons r rs)
  from Cons.IH [of "tbl @ [r]"] Cons.prems show ?case by (auto split: if_splits)
qed simp

lemma insert_strict_append:
  "insert_strict clash tbl (xs @ ys) = rbind (insert_strict clash tbl xs) (\<lambda>t. insert_strict clash t ys)"
  by (induction xs arbitrary: tbl) auto

text \<open>A clash-free insert succeeds, and one that succeeds was clash-free.\<close>

fun pairwise_free :: "('a \<Rightarrow> 'a \<Rightarrow> bool) \<Rightarrow> 'a list \<Rightarrow> bool" where
  "pairwise_free clash [] = True"
| "pairwise_free clash (x # xs) \<longleftrightarrow> (\<forall>y\<in>set xs. \<not> clash x y) \<and> pairwise_free clash xs"

lemma pairwise_free_append:
  "pairwise_free clash (xs @ ys) \<longleftrightarrow> pairwise_free clash xs \<and> pairwise_free clash ys \<and>
     (\<forall>x\<in>set xs. \<forall>y\<in>set ys. \<not> clash x y)"
  by (induction xs) auto

lemma insert_strict_iff:
  "pairwise_free clash tbl \<Longrightarrow>
   insert_strict clash tbl rs = (if pairwise_free clash (tbl @ rs) then Inr (tbl @ rs) else Inl IntegrityError)"
proof (induction rs arbitrary: tbl)
  case (Cons r rs)
  show ?case
  proof (cases "\<exists>x\<in>set tbl. clash x r")
    case False
    then have "pairwise_free clash (tbl @ [r])"
      using Cons.prems by (auto simp: pairwise_free_append)
    from Cons.IH [OF this] False show ?thesis by simp
  qed (auto simp: pairwise_free_append)
qed simp

text \<open>Chunking does not change what a bulk insert does.\<close>

lemma concat_chunks: "0 < n \<Longrightarrow> concat (chunks n xs) = xs"
proof (induction n xs rule: chunks.induct)
  case (1 n xs)
  then show ?case
    by (cases "xs = []") (subst chunks.simps; simp)+
qed

lemma bulk_insert_chunk_free:
  assumes nil: "\<And>t. stmt t [] = Inr t"
    and app: "\<And>t xs ys. stmt t (xs @ ys) = rbind (stmt t xs) (\<lambda>u. stmt u ys)"
    and "0 < n"
  shows "bulk_insert n stmt records tbl = stmt tbl records"
proof -
  have "rfold stmt t xss = stmt t (concat xss)" for t xss
    by (induction xss arbitrary: t) (simp_all add: nil app)
  then show ?thesis
    using assms(3) by (simp add: bulk_insert_def nil concat_chunks)
qed

lemma bulk_insert_ignore:
  "0 < n \<Longrightarrow> bulk_insert n (ignore_stmt key) records tbl = Inr (fst (insert_ignore key tbl records))"
  by (subst bulk_insert_chunk_free)
     (auto simp: ignore_stmt_def insert_ignore_append split: prod.splits)

lemma insert_strict_error: "insert_strict clash tbl rs = Inl e \<Longrightarrow> e = IntegrityError"
  by (induction rs arbitrary: tbl) (auto split: if_splits)

lemma bulk_insert_strict:
  "0 < n \<Longrightarrow> bulk_insert n (strict_stmt clash fk) records tbl = strict_stmt clash fk tbl records"
proof (rule bulk_insert_chunk_free)
  fix t xs ys
  show "strict_stmt clash fk t (xs @ ys) = rbind (strict_stmt clash fk t xs) (\<lambda>u. strict_stmt clash fk u ys)"
    by (cases "insert_strict clash t xs")
       (auto simp: strict_stmt_def insert_strict_append dest: insert_strict_error)
qed (simp_all add: strict_stmt_def)

lemma update_where_keys:
  "(\<And>r. key (f r) = key r) \<Longrightarrow> map key (fst (update_where P f tbl)) = map key tbl"
  by (simp add: update_where_def comp_def)

section \<open>The database invariant\<close>

text \<open>
  What the schema enforces (\<open>db_ok\<close>: unique keys, foreign keys, the check constraint) and what
  only the program keeps (\<open>bounds_tight\<close>: the stored bounds of a contract are exactly the
  oldest and newest of its stored points, and every contract with points has a state row).
\<close>

definition contract_fk :: "db \<Rightarrow> contract_row \<Rightarrow> bool" where
  "contract_fk d c \<longleftrightarrow> c_asset c \<in> a_name ` set (assets d) \<and> c_section c \<in> s_name ` set (sections d)"

definition db_ok :: "db \<Rightarrow> bool" where
  "db_ok d \<longleftrightarrow>
     distinct (map s_name (sections d)) \<and> distinct (map a_name (assets d)) \<and> distinct (quotes d) \<and>
     distinct (map c_id (contracts d)) \<and> distinct (map c_key (contracts d)) \<and>
     list_all (contract_fk d) (contracts d) \<and>
     distinct (map hs_contract (history_states d)) \<and>
     hs_contract ` set (history_states d) \<subseteq> c_id ` set (contracts d) \<and>
     list_all synced_has_bounds (history_states d) \<and>
     distinct (map p_key (historical_points d)) \<and> list_all (fk_contract d) (historical_points d) \<and>
     distinct (map p_key (live_points d)) \<and> list_all (fk_contract d) (live_points d)"

definition times_of :: "db \<Rightarrow> nat \<Rightarrow> utc list" where
  "times_of d cid = map p_time (points_of d cid)"

definition least_of :: "utc list \<Rightarrow> utc option" where
  "least_of ts = (if ts = [] then None else Some (Min (set ts)))"

definition greatest_of :: "utc list \<Rightarrow> utc option" where
  "greatest_of ts = (if ts = [] then None else Some (Max (set ts)))"

definition state_tight :: "db \<Rightarrow> history_state \<Rightarrow> bool" where
  "state_tight d s \<longleftrightarrow> hs_oldest s = least_of (times_of d (hs_contract s)) \<and>
     hs_newest s = greatest_of (times_of d (hs_contract s))"

definition bounds_tight :: "db \<Rightarrow> bool" where
  "bounds_tight d \<longleftrightarrow> list_all (state_tight d) (history_states d) \<and>
     p_contract ` set (historical_points d) \<subseteq> hs_contract ` set (history_states d)"

lemma min_time_eq: "ps \<noteq> [] \<Longrightarrow> min_time ps = Min (timestamp ` set ps)"
  unfolding min_time_def by (cases ps) (simp_all flip: Min.set_eq_fold)

lemma max_time_eq: "ps \<noteq> [] \<Longrightarrow> max_time ps = Max (timestamp ` set ps)"
  unfolding max_time_def by (cases ps) (simp_all flip: Max.set_eq_fold)

lemma min_time_in: "ps \<noteq> [] \<Longrightarrow> min_time ps \<in> timestamp ` set ps"
  by (simp add: min_time_eq)

lemma least_of_merge:
  assumes "set us = set ts \<union> B" "B \<noteq> {}" "finite B"
  shows "least_of us = least_case (least_of ts) (Min B)"
proof (cases "ts = []")
  case False
  then have "Min (set us) = min (Min (set ts)) (Min B)" using assms by (simp add: Min_Un)
  moreover have "us \<noteq> []" using assms False by auto
  ultimately show ?thesis using False by (simp add: least_of_def least_case_def)
next
  case True
  then have "us \<noteq> []" "set us = B" using assms by auto
  then show ?thesis using True by (simp add: least_of_def least_case_def)
qed

lemma greatest_of_merge:
  assumes "set us = set ts \<union> B" "B \<noteq> {}" "finite B"
  shows "greatest_of us = greatest_case (greatest_of ts) (Max B)"
proof (cases "ts = []")
  case False
  then have "Max (set us) = max (Max (set ts)) (Max B)" using assms by (simp add: Max_Un)
  moreover have "us \<noteq> []" using assms False by auto
  ultimately show ?thesis using False by (simp add: greatest_of_def greatest_case_def)
next
  case True
  then have "us \<noteq> []" "set us = B" using assms by auto
  then show ?thesis using True by (simp add: greatest_of_def greatest_case_def)
qed

lemma least_of_cong: "set ts = set us \<Longrightarrow> least_of ts = least_of us"
  unfolding least_of_def by (metis set_empty)

lemma greatest_of_cong: "set ts = set us \<Longrightarrow> greatest_of ts = greatest_of us"
  unfolding greatest_of_def by (metis set_empty)

lemma set_times_of: "set (times_of d cid) = {t. (cid, t) \<in> p_key ` set (historical_points d)}"
  by (force simp: times_of_def points_of_def p_key_def image_iff)

text \<open>What an insert of historical points does.\<close>

lemma insert_historical_ok:
  assumes "insert_historical_funding_points xs d = Inr (n, d')"
  shows "\<exists>new. d' = d\<lparr>historical_points := historical_points d @ new\<rparr> \<and> n = length new \<and>
    set new \<subseteq> set xs \<and> list_all (fk_contract d) xs \<and>
    p_key ` set (historical_points d') = p_key ` set (historical_points d) \<union> p_key ` set xs \<and>
    (distinct (map p_key (historical_points d)) \<longrightarrow> distinct (map p_key (historical_points d')))"
proof (cases "xs = []")
  case False
  obtain t m where i: "insert_ignore p_key (historical_points d) xs = (t, m)" by force
  with False assms have "list_all (fk_contract d) xs" "n = m" "d' = d\<lparr>historical_points := t\<rparr>"
    by (auto simp: insert_historical_funding_points_def split: if_splits)
  with insert_ignore_spec [OF i] show ?thesis by auto
qed (use assms in \<open>simp add: insert_historical_funding_points_def\<close>)

lemma fk_contract_cong: "contracts d = contracts e \<Longrightarrow> fk_contract d = fk_contract e"
  by (simp add: fk_contract_def fun_eq_iff)

lemma contract_fk_cong:
  "assets d = assets e \<Longrightarrow> sections d = sections e \<Longrightarrow> contract_fk d = contract_fk e"
  by (simp add: contract_fk_def fun_eq_iff)

lemma execute_state_update_ok:
  assumes "execute_state_update cid f d = Inr (u, d')"
  shows "d' = d\<lparr>history_states := map (\<lambda>s. if hs_contract s = cid then f s else s) (history_states d)\<rparr>"
    "\<forall>s\<in>set (history_states d). hs_contract s = cid \<longrightarrow> synced_has_bounds (f s)"
    "cid \<in> hs_contract ` set (history_states d)"
proof -
  from assms have e: "d' = d\<lparr>history_states := map (\<lambda>s. if hs_contract s = cid then f s else s) (history_states d)\<rparr>"
    "\<forall>s\<in>set (history_states d). hs_contract s = cid \<longrightarrow> synced_has_bounds (f s)"
    "length (filter (\<lambda>s. hs_contract s = cid) (history_states d)) = 1"
    by (auto simp: execute_state_update_def update_where_def list_all_iff split: if_splits)
  then show "d' = d\<lparr>history_states := map (\<lambda>s. if hs_contract s = cid then f s else s) (history_states d)\<rparr>"
    "\<forall>s\<in>set (history_states d). hs_contract s = cid \<longrightarrow> synced_has_bounds (f s)"
    by blast+
  from e(3) have "filter (\<lambda>s. hs_contract s = cid) (history_states d) \<noteq> []" by auto
  then show "cid \<in> hs_contract ` set (history_states d)" by (auto simp: filter_empty_iff_all)
qed

lemma distinct_one_match:
  "distinct (map key xs) \<Longrightarrow> k \<in> key ` set xs \<Longrightarrow> length (filter (\<lambda>x. key x = k) xs) = 1"
proof (induction xs)
  case (Cons x xs)
  show ?case
  proof (cases "key x = k")
    case True
    then have "key y \<noteq> k" if "y \<in> set xs" for y
      using Cons.prems(1) that by (metis distinct.simps(2) image_eqI list.simps(9) set_map)
    then have "filter (\<lambda>x. key x = k) xs = []" by (simp add: filter_empty_iff_all)
    then show ?thesis using True by simp
  qed (use Cons in auto)
qed simp

section \<open>Persisting a batch keeps the invariant\<close>

lemma persist_ok:
  assumes "persist_historical_funding_batch now cid ps d = Inr (b, d')"
  obtains d1 where "ps \<noteq> []"
    "insert_historical_funding_points (map (record_of cid) ps) d = Inr (b_written b, d1)"
    "update_bounds now cid (Some (min_time ps)) (Some (max_time ps)) d1 = Inr ((), d')"
    "b_oldest b = min_time ps" "b_newest b = max_time ps"
  using assms
  by (auto simp: persist_historical_funding_batch_def res_simps split: if_splits)

lemma p_key_record_of: "p_key ` set (map (record_of cid) ps) = Pair cid ` timestamp ` set ps"
  by (auto simp: p_key_def record_of_def image_iff)

lemma persist_points:
  assumes "persist_historical_funding_batch now cid ps d = Inr (b, d')"
  shows "\<exists>new. historical_points d' = historical_points d @ new \<and> b_written b = length new \<and>
      set new \<subseteq> record_of cid ` set ps"
    "p_key ` set (historical_points d') =
      p_key ` set (historical_points d) \<union> Pair cid ` timestamp ` set ps"
    "contracts d' = contracts d" "live_points d' = live_points d"
    "sections d' = sections d" "assets d' = assets d" "quotes d' = quotes d"
    "cid \<in> c_id ` set (contracts d)" "cid \<in> hs_contract ` set (history_states d)"
    "distinct (map p_key (historical_points d)) \<Longrightarrow> distinct (map p_key (historical_points d'))"
proof -
  obtain d1 where ne: "ps \<noteq> []"
    and i: "insert_historical_funding_points (map (record_of cid) ps) d = Inr (b_written b, d1)"
    and u: "update_bounds now cid (Some (min_time ps)) (Some (max_time ps)) d1 = Inr ((), d')"
    using persist_ok [OF assms] by metis
  from insert_historical_ok [OF i] obtain new where
    d1: "d1 = d\<lparr>historical_points := historical_points d @ new\<rparr>" "b_written b = length new"
      "set new \<subseteq> set (map (record_of cid) ps)" "list_all (fk_contract d) (map (record_of cid) ps)"
      "p_key ` set (historical_points d1) =
       p_key ` set (historical_points d) \<union> p_key ` set (map (record_of cid) ps)"
      "distinct (map p_key (historical_points d)) \<longrightarrow> distinct (map p_key (historical_points d1))"
    by blast
  from u have x: "execute_state_update cid
      (\<lambda>s. s\<lparr>hs_oldest := least_case (hs_oldest s) (min_time ps),
             hs_newest := greatest_case (hs_newest s) (max_time ps), hs_updated_at := now\<rparr>) d1 = Inr ((), d')"
    by (simp add: update_bounds_def)
  note e = execute_state_update_ok [OF x]
  show "\<exists>new. historical_points d' = historical_points d @ new \<and> b_written b = length new \<and>
      set new \<subseteq> record_of cid ` set ps"
    using d1 e(1) by auto
  show "p_key ` set (historical_points d') =
      p_key ` set (historical_points d) \<union> Pair cid ` timestamp ` set ps"
    using d1(5) e(1) unfolding p_key_record_of by simp
  show "contracts d' = contracts d" "live_points d' = live_points d"
    "sections d' = sections d" "assets d' = assets d" "quotes d' = quotes d"
    using d1(1) e(1) by simp_all
  show "cid \<in> hs_contract ` set (history_states d)" using e(3) d1(1) by simp
  show "cid \<in> c_id ` set (contracts d)"
    using d1(4) ne by (cases ps) (auto simp: fk_contract_def record_of_def)
  show "distinct (map p_key (historical_points d'))" if "distinct (map p_key (historical_points d))"
    using that d1(6) e(1) by simp
qed

lemma persist_states:
  assumes "persist_historical_funding_batch now cid ps d = Inr (b, d')"
  shows "history_states d' = map (\<lambda>s. if hs_contract s = cid then
      s\<lparr>hs_oldest := least_case (hs_oldest s) (min_time ps),
        hs_newest := greatest_case (hs_newest s) (max_time ps), hs_updated_at := now\<rparr> else s)
    (history_states d)"
proof -
  obtain d1 where
    i: "insert_historical_funding_points (map (record_of cid) ps) d = Inr (b_written b, d1)"
    and u: "update_bounds now cid (Some (min_time ps)) (Some (max_time ps)) d1 = Inr ((), d')"
    using persist_ok [OF assms] by metis
  from u have x: "execute_state_update cid
      (\<lambda>s. s\<lparr>hs_oldest := least_case (hs_oldest s) (min_time ps),
             hs_newest := greatest_case (hs_newest s) (max_time ps), hs_updated_at := now\<rparr>) d1 = Inr ((), d')"
    by (simp add: update_bounds_def)
  show ?thesis using execute_state_update_ok(1) [OF x] insert_historical_ok [OF i] by auto
qed

lemma persist_state_keys:
  assumes "persist_historical_funding_batch now cid ps d = Inr (b, d')"
  shows "map hs_contract (history_states d') = map hs_contract (history_states d)"
  by (simp add: persist_states [OF assms])

text \<open>The stored times after a batch.\<close>

lemma persist_times:
  assumes "persist_historical_funding_batch now cid ps d = Inr (b, d')"
  shows "set (times_of d' k) = set (times_of d k) \<union> (if k = cid then timestamp ` set ps else {})"
  unfolding set_times_of persist_points(2) [OF assms] by auto

lemma persist_db_ok:
  assumes p: "persist_historical_funding_batch now cid ps d = Inr (b, d')" and ok: "db_ok d"
  shows "db_ok d'"
proof -
  note pp = persist_points [OF p] and ps = persist_states [OF p]
  from pp(1) obtain new where new: "historical_points d' = historical_points d @ new"
      "set new \<subseteq> record_of cid ` set ps" by blast
  note keys = persist_state_keys [OF p]
  have dist: "distinct (map p_key (historical_points d'))"
    using pp(10) ok by (simp add: db_ok_def)
  have fk: "list_all (fk_contract d') (historical_points d')"
    using ok pp(8) new by (auto simp: db_ok_def list_all_iff fk_contract_def pp(3) record_of_def)
  have chk: "list_all synced_has_bounds (history_states d')"
    using ok by (auto simp: ps db_ok_def list_all_iff synced_has_bounds_def least_case_def
        greatest_case_def split: option.splits)
  have "set (map hs_contract (history_states d')) = set (map hs_contract (history_states d))"
    by (simp only: keys)
  then have sub: "hs_contract ` set (history_states d') = hs_contract ` set (history_states d)"
    by simp
  show ?thesis
    using ok dist fk chk sub keys contract_fk_cong [of d' d] fk_contract_cong [of d' d] pp(3-7)
    by (simp add: db_ok_def)
qed

lemma persist_bounds_tight:
  assumes p: "persist_historical_funding_batch now cid ps d = Inr (b, d')" and t: "bounds_tight d"
  shows "bounds_tight d'"
proof -
  note pp = persist_points [OF p] and st = persist_states [OF p]
  obtain ne: "ps \<noteq> []" using persist_ok [OF p] by metis
  have "state_tight d' (if hs_contract s = cid then
      s\<lparr>hs_oldest := least_case (hs_oldest s) (min_time ps),
        hs_newest := greatest_case (hs_newest s) (max_time ps), hs_updated_at := now\<rparr> else s)"
    if s: "s \<in> set (history_states d)" for s
  proof -
    from t s have ts: "hs_oldest s = least_of (times_of d (hs_contract s))"
      "hs_newest s = greatest_of (times_of d (hs_contract s))"
      by (auto simp: bounds_tight_def list_all_iff state_tight_def)
    show ?thesis
    proof (cases "hs_contract s = cid")
      case True
      have u: "set (times_of d' cid) = set (times_of d cid) \<union> timestamp ` set ps"
        using persist_times [OF p, of cid] by simp
      from ne have f: "timestamp ` set ps \<noteq> {}" "finite (timestamp ` set ps)" by simp_all
      show ?thesis
        using True ts least_of_merge [OF u f] greatest_of_merge [OF u f] ne
        by (simp add: state_tight_def min_time_eq max_time_eq)
    next
      case False
      then have "set (times_of d' (hs_contract s)) = set (times_of d (hs_contract s))"
        using persist_times [OF p] by simp
      then show ?thesis
        using False ts least_of_cong greatest_of_cong by (metis state_tight_def)
    qed
  qed
  then have "list_all (state_tight d') (history_states d')"
    unfolding st list_all_map_iff by blast
  moreover have "hs_contract ` set (history_states d') = hs_contract ` set (history_states d)"
    using persist_state_keys [OF p] by (metis set_map)
  moreover have "p_contract ` set (historical_points d') \<subseteq> p_contract ` set (historical_points d) \<union> {cid}"
  proof -
    from pp(1) obtain new where n: "historical_points d' = historical_points d @ new"
      "set new \<subseteq> record_of cid ` set ps" by blast
    from n(2) have "p_contract ` set new \<subseteq> p_contract ` record_of cid ` set ps" by (rule image_mono)
    also have "\<dots> \<subseteq> {cid}" by (auto simp: record_of_def)
    finally show ?thesis by (simp only: n(1) set_append image_Un) blast
  qed
  ultimately show ?thesis
    using t pp(9) unfolding bounds_tight_def by blast
qed

section \<open>The other writers\<close>

lemma mark_synced_ok:
  assumes "mark_history_synced now cid d = Inr (u, d')"
  shows "d' = d\<lparr>history_states := map (\<lambda>s. if hs_contract s = cid
      then s\<lparr>hs_synced := True, hs_updated_at := now\<rparr> else s) (history_states d)\<rparr>"
    "\<forall>s\<in>set (history_states d). hs_contract s = cid \<longrightarrow> hs_oldest s \<noteq> None \<and> hs_newest s \<noteq> None"
    "cid \<in> hs_contract ` set (history_states d)"
proof -
  from assms have x: "execute_state_update cid (\<lambda>s. s\<lparr>hs_synced := True, hs_updated_at := now\<rparr>) d = Inr (u, d')"
    by (simp add: mark_history_synced_def)
  note e = execute_state_update_ok [OF this]
  show "d' = d\<lparr>history_states := map (\<lambda>s. if hs_contract s = cid
      then s\<lparr>hs_synced := True, hs_updated_at := now\<rparr> else s) (history_states d)\<rparr>" by (rule e(1))
  show "cid \<in> hs_contract ` set (history_states d)" by (rule e(3))
  show "\<forall>s\<in>set (history_states d). hs_contract s = cid \<longrightarrow> hs_oldest s \<noteq> None \<and> hs_newest s \<noteq> None"
    using e(2) by (auto simp: synced_has_bounds_def)
qed

lemma mark_synced_db_ok:
  assumes "mark_history_synced now cid d = Inr (u, d')" "db_ok d" shows "db_ok d'"
proof -
  note m = mark_synced_ok [OF assms(1)]
  have "map hs_contract (history_states d') = map hs_contract (history_states d)"
    by (simp add: m(1))
  then have k: "map hs_contract (history_states d') = map hs_contract (history_states d)"
    "hs_contract ` set (history_states d') = hs_contract ` set (history_states d)"
    by (metis set_map)+
  have c: "list_all synced_has_bounds (history_states d')"
    using m(2) assms(2) by (auto simp: m(1) db_ok_def list_all_iff synced_has_bounds_def)
  have o: "sections d' = sections d" "assets d' = assets d" "quotes d' = quotes d"
    "contracts d' = contracts d" "historical_points d' = historical_points d" "live_points d' = live_points d"
    by (simp_all add: m(1))
  show ?thesis
    using assms(2) k c o contract_fk_cong [of d' d] fk_contract_cong [of d' d]
    by (simp add: db_ok_def)
qed

lemma times_of_cong: "historical_points d = historical_points e \<Longrightarrow> times_of d = times_of e"
  by (simp add: fun_eq_iff times_of_def points_of_def)

lemma mark_synced_bounds_tight:
  assumes "mark_history_synced now cid d = Inr (u, d')" "bounds_tight d" shows "bounds_tight d'"
proof -
  note m = mark_synced_ok [OF assms(1)]
  have t: "times_of d' = times_of d" by (rule times_of_cong) (simp add: m(1))
  have st: "state_tight d' (if hs_contract s = cid
      then s\<lparr>hs_synced := True, hs_updated_at := now\<rparr> else s) = state_tight d s" for s
    by (simp add: state_tight_def t)
  have hs: "history_states d' = map (\<lambda>s. if hs_contract s = cid
      then s\<lparr>hs_synced := True, hs_updated_at := now\<rparr> else s) (history_states d)"
    by (simp add: m(1))
  have "list_all (state_tight d') (history_states d') = list_all (state_tight d) (history_states d)"
    unfolding hs list_all_map_iff st by (simp only: list_all_iff)
  moreover have "map hs_contract (history_states d') = map hs_contract (history_states d)"
    "historical_points d' = historical_points d"
    by (simp_all add: m(1))
  ultimately show ?thesis using assms(2) unfolding bounds_tight_def by (metis set_map)
qed

text \<open>The state rows a registry run creates.\<close>

definition fresh_state :: "utc \<Rightarrow> contract_row \<Rightarrow> history_state" where
  "fresh_state now c = \<lparr>hs_contract = c_id c, hs_synced = False, hs_oldest = None,
     hs_newest = None, hs_updated_at = now\<rparr>"

lemma create_missing_eq:
  "create_missing_for_section now sec d = Inr ((), d\<lparr>history_states :=
     fst (insert_ignore hs_contract (history_states d) (map (fresh_state now) (get_by_section d sec)))\<rparr>)"
  by (simp add: create_missing_for_section_def fresh_state_def Let_def cong: map_cong)

lemma create_missing_spec:
  assumes "create_missing_for_section now sec d = Inr (u, d')"
  obtains new where "d' = d\<lparr>history_states := history_states d @ new\<rparr>"
    "set new \<subseteq> fresh_state now ` set (get_by_section d sec)"
    "hs_contract ` set (history_states d') =
       hs_contract ` set (history_states d) \<union> c_id ` set (get_by_section d sec)"
    "distinct (map hs_contract (history_states d)) \<longrightarrow> distinct (map hs_contract (history_states d'))"
proof -
  let ?rows = "map (fresh_state now) (get_by_section d sec)"
  obtain t n where i: "insert_ignore hs_contract (history_states d) ?rows = (t, n)" by force
  have d': "d' = d\<lparr>history_states := t\<rparr>" using assms by (simp add: create_missing_eq i)
  have k: "hs_contract ` set ?rows = c_id ` set (get_by_section d sec)"
    by (force simp: fresh_state_def image_iff)
  from insert_ignore_spec [OF i] obtain new where "t = history_states d @ new" "set new \<subseteq> set ?rows"
    "hs_contract ` set t = hs_contract ` set (history_states d) \<union> hs_contract ` set ?rows"
    "distinct (map hs_contract (history_states d)) \<longrightarrow> distinct (map hs_contract t)" by blast
  with d' k that [of new] show thesis by simp
qed

lemma insert_live_ok:
  assumes "insert_live_funding_points xs d = Inr (n, d')"
  shows "\<exists>new. d' = d\<lparr>live_points := live_points d @ new\<rparr> \<and> n = length new \<and>
    set new \<subseteq> set xs \<and> list_all (fk_contract d) xs \<and>
    p_key ` set (live_points d') = p_key ` set (live_points d) \<union> p_key ` set xs \<and>
    (distinct (map p_key (live_points d)) \<longrightarrow> distinct (map p_key (live_points d')))"
proof (cases "xs = []")
  case False
  obtain t m where i: "insert_ignore p_key (live_points d) xs = (t, m)" by force
  with False assms have "list_all (fk_contract d) xs" "n = m" "d' = d\<lparr>live_points := t\<rparr>"
    by (auto simp: insert_live_funding_points_def split: if_splits)
  with insert_ignore_spec [OF i] show ?thesis by auto
qed (use assms in \<open>simp add: insert_live_funding_points_def\<close>)

lemma ingestion_insert_live_eq: "ingestion_insert_live_funding_points = insert_live_funding_points"
  by (simp add: fun_eq_iff ingestion_insert_live_funding_points_def insert_live_funding_points_def)

lemma insert_live_db_ok:
  assumes "insert_live_funding_points xs d = Inr (n, d')" "db_ok d" shows "db_ok d'"
proof -
  from insert_live_ok [OF assms(1)] obtain new where n: "d' = d\<lparr>live_points := live_points d @ new\<rparr>"
    "set new \<subseteq> set xs" "list_all (fk_contract d) xs"
    "distinct (map p_key (live_points d)) \<longrightarrow> distinct (map p_key (live_points d'))" by blast
  have o: "sections d' = sections d" "assets d' = assets d" "quotes d' = quotes d"
    "contracts d' = contracts d" "historical_points d' = historical_points d"
    "history_states d' = history_states d"
    by (simp_all add: n(1))
  have "list_all (fk_contract d) (live_points d')"
    using n(2,3) assms(2) by (auto simp: n(1) db_ok_def list_all_iff)
  then show ?thesis
    using assms(2) n(4) o contract_fk_cong [of d' d] fk_contract_cong [of d' d]
    by (simp add: db_ok_def)
qed

section \<open>The interface of an idempotent point table\<close>

text \<open>
  Three modules write funding points. The workflows rely on the same contract of each: rows
  already there are never touched, a batch is accepted as a whole or not at all, and a key is
  stored once.
\<close>

locale point_table =
  fixes ins :: "point list \<Rightarrow> 's \<Rightarrow> (nat \<times> 's) res"
    and pts :: "'s \<Rightarrow> point list"
    and accepts :: "'s \<Rightarrow> point \<Rightarrow> bool"
  assumes ins_grows: "ins xs s = Inr (n, s') \<Longrightarrow> \<exists>new. pts s' = pts s @ new \<and> n = length new \<and> set new \<subseteq> set xs"
    and ins_keys: "ins xs s = Inr (n, s') \<Longrightarrow> p_key ` set (pts s') = p_key ` set (pts s) \<union> p_key ` set xs"
    and ins_distinct: "ins xs s = Inr (n, s') \<Longrightarrow> distinct (map p_key (pts s)) \<Longrightarrow> distinct (map p_key (pts s'))"
    and ins_accepts: "ins xs s = Inr (n, s') \<Longrightarrow> list_all (accepts s) xs \<and> accepts s' = accepts s"
    and ins_known: "list_all (accepts s) xs \<Longrightarrow> p_key ` set xs \<subseteq> p_key ` set (pts s) \<Longrightarrow> ins xs s = Inr (0, s)"
begin

lemma ins_again: "ins xs s = Inr (n, s') \<Longrightarrow> ins xs s' = Inr (0, s')"
  using ins_accepts ins_keys by (intro ins_known) auto

text \<open>A sequence of committed batches, with the total of the row counts.\<close>

fun ins_all :: "point list list \<Rightarrow> 's \<Rightarrow> (nat \<times> 's) res" where
  "ins_all [] s = Inr (0, s)"
| "ins_all (b # bs) s = rbind (ins b s) (\<lambda>(n, s1). rbind (ins_all bs s1) (\<lambda>(m, s2). Inr (n + m, s2)))"

lemma ins_all_spec:
  "ins_all bs s = Inr (n, s') \<Longrightarrow>
   (\<exists>new. pts s' = pts s @ new \<and> n = length new) \<and>
   p_key ` set (pts s') = p_key ` set (pts s) \<union> p_key ` (\<Union>b\<in>set bs. set b) \<and>
   (distinct (map p_key (pts s)) \<longrightarrow> distinct (map p_key (pts s'))) \<and>
   list_all (list_all (accepts s')) bs \<and> accepts s' = accepts s"
proof (induction bs arbitrary: s n)
  case (Cons b bs)
  from Cons.prems obtain k s1 m where i: "ins b s = Inr (k, s1)" and r: "ins_all bs s1 = Inr (m, s')"
    and n: "n = k + m" by (auto simp: res_simps)
  from Cons.IH [OF r] obtain new where r2: "pts s' = pts s1 @ new" "m = length new"
    "p_key ` set (pts s') = p_key ` set (pts s1) \<union> p_key ` (\<Union>b\<in>set bs. set b)"
    "distinct (map p_key (pts s1)) \<longrightarrow> distinct (map p_key (pts s'))"
    "list_all (list_all (accepts s')) bs" "accepts s' = accepts s1" by blast
  from ins_grows [OF i] obtain new1 where "pts s1 = pts s @ new1" "k = length new1" by blast
  then have "\<exists>new. pts s' = pts s @ new \<and> n = length new" using r2(1,2) n by auto
  moreover have "p_key ` set (pts s') = p_key ` set (pts s) \<union> p_key ` (\<Union>b\<in>set (b # bs). set b)"
    using r2(3) ins_keys [OF i] by auto
  ultimately show ?case using r2(4-6) ins_distinct [OF i] ins_accepts [OF i] by simp
qed simp

text \<open>Delivering any of the batches again, in any order and number, changes nothing.\<close>

lemma replay:
  assumes "ins_all bs s = Inr (n, s')" "set cs \<subseteq> set bs"
  shows "ins_all cs s' = Inr (0, s')"
  using assms(2)
proof (induction cs)
  case (Cons c cs)
  note sp = ins_all_spec [OF assms(1)]
  have "list_all (accepts s') c" using sp Cons.prems by (auto simp: list_all_iff)
  moreover have "p_key ` set c \<subseteq> p_key ` set (pts s')" using sp Cons.prems by auto
  ultimately have "ins c s' = Inr (0, s')" by (rule ins_known)
  with Cons show ?case by simp
qed simp

text \<open>A point that is stored stays, with its rate; \<open>look\<close> is the row a reader finds.\<close>

definition look :: "'s \<Rightarrow> nat \<times> utc \<Rightarrow> rat option" where
  "look s k = map_of (map (\<lambda>p. (p_key p, p_rate p)) (pts s)) k"

lemma look_stable:
  assumes "ins_all bs s = Inr (n, s')" "look s k = Some r" shows "look s' k = Some r"
  using ins_all_spec [OF assms(1)] assms(2) by (auto simp: look_def map_add_Some_iff)

end

interpretation hist: point_table insert_historical_funding_points historical_points fk_contract
proof
  fix xs n d d'
  assume i: "insert_historical_funding_points xs d = Inr (n, d')"
  note ok = insert_historical_ok [OF i]
  show "\<exists>new. historical_points d' = historical_points d @ new \<and> n = length new \<and> set new \<subseteq> set xs"
    using ok by auto
  show "p_key ` set (historical_points d') = p_key ` set (historical_points d) \<union> p_key ` set xs"
    using ok by blast
  show "distinct (map p_key (historical_points d'))" if "distinct (map p_key (historical_points d))"
    using ok that by blast
  show "list_all (fk_contract d) xs \<and> fk_contract d' = fk_contract d"
    using ok by (auto simp: fk_contract_def fun_eq_iff)
qed (simp add: insert_historical_funding_points_def insert_ignore_known)

interpretation live: point_table insert_live_funding_points live_points fk_contract
proof
  fix xs n d d'
  assume i: "insert_live_funding_points xs d = Inr (n, d')"
  note ok = insert_live_ok [OF i]
  show "\<exists>new. live_points d' = live_points d @ new \<and> n = length new \<and> set new \<subseteq> set xs"
    using ok by auto
  show "p_key ` set (live_points d') = p_key ` set (live_points d) \<union> p_key ` set xs"
    using ok by blast
  show "distinct (map p_key (live_points d'))" if "distinct (map p_key (live_points d))"
    using ok that by blast
  show "list_all (fk_contract d) xs \<and> fk_contract d' = fk_contract d"
    using ok by (auto simp: fk_contract_def fun_eq_iff)
qed (simp add: insert_live_funding_points_def insert_ignore_known)

interpretation ingestion_live: point_table ingestion_insert_live_funding_points live_points fk_contract
  unfolding ingestion_insert_live_eq by (rule live.point_table_axioms)

end
