(* ===== verification/BulkUpsert.thy ===== *)
theory BulkUpsert
  imports Store
begin

text \<open>
  The mode \<open>on_conflict="update"\<close> of \<open>bulk_insert\<close> (\<open>tracker/queries/utils.py\<close>), which the
  package offers beside the two modes its jobs use: each chunk is one
  \<open>INSERT ... ON CONFLICT (conflict_target) DO UPDATE SET f = excluded.f\<close>. The lemmas give the
  table after a call whose records have pairwise different keys, say when a repeated key is an
  error, which depends on the chunks, and when the missing arguments are noticed.
\<close>

section \<open>The statement\<close>

text \<open>
  \<open>key\<close> reads the columns of the conflict target, \<open>upd x r\<close> is the stored row \<open>x\<close> with the update
  fields of the proposed row \<open>r\<close>, and \<open>clash\<close> says that two rows collide in another unique
  constraint. PostgreSQL refuses to change a row a second time in one statement; \<open>seen\<close>
  holds the keys the statement has written.
\<close>

fun upsert_rows :: "('a \<Rightarrow> 'a \<Rightarrow> bool) \<Rightarrow> ('a \<Rightarrow> 'k) \<Rightarrow> ('a \<Rightarrow> 'a \<Rightarrow> 'a) \<Rightarrow> 'k list \<Rightarrow> 'a list \<Rightarrow> 'a list \<Rightarrow>
  'a list res" where
  "upsert_rows clash key upd seen tbl [] = Inr tbl"
| "upsert_rows clash key upd seen tbl (r # rs) =
     (if key r \<in> set seen then Inl DBAPIError
      else case find (\<lambda>x. key x = key r) tbl of
        None \<Rightarrow>
          if list_ex (\<lambda>y. clash y r) tbl then Inl IntegrityError
          else upsert_rows clash key upd (key r # seen) (tbl @ [r]) rs
      | Some x \<Rightarrow>
          if list_ex (\<lambda>y. key y \<noteq> key r \<and> clash y (upd x r)) tbl then Inl IntegrityError
          else upsert_rows clash key upd (key r # seen)
            (map (\<lambda>y. if key y = key r then upd y r else y) tbl) rs)"

text \<open>One chunk: the check of the arguments stands in the loop, before the statement.\<close>

definition upsert_stmt :: "string list option \<Rightarrow> string list option \<Rightarrow> ('a \<Rightarrow> 'a \<Rightarrow> bool) \<Rightarrow> ('a \<Rightarrow> 'k) \<Rightarrow>
  ('a \<Rightarrow> 'a \<Rightarrow> 'a) \<Rightarrow> 'a list \<Rightarrow> 'a list \<Rightarrow> 'a list res" where
  "upsert_stmt conflict_target update_fields clash key upd tbl chunk =
     (if conflict_target \<in> {None, Some []} \<or> update_fields \<in> {None, Some []} then Inl ValueError
      else upsert_rows clash key upd [] tbl chunk)"

section \<open>The effect on the table\<close>

text \<open>One proposed row, where no other constraint is in the way.\<close>

definition upsert_row :: "('a \<Rightarrow> 'k) \<Rightarrow> ('a \<Rightarrow> 'a \<Rightarrow> 'a) \<Rightarrow> 'a list \<Rightarrow> 'a \<Rightarrow> 'a list" where
  "upsert_row key upd tbl r =
     (if key r \<in> key ` set tbl then map (\<lambda>y. if key y = key r then upd y r else y) tbl else tbl @ [r])"

lemma upsert_rows_free:
  "upsert_rows (\<lambda>_ _. False) key upd seen tbl rs =
     (if distinct (map key rs) \<and> set (map key rs) \<inter> set seen = {}
      then Inr (foldl (upsert_row key upd) tbl rs) else Inl DBAPIError)"
proof (induction rs arbitrary: seen tbl)
  case (Cons r rs)
  have "upsert_rows (\<lambda>_ _. False) key upd seen tbl (r # rs) =
    (if key r \<in> set seen then Inl DBAPIError
     else upsert_rows (\<lambda>_ _. False) key upd (key r # seen) (upsert_row key upd tbl r) rs)"
  proof (cases "find (\<lambda>x. key x = key r) tbl")
    case None
    then have "key r \<notin> key ` set tbl" by (auto simp: find_None_iff image_iff)
    then show ?thesis using None by (simp add: upsert_row_def list_ex_iff)
  next
    case (Some x)
    then have "key r \<in> key ` set tbl" by (auto simp: find_Some_iff image_iff) (metis nth_mem)
    then show ?thesis using Some by (simp add: upsert_row_def list_ex_iff)
  qed
  then show ?case by (auto simp: Cons.IH)
qed simp

lemma upsert_chunks_free:
  "rfold (\<lambda>t c. upsert_rows (\<lambda>_ _. False) key upd [] t c) tbl cs =
     (if \<forall>c\<in>set cs. distinct (map key c) then Inr (foldl (upsert_row key upd) tbl (concat cs)) else Inl DBAPIError)"
  by (induction cs arbitrary: tbl) (auto simp: upsert_rows_free)

lemma distinct_map_concatD: "distinct (map f (concat xss)) \<Longrightarrow> xs \<in> set xss \<Longrightarrow> distinct (map f xs)"
  by (induction xss) auto

lemma distinct_tl_keys: "distinct (map f (x # xs)) \<Longrightarrow> distinct (map f xs)"
  by simp

lemma foldl_upsert_row:
  assumes "distinct (map key rs)" and "\<And>x r. key x = key r \<Longrightarrow> key (upd x r) = key x"
  shows "foldl (upsert_row key upd) tbl rs =
    map (\<lambda>x. case find (\<lambda>r. key r = key x) rs of Some r \<Rightarrow> upd x r | None \<Rightarrow> x) tbl @
    filter (\<lambda>r. key r \<notin> key ` set tbl) rs"
  using assms(1)
proof (induction rs arbitrary: tbl)
  case (Cons r rs)
  have other: "find (\<lambda>q. key q = key r) rs = None"
    using Cons.prems by (auto simp: find_None_iff image_iff)
  have keys: "key ` set (upsert_row key upd tbl r) = insert (key r) (key ` set tbl)"
  proof -
    have "key (if key y = key r then upd y r else y) = key y" for y
      using assms(2) [of y r] by simp
    then have "key ` (\<lambda>y. if key y = key r then upd y r else y) ` set tbl = key ` set tbl"
      by (simp only: image_image)
    then show ?thesis by (simp add: upsert_row_def insert_absorb)
  qed
  have rest: "filter (\<lambda>q. key q \<notin> insert (key r) (key ` set tbl)) rs = filter (\<lambda>q. key q \<notin> key ` set tbl) rs"
  proof (rule filter_cong)
    fix x assume "x \<in> set rs"
    then have "key x \<noteq> key r" using Cons.prems by (auto simp: image_iff)
    then show "(key x \<notin> insert (key r) (key ` set tbl)) = (key x \<notin> key ` set tbl)" by simp
  qed simp
  have hit: "find (\<lambda>q. key q = key x) (r # rs) = (if key x = key r then Some r else find (\<lambda>q. key q = key x) rs)" for x
    by simp
  note step = Cons.IH [OF distinct_tl_keys [OF Cons.prems], of "upsert_row key upd tbl r", unfolded keys rest]
  show ?case
  proof (cases "key r \<in> key ` set tbl")
    case True
    then have "upsert_row key upd tbl r = map (\<lambda>y. if key y = key r then upd y r else y) tbl"
      by (simp add: upsert_row_def)
    then show ?thesis
      using True step other by (simp add: hit assms(2) insert_absorb del: find.simps)
  next
    case False
    then have "upsert_row key upd tbl r = tbl @ [r]" by (simp add: upsert_row_def)
    moreover have "key x \<noteq> key r" if "x \<in> set tbl" for x using False that by (metis image_eqI)
    ultimately show ?thesis
      using False step other by (simp add: hit del: find.simps)
  qed
qed simp

section \<open>The call\<close>

text \<open>With arguments present, a call succeeds exactly when no chunk repeats a key. A key that is
  repeated in different chunks is updated again, so the outcome depends on \<open>chunk_size\<close>.\<close>

theorem bulk_update_by_chunks:
  assumes "0 < n" and "target \<noteq> []" and "cols \<noteq> []"
  shows "bulk_insert n (upsert_stmt (Some target) (Some cols) (\<lambda>_ _. False) key upd) records tbl =
    (if \<forall>c\<in>set (chunks n records). distinct (map key c)
     then Inr (foldl (upsert_row key upd) tbl records) else Inl DBAPIError)"
proof -
  have "upsert_stmt (Some target) (Some cols) (\<lambda>_ _. False) key upd = upsert_rows (\<lambda>_ _. False) key upd []"
    using assms by (simp add: upsert_stmt_def fun_eq_iff)
  moreover have nil: "chunks n [] = []" by (simp add: chunks.simps)
  ultimately show ?thesis
    using assms(1) by (simp add: bulk_insert_def upsert_chunks_free concat_chunks nil)
qed

text \<open>Distinct keys: every stored row with a proposed key takes the update fields and stays where it
  is, the other stored rows stay as they are, and the rows with new keys follow in order.\<close>

theorem bulk_update_result:
  assumes "0 < n" and "target \<noteq> []" and "cols \<noteq> []" and "distinct (map key records)"
    and "\<And>x r. key x = key r \<Longrightarrow> key (upd x r) = key x"
  shows "bulk_insert n (upsert_stmt (Some target) (Some cols) (\<lambda>_ _. False) key upd) records tbl =
    Inr (map (\<lambda>x. case find (\<lambda>r. key r = key x) records of Some r \<Rightarrow> upd x r | None \<Rightarrow> x) tbl @
      filter (\<lambda>r. key r \<notin> key ` set tbl) records)"
proof -
  have "distinct (map key (concat (chunks n records)))"
    using assms(1,4) by (simp add: concat_chunks)
  then have "\<forall>c\<in>set (chunks n records). distinct (map key c)"
    by (iprover intro: ballI dest: distinct_map_concatD)
  moreover have "foldl (upsert_row key upd) tbl records =
    map (\<lambda>x. case find (\<lambda>r. key r = key x) records of Some r \<Rightarrow> upd x r | None \<Rightarrow> x) tbl @
    filter (\<lambda>r. key r \<notin> key ` set tbl) records"
    using assms(4,5) by (rule foldl_upsert_row)
  ultimately show ?thesis
    using bulk_update_by_chunks [OF assms(1-3), of key upd records tbl] by simp
qed

text \<open>Ranks of assets: in one chunk a repeated name fails, in two it overwrites.\<close>

definition rank_stmt :: "asset_row list \<Rightarrow> asset_row list \<Rightarrow> asset_row list res" where
  "rank_stmt = upsert_stmt (Some [''name'']) (Some [''market_cap_rank'']) (\<lambda>_ _. False) a_name
     (\<lambda>x r. x\<lparr>a_rank := a_rank r\<rparr>)"

lemma bulk_update_repeated_key:
  "bulk_insert 2 rank_stmt [\<lparr>a_name = ''BTC'', a_rank = Some 1\<rparr>, \<lparr>a_name = ''BTC'', a_rank = Some 2\<rparr>] [] = Inl DBAPIError"
  "bulk_insert 1 rank_stmt [\<lparr>a_name = ''BTC'', a_rank = Some 1\<rparr>, \<lparr>a_name = ''BTC'', a_rank = Some 2\<rparr>] [] =
   Inr [\<lparr>a_name = ''BTC'', a_rank = Some 2\<rparr>]"
proof -
  have "chunks 2 [a, b] = [[a, b]]" "chunks 1 [a, b] = [[a], [b]]" for a b :: asset_row
    by (simp_all add: chunks.simps [of _ "_ # _"] chunks.simps [of _ "[]"])
  then show "bulk_insert 2 rank_stmt [\<lparr>a_name = ''BTC'', a_rank = Some 1\<rparr>, \<lparr>a_name = ''BTC'', a_rank = Some 2\<rparr>] [] = Inl DBAPIError"
    "bulk_insert 1 rank_stmt [\<lparr>a_name = ''BTC'', a_rank = Some 1\<rparr>, \<lparr>a_name = ''BTC'', a_rank = Some 2\<rparr>] [] =
      Inr [\<lparr>a_name = ''BTC'', a_rank = Some 2\<rparr>]"
    by (simp_all add: rank_stmt_def bulk_update_by_chunks upsert_row_def)
qed

text \<open>Missing arguments are noticed only when there is a record to insert.\<close>

theorem bulk_update_needs_arguments:
  assumes "target \<in> {None, Some []} \<or> cols \<in> {None, Some []}"
  shows "bulk_insert n (upsert_stmt target cols clash key upd) records tbl =
    (if records = [] then Inr tbl else Inl ValueError)"
proof (cases "records = [] \<or> n = 0")
  case False
  then have "chunks n records = take n records # chunks n (drop n records)"
    by (subst chunks.simps) simp
  moreover have "upsert_stmt target cols clash key upd t c = Inl ValueError" for t c
    using assms by (auto simp: upsert_stmt_def)
  ultimately show ?thesis using False by (simp add: bulk_insert_def)
qed (auto simp: bulk_insert_def)

end
