(* ===== verification/PyIso.thy ===== *)
theory PyIso
  imports PyTime PyJson
begin

text \<open>
  Calendar text: \<open>to_iso8601\<close>, \<open>from_iso8601\<close> and \<open>from_utc_iso8601\<close> of \<open>time.py\<close>. The proleptic
  Gregorian calendar is computed as CPython computes it (\<open>_ord2ymd\<close>, \<open>_ymd2ord\<close>).
  \<open>fromisoformat\<close> is modelled on the extended format \<open>YYYY-MM-DD[*HH[:MM[:SS[.f+]]]][+HH:MM[:SS]]\<close>;
  the basic format and week dates, which no API of the program sends, are rejected.
\<close>

section \<open>Calendar\<close>

definition is_leap :: "int \<Rightarrow> bool" where
  "is_leap y \<longleftrightarrow> y mod 4 = 0 \<and> (y mod 100 \<noteq> 0 \<or> y mod 400 = 0)"

definition days_before_year :: "int \<Rightarrow> int" where
  "days_before_year y = (let z = y - 1 in z * 365 + z div 4 - z div 100 + z div 400)"

definition month_offset :: "int \<Rightarrow> int" where
  "month_offset m = [0, 0, 31, 59, 90, 120, 151, 181, 212, 243, 273, 304, 334] ! nat m"

definition month_days :: "bool \<Rightarrow> int \<Rightarrow> int" where
  "month_days leap m = (if m = 2 \<and> leap then 29
     else [0, 31, 28, 31, 30, 31, 30, 31, 31, 30, 31, 30, 31] ! nat m)"

definition days_before_month :: "bool \<Rightarrow> int \<Rightarrow> int" where
  "days_before_month leap m = month_offset m + (if m > 2 \<and> leap then 1 else 0)"

definition ymd_ordinal :: "int \<times> int \<times> int \<Rightarrow> int" where
  "ymd_ordinal = (\<lambda>(y, m, d). days_before_year y + days_before_month (is_leap y) m + d)"

text \<open>The month and day of a zero-based day of the year.\<close>

definition month_day :: "bool \<Rightarrow> int \<Rightarrow> int \<times> int" where
  "month_day leap n = (let m = (n + 50) div 32; p = days_before_month leap m in
     if p > n then (m - 1, n - (p - month_days leap (m - 1)) + 1) else (m, n - p + 1))"

definition ordinal_ymd :: "int \<Rightarrow> int \<times> int \<times> int" where
  "ordinal_ymd n = (let n0 = n - 1; n400 = n0 div 146097; a = n0 mod 146097;
       n100 = a div 36524; b = a mod 36524; n4 = b div 1461; c = b mod 1461;
       n1 = c div 365; e = c mod 365; y = n400 * 400 + 1 + n100 * 100 + n4 * 4 + n1
     in if n1 = 4 \<or> n100 = 4 then (y - 1, 12, 31)
        else case month_day (n1 = 3 \<and> (n4 \<noteq> 24 \<or> n100 = 3)) e of (m, d) \<Rightarrow> (y, m, d))"

text \<open>The ordinal of 1970-01-01.\<close>

definition epoch_ordinal :: int where "epoch_ordinal = 719163"

section \<open>Text\<close>

fun pad :: "nat \<Rightarrow> int \<Rightarrow> string" where
  "pad 0 n = []"
| "pad (Suc k) n = pad k (n div 10) @ [char_of (48 + nat (n mod 10))]"

definition to_iso8601 :: "utc \<Rightarrow> string" where
  "to_iso8601 t = (case ordinal_ymd (t div us_per_day + epoch_ordinal) of (y, m, d) \<Rightarrow>
     let r = t mod us_per_day in
     pad 4 y @ ''-'' @ pad 2 m @ ''-'' @ pad 2 d @ ''T'' @ pad 2 (r div us_per_hour) @ '':'' @
     pad 2 (r mod us_per_hour div us_per_minute) @ '':'' @
     pad 2 (r mod us_per_minute div us_per_second) @
     (if r mod us_per_second = 0 then [] else ''.'' @ pad 6 (r mod us_per_second)) @ ''Z'')"

definition fixed_digits :: "string \<Rightarrow> int option" where
  "fixed_digits s = (if s \<noteq> [] \<and> list_all is_digit s then Some (digits_val s) else None)"

definition parse_date :: "string \<Rightarrow> int option" where
  "parse_date s =
     (if length s = 10 \<and> s ! 4 = CHR ''-'' \<and> s ! 7 = CHR ''-'' then
       (case (fixed_digits (take 4 s), fixed_digits (take 2 (drop 5 s)), fixed_digits (drop 8 s)) of
          (Some y, Some m, Some d) \<Rightarrow>
            if 1 \<le> y \<and> 1 \<le> m \<and> m \<le> 12 \<and> 1 \<le> d \<and> d \<le> month_days (is_leap y) m
            then Some (ymd_ordinal (y, m, d)) else None
        | _ \<Rightarrow> None)
      else None)"

text \<open>Microseconds of \<open>HH[:MM[:SS[.f+]]]\<close>; digits of the fraction beyond the sixth are dropped.\<close>

definition parse_fraction :: "string \<Rightarrow> int option" where
  "parse_fraction f = (if f = [] then Some 0
     else if hd f \<in> {CHR ''.'', CHR '',''} \<and> tl f \<noteq> [] \<and> list_all is_digit (tl f)
     then Some (digits_val (take 6 (tl f @ ''000000''))) else None)"

definition parse_clock :: "string \<Rightarrow> int option" where
  "parse_clock s =
     (let h = fixed_digits (take 2 s);
          m = (if length s \<le> 2 then Some 0 else if s ! 2 = CHR '':'' then fixed_digits (take 2 (drop 3 s)) else None);
          sec = (if length s \<le> 5 then Some 0 else if s ! 5 = CHR '':'' then fixed_digits (take 2 (drop 6 s)) else None)
      in if length s < 2 \<or> length s \<in> {3, 4, 6, 7} then None
         else (case (h, m, sec, parse_fraction (drop 8 s)) of
           (Some h, Some m, Some sc, Some f) \<Rightarrow>
             if h < 24 \<and> m < 60 \<and> sc < 60
             then Some (h * us_per_hour + m * us_per_minute + sc * us_per_second + f) else None
         | _ \<Rightarrow> None))"

definition is_sign :: "char \<Rightarrow> bool" where
  "is_sign c \<longleftrightarrow> c = CHR ''+'' \<or> c = CHR ''-''"

text \<open>\<open>datetime.fromisoformat\<close>: the local microseconds and the offset, if there is one.\<close>

definition fromisoformat :: "string \<Rightarrow> (int \<times> int option) res" where
  "fromisoformat s =
     (let rest = drop 11 s; clock = takeWhile (\<lambda>c. \<not> is_sign c) rest; zone = dropWhile (\<lambda>c. \<not> is_sign c) rest;
          day = parse_date (take 10 s);
          time = (if length s \<le> 10 then Some 0 else parse_clock clock);
          off = (if zone = [] then Some None
                 else map_option (\<lambda>z. Some ((if hd zone = CHR ''-'' then - 1 else 1) * z)) (parse_clock (tl zone)))
      in case (day, time, off) of
           (Some n, Some t, Some off) \<Rightarrow> Inr ((n - epoch_ordinal) * us_per_day + t, off)
         | _ \<Rightarrow> Inl ValueError)"

definition normalize_z :: "string \<Rightarrow> string" where
  "normalize_z v = (if v \<noteq> [] \<and> last v = CHR ''Z'' then butlast v @ ''+00:00'' else v)"

definition from_iso8601 :: "string \<Rightarrow> utc res" where
  "from_iso8601 v = rbind (fromisoformat (normalize_z v)) (\<lambda>(t, off).
     case off of None \<Rightarrow> Inl ValueError | Some z \<Rightarrow> Inr (t - z))"

definition from_utc_iso8601 :: "string \<Rightarrow> utc res" where
  "from_utc_iso8601 v = rbind (fromisoformat (normalize_z v)) (\<lambda>(t, off).
     case off of None \<Rightarrow> Inr t | Some z \<Rightarrow> Inr (t - z))"

section \<open>The calendar round trip\<close>

lemma month_day_ok:
  assumes "0 \<le> n" "n < (if leap then 366 else 365)"
  shows "days_before_month leap (fst (month_day leap n)) + snd (month_day leap n) = n + 1 \<and>
     1 \<le> fst (month_day leap n) \<and> fst (month_day leap n) \<le> 12 \<and>
     1 \<le> snd (month_day leap n) \<and> snd (month_day leap n) \<le> month_days leap (fst (month_day leap n))"
proof -
  let ?P = "\<lambda>leap n. days_before_month leap (fst (month_day leap n)) + snd (month_day leap n) = n + 1 \<and>
     1 \<le> fst (month_day leap n) \<and> fst (month_day leap n) \<le> 12 \<and>
     1 \<le> snd (month_day leap n) \<and> snd (month_day leap n) \<le> month_days leap (fst (month_day leap n))"
  have "list_all (?P True) (map int [0..<366])" by code_simp
  moreover have "list_all (?P False) (map int [0..<365])" by code_simp
  moreover have "n = int (nat n)" using assms(1) by simp
  moreover have "nat n < (if leap then 366 else 365)" using assms by (simp split: if_splits)
  ultimately show ?thesis
    by (cases leap) (simp_all only: list_all_map_iff list_all_iff set_map set_upt if_True if_False, force+)
qed

lemma ordinal_ymd_ok:
  assumes "1 \<le> n" and "ordinal_ymd n = (y, m, d)"
  shows "ymd_ordinal (y, m, d) = n" "1 \<le> y" "1 \<le> m" "m \<le> 12" "1 \<le> d" "d \<le> month_days (is_leap y) m"
proof -
  define n0 where "n0 = n - 1"
  define n400 a n100 b n4 c n1 e where
    "n400 = n0 div 146097" "a = n0 mod 146097" "n100 = a div 36524" "b = a mod 36524"
    "n4 = b div 1461" "c = b mod 1461" "n1 = c div 365" "e = c mod 365"
  note defs = n400_a_n100_b_n4_c_n1_e_def
  have n0: "0 \<le> n0" using assms(1) by (simp add: n0_def)
  have b1: "0 \<le> n400" "0 \<le> a" "a < 146097" "n0 = 146097 * n400 + a" using n0 by (simp_all add: defs)
  have b2: "0 \<le> n100" "n100 \<le> 4" "0 \<le> b" "b < 36524" "a = 36524 * n100 + b"
    using b1(2,3) by (simp_all add: defs)
  have b3: "0 \<le> n4" "n4 \<le> 24" "0 \<le> c" "c < 1461" "b = 1461 * n4 + c"
    using b2(3,4) by (simp_all add: defs)
  have b4: "0 \<le> n1" "n1 \<le> 4" "0 \<le> e" "e < 365" "c = 365 * n1 + e"
    using b3(3,4) by (simp_all add: defs)
  let ?y = "n400 * 400 + 1 + n100 * 100 + n4 * 4 + n1"
  have ymd: "ordinal_ymd n = (if n1 = 4 \<or> n100 = 4 then (?y - 1, 12, 31)
      else case month_day (n1 = 3 \<and> (n4 \<noteq> 24 \<or> n100 = 3)) e of (m, d) \<Rightarrow> (?y, m, d))"
    by (simp add: ordinal_ymd_def Let_def defs n0_def)
  have "ymd_ordinal (y, m, d) = n \<and> 1 \<le> y \<and> 1 \<le> m \<and> m \<le> 12 \<and> 1 \<le> d \<and> d \<le> month_days (is_leap y) m"
  proof (cases "n1 = 4 \<or> n100 = 4")
    case True
    then have y: "y = ?y - 1" "m = 12" "d = 31" using assms(2) by (auto simp: ymd)
    have leap_eq: "is_leap y \<longleftrightarrow> (n4 * 4 + n1) mod 4 = 0 \<and> ((n100 * 100 + n4 * 4 + n1) mod 100 \<noteq> 0 \<or>
        (n100 * 100 + n4 * 4 + n1) mod 400 = 0)"
    proof -
      have e: "y = (n4 * 4 + n1) + 4 * (100 * n400 + 25 * n100)"
        "y = (n100 * 100 + n4 * 4 + n1) + 100 * (4 * n400)"
        "y = (n100 * 100 + n4 * 4 + n1) + 400 * n400" by (simp_all add: y)
      have "y mod 4 = (n4 * 4 + n1) mod 4" by (subst e(1)) (rule mod_mult_self2)
      moreover have "y mod 100 = (n100 * 100 + n4 * 4 + n1) mod 100" by (subst e(2)) (rule mod_mult_self2)
      moreover have "y mod 400 = (n100 * 100 + n4 * 4 + n1) mod 400" by (subst e(3)) (rule mod_mult_self2)
      ultimately show ?thesis by (simp add: is_leap_def)
    qed
    show ?thesis
    proof (cases "n100 = 4")
      case True
      then have z: "b = 0" "n4 = 0" "c = 0" "n1 = 0" using b1 b2 b3 b4 by linarith+
      have l: "is_leap y" unfolding leap_eq z True by simp
      have "days_before_year y = 146097 * n400 + 145731"
      proof -
        have q: "(?y - 2) div 4 = 100 * n400 + 99" "(?y - 2) div 100 = 4 * n400 + 3"
          "(?y - 2) div 400 = n400"
          unfolding z True
          by (auto intro: int_div_pos_eq [of _ _ _ 3] int_div_pos_eq [of _ _ _ 99]
              int_div_pos_eq [of _ _ _ 399])
        show ?thesis unfolding days_before_year_def Let_def y using q by (simp add: z True)
      qed
      then show ?thesis using l b1 b2(5) z True y
        by (simp add: ymd_ordinal_def days_before_month_def month_offset_def month_days_def n0_def)
    next
      case False
      then have n1: "n1 = 4" "e = 0" "n100 \<le> 3" using \<open>n1 = 4 \<or> n100 = 4\<close> b2 b3 b4 by linarith+
      have ne: "n4 \<noteq> 24" using b2(4) b3(5) b4(5) n1 by auto
      then have n4: "n4 \<le> 23" using b3(2) by linarith
      have "(n100 * 100 + n4 * 4 + 4) mod 100 \<noteq> 0"
      proof -
        have "(n100 * 100 + n4 * 4 + 4) mod 100 = n4 * 4 + 4"
          by (rule int_mod_pos_eq [of _ _ n100]) (use n4 b3(1) in simp_all)
        then show ?thesis using b3(1) by simp
      qed
      then have l: "is_leap y" unfolding leap_eq n1 by simp
      have q: "(?y - 2) div 4 = 100 * n400 + 25 * n100 + n4" "(?y - 2) div 100 = 4 * n400 + n100"
        "(?y - 2) div 400 = n400"
        using n1 n4 b3(1) b2(1)
        by (auto intro: int_div_pos_eq [of _ _ _ 3] int_div_pos_eq [of _ _ _ "n4 * 4 + 3"]
            int_div_pos_eq [of _ _ _ "n100 * 100 + n4 * 4 + 3"])
      have "days_before_year y = 146097 * n400 + 36524 * n100 + 1461 * n4 + 1095"
        unfolding days_before_year_def Let_def y using q n1(1) by simp
      then show ?thesis using l b1 b2 b3 b4(5) n1 y
        by (simp add: ymd_ordinal_def days_before_month_def month_offset_def month_days_def n0_def)
    qed
  next
    case False
    then have n1: "n1 \<le> 3" "n100 \<le> 3" using b4 b2 by linarith+
    let ?leap = "n1 = 3 \<and> (n4 \<noteq> 24 \<or> n100 = 3)"
    have y: "y = ?y" and md: "month_day ?leap e = (m, d)"
      using assms(2) False by (auto simp: ymd split: prod.splits)
    have q: "(?y - 1) div 4 = 100 * n400 + 25 * n100 + n4" "(?y - 1) div 100 = 4 * n400 + n100"
      "(?y - 1) div 400 = n400"
      using n1 b4(1) b3(1,2) b2(1)
      by (auto intro: int_div_pos_eq [of _ _ _ n1] int_div_pos_eq [of _ _ _ "n4 * 4 + n1"]
          int_div_pos_eq [of _ _ _ "n100 * 100 + n4 * 4 + n1"])
    have dby: "days_before_year y = 146097 * n400 + 36524 * n100 + 1461 * n4 + 365 * n1"
      unfolding days_before_year_def Let_def y using q by simp
    have leap: "is_leap y = ?leap"
    proof -
      have e: "y = (1 + n1) + 4 * (100 * n400 + 25 * n100 + n4)"
        "y = (4 * n4 + 1 + n1) + 100 * (4 * n400 + n100)"
        "y = (100 * n100 + 4 * n4 + 1 + n1) + 400 * n400" by (simp_all add: y)
      have "y mod 4 = (1 + n1) mod 4" by (subst e(1)) (rule mod_mult_self2)
      moreover have "(1 + n1) mod 4 = 0 \<longleftrightarrow> n1 = 3" using n1 b4(1) by presburger
      moreover have "y mod 100 = 0 \<longleftrightarrow> n4 = 24" if "n1 = 3"
      proof -
        have "y mod 100 = (4 * n4 + 1 + n1) mod 100" by (subst e(2)) (rule mod_mult_self2)
        then have m: "y mod 100 = (4 * n4 + 4) mod 100" by (simp add: that add.assoc)
        show ?thesis
        proof (cases "n4 = 24")
          case False
          then have "(4 * n4 + 4) mod 100 = 4 * n4 + 4" using b3(1,2) by (intro mod_pos_pos_trivial) simp_all
          then show ?thesis using m False b3(1) by simp
        qed (simp add: m)
      qed
      moreover have "y mod 400 = 0 \<longleftrightarrow> n100 = 3" if "n1 = 3" "n4 = 24"
      proof -
        have "y mod 400 = (100 * n100 + 4 * n4 + 1 + n1) mod 400" by (subst e(3)) (rule mod_mult_self2)
        then have m: "y mod 400 = (100 * n100 + 100) mod 400" by (simp add: that add.assoc)
        show ?thesis
        proof (cases "n100 = 3")
          case False
          then have "(100 * n100 + 100) mod 400 = 100 * n100 + 100"
            using n1(2) b2(1) by (intro mod_pos_pos_trivial) simp_all
          then show ?thesis using m False b2(1) by simp
        qed (simp add: m)
      qed
      ultimately show ?thesis unfolding is_leap_def by (cases "n1 = 3"; cases "n4 = 24") simp_all
    qed
    have "e < (if ?leap then 366 else 365)" using b4(4) by simp
    from month_day_ok [OF b4(3) this] have "days_before_month ?leap m + d = e + 1"
      "1 \<le> m" "m \<le> 12" "1 \<le> d" "d \<le> month_days ?leap m" by (simp_all only: md fst_conv snd_conv)
    moreover have "ymd_ordinal (y, m, d) = days_before_year y + (days_before_month ?leap m + d)"
      by (simp add: ymd_ordinal_def leap)
    moreover have "1 \<le> y" using y b1 b2 b3 b4 by simp
    ultimately show ?thesis using dby b1(4) b2(5) b3(5) b4(5) leap by (simp add: n0_def)
  qed
  then show "ymd_ordinal (y, m, d) = n" "1 \<le> y" "1 \<le> m" "m \<le> 12" "1 \<le> d" "d \<le> month_days (is_leap y) m"
    by blast+
qed

section \<open>Printing and parsing\<close>

lemma digit_char: "0 \<le> n \<Longrightarrow> n < 10 \<Longrightarrow> is_digit (char_of (48 + nat n)) \<and> digit_val (char_of (48 + nat n)) = n"
  by (simp add: is_digit_def digit_val_def)

lemma digits_val_snoc: "digits_val (s @ [c]) = 10 * digits_val s + digit_val c"
  by (simp add: digits_val_def)

lemma pad_digits:
  "length (pad k n) = k \<and> list_all is_digit (pad k n)"
  by (induction k arbitrary: n) (simp_all add: digit_char)

lemma pad_val: "0 \<le> n \<Longrightarrow> n < 10 ^ k \<Longrightarrow> digits_val (pad k n) = n"
proof (induction k arbitrary: n)
  case (Suc k)
  then have "n div 10 < 10 ^ k" by (simp add: div_less_iff_less_mult mult.commute)
  then show ?case using Suc by (simp add: digits_val_snoc digit_char)
qed (simp add: digits_val_def)

declare pad.simps [simp del]

lemma fixed_digits_pad: "0 < k \<Longrightarrow> 0 \<le> n \<Longrightarrow> n < 10 ^ k \<Longrightarrow> fixed_digits (pad k n) = Some n"
  using pad_digits [of k n] pad_val [of n k] by (cases "pad k n") (auto simp: fixed_digits_def)

lemma digit_not_special: "is_digit c \<Longrightarrow> \<not> is_sign c"
  by (auto simp: is_digit_def is_sign_def)

lemma pad2: obtains a b where "pad 2 n = [a, b]" "is_digit a" "is_digit b"
  using pad_digits [of 2 n] by (auto simp: length_Suc_conv numeral_2_eq_2)

lemma pad4: obtains a b c d where "pad 4 n = [a, b, c, d]" "is_digit a" "is_digit b" "is_digit c" "is_digit d"
  using pad_digits [of 4 n] by (auto simp: length_Suc_conv eval_nat_numeral)

lemma pad6: obtains a b c d e f where "pad 6 n = [a, b, c, d, e, f]" "is_digit a" "is_digit b" "is_digit c"
    "is_digit d" "is_digit e" "is_digit f"
  using pad_digits [of 6 n] by (auto simp: length_Suc_conv eval_nat_numeral)

lemma parse_date_pad:
  assumes "1 \<le> y" "y < 10000" "1 \<le> m" "m \<le> 12" "1 \<le> d" "d \<le> month_days (is_leap y) m"
  shows "parse_date (pad 4 y @ ''-'' @ pad 2 m @ ''-'' @ pad 2 d) = Some (ymd_ordinal (y, m, d))"
proof -
  have "month_days (is_leap y) m \<le> 31"
  proof -
    have "list_all (\<lambda>m. month_days True m \<le> 31) [1..12]" "list_all (\<lambda>m. month_days False m \<le> 31) [1..12]"
      by code_simp+
    then have "list_all (\<lambda>m. month_days l m \<le> 31) [1..12]" for l by (cases l) simp_all
    then have "\<forall>m\<in>{1..12}. month_days l m \<le> 31" for l by (simp only: list_all_iff set_upto)
    then show ?thesis using assms(3,4) by simp
  qed
  then have d: "d < 100" using assms(6) by linarith
  obtain y1 y2 y3 y4 where y: "pad 4 y = [y1, y2, y3, y4]" by (rule pad4)
  obtain m1 m2 where mm: "pad 2 m = [m1, m2]" by (rule pad2)
  obtain d1 d2 where dd: "pad 2 d = [d1, d2]" by (rule pad2)
  have v: "fixed_digits [y1, y2, y3, y4] = Some y" "fixed_digits [m1, m2] = Some m"
    "fixed_digits [d1, d2] = Some d"
    using fixed_digits_pad [of 4 y] fixed_digits_pad [of 2 m] fixed_digits_pad [of 2 d] assms d
    by (simp_all add: y mm dd)
  show ?thesis unfolding y mm dd using assms by (simp add: parse_date_def v numeral_nat)
qed

lemma parse_clock_pad:
  assumes "0 \<le> h" "h < 24" "0 \<le> m" "m < 60" "0 \<le> s" "s < 60" "0 \<le> u" "u < 1000000"
  shows "parse_clock (pad 2 h @ '':'' @ pad 2 m @ '':'' @ pad 2 s @ (if u = 0 then [] else ''.'' @ pad 6 u)) =
    Some (h * us_per_hour + m * us_per_minute + s * us_per_second + u)"
proof -
  obtain h1 h2 where hh: "pad 2 h = [h1, h2]" by (rule pad2)
  obtain m1 m2 where mm: "pad 2 m = [m1, m2]" by (rule pad2)
  obtain s1 s2 where ss: "pad 2 s = [s1, s2]" by (rule pad2)
  obtain a b c d e f where uu: "pad 6 u = [a, b, c, d, e, f]"
    and dig: "is_digit a" "is_digit b" "is_digit c" "is_digit d" "is_digit e" "is_digit f" by (rule pad6)
  have v: "fixed_digits [h1, h2] = Some h" "fixed_digits [m1, m2] = Some m" "fixed_digits [s1, s2] = Some s"
    "digits_val [a, b, c, d, e, f] = u"
    using fixed_digits_pad [of 2 h] fixed_digits_pad [of 2 m] fixed_digits_pad [of 2 s] pad_val [of u 6] assms
    by (simp_all add: hh mm ss uu)
  show ?thesis
  proof (cases "u = 0")
    case True
    then show ?thesis unfolding hh mm ss using assms
      by (simp add: parse_clock_def v parse_fraction_def numeral_nat Let_def)
  next
    case False
    then show ?thesis unfolding hh mm ss uu using assms dig
      by (simp add: parse_clock_def v parse_fraction_def numeral_nat Let_def)
  qed
qed

definition iso_safe :: "utc \<Rightarrow> bool" where
  "iso_safe t \<longleftrightarrow> 0 \<le> t \<and> t \<le> datetime_max"

lemma year_bound:
  assumes "ymd_ordinal (y, m, d) \<le> 3652059" "1 \<le> y" "1 \<le> m" "m \<le> 12" "1 \<le> d"
  shows "y < 10000"
proof (rule ccontr)
  assume "\<not> y < 10000"
  then have z: "9999 \<le> y - 1" by simp
  have "2499 \<le> (y - 1) div 4" "24 \<le> (y - 1) div 400"
    using z zdiv_mono1 [of 9999 "y - 1" 4] zdiv_mono1 [of 9999 "y - 1" 400] by simp_all
  moreover have "2400 \<le> q - q div 25" if "2499 \<le> q" for q :: int using that by presburger
  moreover have "(y - 1) div 100 = (y - 1) div 4 div 25" by (simp flip: zdiv_zmult2_eq)
  ultimately have "days_before_year y \<ge> 9999 * 365 + 2424"
    unfolding days_before_year_def Let_def using z by force
  moreover have "0 \<le> days_before_month (is_leap y) m"
  proof -
    have "list_all (\<lambda>m. 0 \<le> days_before_month True m) [1..12]"
      "list_all (\<lambda>m. 0 \<le> days_before_month False m) [1..12]" by code_simp+
    then have "list_all (\<lambda>m. 0 \<le> days_before_month l m) [1..12]" for l by (cases l) simp_all
    then have "\<forall>m\<in>{1..12}. 0 \<le> days_before_month l m" for l by (simp only: list_all_iff set_upto)
    then show ?thesis using assms(3,4) by simp
  qed
  ultimately show False using assms(1,5) by (simp add: ymd_ordinal_def)
qed

text \<open>The date and the clock of an instant.\<close>

definition date_text :: "utc \<Rightarrow> string" where
  "date_text t = (case ordinal_ymd (t div us_per_day + epoch_ordinal) of (y, m, d) \<Rightarrow>
     pad 4 y @ ''-'' @ pad 2 m @ ''-'' @ pad 2 d)"

definition clock_text :: "int \<Rightarrow> string" where
  "clock_text r = pad 2 (r div us_per_hour) @ '':'' @ pad 2 (r mod us_per_hour div us_per_minute) @ '':'' @
     pad 2 (r mod us_per_minute div us_per_second) @
     (if r mod us_per_second = 0 then [] else ''.'' @ pad 6 (r mod us_per_second))"

lemma to_iso8601_split: "to_iso8601 t = date_text t @ ''T'' @ clock_text (t mod us_per_day) @ ''Z''"
  by (simp add: to_iso8601_def date_text_def clock_text_def Let_def split: prod.splits)

lemma clock_parts:
  fixes r :: int
  assumes "0 \<le> r" "r < us_per_day"
  shows "0 \<le> r div us_per_hour" "r div us_per_hour < 24"
    "0 \<le> r mod us_per_hour div us_per_minute" "r mod us_per_hour div us_per_minute < 60"
    "0 \<le> r mod us_per_minute div us_per_second" "r mod us_per_minute div us_per_second < 60"
    "0 \<le> r mod us_per_second" "r mod us_per_second < 1000000"
    "r div us_per_hour * us_per_hour + r mod us_per_hour div us_per_minute * us_per_minute +
     r mod us_per_minute div us_per_second * us_per_second + r mod us_per_second = r"
proof -
  show "0 \<le> r div us_per_hour" "r div us_per_hour < 24"
    using assms by (simp_all add: pos_imp_zdiv_nonneg_iff div_less_iff_less_mult)
  show "0 \<le> r mod us_per_hour div us_per_minute" "r mod us_per_hour div us_per_minute < 60"
    "0 \<le> r mod us_per_minute div us_per_second" "r mod us_per_minute div us_per_second < 60"
    by (simp_all add: pos_imp_zdiv_nonneg_iff div_less_iff_less_mult)
  show "0 \<le> r mod us_per_second" "r mod us_per_second < 1000000" by simp_all
  have m: "r mod us_per_hour mod us_per_minute = r mod us_per_minute"
    "r mod us_per_minute mod us_per_second = r mod us_per_second"
    by (simp_all add: mod_mod_cancel)
  have "r div us_per_hour * us_per_hour + r mod us_per_hour = r"
    "r mod us_per_hour div us_per_minute * us_per_minute + r mod us_per_minute = r mod us_per_hour"
    "r mod us_per_minute div us_per_second * us_per_second + r mod us_per_second = r mod us_per_minute"
    by (simp_all only: div_mult_mod_eq flip: m)
  then show "r div us_per_hour * us_per_hour + r mod us_per_hour div us_per_minute * us_per_minute +
     r mod us_per_minute div us_per_second * us_per_second + r mod us_per_second = r" by linarith
qed

lemma parse_clock_text:
  "0 \<le> r \<Longrightarrow> r < us_per_day \<Longrightarrow> parse_clock (clock_text r) = Some r"
  using parse_clock_pad [of "r div us_per_hour" "r mod us_per_hour div us_per_minute"
      "r mod us_per_minute div us_per_second" "r mod us_per_second"] clock_parts [of r]
  by (simp add: clock_text_def)

lemma parse_date_text:
  assumes "iso_safe t"
  shows "parse_date (date_text t) = Some (t div us_per_day + epoch_ordinal)" "length (date_text t) = 10"
proof -
  obtain y m d where ymd: "ordinal_ymd (t div us_per_day + epoch_ordinal) = (y, m, d)"
    by (cases "ordinal_ymd (t div us_per_day + epoch_ordinal)") auto
  have n: "1 \<le> t div us_per_day + epoch_ordinal" "t div us_per_day + epoch_ordinal \<le> 3652059"
    using assms zdiv_mono1 [of t datetime_max us_per_day]
    by (simp_all add: iso_safe_def epoch_ordinal_def datetime_max_def pos_imp_zdiv_nonneg_iff)
  note ok = ordinal_ymd_ok [OF n(1) ymd]
  have "y < 10000" using year_bound [OF _ ok(2-5)] ok(1) n(2) by simp
  then show "parse_date (date_text t) = Some (t div us_per_day + epoch_ordinal)"
    using parse_date_pad [OF ok(2) _ ok(3-6)] ok(1) by (simp add: date_text_def ymd)
  show "length (date_text t) = 10" using pad_digits by (simp add: date_text_def ymd)
qed

lemma pad_no_sign: "list_all (\<lambda>c. \<not> is_sign c) (pad k n)"
  using pad_digits [of k n] digit_not_special by (simp add: list_all_iff)

lemma clock_no_sign: "c \<in> set (clock_text r) \<Longrightarrow> \<not> is_sign c"
proof -
  have "list_all (\<lambda>c. \<not> is_sign c) (clock_text r)"
    by (simp add: clock_text_def pad_no_sign is_sign_def [of "CHR '':''"] is_sign_def [of "CHR ''.''"])
  then show "c \<in> set (clock_text r) \<Longrightarrow> \<not> is_sign c" by (simp add: list_all_iff)
qed

lemma from_iso8601_text:
  assumes "iso_safe t" shows "fromisoformat (normalize_z (to_iso8601 t)) = Inr (t, Some 0)"
proof -
  let ?r = "t mod us_per_day"
  note d = parse_date_text [OF assms]
  have r: "0 \<le> ?r" "?r < us_per_day" by simp_all
  have n: "normalize_z (to_iso8601 t) = date_text t @ ''T'' @ clock_text ?r @ ''+00:00''"
    by (simp add: to_iso8601_split normalize_z_def butlast_append)
  have drop: "drop 11 (date_text t @ ''T'' @ clock_text ?r @ ''+00:00'') = clock_text ?r @ ''+00:00''"
    using d(2) by simp
  have tw: "takeWhile (\<lambda>c. \<not> is_sign c) (clock_text ?r @ ''+00:00'') = clock_text ?r"
    "dropWhile (\<lambda>c. \<not> is_sign c) (clock_text ?r @ ''+00:00'') = ''+00:00''"
    using clock_no_sign by (simp_all add: takeWhile_append2 dropWhile_append2 is_sign_def)
  have z: "parse_clock ''00:00'' = Some 0" by code_simp
  have "t div us_per_day * us_per_day + ?r = t" by simp
  then show ?thesis
    using d parse_clock_text [OF r] unfolding n
    by (simp add: fromisoformat_def Let_def drop tw z)
qed

lemma to_iso8601_inj: "iso_safe s \<Longrightarrow> iso_safe t \<Longrightarrow> to_iso8601 s = to_iso8601 t \<Longrightarrow> s = t"
proof -
  assume "iso_safe s" "iso_safe t" and eq: "to_iso8601 s = to_iso8601 t"
  then have "(Inr (s, Some 0) :: (int \<times> int option) res) = Inr (t, Some 0)"
    by (simp only: from_iso8601_text [symmetric])
  then show "s = t" by simp
qed

text \<open>C15. Formatting an instant and reading the text back is the identity, from 1970 to 9999, for
  both parsers; the calendar computation behind it is CPython's.\<close>

theorem iso8601_round_trip:
  assumes "0 \<le> t" and "t \<le> datetime_max"
  shows "from_iso8601 (to_iso8601 t) = Inr t \<and> from_utc_iso8601 (to_iso8601 t) = Inr t"
  using from_iso8601_text [of t] assms
  by (simp add: from_iso8601_def from_utc_iso8601_def iso_safe_def)

theorem iso8601_round_trip_witness:
  "to_iso8601 1709180800123000 = ''2024-02-29T04:26:40.123000Z'' \<and>
   from_iso8601 ''2024-02-29T04:26:40.123000Z'' = Inr 1709180800123000"
proof -
  have t: "to_iso8601 1709180800123000 = ''2024-02-29T04:26:40.123000Z''" by code_simp
  have "(0::int) \<le> 1709180800123000" "(1709180800123000::int) \<le> datetime_max"
    by (simp_all add: datetime_max_def)
  from iso8601_round_trip [OF this] t show ?thesis by simp
qed

end
