(* ===== verification/Selection.thy ===== *)
theory Selection
  imports PyJson
begin

text \<open>
  Which exchanges a process handles: \<open>exchange_selection.py\<close> (parsing and validation of
  \<open>ENABLED_EXCHANGES\<close>), \<open>tracker/runtime.py\<close> (merge of command line and environment,
  round-robin sharding over instances), \<open>_resolve_exchanges\<close> of \<open>tracker/bootstrap.py\<close>,
  the connection budget of \<open>tracker/main.py\<close>, and the database settings of \<open>db_settings.py\<close>.
\<close>

section \<open>Parsing and resolving exchange identifiers\<close>

definition parse_exchange_ids :: "string option \<Rightarrow> string list option" where
  "parse_exchange_ids v = (case v of None \<Rightarrow> None
     | Some s \<Rightarrow> (let parsed = map py_strip (filter (\<lambda>item. py_strip item \<noteq> []) (py_split (CHR '','') s))
                 in if parsed = [] then None else Some parsed))"

text \<open>\<open>sorted(set(xs))\<close>\<close>

definition sorted_set :: "string list \<Rightarrow> string list" where
  "sorted_set xs = sort (remdups xs)"

text \<open>The loop that fills \<open>seen\<close> and \<open>duplicates\<close>.\<close>

fun scan_dups :: "string list \<Rightarrow> string list \<Rightarrow> string list \<Rightarrow> string list \<times> string list" where
  "scan_dups seen dups [] = (seen, dups)"
| "scan_dups seen dups (x # xs) =
     scan_dups (List.insert x seen) (if x \<in> set seen then List.insert x dups else dups) xs"

definition resolve_enabled_exchanges ::
  "string list option \<Rightarrow> string list \<Rightarrow> string list res" where
  "resolve_enabled_exchanges requested available = (case requested of
     None \<Rightarrow> Inr (sorted_set available)
   | Some req \<Rightarrow> (case scan_dups [] [] req of (seen, dups) \<Rightarrow>
       if dups \<noteq> [] then Inl ValueError
       else if filter (\<lambda>x. x \<notin> set available) seen \<noteq> [] then Inl ValueError
       else Inr (sorted_set seen)))"

text \<open>\<open>tracker/exchanges/__init__.py\<close>: the registered exchanges.\<close>

definition EXCHANGES :: "string list" where
  "EXCHANGES = [''aster'', ''backpack'', ''binance_usd-m'', ''binance_coin-m'', ''bybit'',
     ''derive'', ''dydx'', ''extended'', ''hyperliquid'', ''hyperliquid-xyz'', ''kucoin'',
     ''lighter'', ''okx'', ''pacifica'', ''paradex'']"

text \<open>\<open>ingestion/exchanges/__init__.py\<close>: the exchanges that have a live adapter.\<close>

definition LIVE_ADAPTERS :: "string list" where
  "LIVE_ADAPTERS = [''aster'', ''backpack'', ''binance_usd-m'', ''binance_coin-m'', ''bybit'',
     ''derive'', ''dydx'', ''extended'', ''hyperliquid'', ''hyperliquid-xyz'', ''kucoin'',
     ''lighter'', ''okx'', ''pacifica'', ''paradex'']"

definition build_live_exchange_adapters :: "(string \<rightharpoonup> 'a) \<Rightarrow> string list \<Rightarrow> (string, 'a) dict" where
  "build_live_exchange_adapters live_adapters exchanges =
     dict_of (List.map_filter (\<lambda>x. map_option (Pair x) (live_adapters x)) exchanges)"

section \<open>Database settings\<close>

type_synonym kwargs = "(string, json) dict"

text \<open>\<open>{**defaults, **overrides}\<close>\<close>

definition dict_merge :: "('k, 'v) dict \<Rightarrow> ('k, 'v) dict \<Rightarrow> ('k, 'v) dict" where
  "dict_merge a b = dict_of (a @ b)"

definition default_engine_kwargs :: kwargs where
  "default_engine_kwargs = [(''echo'', JBool False), (''pool_pre_ping'', JBool True),
     (''pool_size'', JInt 10), (''max_overflow'', JInt 20)]"

definition default_session_kwargs :: kwargs where
  "default_session_kwargs = [(''expire_on_commit'', JBool False)]"

record db_tuning =
  engine_kwargs :: kwargs
  session_kwargs :: kwargs

definition apply_defaults :: "db_tuning \<Rightarrow> db_tuning" where
  "apply_defaults t = t\<lparr>engine_kwargs := dict_merge default_engine_kwargs (engine_kwargs t),
     session_kwargs := dict_merge default_session_kwargs (session_kwargs t)\<rparr>"

definition reject_expiring_sessions :: "db_tuning \<Rightarrow> db_tuning res" where
  "reject_expiring_sessions t = (if map_of (session_kwargs t) ''expire_on_commit'' \<noteq> Some (JBool False)
     then Inl ValueError else Inr t)"

definition build_db_tuning :: "kwargs \<Rightarrow> kwargs \<Rightarrow> db_tuning res" where
  "build_db_tuning ek sk =
     reject_expiring_sessions (apply_defaults \<lparr>engine_kwargs = ek, session_kwargs = sk\<rparr>)"

section \<open>Tracker runtime configuration\<close>

record app_settings =
  env_debug_exchanges :: "string option"
  env_debug_exchanges_live :: "string option"
  env_instance_id :: int
  env_total_instances :: int

record settings =
  connection_url :: string
  tuning :: db_tuning
  enabled_exchanges :: "string list option"
  app :: app_settings

record cli_args =
  arg_exchanges :: "string option"
  arg_debug_exchanges :: "string option"
  arg_debug_exchanges_live :: "string option"
  arg_instance_id :: "int option"
  arg_total_instances :: "int option"

record runtime_config =
  rc_url :: string
  rc_engine_kwargs :: kwargs
  rc_session_kwargs :: kwargs
  rc_exchanges :: "string list option"
  rc_registry_exchanges :: "string list"
  rc_owns_singleton_jobs :: bool
  rc_debug_exchanges :: "string option"
  rc_debug_exchanges_live :: "string option"
  rc_instance_id :: int
  rc_total_instances :: int

text \<open>\<open>xs[i::n]\<close> for non-negative \<open>i\<close> and positive \<open>n\<close>.\<close>

definition step_slice :: "nat \<Rightarrow> nat \<Rightarrow> 'a list \<Rightarrow> 'a list" where
  "step_slice i n xs = map ((!) xs) (filter (\<lambda>j. i \<le> j \<and> (j - i) mod n = 0) [0..<length xs])"

definition filter_exchanges_by_instance :: "string list \<Rightarrow> int \<Rightarrow> int \<Rightarrow> string list" where
  "filter_exchanges_by_instance exchanges instance_id total_instances =
     (if total_instances \<le> 1 then exchanges
      else step_slice (nat instance_id) (nat total_instances) (sort exchanges))"

definition or_env :: "'a option \<Rightarrow> 'a \<Rightarrow> 'a" where
  "or_env a d = (case a of Some x \<Rightarrow> x | None \<Rightarrow> d)"

definition build_runtime_config ::
  "cli_args \<Rightarrow> settings \<Rightarrow> string list \<Rightarrow> runtime_config res" where
  "build_runtime_config args st all_exchanges =
    (let exchanges_arg = (if arg_exchanges args \<noteq> None then parse_exchange_ids (arg_exchanges args)
                          else enabled_exchanges st);
         instance_id = or_env (arg_instance_id args) (env_instance_id (app st));
         total_instances = or_env (arg_total_instances args) (env_total_instances (app st))
     in if total_instances \<le> 0 then Inl ValueError
        else if instance_id < 0 then Inl ValueError
        else if instance_id \<ge> total_instances then Inl ValueError
        else rbind (resolve_enabled_exchanges exchanges_arg all_exchanges) (\<lambda>selected.
          Inr \<lparr>rc_url = connection_url st,
               rc_engine_kwargs = engine_kwargs (tuning st),
               rc_session_kwargs = session_kwargs (tuning st),
               rc_exchanges =
                 (if total_instances > 1
                  then Some (filter_exchanges_by_instance selected instance_id total_instances)
                  else if length selected = length all_exchanges then None
                  else Some selected),
               rc_registry_exchanges = (if instance_id = 0 then selected else []),
               rc_owns_singleton_jobs = (instance_id = 0),
               rc_debug_exchanges = (case arg_debug_exchanges args of Some x \<Rightarrow> Some x
                  | None \<Rightarrow> env_debug_exchanges (app st)),
               rc_debug_exchanges_live = (case arg_debug_exchanges_live args of Some x \<Rightarrow> Some x
                  | None \<Rightarrow> env_debug_exchanges_live (app st)),
               rc_instance_id = instance_id,
               rc_total_instances = total_instances\<rparr>))"

section \<open>Resolution at bootstrap\<close>

definition resolve_exchanges :: "string list option \<Rightarrow> string list res" where
  "resolve_exchanges exchanges = (case exchanges of
     None \<Rightarrow> Inr (sort EXCHANGES)
   | Some xs \<Rightarrow>
       if xs = [] then Inr []
       else (let valid = filter (\<lambda>x. x \<in> set EXCHANGES) xs
             in if valid = [] then Inl KeyError else Inr valid))"

text \<open>The two exchange lists \<open>bootstrap\<close> registers jobs for.\<close>

definition bootstrap_exchanges ::
  "string list option \<Rightarrow> string list option \<Rightarrow> bool \<Rightarrow> (string list \<times> string list) res" where
  "bootstrap_exchanges exchanges registry_exchanges owns =
     rbind (resolve_exchanges exchanges) (\<lambda>resolved.
     rbind (resolve_exchanges (Some (or_env registry_exchanges []))) (\<lambda>requested_registry.
       Inr (resolved, if owns then requested_registry else [])))"

definition http_max_connections_for_exchanges ::
  "string list option \<Rightarrow> string list option \<Rightarrow> nat" where
  "http_max_connections_for_exchanges exchanges registry_exchanges =
     (let conn = remdups (or_env registry_exchanges [] @ or_env exchanges EXCHANGES)
      in max 1 (length conn) * 100)"

text \<open>What one instance of a fleet ends up with: its configuration, resolved by bootstrap.\<close>

definition instance_exchanges ::
  "cli_args \<Rightarrow> settings \<Rightarrow> int \<Rightarrow> int \<Rightarrow> (string list \<times> string list) res" where
  "instance_exchanges args st i n =
     rbind (build_runtime_config
              (args\<lparr>arg_instance_id := Some i, arg_total_instances := Some n\<rparr>) st EXCHANGES)
       (\<lambda>c. bootstrap_exchanges (rc_exchanges c) (Some (rc_registry_exchanges c))
              (rc_owns_singleton_jobs c))"

definition requested_exchanges :: "cli_args \<Rightarrow> settings \<Rightarrow> string list option" where
  "requested_exchanges args st = (if arg_exchanges args \<noteq> None
     then parse_exchange_ids (arg_exchanges args) else enabled_exchanges st)"

section \<open>Lemmas\<close>

lemma set_sorted_set [simp]: "set (sorted_set xs) = set xs"
  by (simp add: sorted_set_def)

lemma sorted_sorted_set [simp]: "sorted (sorted_set xs)" "distinct (sorted_set xs)"
  by (simp_all add: sorted_set_def)

lemma scan_dups_spec:
  "scan_dups seen dups xs = (seen', dups') \<Longrightarrow>
   set seen' = set seen \<union> set xs \<and>
   (dups' = [] \<longleftrightarrow> dups = [] \<and> distinct xs \<and> set seen \<inter> set xs = {})"
proof (induction xs arbitrary: seen dups)
  case (Cons x xs)
  have ne: "List.insert x ys \<noteq> []" for ys :: "string list"
    by (metis empty_iff list.set(1) in_set_insert insert_Nil list.distinct(1) not_Cons_self2 set_empty
        List.insert_def)
  from Cons.IH [of "List.insert x seen" "if x \<in> set seen then List.insert x dups else dups"] Cons.prems
  show ?case by (auto simp: ne)
qed simp

lemma sort_unique_set:
  "sorted_set xs = sort ys" if "set xs = set ys" "distinct ys" for xs ys :: "string list"
  using that by (simp add: sorted_set_def sorted_distinct_set_unique)

lemma step_slice_set:
  "i < n \<Longrightarrow> x \<in> set (step_slice i n xs) \<longleftrightarrow> (\<exists>j<length xs. j mod n = i \<and> xs ! j = x)"
proof -
  assume i: "i < n"
  have "(i \<le> j \<and> (j - i) mod n = 0) = (j mod n = i)" for j
  proof
    assume a: "i \<le> j \<and> (j - i) mod n = 0"
    then obtain q where "j - i = n * q" by auto
    with a have "j = i + n * q" by simp
    then show "j mod n = i" using i by simp
  next
    assume a: "j mod n = i"
    then have "j = i + n * (j div n)" by (metis mod_mult_div_eq add.commute)
    then show "i \<le> j \<and> (j - i) mod n = 0" by (metis add_diff_cancel_left' le_add1 mod_mult_self1_is_0)
  qed
  then show ?thesis by (auto simp: step_slice_def image_iff)
qed

lemma distinct_step_slice: "distinct xs \<Longrightarrow> distinct (step_slice i n xs)"
  by (auto simp: step_slice_def distinct_map inj_on_def nth_eq_iff_index_eq)

lemma step_slice_owner:
  assumes "0 < n" "distinct xs" "x \<in> set xs"
  shows "\<exists>!i. i < n \<and> x \<in> set (step_slice i n xs)"
proof -
  obtain j where j: "j < length xs" "xs ! j = x"
    using assms(3) by (auto simp: in_set_conv_nth)
  have "(i < n \<and> x \<in> set (step_slice i n xs)) = (i = j mod n)" for i
  proof
    assume "i < n \<and> x \<in> set (step_slice i n xs)"
    then obtain k where "k < length xs" "k mod n = i" "xs ! k = x"
      using step_slice_set [of i n x xs] by auto
    then show "i = j mod n" using j assms(2) by (auto simp: nth_eq_iff_index_eq)
  next
    assume "i = j mod n"
    then show "i < n \<and> x \<in> set (step_slice i n xs)"
      using j assms(1) step_slice_set [of i n x xs] by auto
  qed
  then show ?thesis by simp
qed

lemma resolve_None: "resolve_enabled_exchanges None av = Inr (sorted_set av)"
  by (simp add: resolve_enabled_exchanges_def)

lemma resolve_Some:
  "resolve_enabled_exchanges (Some req) av =
     (if distinct req \<and> set req \<subseteq> set av then Inr (sort req) else Inl ValueError)"
proof -
  obtain seen dups where sd: "scan_dups [] [] req = (seen, dups)" by force
  from scan_dups_spec [OF this] have "set seen = set req" "dups = [] \<longleftrightarrow> distinct req"
    by auto
  then show ?thesis
    using sort_unique_set [of seen req]
    by (auto simp: resolve_enabled_exchanges_def sd filter_empty_iff_all)
qed

lemma resolve_ok:
  assumes "resolve_enabled_exchanges req av = Inr sel"
  shows "sorted sel" "distinct sel" "set sel \<subseteq> set av"
    "set sel = (case req of None \<Rightarrow> set av | Some r \<Rightarrow> set r)"
  using assms by (cases req; auto simp: resolve_None resolve_Some split: if_splits)+

lemma distinct_EXCHANGES: "distinct EXCHANGES"
  by (simp add: EXCHANGES_def)

lemma resolve_exchanges_known:
  "set xs \<subseteq> set EXCHANGES \<Longrightarrow> resolve_exchanges (Some xs) = Inr xs"
proof -
  assume a: "set xs \<subseteq> set EXCHANGES"
  then have "filter (\<lambda>x. x \<in> set EXCHANGES) xs = xs" by (simp add: filter_id_conv subset_code(1))
  then show ?thesis by (simp add: resolve_exchanges_def Let_def)
qed

text \<open>A full selection has every exchange, so a single instance passes \<open>None\<close> on.\<close>

lemma full_selection:
  assumes "resolve_enabled_exchanges req EXCHANGES = Inr sel" "length sel = length EXCHANGES"
  shows "sel = sort EXCHANGES"
proof -
  note r = resolve_ok [OF assms(1)]
  have "card (set sel) = card (set EXCHANGES)"
    using distinct_card [OF r(2)] distinct_card [OF distinct_EXCHANGES] assms(2) by simp
  then have "set sel = set EXCHANGES" using r by (simp add: card_subset_eq)
  then show ?thesis using r distinct_EXCHANGES
    by (metis sorted_distinct_set_unique set_sort sorted_sort distinct_sort)
qed

lemma instance_exchanges_eq:
  assumes sel: "resolve_enabled_exchanges (requested_exchanges args st) EXCHANGES = Inr sel"
    and i: "0 \<le> i" "i < n"
  shows "instance_exchanges args st i n =
    Inr (if 1 < n then step_slice (nat i) (nat n) sel else sel, if i = 0 then sel else [])"
proof -
  note r = resolve_ok [OF sel]
  have srt: "sort sel = sel" using r(1) by (simp add: sort_key_id_if_sorted)
  have sub: "set (step_slice (nat i) (nat n) sel) \<subseteq> set EXCHANGES"
    using i step_slice_set [of "nat i" "nat n" _ sel] r(3) by fastforce
  have reg: "resolve_exchanges (Some (if i = 0 then sel else [])) =
      Inr (if i = 0 then sel else [])"
    using resolve_exchanges_known r(3) by simp
  have "resolve_exchanges (if 1 < n then Some (step_slice (nat i) (nat n) sel)
      else if length sel = length EXCHANGES then None else Some sel) =
      Inr (if 1 < n then step_slice (nat i) (nat n) sel else sel)"
    using resolve_exchanges_known [OF sub] resolve_exchanges_known [OF r(3)]
      full_selection [OF sel] by (auto simp: resolve_exchanges_def)
  then show ?thesis
    using sel i reg
    by (auto simp: instance_exchanges_def build_runtime_config_def bootstrap_exchanges_def
        requested_exchanges_def or_env_def Let_def filter_exchanges_by_instance_def srt)
qed

section \<open>Properties\<close>

text \<open>Resolving an explicit request succeeds exactly when it has no duplicate and names
  only available exchanges; the result is then the request, sorted. Everything else is the
  \<open>ValueError\<close> the code raises, and no request selects everything, sorted.\<close>

theorem resolve_enabled_exchanges_spec:
  "resolve_enabled_exchanges (Some req) available =
     (if distinct req \<and> set req \<subseteq> set available then Inr (sort req) else Inl ValueError) \<and>
   resolve_enabled_exchanges None available = Inr (sorted_set available)"
  by (simp add: resolve_Some resolve_None)

text \<open>C4. A fleet of \<open>n\<close> instances started with the same settings partitions the selected
  exchanges: every selected exchange is collected by exactly one instance, no instance collects
  anything else or anything twice, and only instance 0 owns the contract registry, for the whole
  selection.\<close>

theorem fleet_partitions_exchanges:
  assumes "resolve_enabled_exchanges (requested_exchanges args st) EXCHANGES = Inr sel"
    and "0 < n"
  shows "(\<forall>i\<in>{0..<n}. \<exists>cs. instance_exchanges args st i n = Inr (cs, if i = 0 then sel else []) \<and>
            distinct cs \<and> set cs \<subseteq> set sel) \<and>
         (\<forall>x\<in>set sel. \<exists>!i. i \<in> {0..<n} \<and>
            (\<exists>cs rs. instance_exchanges args st i n = Inr (cs, rs) \<and> x \<in> set cs))"
proof -
  note r = resolve_ok [OF assms(1)]
  have inst: "instance_exchanges args st i n =
      Inr (step_slice (nat i) (nat n) sel, if i = 0 then sel else [])" if "i \<in> {0..<n}" for i
  proof (cases "1 < n")
    case False
    then have "n = 1" "i = 0" using that by auto
    moreover have "step_slice 0 1 sel = sel"
      by (rule nth_equalityI) (simp_all add: step_slice_def)
    ultimately show ?thesis using instance_exchanges_eq [OF assms(1), of i n] that by simp
  qed (use instance_exchanges_eq [OF assms(1), of i n] that in simp)
  have own: "\<exists>!i. i \<in> {0..<n} \<and> x \<in> set (step_slice (nat i) (nat n) sel)" if x: "x \<in> set sel" for x
  proof -
    obtain j where j: "j < nat n" "x \<in> set (step_slice j (nat n) sel)"
      and u: "\<And>k. k < nat n \<Longrightarrow> x \<in> set (step_slice k (nat n) sel) \<Longrightarrow> k = j"
      using step_slice_owner [of "nat n", OF _ r(2) x] assms(2) by auto
    show ?thesis
    proof (rule ex1I [of _ "int j"])
      show "int j \<in> {0..<n} \<and> x \<in> set (step_slice (nat (int j)) (nat n) sel)" using j by auto
    next
      fix i assume "i \<in> {0..<n} \<and> x \<in> set (step_slice (nat i) (nat n) sel)"
      then have "nat i = j" "0 \<le> i" using u [of "nat i"] by auto
      then show "i = int j" by simp
    qed
  qed
  have eq: "(i \<in> {0..<n} \<and> (\<exists>cs rs. instance_exchanges args st i n = Inr (cs, rs) \<and> x \<in> set cs)) =
      (i \<in> {0..<n} \<and> x \<in> set (step_slice (nat i) (nat n) sel))" for i x
    using inst [of i] by auto
  have sub: "set (step_slice (nat i) (nat n) sel) \<subseteq> set sel" for i
    by (auto simp: step_slice_def)
  show ?thesis
    using inst distinct_step_slice [OF r(2)] sub own by (simp only: eq) simp
qed

text \<open>Two instances share three requested exchanges.\<close>

theorem fleet_partitions_exchanges_witness:
  "\<exists>args st. resolve_enabled_exchanges (requested_exchanges args st) EXCHANGES =
       Inr [''aster'', ''bybit'', ''okx''] \<and>
     (\<forall>x\<in>{''aster'', ''bybit'', ''okx''}. \<exists>!i. i \<in> {0..<2} \<and>
       (\<exists>cs rs. instance_exchanges args st i 2 = Inr (cs, rs) \<and> x \<in> set cs))"
proof -
  let ?a = "\<lparr>arg_exchanges = Some ''okx, bybit,aster'', arg_debug_exchanges = None,
    arg_debug_exchanges_live = None, arg_instance_id = None, arg_total_instances = None\<rparr>"
  let ?t = "\<lparr>engine_kwargs = [], session_kwargs = []\<rparr>"
  let ?s = "\<lparr>connection_url = [], tuning = ?t, enabled_exchanges = None,
    app = \<lparr>env_debug_exchanges = None, env_debug_exchanges_live = None,
           env_instance_id = 0, env_total_instances = 1\<rparr>\<rparr>"
  have p: "resolve_enabled_exchanges (requested_exchanges ?a ?s) EXCHANGES =
      Inr [''aster'', ''bybit'', ''okx'']" by code_simp
  have "(0::int) < 2" by simp
  from fleet_partitions_exchanges [OF p this] have
    "\<forall>x\<in>set [''aster'', ''bybit'', ''okx'']. \<exists>!i. i \<in> {0..<2} \<and>
       (\<exists>cs rs. instance_exchanges ?a ?s i 2 = Inr (cs, rs) \<and> x \<in> set cs)"
    by (rule conjunct2)
  then have q: "\<forall>x\<in>{''aster'', ''bybit'', ''okx''}. \<exists>!i. i \<in> {0..<2} \<and>
       (\<exists>cs rs. instance_exchanges ?a ?s i 2 = Inr (cs, rs) \<and> x \<in> set cs)"
    by (simp only: list.set)
  show ?thesis by (intro exI conjI) (rule p, rule q)
qed

end
