(* ===== verification/Registry.thy ===== *)
theory Registry
  imports Store Selection
begin

text \<open>
  \<open>tracker/orchestration/contract_registry.py\<close>: the singleton job that reconciles the contract
  list an exchange publishes with the database, and \<open>_ensure_sections\<close> of
  \<open>tracker/bootstrap.py\<close>, which seeds the rows it refers to. The abstract view of a section is
  a map from (asset, quote) to the lifecycle flag and the funding interval; one registry run
  refines \<open>sync_spec\<close> on it.
\<close>

section \<open>Definitions\<close>

record listing =
  l_asset :: string
  l_quote :: string
  l_interval :: int
  l_section :: string

type_synonym ckey = "string \<times> string"

definition l_key :: "listing \<Rightarrow> ckey" where "l_key l = (l_asset l, l_quote l)"
definition ck :: "contract_row \<Rightarrow> ckey" where "ck c = (c_asset c, c_quote c)"

record plan =
  added :: "listing list"
  deprecated :: "contract_row list"
  reactivated :: "contract_row list"
  interval_changes :: "(contract_row \<times> int) list"

definition has_changes :: "plan \<Rightarrow> bool" where
  "has_changes p \<longleftrightarrow> added p \<noteq> [] \<or> deprecated p \<noteq> [] \<or> reactivated p \<noteq> [] \<or> interval_changes p \<noteq> []"

record registry_result =
  feed_contracts :: nat
  added_contracts :: nat
  deprecated_contracts :: nat
  reactivated_contracts :: nat
  interval_change_count :: nat
  mv_refresh_signaled :: bool

definition empty_result :: registry_result where
  "empty_result = \<lparr>feed_contracts = 0, added_contracts = 0, deprecated_contracts = 0,
     reactivated_contracts = 0, interval_change_count = 0, mv_refresh_signaled = False\<rparr>"

definition feed_by_key :: "listing list \<Rightarrow> (ckey, listing) dict res" where
  "feed_by_key feed = rfold (\<lambda>d l. if l_key l \<in> fst ` set d then Inl ValueError
     else Inr (AList.update (l_key l) l d)) [] feed"

definition reconcile :: "contract_row list \<Rightarrow> listing list \<Rightarrow> plan res" where
  "reconcile existing feed = rbind (feed_by_key feed) (\<lambda>fd.
     let ex = dict_of (map (\<lambda>c. (ck c, c)) existing) in
     Inr \<lparr>added = map snd (filter (\<lambda>(k, l). map_of ex k = None) fd),
          deprecated = map snd (filter (\<lambda>(k, c). map_of fd k = None \<and> \<not> c_deprecated c) ex),
          reactivated = map snd (filter (\<lambda>(k, c). map_of fd k \<noteq> None \<and> c_deprecated c) ex),
          interval_changes = List.map_filter (\<lambda>(k, c). case map_of fd k of
             Some l \<Rightarrow> if c_interval c \<noteq> l_interval l then Some (c, l_interval l) else None
           | None \<Rightarrow> None) ex\<rparr>)"

text \<open>Sets of \<open>Quote\<close> and \<open>Asset\<close> objects, equal by name; their iteration order is free in
  Python and is the order of first occurrence here.\<close>

definition ensure_quotes_and_assets :: "listing list \<Rightarrow> unit tx" where
  "ensure_quotes_and_assets feed d =
     rbind (bulk_insert 1000 (ignore_stmt (\<lambda>q. q)) (remdups (map l_quote feed)) (quotes d)) (\<lambda>qs.
     rbind (bulk_insert 1000 (ignore_stmt a_name)
              (map (\<lambda>a. \<lparr>a_name = a, a_rank = None\<rparr>) (remdups (map l_asset feed))) (assets d)) (\<lambda>as.
       Inr ((), d\<lparr>quotes := qs, assets := as\<rparr>)))"

definition c_clash :: "contract_row \<Rightarrow> contract_row \<Rightarrow> bool" where
  "c_clash a b \<longleftrightarrow> c_id a = c_id b \<or> c_key a = c_key b"

text \<open>\<open>Contract(...)\<close>: the i-th row built in a run gets the i-th fresh UUID.\<close>

definition new_row :: "string \<Rightarrow> nat \<Rightarrow> listing \<Rightarrow> contract_row" where
  "new_row sec uid l = \<lparr>c_id = uid, c_asset = l_asset l, c_section = sec, c_interval = l_interval l,
     c_quote = l_quote l, c_special = JObj [], c_deprecated = False\<rparr>"

definition set_deprecated :: "bool \<Rightarrow> contract_row list \<Rightarrow> contract_row list \<Rightarrow> contract_row list" where
  "set_deprecated b ms cs = map (\<lambda>c. if c_id c \<in> c_id ` set ms then c\<lparr>c_deprecated := b\<rparr> else c) cs"

definition set_intervals :: "(contract_row \<times> int) list \<Rightarrow> contract_row list \<Rightarrow> contract_row list" where
  "set_intervals chs cs = foldl (\<lambda>cs (m, n).
     map (\<lambda>c. if c_id c = c_id m then c\<lparr>c_interval := n\<rparr> else c) cs) cs chs"

definition apply_plan :: "(nat \<Rightarrow> nat) \<Rightarrow> string \<Rightarrow> plan \<Rightarrow> unit tx" where
  "apply_plan uuids sec p d =
     (let rows = map (\<lambda>i. new_row sec (uuids i) (added p ! i)) [0..<length (added p)] in
      rbind (bulk_insert 1000 (strict_stmt c_clash (contract_fk d)) rows (contracts d)) (\<lambda>cs.
        Inr ((), d\<lparr>contracts := set_intervals (interval_changes p)
          (set_deprecated False (reactivated p) (set_deprecated True (deprecated p) cs))\<rparr>)))"

text \<open>The result carries the signals sent to the view refresher. \<open>fetched\<close> is the outcome of
  \<open>adapter.get_contracts()\<close>.\<close>

definition register_contracts ::
  "(nat \<Rightarrow> nat) \<Rightarrow> utc \<Rightarrow> string \<Rightarrow> listing list res \<Rightarrow> (registry_result \<times> string list) tx" where
  "register_contracts uuids now sec fetched d = rbind fetched (\<lambda>feed.
     if feed = [] then Inr ((empty_result, []), d)
     else rbind (ensure_quotes_and_assets feed d) (\<lambda>(_, d1).
          rbind (reconcile (get_by_section d1 sec) feed) (\<lambda>p.
          rbind (apply_plan uuids sec p d1) (\<lambda>(_, d2).
          rbind (create_missing_for_section now sec d2) (\<lambda>(_, d3).
            Inr ((\<lparr>feed_contracts = length feed, added_contracts = length (added p),
                   deprecated_contracts = length (deprecated p),
                   reactivated_contracts = length (reactivated p),
                   interval_change_count = length (interval_changes p),
                   mv_refresh_signaled = has_changes p\<rparr>,
                  if has_changes p then [sec] else []), d3))))))"

text \<open>The scheduler-facing job swallows every exception; the database is then as it was.\<close>

definition run_contract_registry ::
  "(nat \<Rightarrow> nat) \<Rightarrow> utc \<Rightarrow> string \<Rightarrow> listing list res \<Rightarrow> db \<Rightarrow> (registry_result \<times> string list) \<times> db" where
  "run_contract_registry uuids now sec fetched d =
     (case register_contracts uuids now sec fetched d of
        Inr r \<Rightarrow> r | Inl _ \<Rightarrow> ((empty_result, []), d))"

definition ensure_sections :: "string list \<Rightarrow> unit tx" where
  "ensure_sections names d =
     (if names = [] then Inr ((), d)
      else rbind (bulk_insert 1000 (ignore_stmt s_name)
                   (map (\<lambda>n. \<lparr>s_name = n, s_special = JObj []\<rparr>) names) (sections d))
           (\<lambda>ss. Inr ((), d\<lparr>sections := ss\<rparr>)))"

section \<open>The abstract view\<close>

definition section_view :: "db \<Rightarrow> string \<Rightarrow> ckey \<rightharpoonup> bool \<times> int" where
  "section_view d sec = map_of (map (\<lambda>c. (ck c, (c_deprecated c, c_interval c))) (get_by_section d sec))"

definition feed_map :: "listing list \<Rightarrow> ckey \<rightharpoonup> listing" where
  "feed_map feed = map_of (map (\<lambda>l. (l_key l, l)) feed)"

definition sync_spec :: "listing list \<Rightarrow> (ckey \<rightharpoonup> bool \<times> int) \<Rightarrow> ckey \<rightharpoonup> bool \<times> int" where
  "sync_spec feed v = (\<lambda>k. case feed_map feed k of
      Some l \<Rightarrow> Some (False, l_interval l)
    | None \<Rightarrow> (case v k of None \<Rightarrow> None | Some (dep, i) \<Rightarrow> Some (True, i)))"

section \<open>Reconciliation\<close>

lemma feed_by_key_aux:
  "rfold (\<lambda>d l. if l_key l \<in> fst ` set d then Inl ValueError
     else Inr (AList.update (l_key l) l d)) d feed =
   (if distinct (map l_key feed) \<and> (\<forall>l\<in>set feed. l_key l \<notin> fst ` set d)
    then Inr (d @ map (\<lambda>l. (l_key l, l)) feed) else Inl ValueError)"
proof (induction feed arbitrary: d)
  case (Cons l feed)
  show ?case
  proof (cases "l_key l \<in> fst ` set d")
    case False
    then have u: "AList.update (l_key l) l d = d @ [(l_key l, l)]" by (rule update_append_new)
    have "(distinct (map l_key feed) \<and> (\<forall>m\<in>set feed. l_key m \<notin> insert (l_key l) (fst ` set d))) =
        (distinct (map l_key (l # feed)) \<and> (\<forall>m\<in>set (l # feed). l_key m \<notin> fst ` set d))"
      using False by (simp add: image_iff) metis
    moreover have "fst ` set (d @ [(l_key l, l)]) = insert (l_key l) (fst ` set d)" by simp
    ultimately show ?thesis using False by (simp only: rfold.simps u Cons.IH if_False rbind_simps) simp
  qed simp
qed simp

lemma feed_by_key_eq:
  "feed_by_key feed = (if distinct (map l_key feed) then Inr (map (\<lambda>l. (l_key l, l)) feed)
     else Inl ValueError)"
  by (simp add: feed_by_key_def feed_by_key_aux)

lemma existing_dict: "distinct (map ck ex) \<Longrightarrow> dict_of (map (\<lambda>c. (ck c, c)) ex) = map (\<lambda>c. (ck c, c)) ex"
  by (simp add: dict_of_distinct comp_def)

lemma map_of_ck_None: "map_of (map (\<lambda>c. (f c, c)) cs) k = None \<longleftrightarrow> k \<notin> f ` set cs"
  by (induction cs) auto

lemma reconcile_eq:
  assumes "distinct (map ck ex)" "distinct (map l_key feed)"
  shows "reconcile ex feed = Inr \<lparr>
     added = filter (\<lambda>l. l_key l \<notin> ck ` set ex) feed,
     deprecated = filter (\<lambda>c. feed_map feed (ck c) = None \<and> \<not> c_deprecated c) ex,
     reactivated = filter (\<lambda>c. feed_map feed (ck c) \<noteq> None \<and> c_deprecated c) ex,
     interval_changes = List.map_filter (\<lambda>c. case feed_map feed (ck c) of
         Some l \<Rightarrow> if c_interval c \<noteq> l_interval l then Some (c, l_interval l) else None
       | None \<Rightarrow> None) ex\<rparr>"
proof -
  have f: "map snd (filter (\<lambda>(k, x). P k x) (map (\<lambda>x. (g x, x)) xs)) = filter (\<lambda>x. P (g x) x) xs"
    for P :: "ckey \<Rightarrow> 'x \<Rightarrow> bool" and g xs by (induction xs) auto
  have m: "List.map_filter h (map (\<lambda>x. (g x, x)) xs) = List.map_filter (\<lambda>x. h (g x, x)) xs"
    for h :: "ckey \<times> contract_row \<Rightarrow> (contract_row \<times> int) option" and g xs
    by (simp add: map_filter_def filter_map comp_def)
  show ?thesis
    by (simp add: reconcile_def feed_by_key_eq assms existing_dict f m map_of_ck_None
        flip: feed_map_def)
qed

lemma reconcile_dup: "\<not> distinct (map l_key feed) \<Longrightarrow> reconcile ex feed = Inl ValueError"
  by (simp add: reconcile_def feed_by_key_eq)

lemma set_intervals_eq:
  "set_intervals chs cs = map (\<lambda>c. case map_of (rev (map (\<lambda>(m, n). (c_id m, n)) chs)) (c_id c) of
     None \<Rightarrow> c | Some n \<Rightarrow> c\<lparr>c_interval := n\<rparr>) cs"
proof (induction chs arbitrary: cs)
  case Nil
  then show ?case by (simp add: set_intervals_def)
next
  case (Cons ch chs)
  obtain m n where [simp]: "ch = (m, n)" by force
  let ?cs = "map (\<lambda>c. if c_id c = c_id m then c\<lparr>c_interval := n\<rparr> else c) cs"
  have "set_intervals (ch # chs) cs = set_intervals chs ?cs" by (simp add: set_intervals_def)
  then show ?case
    by (auto simp: Cons.IH map_add_def split: option.splits)
qed

text \<open>The row of the section as the plan leaves it.\<close>

definition sync_row :: "listing list \<Rightarrow> contract_row \<Rightarrow> contract_row" where
  "sync_row feed c = (case feed_map feed (ck c) of
     Some l \<Rightarrow> c\<lparr>c_deprecated := False, c_interval := l_interval l\<rparr>
   | None \<Rightarrow> c\<lparr>c_deprecated := True\<rparr>)"

lemma sync_row_simps [simp]:
  "c_id (sync_row feed c) = c_id c" "c_section (sync_row feed c) = c_section c"
  "c_asset (sync_row feed c) = c_asset c" "c_quote (sync_row feed c) = c_quote c"
  "ck (sync_row feed c) = ck c" "c_key (sync_row feed c) = c_key c"
  by (simp_all add: sync_row_def ck_def c_key_def split: option.splits)

lemma sync_row_idem [simp]: "sync_row feed (sync_row feed c) = sync_row feed c"
  by (simp add: sync_row_def ck_def split: option.splits)

lemma pairwise_free_clash:
  "pairwise_free c_clash cs \<longleftrightarrow> distinct (map c_id cs) \<and> distinct (map c_key cs)"
  by (induction cs) (auto simp: c_clash_def image_iff)

lemma id_mem:
  "distinct (map c_id cs) \<Longrightarrow> c \<in> set cs \<Longrightarrow> set ms \<subseteq> set cs \<Longrightarrow> c_id c \<in> c_id ` set ms \<longleftrightarrow> c \<in> set ms"
  by (auto simp: distinct_map inj_on_def)

lemma plan_row:
  "(case (if b then map_option snd (case m of
        Some l \<Rightarrow> if c_interval c \<noteq> l_interval l then Some (c, l_interval l) else None
      | None \<Rightarrow> None) else None) of
      None \<Rightarrow> (if b \<and> m \<noteq> None \<and> c_deprecated c
        then (if b \<and> m = None \<and> \<not> c_deprecated c
              then c\<lparr>c_deprecated := True\<rparr> else c)\<lparr>c_deprecated := False\<rparr>
        else (if b \<and> m = None \<and> \<not> c_deprecated c
              then c\<lparr>c_deprecated := True\<rparr> else c))
    | Some n \<Rightarrow> (if b \<and> m \<noteq> None \<and> c_deprecated c
        then (if b \<and> m = None \<and> \<not> c_deprecated c
              then c\<lparr>c_deprecated := True\<rparr> else c)\<lparr>c_deprecated := False\<rparr>
        else (if b \<and> m = None \<and> \<not> c_deprecated c
              then c\<lparr>c_deprecated := True\<rparr> else c))\<lparr>c_interval := n\<rparr>) =
   (if b then case m of Some l \<Rightarrow> c\<lparr>c_deprecated := False, c_interval := l_interval l\<rparr>
     | None \<Rightarrow> c\<lparr>c_deprecated := True\<rparr> else c)"
  by (cases b; cases m; cases c) simp_all

lemma interval_lookup:
  fixes h :: "contract_row \<Rightarrow> (contract_row \<times> int) option"
  assumes d: "distinct (map c_id cs)" and sub: "set ex \<subseteq> set cs" "distinct ex" and c: "c \<in> set cs"
    and h: "\<And>x y n. h x = Some (y, n) \<Longrightarrow> y = x"
  shows "map_of (rev (map (\<lambda>(m, n). (c_id m, n)) (List.map_filter h ex))) (c_id c) =
    (if c \<in> set ex then map_option snd (h c) else None)"
proof -
  let ?L = "map (\<lambda>(m, n). (c_id m, n :: int)) (List.map_filter h ex)"
  have fst: "map fst ?L = map c_id (filter (\<lambda>x. h x \<noteq> None) ex)"
  proof (induction ex)
    case (Cons x xs)
    then show ?case using h [of x] by (cases "h x") (auto simp: map_filter_simps)
  qed (simp add: map_filter_simps)
  have inj: "inj_on c_id (set cs)" using d by (simp add: distinct_map)
  have "distinct (map fst ?L)"
    unfolding fst distinct_map using sub
    by (intro conjI distinct_filter inj_on_subset [OF inj]) auto
  then have dr: "distinct (map fst (rev ?L))" by (simp flip: rev_map)
  show ?thesis
  proof (cases "c \<in> set ex \<and> h c \<noteq> None")
    case True
    then obtain n where n: "h c = Some (c, n)" using h by fastforce
    then have "(c, n) \<in> set (List.map_filter h ex)"
      using True by (force simp: map_filter_def)
    then have "(c_id c, n) \<in> set (rev ?L)" by force
    then show ?thesis using dr True n by (simp add: map_of_is_SomeI)
  next
    case False
    have "c_id c \<notin> set (map fst ?L)"
    proof
      assume "c_id c \<in> set (map fst ?L)"
      then obtain x where "x \<in> set ex" "h x \<noteq> None" "c_id x = c_id c" unfolding fst by auto
      then have "x = c" using inj sub c by (auto dest: inj_onD)
      then show False using False \<open>x \<in> set ex\<close> \<open>h x \<noteq> None\<close> by simp
    qed
    then have "map_of (rev ?L) (c_id c) = None" by (simp add: map_of_eq_None_iff image_image)
    then show ?thesis using False by (cases "h c") simp_all
  qed
qed

lemma ensure_eq:
  "ensure_quotes_and_assets feed d = Inr ((), d\<lparr>
     quotes := fst (insert_ignore (\<lambda>q. q) (quotes d) (remdups (map l_quote feed))),
     assets := fst (insert_ignore a_name (assets d)
       (map (\<lambda>a. \<lparr>a_name = a, a_rank = None\<rparr>) (remdups (map l_asset feed))))\<rparr>)"
  by (simp add: ensure_quotes_and_assets_def bulk_insert_ignore)

lemma get_by_section_distinct:
  assumes "distinct (map c_id (contracts d))" "distinct (map c_key (contracts d))"
  shows "distinct (map ck (get_by_section d sec))" "distinct (get_by_section d sec)"
proof -
  have "distinct (map c_key (get_by_section d sec))"
    unfolding get_by_section_def by (rule distinct_map_filter) (rule assms)
  then show "distinct (map ck (get_by_section d sec))"
    by (auto simp: distinct_map inj_on_def c_key_def ck_def get_by_section_def)
  have "distinct (contracts d)" using assms(1) by (simp add: distinct_map)
  then show "distinct (get_by_section d sec)" by (simp add: get_by_section_def)
qed

text \<open>The plan of \<open>reconcile\<close>, applied: every row of the section is synchronised with the feed,
  and the missing listings are appended.\<close>

lemma apply_plan_eq:
  assumes rec: "reconcile (get_by_section d sec) feed = Inr p"
    and ap: "apply_plan uuids sec p d = Inr (u, d')"
    and dist: "distinct (map c_id (contracts d))" "distinct (map c_key (contracts d))"
  obtains rows where
    "d' = d\<lparr>contracts := map (\<lambda>c. if c_section c = sec then sync_row feed c else c) (contracts d) @ rows\<rparr>"
    "rows = map (\<lambda>i. new_row sec (uuids i) (added p ! i)) [0..<length (added p)]"
    "list_all (contract_fk d) rows"
    "distinct (map c_id (contracts d @ rows))" "distinct (map c_key (contracts d @ rows))"
    "distinct (map l_key feed)"
proof -
  let ?ex = "get_by_section d sec"
  define rows where "rows = map (\<lambda>i. new_row sec (uuids i) (added p ! i)) [0..<length (added p)]"
  have df: "distinct (map l_key feed)" using rec reconcile_dup by fastforce
  note ex = get_by_section_distinct [OF dist, of sec]
  have exs: "set ?ex \<subseteq> set (contracts d)" by (auto simp: get_by_section_def)
  from reconcile_eq [OF ex(1) df] rec have p:
    "deprecated p = filter (\<lambda>c. feed_map feed (ck c) = None \<and> \<not> c_deprecated c) ?ex"
    "reactivated p = filter (\<lambda>c. feed_map feed (ck c) \<noteq> None \<and> c_deprecated c) ?ex"
    "interval_changes p = List.map_filter (\<lambda>c. case feed_map feed (ck c) of
         Some l \<Rightarrow> if c_interval c \<noteq> l_interval l then Some (c, l_interval l) else None
       | None \<Rightarrow> None) ?ex" by auto
  from ap have st: "strict_stmt c_clash (contract_fk d) (contracts d) rows = Inr (contracts d @ rows)"
    and d'0: "d' = d\<lparr>contracts := set_intervals (interval_changes p)
          (set_deprecated False (reactivated p) (set_deprecated True (deprecated p) (contracts d @ rows)))\<rparr>"
    by (auto simp: apply_plan_def rows_def bulk_insert_strict res_simps Let_def strict_stmt_def
        dest: insert_strict_ok split: if_splits)
  from st have fk: "list_all (contract_fk d) rows" and ins: "insert_strict c_clash (contracts d) rows = Inr (contracts d @ rows)"
    by (auto simp: strict_stmt_def split: if_splits)
  have "pairwise_free c_clash (contracts d)" using dist by (simp add: pairwise_free_clash)
  from insert_strict_iff [OF this] ins have pf: "pairwise_free c_clash (contracts d @ rows)"
    by (auto split: if_splits)
  then have ids: "distinct (map c_id (contracts d @ rows))" "distinct (map c_key (contracts d @ rows))"
    by (simp_all only: pairwise_free_clash)
  have exs': "set ?ex \<subseteq> set (contracts d @ rows)" using exs by auto
  define h where "h c = (case feed_map feed (ck c) of
         Some l \<Rightarrow> if c_interval c \<noteq> l_interval l then Some (c, l_interval l) else None
       | None \<Rightarrow> None)" for c
  have hh: "\<And>x y n. h x = Some (y, n) \<Longrightarrow> y = x"
    by (auto simp: h_def split: option.splits if_splits)
  have row: "(case map_of (rev (map (\<lambda>(m, n). (c_id m, n)) (interval_changes p))) (c_id c2) of
      None \<Rightarrow> c2 | Some n \<Rightarrow> c2\<lparr>c_interval := n\<rparr>) = (if c \<in> set ?ex then sync_row feed c else c)"
    if c: "c \<in> set (contracts d @ rows)"
      and c2: "c2 = (if c_id c1 \<in> c_id ` set (reactivated p) then c1\<lparr>c_deprecated := False\<rparr> else c1)"
      and c1: "c1 = (if c_id c \<in> c_id ` set (deprecated p) then c\<lparr>c_deprecated := True\<rparr> else c)" for c c1 c2
  proof -
    have "set (deprecated p) \<subseteq> set (contracts d @ rows)" "set (reactivated p) \<subseteq> set (contracts d @ rows)"
      using exs' by (auto simp: p)
    then have e: "c_id c \<in> c_id ` set (deprecated p) \<longleftrightarrow> c \<in> set (deprecated p)"
      "c_id c \<in> c_id ` set (reactivated p) \<longleftrightarrow> c \<in> set (reactivated p)"
      using id_mem [OF ids(1) c] by blast+
    have l: "map_of (rev (map (\<lambda>(m, n). (c_id m, n)) (interval_changes p))) (c_id c) =
        (if c \<in> set ?ex then map_option snd (h c) else None)"
      unfolding p(3) h_def [symmetric] by (rule interval_lookup [OF ids(1) exs' ex(2) c hh])
    have i: "c_id c1 = c_id c" "c_id c2 = c_id c" using c1 c2 by simp_all
    show ?thesis
      unfolding i l
      unfolding c2 [unfolded i] c1 e
      unfolding p(1,2) h_def set_filter mem_Collect_eq sync_row_def by (rule plan_row)
  qed
  have mem: "c \<in> set ?ex \<longleftrightarrow> c_section c = sec" if "c \<in> set (contracts d)" for c
    using that by (simp add: get_by_section_def)
  have nmem: "c \<notin> set ?ex" if "c \<in> set rows" for c
    using that ids(1) exs by (auto simp: image_iff)
  have "set_intervals (interval_changes p)
          (set_deprecated False (reactivated p) (set_deprecated True (deprecated p) (contracts d @ rows)))
      = map (\<lambda>c. if c \<in> set ?ex then sync_row feed c else c) (contracts d @ rows)"
    unfolding set_intervals_eq set_deprecated_def map_map comp_def
    by (rule map_cong [OF refl], rule row [OF _ refl refl])
  also have "\<dots> = map (\<lambda>c. if c_section c = sec then sync_row feed c else c) (contracts d) @ rows"
    using mem nmem by (simp add: map_idI)
  finally have "d' = d\<lparr>contracts := map (\<lambda>c. if c_section c = sec then sync_row feed c else c) (contracts d) @ rows\<rparr>"
    unfolding d'0 by simp
  from that [OF this rows_def fk ids df] show thesis .
qed

section \<open>Each statement keeps the database invariant\<close>

lemma ensure_ok:
  assumes "ensure_quotes_and_assets feed d = Inr (u, d1)" "db_ok d"
  shows "db_ok d1" "contracts d1 = contracts d" "history_states d1 = history_states d"
    "historical_points d1 = historical_points d" "live_points d1 = live_points d"
    "sections d1 = sections d"
    "l_asset ` set feed \<subseteq> a_name ` set (assets d1)" "a_name ` set (assets d) \<subseteq> a_name ` set (assets d1)"
    "l_quote ` set feed \<subseteq> set (quotes d1)"
proof -
  let ?as = "map (\<lambda>a. \<lparr>a_name = a, a_rank = None\<rparr>) (remdups (map l_asset feed))"
  from assms(1) have d1: "d1 = d\<lparr>quotes := fst (insert_ignore (\<lambda>q. q) (quotes d) (remdups (map l_quote feed))),
     assets := fst (insert_ignore a_name (assets d) ?as)\<rparr>" by (simp add: ensure_eq)
  show s: "contracts d1 = contracts d" "history_states d1 = history_states d"
    "historical_points d1 = historical_points d" "live_points d1 = live_points d"
    "sections d1 = sections d" by (simp_all add: d1)
  have k: "a_name ` set (assets d1) = a_name ` set (assets d) \<union> l_asset ` set feed"
    by (simp add: d1 insert_ignore_keys image_image)
  then show "l_asset ` set feed \<subseteq> a_name ` set (assets d1)" "a_name ` set (assets d) \<subseteq> a_name ` set (assets d1)"
    by auto
  have q: "set (quotes d1) = set (quotes d) \<union> l_quote ` set feed"
    using insert_ignore_keys [of "\<lambda>q. q" "quotes d" "remdups (map l_quote feed)"] by (simp add: d1)
  then show "l_quote ` set feed \<subseteq> set (quotes d1)" by simp
  have "distinct (map a_name (assets d1))"
    using assms(2) insert_ignore_distinct [of a_name "assets d" ?as] by (simp add: d1 db_ok_def)
  moreover have "distinct (quotes d1)"
    using assms(2) insert_ignore_distinct [of "\<lambda>q. q" "quotes d" "remdups (map l_quote feed)"]
    by (simp add: d1 db_ok_def)
  moreover have "list_all (contract_fk d1) (contracts d)"
    using assms(2) k by (auto simp: db_ok_def list_all_iff contract_fk_def s)
  ultimately show "db_ok d1"
    using assms(2) fk_contract_cong [of d1 d] s by (simp add: db_ok_def)
qed

lemma create_missing_db_ok:
  assumes "create_missing_for_section now sec d = Inr (u, d')" "db_ok d"
  shows "db_ok d'"
proof -
  from create_missing_spec [OF assms(1)] obtain new where
    d': "d' = d\<lparr>history_states := history_states d @ new\<rparr>"
    and new: "set new \<subseteq> fresh_state now ` set (get_by_section d sec)"
    and keys: "hs_contract ` set (history_states d') =
       hs_contract ` set (history_states d) \<union> c_id ` set (get_by_section d sec)"
    and dist: "distinct (map hs_contract (history_states d)) \<longrightarrow> distinct (map hs_contract (history_states d'))"
    by blast
  have sub: "hs_contract ` set (history_states d') \<subseteq> c_id ` set (contracts d)"
    using assms(2) unfolding keys by (auto simp: db_ok_def get_by_section_def)
  have "synced_has_bounds (fresh_state now c)" for c by (simp add: synced_has_bounds_def fresh_state_def)
  then have "list_all synced_has_bounds new" using new unfolding list_all_iff by blast
  then have "list_all synced_has_bounds (history_states d')"
    using assms(2) by (simp add: d' db_ok_def)
  moreover have "sections d' = sections d" "assets d' = assets d" "quotes d' = quotes d"
    "contracts d' = contracts d" "historical_points d' = historical_points d" "live_points d' = live_points d"
    by (simp_all add: d')
  ultimately show ?thesis
    using assms(2) sub dist contract_fk_cong [of d' d] fk_contract_cong [of d' d]
    by (simp add: db_ok_def)
qed

lemma create_missing_bounds_tight:
  assumes "create_missing_for_section now sec d = Inr (u, d')" "db_ok d" "bounds_tight d"
  shows "bounds_tight d'"
proof -
  obtain new where
    d': "d' = d\<lparr>history_states := history_states d @ new\<rparr>"
    and new: "set new \<subseteq> fresh_state now ` set (get_by_section d sec)"
    and dist: "distinct (map hs_contract (history_states d)) \<longrightarrow> distinct (map hs_contract (history_states d'))"
    by (rule create_missing_spec [OF assms(1)])
  have t: "times_of d' = times_of d" by (rule times_of_cong) (simp add: d')
  have tight: "state_tight d' = state_tight d" by (simp add: fun_eq_iff state_tight_def t)
  have "state_tight d s" if "s \<in> set new" for s
  proof -
    have "distinct (map hs_contract (history_states d @ new))"
      using assms(2) dist by (simp add: d' db_ok_def)
    then have "hs_contract s \<notin> hs_contract ` set (history_states d)"
      using that by (auto simp: image_iff)
    then have "hs_contract s \<notin> p_contract ` set (historical_points d)"
      using assms(3) unfolding bounds_tight_def by blast
    then have "times_of d (hs_contract s) = []"
      by (simp add: times_of_def points_of_def filter_empty_iff_all image_iff) metis
    moreover from that new obtain c where "s = fresh_state now c" by blast
    ultimately show ?thesis by (simp add: state_tight_def fresh_state_def least_of_def greatest_of_def)
  qed
  then have "list_all (state_tight d) new" by (simp add: list_all_iff)
  moreover have "history_states d' = history_states d @ new" "historical_points d' = historical_points d"
    by (simp_all add: d')
  ultimately show ?thesis
    using assms(3) unfolding bounds_tight_def tight by auto
qed

lemma db_ok_contract_ids: "db_ok d \<Longrightarrow> distinct (map c_id (contracts d))"
  "db_ok d \<Longrightarrow> distinct (map c_key (contracts d))"
  by (simp_all add: db_ok_def)

lemma apply_plan_ok:
  assumes "reconcile (get_by_section d sec) feed = Inr p"
    and "apply_plan uuids sec p d = Inr (u, d')" and ok: "db_ok d"
  shows "db_ok d'" "bounds_tight d \<Longrightarrow> bounds_tight d'"
proof -
  let ?g = "\<lambda>c. if c_section c = sec then sync_row feed c else c"
  obtain rows where d': "d' = d\<lparr>contracts := map ?g (contracts d) @ rows\<rparr>"
    and fk: "list_all (contract_fk d) rows"
    and dist: "distinct (map c_id (contracts d @ rows))" "distinct (map c_key (contracts d @ rows))"
    by (rule apply_plan_eq [OF assms(1,2) db_ok_contract_ids [OF ok]])
  have g: "c_id (?g c) = c_id c" "c_key (?g c) = c_key c" "contract_fk e (?g c) = contract_fk e c" for c e
    by (simp_all add: contract_fk_def)
  have m: "map c_id (contracts d') = map c_id (contracts d @ rows)"
    "map c_key (contracts d') = map c_key (contracts d @ rows)"
    unfolding d' by (simp_all add: comp_def g)
  then have ids: "c_id ` set (contracts d') = c_id ` set (contracts d) \<union> c_id ` set rows"
    by (metis image_Un set_append set_map)
  have o: "sections d' = sections d" "assets d' = assets d" "quotes d' = quotes d"
    "history_states d' = history_states d" "historical_points d' = historical_points d"
    "live_points d' = live_points d" by (simp_all add: d')
  have cf: "contract_fk d' = contract_fk d" by (rule contract_fk_cong) (simp_all add: o)
  have c': "contracts d' = map ?g (contracts d) @ rows" by (simp add: d')
  have "list_all (contract_fk d') (contracts d')"
    unfolding cf c' list_all_append list_all_map_iff g
    using ok fk by (simp add: db_ok_def list_all_iff)
  moreover have "list_all (fk_contract d') ps" if "list_all (fk_contract d) ps" for ps
    using that ids by (auto simp: list_all_iff fk_contract_def)
  ultimately show "db_ok d'"
    using ok dist ids o by (auto simp: db_ok_def m simp del: map_append)
  show "bounds_tight d'" if "bounds_tight d"
  proof -
    have "times_of d' = times_of d" by (rule times_of_cong) (rule o)
    then have "state_tight d' = state_tight d" by (simp add: fun_eq_iff state_tight_def)
    then show ?thesis using that by (simp add: bounds_tight_def o)
  qed
qed

section \<open>One registry run\<close>

lemma register_steps:
  assumes "register_contracts uuids now sec (Inr feed) d = Inr ((r, sigs), d')" "feed \<noteq> []"
  obtains d1 p d2 where "ensure_quotes_and_assets feed d = Inr ((), d1)"
    "reconcile (get_by_section d1 sec) feed = Inr p"
    "apply_plan uuids sec p d1 = Inr ((), d2)"
    "create_missing_for_section now sec d2 = Inr ((), d')"
    "r = \<lparr>feed_contracts = length feed, added_contracts = length (added p),
          deprecated_contracts = length (deprecated p),
          reactivated_contracts = length (reactivated p),
          interval_change_count = length (interval_changes p),
          mv_refresh_signaled = has_changes p\<rparr>"
    "sigs = (if has_changes p then [sec] else [])"
  using assms by (auto simp: register_contracts_def res_simps)

lemma register_db_ok:
  assumes "register_contracts uuids now sec fetched d = Inr (r, d')" "db_ok d" "bounds_tight d"
  shows "db_ok d' \<and> bounds_tight d'"
proof -
  from assms(1) obtain feed where f: "fetched = Inr feed" by (auto simp: register_contracts_def res_simps)
  show ?thesis
  proof (cases "feed = []")
    case True
    then show ?thesis using assms f by (simp add: register_contracts_def)
  next
    case False
    obtain res sigs where rr: "r = (res, sigs)" by force
    from assms(1) have reg: "register_contracts uuids now sec (Inr feed) d = Inr ((res, sigs), d')"
      by (simp only: f rr)
    obtain d1 p d2 where e: "ensure_quotes_and_assets feed d = Inr ((), d1)"
      and rc: "reconcile (get_by_section d1 sec) feed = Inr p"
      and ap: "apply_plan uuids sec p d1 = Inr ((), d2)"
      and cm: "create_missing_for_section now sec d2 = Inr ((), d')"
      by (rule register_steps [OF reg False])
    note eo = ensure_ok [OF e assms(2)]
    have "times_of d1 = times_of d" by (rule times_of_cong) (rule eo(4))
    then have "state_tight d1 = state_tight d" by (simp add: fun_eq_iff state_tight_def)
    then have "bounds_tight d1" using assms(3) by (simp add: bounds_tight_def eo)
    then have "db_ok d2" "bounds_tight d2" using apply_plan_ok [OF rc ap eo(1)] by blast+
    then show ?thesis using create_missing_db_ok [OF cm] create_missing_bounds_tight [OF cm] by blast
  qed
qed

lemma feed_map_None: "feed_map feed k = None \<longleftrightarrow> k \<notin> l_key ` set feed"
  unfolding feed_map_def by (simp add: map_of_ck_None)

lemma feed_map_Some:
  "distinct (map l_key feed) \<Longrightarrow> feed_map feed k = Some l \<longleftrightarrow> l \<in> set feed \<and> l_key l = k"
  unfolding feed_map_def by (subst map_of_eq_Some_iff) (auto simp: comp_def)

lemma view_lookup:
  assumes "distinct (map ck (get_by_section d sec))" "c \<in> set (get_by_section d sec)"
  shows "section_view d sec (ck c) = Some (c_deprecated c, c_interval c)"
  unfolding section_view_def using assms
  by (intro map_of_is_SomeI) (auto simp: comp_def)

lemma view_None: "section_view d sec k = None \<longleftrightarrow> k \<notin> ck ` set (get_by_section d sec)"
  by (auto simp: section_view_def map_of_eq_None_iff image_iff)

lemma view_cong: "get_by_section d sec = get_by_section e sec \<Longrightarrow> section_view d sec = section_view e sec"
  by (simp add: section_view_def)

text \<open>What a successful run with a non-empty feed does to the contract table.\<close>

lemma register_contract_table:
  assumes reg: "register_contracts uuids now sec (Inr feed) d = Inr ((r, sigs), d')"
    and ne: "feed \<noteq> []" and ok: "db_ok d"
  obtains rows where
    "contracts d' = map (\<lambda>c. if c_section c = sec then sync_row feed c else c) (contracts d) @ rows"
    "set (map ck rows) = l_key ` set feed - ck ` set (get_by_section d sec)"
    "\<forall>x\<in>set rows. c_section x = sec \<and> \<not> c_deprecated x \<and> (\<exists>l\<in>set feed. ck x = l_key l \<and> c_interval x = l_interval l)"
    "distinct (map l_key feed)" "db_ok d'"
    "c_id ` set (get_by_section d' sec) \<subseteq> hs_contract ` set (history_states d')"
proof -
  obtain d1 p d2 where e: "ensure_quotes_and_assets feed d = Inr ((), d1)"
    and rc: "reconcile (get_by_section d1 sec) feed = Inr p"
    and ap: "apply_plan uuids sec p d1 = Inr ((), d2)"
    and cm: "create_missing_for_section now sec d2 = Inr ((), d')"
    by (rule register_steps [OF reg ne])
  note eo = ensure_ok [OF e ok]
  have gs: "get_by_section d1 sec = get_by_section d sec" by (simp add: get_by_section_def eo)
  obtain rows where d2: "d2 = d1\<lparr>contracts := map (\<lambda>c. if c_section c = sec then sync_row feed c else c) (contracts d1) @ rows\<rparr>"
    and rows: "rows = map (\<lambda>i. new_row sec (uuids i) (added p ! i)) [0..<length (added p)]"
    and df: "distinct (map l_key feed)"
    by (rule apply_plan_eq [OF rc ap db_ok_contract_ids [OF eo(1)]])
  obtain new where d': "d' = d2\<lparr>history_states := history_states d2 @ new\<rparr>"
    and keys: "hs_contract ` set (history_states d') =
       hs_contract ` set (history_states d2) \<union> c_id ` set (get_by_section d2 sec)"
    by (rule create_missing_spec [OF cm])
  have p: "added p = filter (\<lambda>l. l_key l \<notin> ck ` set (get_by_section d sec)) feed"
    using rc reconcile_eq [OF get_by_section_distinct(1) [OF db_ok_contract_ids [OF ok], of sec] df]
    by (auto simp: gs)
  have ckr: "map ck rows = map l_key (added p)"
    by (rule nth_equalityI) (simp_all add: rows new_row_def ck_def l_key_def)
  have "set (map ck rows) = l_key ` set feed - ck ` set (get_by_section d sec)"
  proof -
    have "l_key ` {l \<in> F. l_key l \<notin> A} = l_key ` F - A" for F A by auto
    then show ?thesis unfolding ckr p set_map set_filter .
  qed
  moreover have "\<forall>x\<in>set rows. c_section x = sec \<and> \<not> c_deprecated x \<and>
      (\<exists>l\<in>set feed. ck x = l_key l \<and> c_interval x = l_interval l)"
  proof
    fix x assume "x \<in> set rows"
    then obtain i where i: "i < length (added p)" "x = new_row sec (uuids i) (added p ! i)"
      by (auto simp: rows)
    then have "added p ! i \<in> set feed" using nth_mem [OF i(1)] unfolding p by simp
    then show "c_section x = sec \<and> \<not> c_deprecated x \<and> (\<exists>l\<in>set feed. ck x = l_key l \<and> c_interval x = l_interval l)"
      using i(2) by (auto simp: new_row_def ck_def l_key_def)
  qed
  moreover have "db_ok d'"
    using create_missing_db_ok [OF cm] apply_plan_ok(1) [OF rc ap eo(1)] by blast
  moreover have "get_by_section d' sec = get_by_section d2 sec" by (simp add: d' get_by_section_def)
  ultimately show thesis
    using that [of rows] df keys by (auto simp: d' d2 eo(2))
qed

text \<open>The refinement: the section's view becomes \<open>sync_spec\<close>, other sections keep theirs.\<close>

lemma register_refines:
  assumes reg: "register_contracts uuids now sec (Inr feed) d = Inr ((r, sigs), d')"
    and ne: "feed \<noteq> []" and ok: "db_ok d"
  shows "section_view d' sec = sync_spec feed (section_view d sec)"
    "s \<noteq> sec \<Longrightarrow> section_view d' s = section_view d s"
proof -
  let ?g = "\<lambda>c. if c_section c = sec then sync_row feed c else c"
  obtain rows where cs: "contracts d' = map ?g (contracts d) @ rows"
    and rk: "set (map ck rows) = l_key ` set feed - ck ` set (get_by_section d sec)"
    and rr: "\<forall>x\<in>set rows. c_section x = sec \<and> \<not> c_deprecated x \<and>
        (\<exists>l\<in>set feed. ck x = l_key l \<and> c_interval x = l_interval l)"
    and df: "distinct (map l_key feed)" and ok': "db_ok d'"
    by (rule register_contract_table [OF reg ne ok])
  have fm: "filter (\<lambda>c. c_section c = s) (map ?g xs) = map ?g (filter (\<lambda>c. c_section c = s) xs)" for s xs
    by (induction xs) auto
  have gs: "get_by_section d' sec = map (sync_row feed) (get_by_section d sec) @ rows"
    using rr by (auto simp: get_by_section_def cs fm intro!: filter_True)
  show "section_view d' s = section_view d s" if "s \<noteq> sec"
  proof -
    have "filter (\<lambda>c. c_section c = s) rows = []" using rr that by (auto simp: filter_empty_iff_all)
    moreover have "map ?g (filter (\<lambda>c. c_section c = s) xs) = filter (\<lambda>c. c_section c = s) xs" for xs
      using that by (intro map_idI) auto
    ultimately have "get_by_section d' s = get_by_section d s"
      by (simp add: get_by_section_def cs fm)
    then show ?thesis by (rule view_cong)
  qed
  note d1 = get_by_section_distinct(1) [OF db_ok_contract_ids [OF ok], of sec]
  note d2 = get_by_section_distinct(1) [OF db_ok_contract_ids [OF ok'], of sec]
  have kd: "ck ` set (get_by_section d' sec) = ck ` set (get_by_section d sec) \<union> ck ` set rows"
    by (simp add: gs image_Un image_image)
  show "section_view d' sec = sync_spec feed (section_view d sec)"
  proof
    fix k
    consider c where "c \<in> set (get_by_section d sec)" "k = ck c" | x where "x \<in> set rows" "k = ck x"
      | "k \<notin> ck ` set (get_by_section d' sec)" unfolding kd by blast
    then show "section_view d' sec k = sync_spec feed (section_view d sec) k"
    proof cases
      case 1
      then have "sync_row feed c \<in> set (get_by_section d' sec)" by (simp add: gs)
      from view_lookup [OF d2 this] view_lookup [OF d1 1(1)] 1(2) show ?thesis
        by (simp add: sync_spec_def sync_row_def ck_def split: option.splits)
    next
      case 2
      then have v: "section_view d' sec k = Some (False, c_interval x)"
        using view_lookup [OF d2, of x] rr by (simp add: gs)
      from rr 2 obtain l where l: "l \<in> set feed" "k = l_key l" "c_interval x = l_interval l" by auto
      then have "feed_map feed k = Some l" using feed_map_Some [OF df] by blast
      then show ?thesis using v l(3) by (simp add: sync_spec_def)
    next
      case 3
      then have "section_view d' sec k = None" by (simp add: view_None)
      moreover have "section_view d sec k = None" using 3 unfolding kd by (simp add: view_None)
      moreover have "feed_map feed k = None" using 3 rk unfolding kd by (auto simp: feed_map_None)
      ultimately show ?thesis by (simp add: sync_spec_def)
    qed
  qed
qed

text \<open>A run succeeds exactly when the feed has no duplicate key, given its section row and
  fresh UUIDs.\<close>

lemma register_succeeds:
  assumes ok: "db_ok d" and sec: "sec \<in> s_name ` set (sections d)" and df: "distinct (map l_key feed)"
    and fresh: "inj uuids" "\<forall>i. uuids i \<notin> c_id ` set (contracts d)"
  shows "\<exists>r d'. register_contracts uuids now sec (Inr feed) d = Inr (r, d')"
proof (cases "feed = []")
  case False
  obtain d1 where e: "ensure_quotes_and_assets feed d = Inr ((), d1)" by (simp add: ensure_eq)
  note eo = ensure_ok [OF e ok]
  let ?ex = "get_by_section d1 sec"
  note gd = get_by_section_distinct(1) [OF db_ok_contract_ids [OF eo(1)], of sec]
  from reconcile_eq [OF gd df] obtain p where rc: "reconcile ?ex feed = Inr p"
    and p: "added p = filter (\<lambda>l. l_key l \<notin> ck ` set ?ex) feed" by force
  let ?rows = "map (\<lambda>i. new_row sec (uuids i) (added p ! i)) [0..<length (added p)]"
  have ap_in: "added p ! i \<in> set feed" "l_key (added p ! i) \<notin> ck ` set ?ex" if "i < length (added p)" for i
    using nth_mem [OF that] by (simp_all add: p)
  have fk: "list_all (contract_fk d1) ?rows"
    using eo(6,7) sec ap_in by (auto simp: list_all_iff contract_fk_def new_row_def)
  have ids: "distinct (map c_id (contracts d1 @ ?rows))"
  proof -
    have m: "map c_id ?rows = map uuids [0..<length (added p)]" by (simp add: new_row_def)
    have "distinct (map uuids [0..<length (added p)])"
      using fresh(1) by (simp add: distinct_map inj_on_def inj_def)
    moreover have "set (map uuids [0..<length (added p)]) \<inter> set (map c_id (contracts d1)) = {}"
      using fresh(2) by (auto simp: eo(2) image_iff)
    ultimately show ?thesis
      unfolding map_append distinct_append m using db_ok_contract_ids(1) [OF eo(1)] by blast
  qed
  have "distinct (map l_key (added p))" unfolding p by (rule distinct_map_filter [OF df])
  moreover have "map ck ?rows = map l_key (added p)"
    by (rule nth_equalityI) (simp_all add: new_row_def ck_def l_key_def)
  ultimately have "distinct (map ck ?rows)" by (simp only:)
  moreover have "map ck ?rows = map (\<lambda>(a, s, q). (a, q)) (map c_key ?rows)"
    by (simp add: ck_def c_key_def)
  ultimately have "distinct (map (\<lambda>(a, s, q). (a, q)) (map c_key ?rows))" by (simp only:)
  then have dk: "distinct (map c_key ?rows)"
    unfolding distinct_map [of "\<lambda>(a, s, q). (a, q)" "map c_key ?rows"] by (rule conjunct1)
  have "c_key x \<notin> c_key ` set ?rows" if x: "x \<in> set (contracts d1)" for x
  proof
    assume "c_key x \<in> c_key ` set ?rows"
    then obtain i where i: "i < length (added p)" "c_key x = c_key (new_row sec (uuids i) (added p ! i))" by auto
    then have "c_section x = sec" "ck x = l_key (added p ! i)"
      by (auto simp: c_key_def new_row_def ck_def l_key_def)
    then have "x \<in> set ?ex" "l_key (added p ! i) = ck x" using x by (auto simp: get_by_section_def)
    then have "l_key (added p ! i) \<in> ck ` set ?ex" by (rule image_eqI [rotated])
    then show False using ap_in(2) [OF i(1)] by contradiction
  qed
  then have "c_key ` set (contracts d1) \<inter> c_key ` set ?rows = {}" by blast
  then have keys: "distinct (map c_key (contracts d1 @ ?rows))"
    unfolding map_append distinct_append set_map
    by (intro conjI db_ok_contract_ids(2) [OF eo(1)] dk)
  have "pairwise_free c_clash (contracts d1 @ ?rows)" using ids keys by (simp only: pairwise_free_clash simp_thms)
  moreover have "pairwise_free c_clash (contracts d1)"
    using db_ok_contract_ids [OF eo(1)] by (simp add: pairwise_free_clash)
  ultimately have "insert_strict c_clash (contracts d1) ?rows = Inr (contracts d1 @ ?rows)"
    using insert_strict_iff by metis
  then have "strict_stmt c_clash (contract_fk d1) (contracts d1) ?rows = Inr (contracts d1 @ ?rows)"
    using fk by (simp add: strict_stmt_def)
  then obtain d2 where ap: "apply_plan uuids sec p d1 = Inr ((), d2)"
    by (simp add: apply_plan_def Let_def bulk_insert_strict)
  show ?thesis
    using False by (simp add: register_contracts_def e rc ap create_missing_eq)
qed (simp add: register_contracts_def)

text \<open>A plan has changes exactly when the view of the section changes.\<close>

lemma map_filter_empty: "List.map_filter h xs = [] \<longleftrightarrow> (\<forall>x\<in>set xs. h x = None)"
  by (induction xs) (auto simp: map_filter_simps split: option.splits)

lemma has_changes_iff:
  assumes "distinct (map ck (get_by_section d sec))" "distinct (map l_key feed)"
    and "reconcile (get_by_section d sec) feed = Inr p"
  shows "has_changes p \<longleftrightarrow> sync_spec feed (section_view d sec) \<noteq> section_view d sec"
proof
  let ?ex = "get_by_section d sec" and ?v = "section_view d sec"
  from reconcile_eq [OF assms(1,2)] assms(3) have p:
    "added p = filter (\<lambda>l. l_key l \<notin> ck ` set ?ex) feed"
    "deprecated p = filter (\<lambda>c. feed_map feed (ck c) = None \<and> \<not> c_deprecated c) ?ex"
    "reactivated p = filter (\<lambda>c. feed_map feed (ck c) \<noteq> None \<and> c_deprecated c) ?ex"
    "interval_changes p = List.map_filter (\<lambda>c. case feed_map feed (ck c) of
         Some l \<Rightarrow> if c_interval c \<noteq> l_interval l then Some (c, l_interval l) else None
       | None \<Rightarrow> None) ?ex" by auto
  note look = view_lookup [OF assms(1)]
  have "interval_changes p \<noteq> [] \<longleftrightarrow> (\<exists>c\<in>set ?ex. \<exists>l. feed_map feed (ck c) = Some l \<and> c_interval c \<noteq> l_interval l)"
    unfolding p(4) map_filter_empty by (auto split: option.splits)
  then have hc: "has_changes p \<longleftrightarrow> (\<exists>l\<in>set feed. l_key l \<notin> ck ` set ?ex) \<or>
      (\<exists>c\<in>set ?ex. feed_map feed (ck c) = None \<and> \<not> c_deprecated c) \<or>
      (\<exists>c\<in>set ?ex. feed_map feed (ck c) \<noteq> None \<and> c_deprecated c) \<or>
      (\<exists>c\<in>set ?ex. \<exists>l. feed_map feed (ck c) = Some l \<and> c_interval c \<noteq> l_interval l)"
    unfolding has_changes_def p(1-3) filter_empty_iff_all by blast
  { assume "has_changes p"
    then consider l where "l \<in> set feed" "l_key l \<notin> ck ` set ?ex"
      | c where "c \<in> set ?ex" "feed_map feed (ck c) = None" "\<not> c_deprecated c"
      | c where "c \<in> set ?ex" "feed_map feed (ck c) \<noteq> None" "c_deprecated c"
      | c l where "c \<in> set ?ex" "feed_map feed (ck c) = Some l" "c_interval c \<noteq> l_interval l"
      unfolding hc by blast
    then have "\<exists>k. sync_spec feed ?v k \<noteq> ?v k"
    proof cases
      case 1
      then have "?v (l_key l) = None" by (simp add: view_None)
      moreover have "feed_map feed (l_key l) = Some l" using 1 feed_map_Some [OF assms(2)] by blast
      ultimately have "sync_spec feed ?v (l_key l) \<noteq> ?v (l_key l)" by (simp add: sync_spec_def)
      then show ?thesis ..
    next
      case 2
      then have "sync_spec feed ?v (ck c) \<noteq> ?v (ck c)" using look by (simp add: sync_spec_def)
      then show ?thesis ..
    next
      case 3
      then have "sync_spec feed ?v (ck c) \<noteq> ?v (ck c)" using look by (auto simp: sync_spec_def)
      then show ?thesis ..
    next
      case 4
      then have "sync_spec feed ?v (ck c) \<noteq> ?v (ck c)" using look by (auto simp: sync_spec_def)
      then show ?thesis ..
    qed
    then show "sync_spec feed ?v \<noteq> ?v" by auto }
  { assume ne: "sync_spec feed ?v \<noteq> ?v"
    show "has_changes p"
    proof (rule ccontr)
      assume "\<not> has_changes p"
      then have n: "\<forall>l\<in>set feed. l_key l \<in> ck ` set ?ex"
        "\<forall>c\<in>set ?ex. feed_map feed (ck c) = None \<longrightarrow> c_deprecated c"
        "\<forall>c\<in>set ?ex. feed_map feed (ck c) \<noteq> None \<longrightarrow> \<not> c_deprecated c"
        "\<forall>c\<in>set ?ex. \<forall>l. feed_map feed (ck c) = Some l \<longrightarrow> c_interval c = l_interval l"
        unfolding hc by blast+
      have "sync_spec feed ?v k = ?v k" for k
      proof (cases "k \<in> ck ` set ?ex")
        case True
        then obtain c where c: "c \<in> set ?ex" "k = ck c" by auto
        then show ?thesis using n(2-4) look [OF c(1)]
          by (cases "feed_map feed (ck c)") (auto simp: sync_spec_def)
      next
        case False
        then have "?v k = None" "feed_map feed k = None" using n(1) by (auto simp: view_None feed_map_None)
        then show ?thesis by (simp add: sync_spec_def)
      qed
      then show False using ne by auto
    qed }
qed

lemma sync_spec_idem: "sync_spec feed (sync_spec feed v) = sync_spec feed v"
  by (auto simp: sync_spec_def fun_eq_iff split: option.splits prod.splits)

lemma register_signal:
  assumes reg: "register_contracts uuids now sec (Inr feed) d = Inr ((r, sigs), d')"
    and ok: "db_ok d"
  shows "sigs = (if section_view d' sec = section_view d sec then [] else [sec])"
proof (cases "feed = []")
  case True
  then show ?thesis using reg by (auto simp: register_contracts_def)
next
  case False
  obtain d1 p d2 where e: "ensure_quotes_and_assets feed d = Inr ((), d1)"
    and rc: "reconcile (get_by_section d1 sec) feed = Inr p"
    and s: "sigs = (if has_changes p then [sec] else [])"
    by (rule register_steps [OF reg False])
  note eo = ensure_ok [OF e ok]
  have gs: "get_by_section d1 sec = get_by_section d sec" by (simp add: get_by_section_def eo)
  obtain df: "distinct (map l_key feed)" by (rule register_contract_table [OF reg False ok])
  have "has_changes p \<longleftrightarrow> sync_spec feed (section_view d sec) \<noteq> section_view d sec"
    using has_changes_iff [OF get_by_section_distinct(1) [OF db_ok_contract_ids [OF ok]] df] rc
    by (simp only: gs)
  then show ?thesis using register_refines(1) [OF reg False ok] s by simp
qed

lemma register_rows_kept:
  assumes reg: "register_contracts uuids now sec (Inr feed) d = Inr ((r, sigs), d')"
    and ok: "db_ok d" and c: "c \<in> set (contracts d)"
  shows "\<exists>c'\<in>set (contracts d'). c_id c' = c_id c \<and> c_key c' = c_key c"
proof (cases "feed = []")
  case True
  then show ?thesis using reg c by (auto simp: register_contracts_def)
next
  case False
  obtain rows where "contracts d' = map (\<lambda>c. if c_section c = sec then sync_row feed c else c) (contracts d) @ rows"
    by (rule register_contract_table [OF reg False ok])
  then have "(if c_section c = sec then sync_row feed c else c) \<in> set (contracts d')" using c by auto
  then show ?thesis by (rule bexI [rotated]) simp
qed

section \<open>Properties\<close>

text \<open>C1. A registry run with a non-empty feed refines the lifecycle specification: afterwards a
  contract of the section is active exactly when the feed lists it, with the feed's interval;
  the others are deprecated with their interval kept; other sections are untouched; rows keep
  their identity; every contract of the section has a history-state row; and the invariants of
  the database are kept.\<close>

theorem registry_run_refines_spec:
  assumes "register_contracts uuids now sec (Inr feed) d = Inr ((r, sigs), d')"
    and "feed \<noteq> []" and "db_ok d" and "bounds_tight d"
  shows "section_view d' sec = sync_spec feed (section_view d sec) \<and>
    (\<forall>s. s \<noteq> sec \<longrightarrow> section_view d' s = section_view d s) \<and>
    (\<forall>c\<in>set (contracts d). \<exists>c'\<in>set (contracts d'). c_id c' = c_id c \<and> c_key c' = c_key c) \<and>
    c_id ` set (get_by_section d' sec) \<subseteq> hs_contract ` set (history_states d') \<and>
    db_ok d' \<and> bounds_tight d'"
proof (intro conjI)
  show "section_view d' sec = sync_spec feed (section_view d sec)"
    by (rule register_refines(1) [OF assms(1-3)])
  show "\<forall>s. s \<noteq> sec \<longrightarrow> section_view d' s = section_view d s"
    using register_refines(2) [OF assms(1-3)] by blast
  show "\<forall>c\<in>set (contracts d). \<exists>c'\<in>set (contracts d'). c_id c' = c_id c \<and> c_key c' = c_key c"
    using register_rows_kept [OF assms(1,3)] by blast
  show "c_id ` set (get_by_section d' sec) \<subseteq> hs_contract ` set (history_states d')"
    by (rule register_contract_table [OF assms(1-3)])
  show "db_ok d'" "bounds_tight d'" using register_db_ok [OF assms(1,3,4)] by blast+
qed

text \<open>A section with one contract that leaves the feed and one that is new.\<close>

definition w_contract :: contract_row where
  "w_contract = \<lparr>c_id = 7, c_asset = ''BTC'', c_section = ''okx'', c_interval = 8, c_quote = ''USDT'',
     c_special = JObj [], c_deprecated = False\<rparr>"

definition w_db :: db where
  "w_db = \<lparr>sections = [\<lparr>s_name = ''okx'', s_special = JObj []\<rparr>],
     assets = [\<lparr>a_name = ''BTC'', a_rank = None\<rparr>], quotes = [''USDT''], contracts = [w_contract],
     history_states = [fresh_state 0 w_contract], historical_points = [], live_points = []\<rparr>"

definition w_feed :: "listing list" where
  "w_feed = [\<lparr>l_asset = ''ETH'', l_quote = ''USDT'', l_interval = 4, l_section = ''okx''\<rparr>]"

theorem registry_run_refines_spec_witness:
  "\<exists>r sigs d'. register_contracts Suc 0 ''okx'' (Inr w_feed) w_db = Inr ((r, sigs), d') \<and>
     section_view d' ''okx'' (''BTC'', ''USDT'') = Some (True, 8) \<and>
     section_view d' ''okx'' (''ETH'', ''USDT'') = Some (False, 4) \<and> bounds_tight d'"
proof -
  have ok: "db_ok w_db" "bounds_tight w_db" by code_simp+
  have ne: "w_feed \<noteq> []" by (simp add: w_feed_def)
  have "isl (register_contracts Suc 0 ''okx'' (Inr w_feed) w_db) = False" by code_simp
  then obtain r sigs d' where reg: "register_contracts Suc 0 ''okx'' (Inr w_feed) w_db = Inr ((r, sigs), d')"
    by (cases "register_contracts Suc 0 ''okx'' (Inr w_feed) w_db") auto
  note t = registry_run_refines_spec [OF reg ne ok]
  have v: "sync_spec w_feed (section_view w_db ''okx'') (''BTC'', ''USDT'') = Some (True, 8)"
    "sync_spec w_feed (section_view w_db ''okx'') (''ETH'', ''USDT'') = Some (False, 4)" by code_simp+
  show ?thesis using reg t v by auto
qed

text \<open>C2. With its section row present and fresh UUIDs, a registry run fails exactly when the
  feed lists a key twice, with the \<open>ValueError\<close> of \<open>_feed_by_key\<close>; whenever it fails, for this
  or any other reason, the scheduled job leaves the database as it was and sends no signal.\<close>

theorem registry_run_fails_iff_duplicate_feed:
  assumes "db_ok d" and "sec \<in> s_name ` set (sections d)"
    and "inj uuids" and "\<forall>i. uuids i \<notin> c_id ` set (contracts d)"
  shows "(if distinct (map l_key feed)
          then \<exists>r d'. register_contracts uuids now sec (Inr feed) d = Inr (r, d') \<and>
                 run_contract_registry uuids now sec (Inr feed) d = (r, d')
          else register_contracts uuids now sec (Inr feed) d = Inl ValueError \<and>
               run_contract_registry uuids now sec (Inr feed) d = ((empty_result, []), d)) \<and>
         run_contract_registry uuids now sec (Inl e) d = ((empty_result, []), d)"
proof -
  have dup: "register_contracts uuids now sec (Inr feed) d = Inl ValueError"
    if "\<not> distinct (map l_key feed)"
  proof -
    have "feed \<noteq> []" using that by auto
    then show ?thesis
      by (simp add: register_contracts_def ensure_eq reconcile_dup [OF that])
  qed
  show ?thesis
    using register_succeeds [OF assms(1,2) _ assms(3,4), of feed now] dup
    by (auto simp: run_contract_registry_def register_contracts_def)
qed

theorem registry_run_fails_iff_duplicate_feed_witness:
  "register_contracts (\<lambda>i. i + 8) 0 ''okx'' (Inr (w_feed @ w_feed)) w_db = Inl ValueError \<and>
   run_contract_registry (\<lambda>i. i + 8) 0 ''okx'' (Inr (w_feed @ w_feed)) w_db = ((empty_result, []), w_db)"
proof -
  have ok: "db_ok w_db" by code_simp
  have s: "''okx'' \<in> s_name ` set (sections w_db)" by code_simp
  have i: "inj (\<lambda>i. i + 8 :: nat)" by (simp add: inj_def)
  have f: "\<forall>i. i + 8 \<notin> c_id ` set (contracts w_db)" by (simp add: w_db_def w_contract_def)
  have n: "\<not> distinct (map l_key (w_feed @ w_feed))" by (simp add: w_feed_def)
  show ?thesis
    using registry_run_fails_iff_duplicate_feed [OF ok s i f, of "w_feed @ w_feed" 0 KeyError] n
    by (simp only: if_False)
qed

text \<open>C3. The view refresher is signalled exactly when the run changed what a reader of the
  section sees, and an immediate second run of the same feed succeeds, changes no contract and
  sends no signal.\<close>

theorem registry_run_idempotent:
  assumes "register_contracts uuids now sec (Inr feed) d = Inr ((r, sigs), d')"
    and "db_ok d" and "bounds_tight d"
  shows "sigs = (if section_view d' sec = section_view d sec then [] else [sec]) \<and>
    (\<exists>r2 d2. register_contracts uuids2 now2 sec (Inr feed) d' = Inr ((r2, []), d2) \<and>
       contracts d2 = contracts d')"
proof
  show "sigs = (if section_view d' sec = section_view d sec then [] else [sec])"
    by (rule register_signal [OF assms(1,2)])
  show "\<exists>r2 d2. register_contracts uuids2 now2 sec (Inr feed) d' = Inr ((r2, []), d2) \<and>
           contracts d2 = contracts d'"
  proof (cases "feed = []")
    case False
    obtain df: "distinct (map l_key feed)" and ok': "db_ok d'"
      by (rule register_contract_table [OF assms(1) False assms(2)])
    obtain d1 where e: "ensure_quotes_and_assets feed d' = Inr ((), d1)" by (simp add: ensure_eq)
    note eo = ensure_ok [OF e ok']
    note gd = get_by_section_distinct(1) [OF db_ok_contract_ids [OF eo(1)], of sec]
    obtain p where rc: "reconcile (get_by_section d1 sec) feed = Inr p"
      using reconcile_eq [OF gd df] by blast
    have "section_view d1 sec = section_view d' sec" by (rule view_cong) (simp add: get_by_section_def eo)
    then have "\<not> has_changes p"
      using has_changes_iff [OF gd df rc] register_refines(1) [OF assms(1) False assms(2)]
      by (simp add: sync_spec_idem)
    then have p: "added p = []" "deprecated p = []" "reactivated p = []" "interval_changes p = []"
      by (auto simp: has_changes_def)
    have "map (\<lambda>c. c) cs = cs" for cs :: "contract_row list" by simp
    then have "apply_plan uuids2 sec p d1 = Inr ((), d1)"
      by (simp add: apply_plan_def p bulk_insert_def set_intervals_def set_deprecated_def)
    then show ?thesis using \<open>\<not> has_changes p\<close>
      by (simp add: register_contracts_def False e rc create_missing_eq eo(2))
  qed (simp add: register_contracts_def)
qed

theorem registry_run_idempotent_witness:
  "\<exists>r d'. register_contracts Suc 0 ''okx'' (Inr w_feed) w_db = Inr ((r, [''okx'']), d') \<and>
     (\<exists>r2 d2. register_contracts Suc 300 ''okx'' (Inr w_feed) d' = Inr ((r2, []), d2) \<and>
        contracts d2 = contracts d')"
proof -
  have ok: "db_ok w_db" "bounds_tight w_db" by code_simp+
  have "(case register_contracts Suc 0 ''okx'' (Inr w_feed) w_db of
      Inr ((r, s), d') \<Rightarrow> s = [''okx''] | _ \<Rightarrow> False)" by code_simp
  then obtain r d' where reg: "register_contracts Suc 0 ''okx'' (Inr w_feed) w_db = Inr ((r, [''okx'']), d')"
    by (auto split: sum.splits prod.splits)
  from registry_run_idempotent [OF this ok, of Suc 300] reg show ?thesis by blast
qed

end
