(* ===== verification/Adapter.thy ===== *)
theory Adapter
  imports PyIso Registry
begin

text \<open>
  The base classes of the exchange adapters: \<open>tracker/exchanges/base.py\<close> and
  \<open>ingestion/exchanges/base.py\<close>. The exchange behind the HTTP client is a parameter
  \<open>api\<close>: what the \<open>k\<close>-th request of one operation returns (after the client's retries), or the
  exception it raises. Requests record the URL, the query parameters or the JSON body, and the
  method, as the code builds them. The semaphore bounds concurrency only and is not modelled.

  A listing field of the wrong JSON type, which the dataclass does not check and the database
  rejects, raises \<open>TypeError\<close> when the listing is built.
\<close>

section \<open>Requests\<close>

datatype http_method = GET | POST

record request =
  rq_method :: http_method
  rq_url :: string
  rq_args :: "(string \<times> json) list"
  rq_headers :: "(string \<times> string) list"

type_synonym api = "nat \<Rightarrow> request \<Rightarrow> json res"

definition api_get :: "api \<Rightarrow> nat \<Rightarrow> string \<Rightarrow> (string \<times> json) list \<Rightarrow> json res" where
  "api_get api k url params = api k \<lparr>rq_method = GET, rq_url = url, rq_args = params, rq_headers = []\<rparr>"

definition json_header :: "(string \<times> string) list" where
  "json_header = [(''Content-Type'', ''application/json'')]"

definition api_get_json :: "api \<Rightarrow> nat \<Rightarrow> string \<Rightarrow> (string \<times> json) list \<Rightarrow> json res" where
  "api_get_json api k url params =
     api k \<lparr>rq_method = GET, rq_url = url, rq_args = params, rq_headers = json_header\<rparr>"

definition api_post :: "api \<Rightarrow> nat \<Rightarrow> string \<Rightarrow> (string \<times> json) list \<Rightarrow> json res" where
  "api_post api k url body =
     api k \<lparr>rq_method = POST, rq_url = url, rq_args = body, rq_headers = json_header\<rparr>"

section \<open>JSON values as keys, types and text\<close>

text \<open>A value used as a dictionary key: arrays and objects are unhashable, and numbers that are
  equal are one key.\<close>

fun jhash :: "json \<Rightarrow> json res" where
  "jhash (JBool b) = Inr (JInt (if b then 1 else 0))"
| "jhash (JFloat r) = Inr (if of_int \<lfloor>r\<rfloor> = r then JInt \<lfloor>r\<rfloor> else JFloat r)"
| "jhash (JArr xs) = Inl TypeError"
| "jhash (JObj d) = Inl TypeError"
| "jhash v = Inr v"

fun is_obj :: "json \<Rightarrow> bool" where
  "is_obj (JObj d) = True"
| "is_obj v = False"

fun is_arr :: "json \<Rightarrow> bool" where
  "is_arr (JArr xs) = True"
| "is_arr v = False"

definition assert_obj :: "json \<Rightarrow> unit res" where
  "assert_obj v = rguard (is_obj v) AssertionError"

definition assert_arr :: "json \<Rightarrow> unit res" where
  "assert_arr v = rguard (is_arr v) AssertionError"

text \<open>\<open>k in v\<close> for a string \<open>k\<close>.\<close>

fun jcontains :: "json \<Rightarrow> string \<Rightarrow> bool res" where
  "jcontains (JObj d) k = Inr (map_of d k \<noteq> None)"
| "jcontains (JArr xs) k = Inr (JStr k \<in> set xs)"
| "jcontains (JStr s) k = Inr (\<exists>i \<in> set [0..<Suc (length s)]. starts_with k (drop i s))"
| "jcontains _ _ = Inl TypeError"

text \<open>An integer field of a listing: a float with an integral value is stored as that integer.\<close>

fun jinteger :: "json \<Rightarrow> int res" where
  "jinteger (JInt n) = Inr n"
| "jinteger (JFloat r) = (if of_int \<lfloor>r\<rfloor> = r then Inr \<lfloor>r\<rfloor> else Inl TypeError)"
| "jinteger _ = Inl TypeError"

definition mk_listing :: "string \<Rightarrow> json \<Rightarrow> json \<Rightarrow> json \<Rightarrow> listing res" where
  "mk_listing sec a q i = rbind (jstr a) (\<lambda>a. rbind (jstr q) (\<lambda>q. rbind (jinteger i) (\<lambda>i.
     Inr \<lparr>l_asset = a, l_quote = q, l_interval = i, l_section = sec\<rparr>)))"

text \<open>A value on which a string method is called.\<close>

fun jtext :: "json \<Rightarrow> string res" where
  "jtext (JStr s) = Inr s"
| "jtext _ = Inl AttributeError"

text \<open>\<open>str(n)\<close>.\<close>

fun dec_digits :: "nat \<Rightarrow> string" where
  "dec_digits n = (if n < 10 then [char_of (48 + n)] else dec_digits (n div 10) @ [char_of (48 + n mod 10)])"

declare dec_digits.simps [simp del]

definition py_str_int :: "int \<Rightarrow> string" where
  "py_str_int n = (if n < 0 then CHR ''-'' # dec_digits (nat (- n)) else dec_digits (nat n))"

text \<open>A timestamp of an API in milliseconds, used without conversion or after \<open>int\<close>.\<close>

definition jms :: "json \<Rightarrow> utc res" where
  "jms v = rbind (jnumber v) from_unix_milliseconds"

definition jms_int :: "json \<Rightarrow> utc res" where
  "jms_int v = rbind (jint v) (\<lambda>n. from_unix_milliseconds (of_int n))"

definition iso_at :: "string \<Rightarrow> json \<Rightarrow> utc res" where
  "iso_at k r = rbind (jkey r k) (\<lambda>v. rbind (jtext v) from_utc_iso8601)"

text \<open>\<open>s.rsplit(c, 1)[0]\<close>, \<open>s.split(c)[-1]\<close>, \<open>s.removesuffix(p)\<close> and \<open>s.replace(p, "")\<close>.\<close>

definition rsplit_head :: "char \<Rightarrow> string \<Rightarrow> string" where
  "rsplit_head c s = (if c \<in> set s then rev (tl (dropWhile (\<lambda>x. x \<noteq> c) (rev s))) else s)"

definition split_last :: "char \<Rightarrow> string \<Rightarrow> string" where
  "split_last c s = last (py_split c s)"

definition removesuffix :: "string \<Rightarrow> string \<Rightarrow> string" where
  "removesuffix p s = (if ends_with p s \<and> p \<noteq> [] then take (length s - length p) s else s)"

function remove_all :: "string \<Rightarrow> string \<Rightarrow> string" where
  "remove_all p [] = []"
| "remove_all p (c # cs) =
     (if p \<noteq> [] \<and> starts_with p (c # cs) then remove_all p (drop (length p) (c # cs)) else c # remove_all p cs)"
  by pat_completeness auto

termination remove_all
  by (relation "measure (\<lambda>(p, s). length s)") (auto simp: Suc_diff_le)

lemma py_split_one: "c \<notin> set s \<Longrightarrow> py_split c s = [s]"
  by (induction s) auto

lemma py_split_snoc: "c \<notin> set s \<Longrightarrow> py_split c (p @ c # s) = py_split c p @ [s]"
  by (induction p) (auto simp: py_split_one split: list.splits)

section \<open>Loops over records\<close>

text \<open>One funding point per record: the rate is converted first, then the timestamp.\<close>

definition history_points ::
  "(json \<Rightarrow> rat res) \<Rightarrow> (json \<Rightarrow> utc res) \<Rightarrow> json list \<Rightarrow> funding_point list res" where
  "history_points rate_of time_of rs = rmap (\<lambda>r. rbind (rate_of r) (\<lambda>x. rbind (time_of r) (\<lambda>t.
     Inr \<lparr>rate = x, timestamp = t\<rparr>))) rs"

definition float_at :: "string \<Rightarrow> json \<Rightarrow> rat res" where
  "float_at k r = rbind (jkey r k) jfloat"

definition ms_at :: "string \<Rightarrow> json \<Rightarrow> utc res" where
  "ms_at k r = rbind (jkey r k) jms"

definition ms_int_at :: "string \<Rightarrow> json \<Rightarrow> utc res" where
  "ms_int_at k r = rbind (jkey r k) jms_int"

text \<open>\<open>rates[key] = FundingPoint(rate, now)\<close> in a loop that may skip items: a later item overwrites
  an earlier one with the same key.\<close>

type_synonym rates = "(json, funding_point) dict"

definition live_rates :: "utc \<Rightarrow> ('a \<Rightarrow> (json \<times> rat) option res) \<Rightarrow> 'a list \<Rightarrow> rates res" where
  "live_rates now item rs =
     rbind (rcollect (\<lambda>r. rbind (item r) (\<lambda>w. case w of None \<Rightarrow> Inr None
        | Some (k, x) \<Rightarrow> rbind (jhash k) (\<lambda>k. Inr (Some (k, \<lparr>rate = x, timestamp = now\<rparr>))))) rs)
       (\<lambda>ps. Inr (dict_of ps))"

section \<open>Fetching history\<close>

type_synonym fetch_history = "contract_row \<Rightarrow> int \<Rightarrow> int \<Rightarrow> funding_point list res"

definition fetch_history_before ::
  "int \<Rightarrow> fetch_history \<Rightarrow> utc \<Rightarrow> contract_row \<Rightarrow> utc option \<Rightarrow> funding_point list res" where
  "fetch_history_before fetch_step fetch now c before =
     (let end_ms = (case before of Some t \<Rightarrow> to_unix_milliseconds t | None \<Rightarrow> to_unix_milliseconds now);
          start_ms = end_ms - fetch_step * 3600 * 1000
      in fetch c start_ms end_ms)"

definition fetch_history_after ::
  "fetch_history \<Rightarrow> utc \<Rightarrow> contract_row \<Rightarrow> utc \<Rightarrow> funding_point list res" where
  "fetch_history_after fetch now c after_timestamp =
     fetch c (to_unix_milliseconds after_timestamp) (to_unix_milliseconds now)"

section \<open>Fetching live rates\<close>

type_synonym snapshot = "(nat, funding_point) dict"

text \<open>The last dictionary comprehension of \<open>fetch_live\<close>: \<open>table\<close> maps symbols to contract ids.\<close>

definition match_symbols :: "(string, nat) dict \<Rightarrow> rates \<Rightarrow> snapshot" where
  "match_symbols table rates = dict_of (List.map_filter (\<lambda>(k, p).
     case k of JStr s \<Rightarrow> map_option (\<lambda>i. (i, p)) (map_of table s) | _ \<Rightarrow> None) rates)"

definition symbol_table :: "(contract_row \<Rightarrow> string) \<Rightarrow> contract_row list \<Rightarrow> (string, nat) dict" where
  "symbol_table fmt cs = dict_of (map (\<lambda>c. (fmt c, c_id c)) cs)"

definition fetch_live ::
  "(contract_row \<Rightarrow> string) \<Rightarrow> rates res \<Rightarrow> contract_row list \<Rightarrow> snapshot res" where
  "fetch_live fmt batch cs =
     (let table = symbol_table fmt cs in rbind batch (\<lambda>all_rates. Inr (match_symbols table all_rates)))"

text \<open>\<open>_fetch_one\<close>: an HTTP error and a value error become a missing rate, anything else escapes.\<close>

definition fetch_one :: "(contract_row \<Rightarrow> funding_point res) \<Rightarrow> contract_row \<Rightarrow> funding_point option res" where
  "fetch_one single c = (case single c of
     Inr p \<Rightarrow> Inr (Some p)
   | Inl e \<Rightarrow> if e = HTTPError \<or> e = ValueError then Inr None else Inl e)"

text \<open>The requests run concurrently; of several escaping exceptions the first in contract order is
  reported here (\<open>gather\<close> reports the first in time).\<close>

definition fetch_live_parallel ::
  "(contract_row \<Rightarrow> funding_point res) \<Rightarrow> contract_row list \<Rightarrow> snapshot res" where
  "fetch_live_parallel single cs = rbind (rmap (fetch_one single) cs) (\<lambda>results.
     Inr (dict_of (List.map_filter (\<lambda>(c, r). map_option (\<lambda>p. (c_id c, p)) r) (zip cs results))))"

text \<open>The same operations of \<open>BaseLiveExchange\<close>.\<close>

definition ing_fetch_live ::
  "(contract_row \<Rightarrow> string) \<Rightarrow> rates res \<Rightarrow> contract_row list \<Rightarrow> snapshot res" where
  "ing_fetch_live fmt batch cs =
     (let symbol_to_contract_id = symbol_table fmt cs in
      rbind batch (\<lambda>all_rates. Inr (match_symbols symbol_to_contract_id all_rates)))"

definition ing_fetch_live_parallel ::
  "(contract_row \<Rightarrow> funding_point res) \<Rightarrow> contract_row list \<Rightarrow> snapshot res" where
  "ing_fetch_live_parallel single cs = rbind (rmap (fetch_one single) cs) (\<lambda>results.
     Inr (dict_of (List.map_filter (\<lambda>(c, r). map_option (\<lambda>p. (c_id c, p)) r) (zip cs results))))"

section \<open>The contract between adapters and collectors\<close>

text \<open>What a collector relies on: a snapshot has one point per contract, for contracts it was asked
  about only.\<close>

locale live_adapter =
  fixes fetch :: "contract_row list \<Rightarrow> snapshot res"
  assumes fetch_ids: "fetch cs = Inr m \<Longrightarrow> fst ` set m \<subseteq> c_id ` set cs"
    and fetch_distinct: "fetch cs = Inr m \<Longrightarrow> distinct (map fst m)"
begin

lemma snapshot_length:
  assumes "fetch cs = Inr m" "distinct (map c_id cs)" shows "length m \<le> length cs"
proof -
  have "length m = card (fst ` set m)" using distinct_card [OF fetch_distinct [OF assms(1)]] by simp
  also have "\<dots> \<le> card (c_id ` set cs)" by (rule card_mono [OF _ fetch_ids [OF assms(1)]]) simp
  also have "\<dots> = length cs" using distinct_card [OF assms(2)] by simp
  finally show ?thesis .
qed

lemma snapshot_owner:
  assumes "fetch cs = Inr m" "(i, p) \<in> set m" shows "\<exists>c\<in>set cs. c_id c = i"
  using fetch_ids [OF assms(1)] assms(2) by force

end

lemma set_map_filter: "set (List.map_filter f xs) = {y. \<exists>x\<in>set xs. f x = Some y}"
proof (induction xs)
  case (Cons x xs)
  then show ?case by (cases "f x") (auto simp: List.map_filter_def)
qed (simp add: List.map_filter_def)

lemma match_filter_in:
  assumes "(i, p) \<in> set (List.map_filter (\<lambda>(k, p). case k of JStr s \<Rightarrow> map_option (\<lambda>i. (i, p)) (map_of table s)
      | _ \<Rightarrow> None) rates)"
  obtains s where "(JStr s, p) \<in> set rates" "map_of table s = Some i"
proof -
  from assms obtain k q where kq: "(k, q) \<in> set rates"
    "(case k of JStr s \<Rightarrow> map_option (\<lambda>i. (i, q)) (map_of table s) | _ \<Rightarrow> None) = Some (i, p)"
    by (auto simp: set_map_filter)
  then obtain s where "k = JStr s" "map_of table s = Some i" "q = p"
    by (auto split: json.split_asm)
  then show thesis using that kq(1) by blast
qed

lemma match_symbols_in:
  assumes "(i, p) \<in> set (match_symbols table rates)"
  obtains s where "(JStr s, p) \<in> set rates" "map_of table s = Some i"
  by (rule match_filter_in [OF subsetD [OF set_dict_of_subset assms [unfolded match_symbols_def]] that])

lemma symbol_table_in:
  assumes "map_of (symbol_table fmt cs) s = Some i" obtains c where "c \<in> set cs" "fmt c = s" "c_id c = i"
proof -
  have "(s, i) \<in> set (map (\<lambda>c. (fmt c, c_id c)) cs)"
    using map_of_SomeD [OF assms] set_dict_of_subset unfolding symbol_table_def by blast
  then show thesis using that by auto
qed

lemma symbol_table_inj:
  assumes "inj_on fmt (set cs)" "c \<in> set cs"
  shows "map_of (symbol_table fmt cs) (fmt c) = Some (c_id c)"
proof -
  have "map_of (rev (map (\<lambda>c. (fmt c, c_id c)) cs)) (fmt c) \<noteq> None"
    using assms(2) by (simp add: map_of_eq_None_keys image_image)
  then obtain i where i: "map_of (symbol_table fmt cs) (fmt c) = Some i"
    by (auto simp: symbol_table_def map_of_dict_of)
  then obtain c' where "c' \<in> set cs" "fmt c' = fmt c" "c_id c' = i" by (rule symbol_table_in)
  then show ?thesis using assms i by (auto dest: inj_onD)
qed

lemma match_symbols_ids:
  "fst ` set (match_symbols (symbol_table fmt cs) rates) \<subseteq> c_id ` set cs"
proof
  fix i assume "i \<in> fst ` set (match_symbols (symbol_table fmt cs) rates)"
  then obtain p where "(i, p) \<in> set (match_symbols (symbol_table fmt cs) rates)" by force
  then obtain s where "map_of (symbol_table fmt cs) s = Some i" by (rule match_symbols_in)
  then show "i \<in> c_id ` set cs" by (rule symbol_table_in) auto
qed

lemma match_symbols_distinct [simp]: "distinct (map fst (match_symbols table rates))"
  by (simp add: match_symbols_def)

interpretation batch: live_adapter "fetch_live fmt b" for fmt b
proof
  fix cs m assume "fetch_live fmt b cs = Inr m"
  then obtain r where m: "m = match_symbols (symbol_table fmt cs) r"
    by (auto simp: fetch_live_def Let_def res_simps)
  show "fst ` set m \<subseteq> c_id ` set cs" unfolding m by (rule match_symbols_ids)
  show "distinct (map fst m)" unfolding m by simp
qed

text \<open>The two base classes compute the same snapshot.\<close>

lemma ing_fetch_live_eq: "ing_fetch_live = fetch_live"
  by (simp add: fun_eq_iff ing_fetch_live_def fetch_live_def)

lemma ing_fetch_live_parallel_eq: "ing_fetch_live_parallel = fetch_live_parallel"
  by (simp add: fun_eq_iff ing_fetch_live_parallel_def fetch_live_parallel_def)

interpretation ing_batch: live_adapter "ing_fetch_live fmt b" for fmt b
  unfolding ing_fetch_live_eq by (rule batch.live_adapter_axioms)

lemma parallel_result:
  assumes "fetch_live_parallel single cs = Inr m"
  shows "(\<forall>c\<in>set cs. \<exists>r. fetch_one single c = Inr r) \<and>
    m = dict_of (List.map_filter (\<lambda>c. case single c of Inr p \<Rightarrow> Some (c_id c, p) | Inl _ \<Rightarrow> None) cs)"
proof -
  obtain rs where rs: "rmap (fetch_one single) cs = Inr rs"
    "m = dict_of (List.map_filter (\<lambda>(c, r). map_option (\<lambda>p. (c_id c, p)) r) (zip cs rs))"
    using assms by (auto simp: fetch_live_parallel_def res_simps)
  have l: "list_all2 (\<lambda>c r. fetch_one single c = Inr r) cs rs" using rs(1) by (simp add: rmap_Inr_iff)
  have ok: "\<forall>c\<in>set cs. \<exists>r. fetch_one single c = Inr r" using l by (auto simp: list_all2_conv_all_nth in_set_conv_nth)
  have "List.map_filter (\<lambda>(c, r). map_option (\<lambda>p. (c_id c, p)) r) (zip cs rs) =
      List.map_filter (\<lambda>c. case single c of Inr p \<Rightarrow> Some (c_id c, p) | Inl _ \<Rightarrow> None) cs"
    using l
  proof (induction rule: list_all2_induct)
    case (Cons c cs r rs)
    then show ?case
      by (auto simp: List.map_filter_def fetch_one_def split: sum.splits if_splits)
  qed (simp add: List.map_filter_def)
  then show ?thesis using rs(2) ok by simp
qed

interpretation parallel: live_adapter "fetch_live_parallel single" for single
proof
  fix cs m assume m: "fetch_live_parallel single cs = Inr m"
  note r = conjunct2 [OF parallel_result [OF m]]
  show "fst ` set m \<subseteq> c_id ` set cs"
    unfolding r keys_dict_of by (auto simp: set_map_filter split: sum.split_asm)
  show "distinct (map fst m)" unfolding r by simp
qed

interpretation ing_parallel: live_adapter "ing_fetch_live_parallel single" for single
  unfolding ing_fetch_live_parallel_eq by (rule parallel.live_adapter_axioms)

section \<open>Walking pages\<close>

text \<open>The contract of the page loops: a page gives entries and, unless it is the last, where to go on.
  A page may depend on what has been collected.\<close>

locale page_walk =
  fixes walk :: "nat \<Rightarrow> nat \<Rightarrow> 'c \<Rightarrow> 'a list \<Rightarrow> 'a list res option"
    and page :: "nat \<Rightarrow> 'c \<Rightarrow> 'a list \<Rightarrow> ('a list \<times> 'c option) res"
  assumes walk_0: "walk 0 k c acc = None"
    and walk_error: "page k c acc = Inl e \<Longrightarrow> walk (Suc n) k c acc = Some (Inl e)"
    and walk_last: "page k c acc = Inr (xs, None) \<Longrightarrow> walk (Suc n) k c acc = Some (Inr (acc @ xs))"
    and walk_more: "page k c acc = Inr (xs, Some c') \<Longrightarrow> walk (Suc n) k c acc = walk n (Suc k) c' (acc @ xs)"
begin

lemma walk_complete:
  assumes "\<And>j. j < n \<Longrightarrow> page (k + j) (cur j) (acc @ concat (map xs [0..<j])) = Inr (xs j, Some (cur (Suc j)))"
    and "page (k + n) (cur n) (acc @ concat (map xs [0..<n])) = Inr (xs n, None)" and "n < fuel"
  shows "walk fuel k (cur 0) acc = Some (Inr (acc @ concat (map xs [0..<Suc n])))"
  using assms
proof (induction n arbitrary: fuel k cur acc xs)
  case 0
  then obtain f where "fuel = Suc f" by (cases fuel) auto
  then show ?case using 0 walk_last [of k "cur 0" acc "xs 0"] by simp
next
  case (Suc n)
  then obtain f where f: "fuel = Suc f" "n < f" by (cases fuel) auto
  have shift: "acc @ concat (map xs [0..<Suc j]) = (acc @ xs 0) @ concat (map (\<lambda>i. xs (Suc i)) [0..<j])" for j
    by (simp only: upt_conv_Cons zero_less_Suc map_Suc_upt [symmetric] list.map concat.simps map_map comp_def append_assoc)
  have "page k (cur 0) acc = Inr (xs 0, Some (cur 1))" using Suc.prems(1) [of 0] by simp
  then have "walk fuel k (cur 0) acc = walk f (Suc k) (cur 1) (acc @ xs 0)" unfolding f(1) by (rule walk_more)
  also have "\<dots> = Some (Inr ((acc @ xs 0) @ concat (map (\<lambda>i. xs (Suc i)) [0..<Suc n])))"
  proof -
    have "walk f (Suc k) ((\<lambda>j. cur (Suc j)) 0) (acc @ xs 0) =
        Some (Inr ((acc @ xs 0) @ concat (map (\<lambda>i. xs (Suc i)) [0..<Suc n])))"
    proof (rule Suc.IH [OF _ _ f(2)])
      show "page (Suc k + j) (cur (Suc j)) ((acc @ xs 0) @ concat (map (\<lambda>i. xs (Suc i)) [0..<j])) =
          Inr (xs (Suc j), Some (cur (Suc (Suc j))))" if "j < n" for j
        using Suc.prems(1) [of "Suc j"] that unfolding shift by simp
      show "page (Suc k + n) (cur (Suc n)) ((acc @ xs 0) @ concat (map (\<lambda>i. xs (Suc i)) [0..<n])) =
          Inr (xs (Suc n), None)"
        using Suc.prems(2) unfolding shift by simp
    qed
    then show ?thesis by simp
  qed
  finally show ?case unfolding shift .
qed

lemma walk_fuel_mono:
  assumes "walk fuel k c acc = Some r" "fuel \<le> fuel'" shows "walk fuel' k c acc = Some r"
  using assms
proof (induction fuel arbitrary: fuel' k c acc)
  case 0
  then show ?case by (simp add: walk_0)
next
  case (Suc f)
  then obtain f' where f': "fuel' = Suc f'" "f \<le> f'" by (cases fuel') auto
  show ?case
  proof (cases "page k c acc")
    case (Inl e)
    then show ?thesis using Suc.prems(1) f'(1) walk_error by simp
  next
    case (Inr y)
    then obtain xs o1 where y: "page k c acc = Inr (xs, o1)" by (cases y) auto
    show ?thesis
    proof (cases o1)
      case None
      then show ?thesis using Suc.prems(1) f'(1) walk_last y by simp
    next
      case (Some c')
      then show ?thesis using Suc.prems(1) Suc.IH f' walk_more y by simp
    qed
  qed
qed

end

section \<open>Properties\<close>

text \<open>C16. A batch snapshot is exact: every point it returns is the exchange's rate for the symbol of a
  requested contract, and when the requested contracts have different symbols and ids every one of
  them that the exchange quotes is in the snapshot with its quoted rate.\<close>

theorem fetch_live_exact:
  assumes "fetch_live fmt (Inr rates) cs = Inr m" and "distinct (map fst rates)"
    and "inj_on fmt (set cs)" and "inj_on c_id (set cs)"
  shows "\<forall>c\<in>set cs. map_of m (c_id c) = map_of rates (JStr (fmt c))"
proof
  fix c assume c: "c \<in> set cs"
  let ?f = "\<lambda>(k, p). case k of JStr s \<Rightarrow> map_option (\<lambda>i. (i, p)) (map_of (symbol_table fmt cs) s) | _ \<Rightarrow> None"
  have m: "m = dict_of (List.map_filter ?f rates)"
    using assms(1) by (simp add: fetch_live_def Let_def match_symbols_def)
  have "map_of m (c_id c) = Some p \<longleftrightarrow> (JStr (fmt c), p) \<in> set rates" for p
  proof
    assume "map_of m (c_id c) = Some p"
    then have "(c_id c, p) \<in> set (match_symbols (symbol_table fmt cs) rates)"
      unfolding m match_symbols_def by (rule map_of_SomeD)
    then obtain s where s: "(JStr s, p) \<in> set rates" "map_of (symbol_table fmt cs) s = Some (c_id c)"
      by (rule match_symbols_in)
    from s(2) obtain c' where "c' \<in> set cs" "fmt c' = s" "c_id c' = c_id c" by (rule symbol_table_in)
    then show "(JStr (fmt c), p) \<in> set rates" using s(1) c assms(4) by (metis inj_onD)
  next
    assume p: "(JStr (fmt c), p) \<in> set rates"
    have "(c_id c, p) \<in> set (List.map_filter ?f rates)"
      unfolding set_map_filter using p symbol_table_inj [OF assms(3) c] by force
    moreover have "q = p" if h: "(c_id c, q) \<in> set (List.map_filter ?f rates)" for q
    proof -
      obtain s where s: "(JStr s, q) \<in> set rates" "map_of (symbol_table fmt cs) s = Some (c_id c)"
        by (rule match_filter_in [OF h])
      from s(2) obtain c' where "c' \<in> set cs" "fmt c' = s" "c_id c' = c_id c" by (rule symbol_table_in)
      then have "s = fmt c" using c assms(4) by (metis inj_onD)
      then show ?thesis using s(1) p assms(2) by (metis eq_key_imp_eq_value)
    qed
    ultimately show "map_of m (c_id c) = Some p"
      unfolding m map_of_dict_of
      by (metis (no_types, lifting) map_of_SomeD map_of_eq_None_keys image_eqI fst_conv not_None_eq set_rev)
  qed
  then show "map_of m (c_id c) = map_of rates (JStr (fmt c))"
    using assms(2) by (metis (no_types, lifting) map_of_eq_Some_iff not_Some_eq)
qed

theorem fetch_live_exact_witness:
  "\<exists>m. fetch_live c_asset (Inr [(JStr ''BTC'', \<lparr>rate = 1 / 2, timestamp = 7\<rparr>), (JStr ''X'', \<lparr>rate = 3, timestamp = 7\<rparr>)])
     [\<lparr>c_id = 4, c_asset = ''BTC'', c_section = ''okx'', c_interval = 8, c_quote = ''USDT'', c_special = JNull, c_deprecated = False\<rparr>] = Inr m \<and>
     map_of m 4 = Some \<lparr>rate = 1 / 2, timestamp = 7\<rparr>"
proof -
  let ?r = "[(JStr ''BTC'', \<lparr>rate = 1 / 2, timestamp = 7\<rparr>), (JStr ''X'', \<lparr>rate = 3, timestamp = 7\<rparr>)] :: rates"
  let ?c = "\<lparr>c_id = 4, c_asset = ''BTC'', c_section = ''okx'', c_interval = 8, c_quote = ''USDT'', c_special = JNull, c_deprecated = False\<rparr>"
  obtain m where m: "fetch_live c_asset (Inr ?r) [?c] = Inr m" by (simp add: fetch_live_def Let_def)
  from fetch_live_exact [OF m] have "map_of m (c_id ?c) = map_of ?r (JStr (c_asset ?c))" by simp
  then show ?thesis using m by simp
qed

text \<open>Per-contract requests are isolated: the snapshot exists exactly when no request raises
  anything but an HTTP or value error, and then it holds exactly the contracts whose request
  succeeded, each with its own rate.\<close>

theorem parallel_isolates_failures:
  assumes "distinct (map c_id cs)"
  shows "((\<exists>m. fetch_live_parallel single cs = Inr m) \<longleftrightarrow>
      (\<forall>c\<in>set cs. \<forall>e. single c = Inl e \<longrightarrow> e \<in> {HTTPError, ValueError})) \<and>
    (\<forall>m. fetch_live_parallel single cs = Inr m \<longrightarrow>
      (\<forall>c\<in>set cs. \<forall>p. map_of m (c_id c) = Some p \<longleftrightarrow> single c = Inr p))"
proof (intro conjI allI impI)
  have ex: "(\<exists>r. fetch_one single c = Inr r) \<longleftrightarrow> (\<forall>e. single c = Inl e \<longrightarrow> e \<in> {HTTPError, ValueError})" for c
    by (cases "single c") (auto simp: fetch_one_def)
  have "(\<exists>rs. rmap (fetch_one single) cs = Inr rs) \<longleftrightarrow> (\<forall>c\<in>set cs. \<exists>r. fetch_one single c = Inr r)"
    by (induction cs) (auto simp: res_simps)
  then show "(\<exists>m. fetch_live_parallel single cs = Inr m) \<longleftrightarrow>
      (\<forall>c\<in>set cs. \<forall>e. single c = Inl e \<longrightarrow> e \<in> {HTTPError, ValueError})"
    unfolding ex by (auto simp: fetch_live_parallel_def res_simps)
next
  fix m assume m: "fetch_live_parallel single cs = Inr m"
  let ?f = "\<lambda>c. case single c of Inr p \<Rightarrow> Some (c_id c, p) | Inl _ \<Rightarrow> None"
  let ?ps = "List.map_filter ?f cs"
  have "map fst ?ps = map c_id (filter (\<lambda>c. \<exists>p. single c = Inr p) cs)"
    by (induction cs) (auto simp: List.map_filter_def split: sum.splits)
  then have d: "distinct (map fst ?ps)" using distinct_map_filter [OF assms] by simp
  have m': "m = ?ps" using parallel_result [OF m] dict_of_distinct [OF d] by simp
  show "\<forall>c\<in>set cs. \<forall>p. map_of m (c_id c) = Some p \<longleftrightarrow> single c = Inr p"
  proof (intro ballI allI)
    fix c p assume c: "c \<in> set cs"
    have "map_of m (c_id c) = Some p \<longleftrightarrow> (c_id c, p) \<in> set ?ps"
      unfolding m' using d by (rule map_of_eq_Some_iff)
    also have "\<dots> \<longleftrightarrow> (\<exists>c'\<in>set cs. ?f c' = Some (c_id c, p))" by (simp add: set_map_filter)
    also have "\<dots> \<longleftrightarrow> (\<exists>c'\<in>set cs. c_id c' = c_id c \<and> single c' = Inr p)"
      by (intro bex_cong refl) (auto split: sum.split)
    also have "\<dots> \<longleftrightarrow> single c = Inr p" using assms c by (auto simp: distinct_map dest: inj_onD)
    finally show "map_of m (c_id c) = Some p \<longleftrightarrow> single c = Inr p" .
  qed
qed

definition a_contract :: "nat \<Rightarrow> string \<Rightarrow> contract_row" where
  "a_contract i a = \<lparr>c_id = i, c_asset = a, c_section = ''okx'', c_interval = 8, c_quote = ''USDT'', c_special = JNull,
     c_deprecated = False\<rparr>"

theorem parallel_isolates_failures_witness:
  "\<exists>m. fetch_live_parallel (\<lambda>c. if c_id c = 1 then Inl HTTPError else Inr \<lparr>rate = 1 / 4, timestamp = 9\<rparr>)
     [a_contract 1 ''A'', a_contract 2 ''B''] = Inr m \<and> map_of m 1 = None \<and>
     map_of m 2 = Some \<lparr>rate = 1 / 4, timestamp = 9\<rparr>"
proof -
  let ?single = "\<lambda>c. if c_id c = 1 then Inl HTTPError else Inr \<lparr>rate = 1 / 4, timestamp = 9\<rparr>"
  let ?cs = "[a_contract 1 ''A'', a_contract 2 ''B'']"
  have d: "distinct (map c_id ?cs)" by (simp add: a_contract_def)
  note p = parallel_isolates_failures [OF d, of ?single]
  have "\<forall>c\<in>set ?cs. \<forall>e. ?single c = Inl e \<longrightarrow> e \<in> {HTTPError, ValueError}" by simp
  then obtain m where m: "fetch_live_parallel ?single ?cs = Inr m" using p by blast
  then have all: "\<forall>c\<in>set ?cs. \<forall>q. map_of m (c_id c) = Some q \<longleftrightarrow> ?single c = Inr q" using p by blast
  have "map_of m 1 = None" using bspec [OF all, of "a_contract 1 ''A''"] by (auto simp: a_contract_def)
  moreover have "map_of m 2 = Some \<lparr>rate = 1 / 4, timestamp = 9\<rparr>"
    using bspec [OF all, of "a_contract 2 ''B''"] by (simp add: a_contract_def)
  ultimately show ?thesis using m by blast
qed

end
