(* ===== verification/Maintenance.thy ===== *)
theory Maintenance
  imports Adapter
begin

text \<open>
  The commit hook \<open>scripts/check_no_datetime_usage.py\<close>, which keeps the rest of the program on
  \<open>fundingpulse/time.py\<close>. A syntax tree has nodes of three kinds: the two import statements with
  their line and the names of their aliases, and all other nodes. Reading and parsing a file
  (\<open>path.read_text\<close>, \<open>ast.parse\<close>) is the argument \<open>parse\<close>, which may fail. The theorem says that
  the hook passes exactly the files in which no node of the tree imports what is forbidden.
\<close>

section \<open>Paths and trees\<close>

text \<open>\<open>Path(raw)\<close>: the root and the components, without empty ones and \<open>.\<close>.\<close>

datatype path = Path (path_root: string) (path_parts: "string list")

definition mk_path :: "string \<Rightarrow> path" where
  "mk_path raw =
     (let slashes = length (takeWhile (\<lambda>c. c = CHR ''/'') raw)
      in Path (if slashes = 0 then '''' else if slashes = 2 then ''//'' else ''/'')
           (filter (\<lambda>w. w \<noteq> '''' \<and> w \<noteq> ''.'') (py_split (CHR ''/'') raw)))"

fun join_with :: "string \<Rightarrow> string list \<Rightarrow> string" where
  "join_with sep [] = ''''"
| "join_with sep [w] = w"
| "join_with sep (w # ws) = w @ sep @ join_with sep ws"

definition str_path :: "path \<Rightarrow> string" where
  "str_path p = (case path_root p @ join_with ''/'' (path_parts p) of [] \<Rightarrow> ''.'' | s \<Rightarrow> s)"

text \<open>\<open>path.suffix\<close>: from the last dot of the name on; leading dots do not count.\<close>

definition path_suffix :: "path \<Rightarrow> string" where
  "path_suffix p =
     (let name = dropWhile (\<lambda>c. c = CHR ''.'') (if path_parts p = [] then '''' else last (path_parts p))
      in if CHR ''.'' \<in> set name then CHR ''.'' # split_last (CHR ''.'') name else '''')"

datatype ast_stmt = Import nat "string list" | ImportFrom nat "string option" "string list" | OtherNode

datatype ast = Ast ast_stmt (ast_children: "ast list")

primrec ast_stmt_of :: "ast \<Rightarrow> ast_stmt" where "ast_stmt_of (Ast s cs) = s"

text \<open>\<open>ast.walk\<close>: the nodes in breadth-first order, by a queue.\<close>

function ast_walk :: "ast list \<Rightarrow> ast_stmt list" where
  "ast_walk [] = []"
| "ast_walk (Ast s cs # todo) = s # ast_walk (todo @ cs)"
  by pat_completeness auto
termination by (relation "measure (size_list size)") (auto simp: size_list_append)

section \<open>The hook\<close>

definition banned_names :: "string list" where
  "banned_names = [''datetime'', ''UTC'', ''timezone'']"

fun node_violations :: "path \<Rightarrow> ast_stmt \<Rightarrow> string list" where
  "node_violations p (Import lineno names) =
     [str_path p @ '':'' @ py_str_int (int lineno) @
       '': direct 'import datetime' is forbidden; use fundingpulse.time''. name \<leftarrow> names, name = ''datetime'']"
| "node_violations p (ImportFrom lineno modul names) =
     (if modul = Some ''datetime'' \<and> (''*'' \<in> set names \<or> set banned_names \<inter> set names \<noteq> {})
      then [str_path p @ '':'' @ py_str_int (int lineno) @ '': direct datetime import ('' @
        join_with '', '' (sort (remdups names)) @ '') is forbidden; use fundingpulse.time'']
      else [])"
| "node_violations p OtherNode = []"

definition collect_violations :: "path \<Rightarrow> ast \<Rightarrow> string list" where
  "collect_violations p tree = concat (map (node_violations p) (ast_walk [tree]))"

definition allowed_files :: "path list" where
  "allowed_files = [mk_path ''fundingpulse/time.py'']"

fun check_paths :: "(path \<Rightarrow> 'e + ast) \<Rightarrow> path list \<Rightarrow> 'e + string list" where
  "check_paths parse [] = Inr []"
| "check_paths parse (p # ps) =
     (if path_suffix p \<noteq> ''.py'' \<or> p \<in> set allowed_files then check_paths parse ps
      else case parse p of
        Inl e \<Rightarrow> Inl e
      | Inr tree \<Rightarrow> (case check_paths parse ps of
          Inl e \<Rightarrow> Inl e
        | Inr vs \<Rightarrow> Inr (collect_violations p tree @ vs)))"

text \<open>\<open>main(argv)\<close> with \<open>sys.argv[1:]\<close> as second argument: the exit status and what is written to
  standard error.\<close>

definition check_main :: "(path \<Rightarrow> 'e + ast) \<Rightarrow> string list option \<Rightarrow> string list \<Rightarrow> 'e + int \<times> string" where
  "check_main parse argv sys_args =
     (let raw_paths = (case argv of Some (a # as) \<Rightarrow> a # as | _ \<Rightarrow> sys_args)
      in case check_paths parse (map mk_path raw_paths) of
        Inl e \<Rightarrow> Inl e
      | Inr violations \<Rightarrow>
          Inr (if violations \<noteq> [] then (1, join_with ''\<newline>'' violations @ ''\<newline>'') else (0, '''')))"

section \<open>What it forbids\<close>

fun forbidden :: "ast_stmt \<Rightarrow> bool" where
  "forbidden (Import l names) \<longleftrightarrow> ''datetime'' \<in> set names"
| "forbidden (ImportFrom l modul names) \<longleftrightarrow>
     modul = Some ''datetime'' \<and> (\<exists>n\<in>set names. n \<in> {''*'', ''datetime'', ''UTC'', ''timezone''})"
| "forbidden OtherNode \<longleftrightarrow> False"

text \<open>The nodes of a tree, without an order.\<close>

inductive node_of :: "ast_stmt \<Rightarrow> ast \<Rightarrow> bool" where
  self: "node_of s (Ast s cs)"
| inside: "c \<in> set cs \<Longrightarrow> node_of s c \<Longrightarrow> node_of s (Ast t cs)"

inductive_simps node_of_Ast: "node_of s (Ast t cs)"

lemma set_ast_walk: "set (ast_walk ts) = {s. \<exists>t\<in>set ts. node_of s t}"
  by (induction ts rule: ast_walk.induct) (auto simp: node_of_Ast)

lemma node_violations_empty: "node_violations p s = [] \<longleftrightarrow> \<not> forbidden s"
  by (cases s) (auto simp: banned_names_def)

lemma collect_violations_empty: "collect_violations p tree = [] \<longleftrightarrow> (\<forall>s. node_of s tree \<longrightarrow> \<not> forbidden s)"
  by (auto simp: collect_violations_def set_ast_walk node_violations_empty)

abbreviation hook_checks :: "path \<Rightarrow> bool" where
  "hook_checks p \<equiv> path_suffix p = ''.py'' \<and> p \<notin> set allowed_files"

lemma check_paths_trees:
  assumes "\<And>p. p \<in> set ps \<Longrightarrow> hook_checks p \<Longrightarrow> parse p = Inr (tree p)"
  shows "check_paths parse ps = Inr (concat (map (\<lambda>p. collect_violations p (tree p)) (filter hook_checks ps)))"
  using assms by (induction ps) auto

theorem hook_keeps_datetime_out:
  assumes "\<And>p. p \<in> set (map mk_path args) \<Longrightarrow> hook_checks p \<Longrightarrow> parse p = Inr (tree p)"
  shows "\<exists>out. check_main parse None args =
    Inr (if \<exists>p\<in>set (map mk_path args). hook_checks p \<and> (\<exists>s. node_of s (tree p) \<and> forbidden s) then 1 else 0, out)"
proof -
  have "check_paths parse (map mk_path args) =
    Inr (concat (map (\<lambda>p. collect_violations p (tree p)) (filter hook_checks (map mk_path args))))"
    using assms by (rule check_paths_trees)
  then show ?thesis
    by (force simp: check_main_def collect_violations_empty)
qed

text \<open>The module itself is let through, and only under this path.\<close>

lemma time_module_allowed:
  "check_main (parse :: path \<Rightarrow> string + ast) None [''./fundingpulse//time.py''] = Inr (0, '''')"
  "check_main (\<lambda>_. Inr (Ast OtherNode [Ast (ImportFrom 5 (Some ''datetime'') [''UTC'', ''datetime'']) []]))
     None [''src/fundingpulse/time.py''] =
   (Inr (1, ''src/fundingpulse/time.py:5: direct datetime import (UTC, datetime) is forbidden; use fundingpulse.time\<newline>'') :: string + int \<times> string)"
  by code_simp+

end
