(* ===== verification/Ddl.thy ===== *)
theory Ddl
  imports Prelude
begin

text \<open>
  The language of the migrations: the statements that the files of \<open>migrations/versions/\<close> send through
  \<open>alembic.op\<close>, as a datatype, and their effect on the catalogue of the database. A statement is checked
  the way PostgreSQL and TimescaleDB check it: duplicate and missing names, columns that a view reads,
  tables that a foreign key references, \<open>IF EXISTS\<close>, \<open>CASCADE\<close>.

  A view lists the columns that it reads and the functions that it calls. Views are kept in the order of
  their creation, so a view stands behind everything that it reads; extensions in the order of their names.
\<close>

section \<open>The catalogue\<close>

datatype coltype = AutoString | Text | Integer | Boolean | Float | Uuid | DateTimeTz | Json | Jsonb

record column =
  cl_name :: string
  cl_type :: coltype
  cl_default :: "string option"
  cl_nullable :: bool

record foreign_key =
  fk_column :: string
  fk_table :: string
  fk_target :: string
  fk_cascade :: bool

text \<open>\<open>tb_hyper\<close> holds the time column and the chunk interval of a hypertable.\<close>

record db_table =
  tb_name :: string
  tb_columns :: "column list"
  tb_primary :: "string list"
  tb_foreign :: "foreign_key list"
  tb_unique :: "string list list"
  tb_checks :: "(string \<times> string) list"
  tb_hyper :: "(string \<times> int) option"

text \<open>\<open>ix_where\<close> is a column and the values that it must have.\<close>

datatype access_method = Btree | GinTrgm

record db_index =
  ix_name :: string
  ix_on :: string
  ix_columns :: "string list"
  ix_unique :: bool
  ix_where :: "(string \<times> string list) option"
  ix_method :: access_method

datatype view_kind = PlainView | Materialized | Continuous

record db_view =
  vw_name :: string
  vw_kind :: view_kind
  vw_columns :: "string list"
  vw_reads :: "(string \<times> string) list"
  vw_calls :: "string list"

record catalogue =
  ct_extensions :: "string list"
  ct_tables :: "db_table list"
  ct_indexes :: "db_index list"
  ct_functions :: "string list"
  ct_views :: "db_view list"
  ct_refresh :: "(string \<times> int \<times> int \<times> int) list"
  ct_retention :: "(string \<times> int) list"

definition empty_catalogue :: catalogue where
  "empty_catalogue = \<lparr>ct_extensions = [], ct_tables = [], ct_indexes = [], ct_functions = [], ct_views = [],
     ct_refresh = [], ct_retention = []\<rparr>"

definition table_named :: "string \<Rightarrow> catalogue \<Rightarrow> db_table option" where
  "table_named n c = find (\<lambda>t. tb_name t = n) (ct_tables c)"

definition view_named :: "string \<Rightarrow> catalogue \<Rightarrow> db_view option" where
  "view_named n c = find (\<lambda>v. vw_name v = n) (ct_views c)"

definition relation_columns :: "string \<Rightarrow> catalogue \<Rightarrow> string list option" where
  "relation_columns n c = (case table_named n c of Some t \<Rightarrow> Some (map cl_name (tb_columns t))
     | None \<Rightarrow> map_option vw_columns (view_named n c))"

definition index_names :: "catalogue \<Rightarrow> string list" where
  "index_names c = map ix_name (ct_indexes c)"

section \<open>Statements\<close>

datatype ddl_error = DuplicateTable | DuplicateColumn | DuplicateFunction | DuplicateObject | UndefinedTable
  | UndefinedColumn | UndefinedFunction | UndefinedObject | DependentObjectsStillExist | WrongObjectType

text \<open>
  \<open>CreateTable t h\<close> has the time column of the option \<open>timescaledb_hypertable\<close>, if given. The flags of
  \<open>CreateIndex\<close>, \<open>DropIndex\<close> and \<open>CreateFunction\<close> stand for \<open>IF NOT EXISTS\<close>, \<open>IF EXISTS\<close> and \<open>OR REPLACE\<close>;
  \<open>DropView\<close> and \<open>DropMaterializedView\<close> have \<open>IF EXISTS\<close> and \<open>CASCADE\<close>, \<open>DropFunction\<close> has \<open>IF EXISTS\<close>, and a
  policy is removed with \<open>if_exists => true\<close>. \<open>Statement\<close> is a statement on the rows of the listed columns.
\<close>

datatype ddl =
    CreateExtension string
  | DropExtension string
  | CreateTable db_table "string option"
  | DropTable string
  | CreateHypertable string string int
  | AddColumn string column
  | DropColumn string string
  | AlterDefault string string "string option"
  | CreateIndex bool db_index
  | DropIndex bool string
  | CreateFunction bool string
  | DropFunction string
  | CreateView db_view
  | DropView string
  | DropMaterializedView string
  | RefreshView string
  | RefreshAggregate string int
  | AddRefreshPolicy string int int int
  | RemoveRefreshPolicy string
  | AddRetentionPolicy string int
  | RemoveRetentionPolicy string
  | Statement "(string \<times> string) list"

type_synonym 'a ddl_result = "ddl_error + 'a"

definition column_error :: "catalogue \<Rightarrow> string \<times> string \<Rightarrow> ddl_error option" where
  "column_error c rc = (case relation_columns (fst rc) c of None \<Rightarrow> Some UndefinedTable
     | Some cs \<Rightarrow> if snd rc \<in> set cs then None else Some UndefinedColumn)"

definition columns_error :: "catalogue \<Rightarrow> (string \<times> string) list \<Rightarrow> ddl_error option" where
  "columns_error c rcs = (case List.map_filter (column_error c) rcs of [] \<Rightarrow> None | e # _ \<Rightarrow> Some e)"

definition checked :: "ddl_error option \<Rightarrow> 'a \<Rightarrow> 'a ddl_result" where
  "checked e x = (case e of None \<Rightarrow> Inr x | Some e \<Rightarrow> Inl e)"

definition on_table :: "string \<Rightarrow> (db_table \<Rightarrow> db_table) \<Rightarrow> catalogue \<Rightarrow> catalogue" where
  "on_table n f c = c\<lparr>ct_tables := map (\<lambda>t. if tb_name t = n then f t else t) (ct_tables c)\<rparr>"

definition add_index :: "db_index \<Rightarrow> catalogue \<Rightarrow> catalogue" where
  "add_index i c = c\<lparr>ct_indexes := ct_indexes c @ [i]\<rparr>"

text \<open>A new hypertable gets a descending index on its time column.\<close>

definition make_hypertable :: "string \<Rightarrow> string \<Rightarrow> int \<Rightarrow> catalogue \<Rightarrow> catalogue" where
  "make_hypertable n col chunk c = add_index \<lparr>ix_name = n @ ''_'' @ col @ ''_idx'', ix_on = n, ix_columns = [col],
       ix_unique = False, ix_where = None, ix_method = Btree\<rparr>
     (on_table n (\<lambda>t. t\<lparr>tb_hyper := Some (col, chunk)\<rparr>) c)"

definition forget :: "string list \<Rightarrow> catalogue \<Rightarrow> catalogue" where
  "forget ns c = c\<lparr>ct_indexes := filter (\<lambda>i. ix_on i \<notin> set ns) (ct_indexes c),
     ct_refresh := filter (\<lambda>p. fst p \<notin> set ns) (ct_refresh c),
     ct_retention := filter (\<lambda>p. fst p \<notin> set ns) (ct_retention c)\<rparr>"

text \<open>The names that go with the view \<open>n\<close>: a view that reads one of them goes too.\<close>

fun cascade :: "string list \<Rightarrow> db_view list \<Rightarrow> string list" where
  "cascade gone [] = gone"
| "cascade gone (v # vs) = cascade (if \<exists>rc\<in>set (vw_reads v). fst rc \<in> set gone then vw_name v # gone else gone) vs"

definition drop_view :: "string \<Rightarrow> catalogue \<Rightarrow> catalogue" where
  "drop_view n c = (let gone = cascade [n] (ct_views c) in
     forget gone (c\<lparr>ct_views := filter (\<lambda>v. vw_name v \<notin> set gone) (ct_views c)\<rparr>))"

definition reads_table :: "string \<Rightarrow> catalogue \<Rightarrow> bool" where
  "reads_table n c \<longleftrightarrow> (\<exists>v\<in>set (ct_views c). \<exists>rc\<in>set (vw_reads v). fst rc = n)"

definition reads_column :: "string \<Rightarrow> string \<Rightarrow> catalogue \<Rightarrow> bool" where
  "reads_column n col c \<longleftrightarrow> (\<exists>v\<in>set (ct_views c). (n, col) \<in> set (vw_reads v))"

definition references :: "string \<Rightarrow> catalogue \<Rightarrow> bool" where
  "references n c \<longleftrightarrow> (\<exists>t\<in>set (ct_tables c). tb_name t \<noteq> n \<and> (\<exists>k\<in>set (tb_foreign t). fk_table k = n))"

definition is_hypertable :: "string \<Rightarrow> catalogue \<Rightarrow> bool" where
  "is_hypertable n c \<longleftrightarrow> (case table_named n c of None \<Rightarrow> False | Some t \<Rightarrow> tb_hyper t \<noteq> None)"

definition is_view_kind :: "view_kind \<Rightarrow> string \<Rightarrow> catalogue \<Rightarrow> bool" where
  "is_view_kind k n c \<longleftrightarrow> (case view_named n c of None \<Rightarrow> False | Some v \<Rightarrow> vw_kind v = k)"

section \<open>The effect of a statement\<close>

text \<open>\<open>chunk\<close> is the chunk interval that the dialect sets when it makes a hypertable of a table created with the
  option; \<open>None\<close> if the dialect leaves the table alone.\<close>

definition create_table :: "int option \<Rightarrow> db_table \<Rightarrow> string option \<Rightarrow> catalogue \<Rightarrow> catalogue ddl_result" where
  "create_table chunk t time_column c =
     (if relation_columns (tb_name t) c \<noteq> None then Inl DuplicateTable
      else checked (columns_error c (map (\<lambda>k. (fk_table k, fk_target k)) (tb_foreign t)))
        (let c = c\<lparr>ct_tables := ct_tables c @ [t]\<rparr> in
         case (time_column, chunk) of (Some col, Some i) \<Rightarrow> make_hypertable (tb_name t) col i c | _ \<Rightarrow> c))"

definition drop_table :: "string \<Rightarrow> catalogue \<Rightarrow> catalogue ddl_result" where
  "drop_table n c = (if table_named n c = None then Inl UndefinedTable
     else if references n c \<or> reads_table n c then Inl DependentObjectsStillExist
     else Inr (forget [n] (c\<lparr>ct_tables := filter (\<lambda>t. tb_name t \<noteq> n) (ct_tables c)\<rparr>)))"

text \<open>\<open>create_hypertable(..., if_not_exists => TRUE)\<close>.\<close>

definition create_hypertable :: "string \<Rightarrow> string \<Rightarrow> int \<Rightarrow> catalogue \<Rightarrow> catalogue ddl_result" where
  "create_hypertable n col i c = (if ''timescaledb'' \<notin> set (ct_extensions c) then Inl UndefinedFunction
     else if table_named n c = None then Inl UndefinedTable
     else if is_hypertable n c then Inr c
     else checked (columns_error c [(n, col)]) (make_hypertable n col i c))"

definition add_column :: "string \<Rightarrow> column \<Rightarrow> catalogue \<Rightarrow> catalogue ddl_result" where
  "add_column n col c = (case table_named n c of None \<Rightarrow> Inl UndefinedTable
     | Some t \<Rightarrow> if cl_name col \<in> cl_name ` set (tb_columns t) then Inl DuplicateColumn
         else Inr (on_table n (\<lambda>t. t\<lparr>tb_columns := tb_columns t @ [col]\<rparr>) c))"

text \<open>The indexes and the constraints over a column go with it.\<close>

definition without_column :: "string \<Rightarrow> db_table \<Rightarrow> db_table" where
  "without_column col t = t\<lparr>tb_columns := filter (\<lambda>k. cl_name k \<noteq> col) (tb_columns t),
     tb_primary := (if col \<in> set (tb_primary t) then [] else tb_primary t),
     tb_foreign := filter (\<lambda>k. fk_column k \<noteq> col) (tb_foreign t),
     tb_unique := filter (\<lambda>u. col \<notin> set u) (tb_unique t)\<rparr>"

definition drop_column :: "string \<Rightarrow> string \<Rightarrow> catalogue \<Rightarrow> catalogue ddl_result" where
  "drop_column n col c = (case columns_error c [(n, col)] of Some e \<Rightarrow> Inl e
     | None \<Rightarrow> if reads_column n col c then Inl DependentObjectsStillExist
         else Inr ((on_table n (without_column col) c)\<lparr>ct_indexes :=
           filter (\<lambda>i. ix_on i = n \<longrightarrow> col \<notin> set (ix_columns i)) (ct_indexes c)\<rparr>))"

definition alter_default :: "string \<Rightarrow> string \<Rightarrow> string option \<Rightarrow> catalogue \<Rightarrow> catalogue ddl_result" where
  "alter_default n col d c = checked (columns_error c [(n, col)])
     (on_table n (\<lambda>t. t\<lparr>tb_columns := map (\<lambda>k. if cl_name k = col then k\<lparr>cl_default := d\<rparr> else k) (tb_columns t)\<rparr>) c)"

definition create_index :: "bool \<Rightarrow> db_index \<Rightarrow> catalogue \<Rightarrow> catalogue ddl_result" where
  "create_index if_not_exists i c = (if ix_name i \<in> set (index_names c) then if if_not_exists then Inr c else Inl DuplicateTable
     else if ix_method i = GinTrgm \<and> ''pg_trgm'' \<notin> set (ct_extensions c) then Inl UndefinedObject
     else checked (columns_error c (map (\<lambda>k. (ix_on i, k)) (ix_columns i))) (add_index i c))"

definition drop_index :: "bool \<Rightarrow> string \<Rightarrow> catalogue \<Rightarrow> catalogue ddl_result" where
  "drop_index if_exists n c = (if n \<notin> set (index_names c) then if if_exists then Inr c else Inl UndefinedObject
     else Inr (c\<lparr>ct_indexes := filter (\<lambda>i. ix_name i \<noteq> n) (ct_indexes c)\<rparr>))"

definition create_function :: "bool \<Rightarrow> string \<Rightarrow> catalogue \<Rightarrow> catalogue ddl_result" where
  "create_function or_replace n c = (if n \<in> set (ct_functions c) then if or_replace then Inr c else Inl DuplicateFunction
     else Inr (c\<lparr>ct_functions := ct_functions c @ [n]\<rparr>))"

definition drop_function :: "string \<Rightarrow> catalogue \<Rightarrow> catalogue ddl_result" where
  "drop_function n c = (if \<exists>v\<in>set (ct_views c). n \<in> set (vw_calls v) then Inl DependentObjectsStillExist
     else Inr (c\<lparr>ct_functions := filter (\<lambda>f. f \<noteq> n) (ct_functions c)\<rparr>))"

text \<open>A continuous aggregate reads a single hypertable.\<close>

definition create_view :: "db_view \<Rightarrow> catalogue \<Rightarrow> catalogue ddl_result" where
  "create_view v c = (if relation_columns (vw_name v) c \<noteq> None then Inl DuplicateTable
     else if vw_kind v = Continuous \<and> \<not> (case remdups (map fst (vw_reads v)) of [n] \<Rightarrow> is_hypertable n c | _ \<Rightarrow> False) then Inl WrongObjectType
     else if \<not> set (vw_calls v) \<subseteq> set (ct_functions c) then Inl UndefinedFunction
     else checked (columns_error c (vw_reads v)) (c\<lparr>ct_views := ct_views c @ [v]\<rparr>))"

text \<open>\<open>DROP VIEW\<close> is for plain views, \<open>DROP MATERIALIZED VIEW\<close> for the others.\<close>

definition drop_view_of :: "bool \<Rightarrow> string \<Rightarrow> catalogue \<Rightarrow> catalogue ddl_result" where
  "drop_view_of plain n c = (if table_named n c \<noteq> None then Inl WrongObjectType
     else case view_named n c of None \<Rightarrow> Inr c
     | Some v \<Rightarrow> if (vw_kind v = PlainView) = plain then Inr (drop_view n c) else Inl WrongObjectType)"

definition with_aggregate :: "string \<Rightarrow> catalogue \<Rightarrow> catalogue ddl_result \<Rightarrow> catalogue ddl_result" where
  "with_aggregate n c r = (if relation_columns n c = None then Inl UndefinedTable
     else if is_view_kind Continuous n c then r else Inl WrongObjectType)"

definition with_chunks :: "string \<Rightarrow> catalogue \<Rightarrow> catalogue ddl_result \<Rightarrow> catalogue ddl_result" where
  "with_chunks n c r = (if relation_columns n c = None then Inl UndefinedTable
     else if is_view_kind Continuous n c \<or> is_hypertable n c then r else Inl WrongObjectType)"

fun exec :: "int option \<Rightarrow> ddl \<Rightarrow> catalogue \<Rightarrow> catalogue ddl_result" where
  "exec chunk (CreateExtension n) c = Inr (if n \<in> set (ct_extensions c) then c
     else c\<lparr>ct_extensions := insort n (ct_extensions c)\<rparr>)"
| "exec chunk (DropExtension n) c =
     (if (n = ''timescaledb'' \<and> (\<exists>t\<in>set (ct_tables c). tb_hyper t \<noteq> None)) \<or>
         (n = ''pg_trgm'' \<and> (\<exists>i\<in>set (ct_indexes c). ix_method i = GinTrgm)) then Inl DependentObjectsStillExist
      else Inr (c\<lparr>ct_extensions := filter (\<lambda>e. e \<noteq> n) (ct_extensions c)\<rparr>))"
| "exec chunk (CreateTable t time_column) c = create_table chunk t time_column c"
| "exec chunk (DropTable n) c = drop_table n c"
| "exec chunk (CreateHypertable n col i) c = create_hypertable n col i c"
| "exec chunk (AddColumn n col) c = add_column n col c"
| "exec chunk (DropColumn n col) c = drop_column n col c"
| "exec chunk (AlterDefault n col d) c = alter_default n col d c"
| "exec chunk (CreateIndex if_not_exists i) c = create_index if_not_exists i c"
| "exec chunk (DropIndex if_exists n) c = drop_index if_exists n c"
| "exec chunk (CreateFunction or_replace n) c = create_function or_replace n c"
| "exec chunk (DropFunction n) c = drop_function n c"
| "exec chunk (CreateView v) c = create_view v c"
| "exec chunk (DropView n) c = drop_view_of True n c"
| "exec chunk (DropMaterializedView n) c = drop_view_of False n c"
| "exec chunk (RefreshView n) c = (if relation_columns n c = None then Inl UndefinedTable
     else if is_view_kind Materialized n c then Inr c else Inl WrongObjectType)"
| "exec chunk (RefreshAggregate n i) c = with_aggregate n c (Inr c)"
| "exec chunk (AddRefreshPolicy n st en sched) c = with_aggregate n c
     (if n \<in> fst ` set (ct_refresh c) then Inl DuplicateObject
      else Inr (c\<lparr>ct_refresh := ct_refresh c @ [(n, st, en, sched)]\<rparr>))"
| "exec chunk (RemoveRefreshPolicy n) c = with_aggregate n c
     (Inr (c\<lparr>ct_refresh := filter (\<lambda>p. fst p \<noteq> n) (ct_refresh c)\<rparr>))"
| "exec chunk (AddRetentionPolicy n i) c = with_chunks n c
     (if n \<in> fst ` set (ct_retention c) then Inl DuplicateObject
      else Inr (c\<lparr>ct_retention := ct_retention c @ [(n, i)]\<rparr>))"
| "exec chunk (RemoveRetentionPolicy n) c = with_chunks n c
     (Inr (c\<lparr>ct_retention := filter (\<lambda>p. fst p \<noteq> n) (ct_retention c)\<rparr>))"
| "exec chunk (Statement rcs) c = checked (columns_error c rcs) c"

primrec run_ddl :: "int option \<Rightarrow> ddl list \<Rightarrow> catalogue \<Rightarrow> catalogue ddl_result" where
  "run_ddl chunk [] c = Inr c"
| "run_ddl chunk (s # ss) c = (case exec chunk s c of Inl e \<Rightarrow> Inl e | Inr c \<Rightarrow> run_ddl chunk ss c)"

lemma run_ddl_append: "run_ddl chunk (xs @ ys) c = (case run_ddl chunk xs c of Inl e \<Rightarrow> Inl e | Inr c \<Rightarrow> run_ddl chunk ys c)"
  by (induction xs arbitrary: c) (auto split: sum.splits)

section \<open>Interrupted scripts\<close>

text \<open>
  A migration is a list of steps; \<open>Auto\<close> is a statement inside \<open>autocommit_block()\<close>, which commits the
  transaction before it, and each statement in it at once. If the step \<open>k\<close> fails, the transaction is rolled
  back to the last commit.
\<close>

datatype step = Tx (statement: ddl) | Auto (statement: ddl)

definition is_auto :: "step \<Rightarrow> bool" where
  "is_auto s = (case s of Tx _ \<Rightarrow> False | Auto _ \<Rightarrow> True)"

definition run_steps :: "int option \<Rightarrow> step list \<Rightarrow> catalogue \<Rightarrow> catalogue ddl_result" where
  "run_steps chunk m c = run_ddl chunk (map statement m) c"

definition committed :: "nat \<Rightarrow> step list \<Rightarrow> nat" where
  "committed k m = (if k < length m \<and> is_auto (m ! k) then k
     else length (dropWhile (\<lambda>s. \<not> is_auto s) (rev (take k m))))"

definition interrupted :: "int option \<Rightarrow> nat \<Rightarrow> step list \<Rightarrow> catalogue \<Rightarrow> catalogue ddl_result" where
  "interrupted chunk k m c = run_steps chunk (take (committed k m) m) c"

section \<open>Chains of revisions\<close>

text \<open>The databases that upgrades and downgrades by one revision at a time produce.\<close>

inductive walk :: "(nat \<Rightarrow> 'c \<Rightarrow> 'c ddl_result) \<Rightarrow> (nat \<Rightarrow> 'c \<Rightarrow> 'c ddl_result) \<Rightarrow> nat \<Rightarrow> 'c \<Rightarrow> nat \<Rightarrow> 'c \<Rightarrow> bool"
  for up down top start where
  "walk up down top start 0 start"
| "walk up down top start n c \<Longrightarrow> n < top \<Longrightarrow> up n c = Inr c' \<Longrightarrow> walk up down top start (Suc n) c'"
| "walk up down top start (Suc n) c \<Longrightarrow> down n c = Inr c' \<Longrightarrow> walk up down top start n c'"

text \<open>A chain keeps a set of states at each revision, between which every step succeeds.\<close>

locale revision_chain =
  fixes up down :: "nat \<Rightarrow> 'c \<Rightarrow> 'c ddl_result"
    and top :: nat and start :: 'c and states :: "nat \<Rightarrow> 'c set"
  assumes start_state: "start \<in> states 0"
    and up_state: "n < top \<Longrightarrow> c \<in> states n \<Longrightarrow> \<exists>c'\<in>states (Suc n). up n c = Inr c'"
    and down_state: "n < top \<Longrightarrow> c \<in> states (Suc n) \<Longrightarrow> \<exists>c'\<in>states n. down n c = Inr c'"
begin

lemma walk_state: "walk up down top start n c \<Longrightarrow> n \<le> top \<and> c \<in> states n"
proof (induction rule: walk.induct)
  case (2 n c c')
  then show ?case using up_state [of n c] by auto
next
  case (3 n c c')
  then show ?case using down_state [of n c] by auto
qed (simp add: start_state)

lemma walk_up: "walk up down top start n c \<Longrightarrow> n < top \<Longrightarrow> \<exists>c'. up n c = Inr c'"
  using walk_state up_state by blast

lemma walk_down: "walk up down top start (Suc n) c \<Longrightarrow> \<exists>c'. down n c = Inr c'"
  using walk_state [of "Suc n" c] down_state [of n c] by auto

end

end
