(* ===== verification/Schema.thy ===== *)
theory Schema
  imports Store
begin

text \<open>
  What the migrations put into the database beside the tables: the function and the views of
  \<open>migrations/versions/\<close> 002, 003, 004 and 005, the retention of 008, and the data migration 007, which
  moved the flag \<open>synced\<close> of the table \<open>contract\<close> into the new table \<open>contract_history_state\<close>.

  The division of \<open>NUMERIC\<close>, the average of doubles and TimescaleDB's \<open>time_bucket\<close> are parameters;
  \<open>bucket w t\<close> is the start of the bucket of width \<open>w\<close> that contains \<open>t\<close>.
\<close>

section \<open>The view of active contracts\<close>

definition get_funding_multiplier :: "(rat \<Rightarrow> rat \<Rightarrow> rat) \<Rightarrow> int \<Rightarrow> rat \<Rightarrow> rat res" where
  "get_funding_multiplier div_numeric funding_interval target_hours =
     (if funding_interval = 1 then Inr target_hours
      else if funding_interval = 2 then Inr (div_numeric target_hours 2)
      else if funding_interval = 4 then Inr (div_numeric target_hours 4)
      else if funding_interval = 8 then Inr (div_numeric target_hours 8)
      else if funding_interval = 0 then Inl DBAPIError
      else Inr (div_numeric target_hours (of_int funding_interval)))"

record enriched_row =
  er_contract :: contract_row
  er_multiplier_1h :: rat
  er_multiplier_8h :: rat
  er_multiplier_1d :: rat
  er_multiplier_365d :: rat

definition enrich :: "(rat \<Rightarrow> rat \<Rightarrow> rat) \<Rightarrow> contract_row \<Rightarrow> enriched_row res" where
  "enrich div_numeric c = rbind (get_funding_multiplier div_numeric (c_interval c) 1) (\<lambda>h1.
     rbind (get_funding_multiplier div_numeric (c_interval c) 8) (\<lambda>h8.
     rbind (get_funding_multiplier div_numeric (c_interval c) 24) (\<lambda>d1.
     rbind (get_funding_multiplier div_numeric (c_interval c) 8760) (\<lambda>d365.
     Inr \<lparr>er_contract = c, er_multiplier_1h = h1, er_multiplier_8h = h8, er_multiplier_1d = d1,
        er_multiplier_365d = d365\<rparr>))))"

text \<open>\<open>REFRESH MATERIALIZED VIEW contract_enriched\<close>.\<close>

definition contract_enriched :: "(rat \<Rightarrow> rat \<Rightarrow> rat) \<Rightarrow> db \<Rightarrow> enriched_row list res" where
  "contract_enriched div_numeric d = rmap (enrich div_numeric)
     [c. c \<leftarrow> contracts d, s \<leftarrow> sections d, c_section c = s_name s \<and> \<not> c_deprecated c]"

section \<open>Aggregates of live rates\<close>

type_synonym bucketing = "timedelta \<Rightarrow> utc \<Rightarrow> utc"

definition minutes :: "int \<Rightarrow> timedelta" where "minutes n = n * us_per_minute"

text \<open>\<open>SELECT time_bucket(w, timestamp) AS bucket, contract_id, AVG(funding_rate) ... GROUP BY\<close>.\<close>

definition lfp_key :: "bucketing \<Rightarrow> timedelta \<Rightarrow> point \<Rightarrow> utc \<times> nat" where
  "lfp_key bucket w p = (bucket w (p_time p), p_contract p)"

definition lfp_row :: "(rat list \<Rightarrow> rat) \<Rightarrow> bucketing \<Rightarrow> timedelta \<Rightarrow> point list \<Rightarrow> utc \<times> nat \<Rightarrow> point" where
  "lfp_row avg bucket w live k = \<lparr>p_time = fst k, p_contract = snd k,
     p_rate = avg (map p_rate (filter (\<lambda>p. lfp_key bucket w p = k) live))\<rparr>"

definition lfp :: "(rat list \<Rightarrow> rat) \<Rightarrow> bucketing \<Rightarrow> timedelta \<Rightarrow> point list \<Rightarrow> point list" where
  "lfp avg bucket w live = map (lfp_row avg bucket w live) (remdups (map (lfp_key bucket w) live))"

definition shifted :: "timedelta \<Rightarrow> point \<Rightarrow> point" where
  "shifted w p = p\<lparr>p_time := p_time p + w\<rparr>"

definition layer :: "timedelta \<Rightarrow> utc \<Rightarrow> utc \<Rightarrow> point list \<Rightarrow> point list" where
  "layer w from_time to_time view = map (shifted w) (filter (\<lambda>p. from_time \<le> p_time p \<and> p_time p < to_time) view)"

text \<open>\<open>CREATE VIEW lfp_smart\<close>, over the raw points and the contents of the three aggregates.\<close>

definition lfp_smart :: "utc \<Rightarrow> point list \<Rightarrow> point list \<Rightarrow> point list \<Rightarrow> point list \<Rightarrow> point list" where
  "lfp_smart now live lfp_5min lfp_15min lfp_1hour = sort_key p_time (sort_key p_contract
     (filter (\<lambda>p. now - hours 3 \<le> p_time p) live @
      layer (minutes 5) (now - days 3) (now - hours 3) lfp_5min @
      layer (minutes 15) (now - days 7) (now - days 3) lfp_15min @
      layer (hours 1) (now - days 30) (now - days 7) lfp_1hour))"

text \<open>The policies of 004 and 008: per view the width, the window of a refresh and the retention; raw
  points are kept for six hours. A retention job drops what is older.\<close>

record aggregate_policy =
  ag_width :: timedelta
  ag_start_offset :: timedelta
  ag_end_offset :: timedelta
  ag_schedule :: timedelta
  ag_retention :: timedelta

definition policy_5min :: aggregate_policy where
  "policy_5min = \<lparr>ag_width = minutes 5, ag_start_offset = hours 3, ag_end_offset = minutes 5,
     ag_schedule = minutes 30, ag_retention = days 3\<rparr>"

definition policy_15min :: aggregate_policy where
  "policy_15min = \<lparr>ag_width = minutes 15, ag_start_offset = hours 12, ag_end_offset = minutes 15,
     ag_schedule = hours 1, ag_retention = days 7\<rparr>"

definition policy_1hour :: aggregate_policy where
  "policy_1hour = \<lparr>ag_width = hours 1, ag_start_offset = days 2, ag_end_offset = hours 1,
     ag_schedule = hours 4, ag_retention = days 30\<rparr>"

definition raw_retention :: timedelta where "raw_retention = hours 6"

section \<open>The data migration\<close>

text \<open>\<open>synced\<close> are the ids of the contracts whose flag is set in the old schema.\<close>

definition migrated_state :: "utc \<Rightarrow> nat list \<Rightarrow> db \<Rightarrow> contract_row \<Rightarrow> history_state" where
  "migrated_state now synced d c = (let ts = map p_time (filter (\<lambda>p. p_contract p = c_id c) (historical_points d));
       oldest = (if ts = [] then None else Some (Min (set ts)));
       newest = (if ts = [] then None else Some (Max (set ts))) in
     \<lparr>hs_contract = c_id c, hs_synced = (c_id c \<in> set synced \<and> oldest \<noteq> None), hs_oldest = oldest, hs_newest = newest,
      hs_updated_at = now\<rparr>)"

definition upgrade_007 :: "utc \<Rightarrow> nat list \<Rightarrow> db \<Rightarrow> db" where
  "upgrade_007 now synced d = d\<lparr>history_states := map (migrated_state now synced d) (contracts d)\<rparr>"

text \<open>The new column is false; the flags of the rows overwrite it, and the table is dropped.\<close>

definition downgrade_007 :: "db \<Rightarrow> nat list \<times> db" where
  "downgrade_007 d = (map c_id (filter (\<lambda>c. list_ex (\<lambda>s. hs_contract s = c_id c \<and> hs_synced s) (history_states d)) (contracts d)),
     d\<lparr>history_states := []\<rparr>)"

section \<open>Lemmas\<close>

lemma migrated_contract [simp]: "hs_contract (migrated_state now synced d c) = c_id c"
  by (simp add: migrated_state_def Let_def)

lemma migrated_tight: "state_tight (upgrade_007 now synced d) (migrated_state now synced d c)"
  by (simp add: state_tight_def migrated_state_def upgrade_007_def Let_def least_of_def greatest_of_def times_of_def
      points_of_def)

lemma enrich_contract: "enrich div_numeric c = Inr r \<Longrightarrow> er_contract r = c"
  by (auto simp: enrich_def res_simps)

text \<open>The join with the sections keeps each active contract once.\<close>

lemma join_names:
  "distinct (map s_name ss) \<Longrightarrow> concat (map (\<lambda>s. if c_section c = s_name s \<and> P then [c] else []) ss) =
    (if c_section c \<in> s_name ` set ss \<and> P then [c] else [])"
  by (induction ss) auto

lemma enriched_contracts:
  assumes "db_ok d" and "contract_enriched div_numeric d = Inr rows"
  shows "map er_contract rows = filter (\<lambda>c. \<not> c_deprecated c) (contracts d)"
proof -
  have "list_all2 (\<lambda>c r. enrich div_numeric c = Inr r)
      [c. c \<leftarrow> contracts d, s \<leftarrow> sections d, c_section c = s_name s \<and> \<not> c_deprecated c] rows"
    using assms(2) by (simp add: contract_enriched_def rmap_Inr_iff)
  then have "map er_contract rows = [c. c \<leftarrow> contracts d, s \<leftarrow> sections d, c_section c = s_name s \<and> \<not> c_deprecated c]"
    by (auto simp: list_all2_conv_all_nth intro!: nth_equalityI enrich_contract)
  also have "\<dots> = concat (map (\<lambda>c. if \<not> c_deprecated c then [c] else []) (contracts d))"
    using assms(1) by (intro arg_cong [of _ _ concat] map_cong refl)
      (auto simp: db_ok_def join_names list_all_iff contract_fk_def)
  also have "concat (map (\<lambda>c. if \<not> c_deprecated c then [c] else []) cs) = filter (\<lambda>c. \<not> c_deprecated c) cs" for cs
    by (induction cs) simp_all
  finally show ?thesis .
qed

lemma enrich_defined: "c_interval c \<noteq> 0 \<Longrightarrow> \<exists>r. enrich div_numeric c = Inr r"
  by (simp add: enrich_def get_funding_multiplier_def)

text \<open>C34. The migration turns every consistent database of the old schema into a consistent one of the new
  schema whose bounds are exact, so that all theorems about the history workflows apply to it; and undoing
  it gives the old contracts back, with the flag kept for the contracts that have points and
  cleared for those that have none.\<close>

theorem migration_establishes_invariants:
  assumes "db_ok d" and "history_states d = []"
  shows "db_ok (upgrade_007 now synced d) \<and> bounds_tight (upgrade_007 now synced d) \<and>
    downgrade_007 (upgrade_007 now synced d) =
      (map c_id (filter (\<lambda>c. c_id c \<in> set synced \<and> times_of d (c_id c) \<noteq> []) (contracts d)), d)"
proof -
  let ?d = "upgrade_007 now synced d"
  have keys: "map hs_contract (history_states ?d) = map c_id (contracts d)"
    by (simp add: upgrade_007_def comp_def)
  have fk: "fk_contract ?d = fk_contract d" "contract_fk ?d = contract_fk d"
    by (auto simp: fun_eq_iff upgrade_007_def fk_contract_def contract_fk_def)
  have "list_all synced_has_bounds (history_states ?d)"
    by (auto simp: list_all_iff upgrade_007_def migrated_state_def synced_has_bounds_def Let_def)
  moreover have "set (map hs_contract (history_states ?d)) = c_id ` set (contracts d)" unfolding keys by simp
  ultimately have ok: "db_ok ?d"
    using assms(1) unfolding db_ok_def keys fk by (simp add: upgrade_007_def image_image)
  have "bounds_tight ?d"
    unfolding bounds_tight_def
  proof
    show "list_all (state_tight ?d) (history_states ?d)"
      using migrated_tight by (simp add: upgrade_007_def list_all_iff)
    show "p_contract ` set (historical_points ?d) \<subseteq> hs_contract ` set (history_states ?d)"
      using assms(1) by (auto simp: db_ok_def list_all_iff fk_contract_def upgrade_007_def image_image)
  qed
  have distinct: "inj_on c_id (set (contracts d))" using assms(1) by (simp add: db_ok_def distinct_map)
  have "list_ex (\<lambda>s. hs_contract s = c_id c \<and> hs_synced s) (history_states ?d) \<longleftrightarrow>
      c_id c \<in> set synced \<and> times_of d (c_id c) \<noteq> []" if c: "c \<in> set (contracts d)" for c
    using that by (auto simp: list_ex_iff upgrade_007_def migrated_state_def Let_def times_of_def points_of_def)
  then have "filter (\<lambda>c. list_ex (\<lambda>s. hs_contract s = c_id c \<and> hs_synced s) (history_states ?d)) (contracts d) =
      filter (\<lambda>c. c_id c \<in> set synced \<and> times_of d (c_id c) \<noteq> []) (contracts d)"
    by (intro filter_cong refl)
  moreover have "contracts ?d = contracts d" "?d\<lparr>history_states := []\<rparr> = d"
    using assms(2) by (simp_all add: upgrade_007_def)
  ultimately have "downgrade_007 ?d =
      (map c_id (filter (\<lambda>c. c_id c \<in> set synced \<and> times_of d (c_id c) \<noteq> []) (contracts d)), d)"
    unfolding downgrade_007_def by (simp only:)
  with ok \<open>bounds_tight ?d\<close> show ?thesis by blast
qed


section \<open>The smart view\<close>

text \<open>What TimescaleDB documents of \<open>time_bucket\<close>: the bucket contains the instant, and buckets of all
  widths share one origin, so a wider bucket starts no later when its width is a multiple.\<close>

definition buckets_ok :: "bucketing \<Rightarrow> bool" where
  "buckets_ok bucket \<longleftrightarrow> (\<forall>w t. 0 < w \<longrightarrow> bucket w t \<le> t \<and> t < bucket w t + w) \<and>
     (\<forall>w v t. 0 < w \<and> 0 < v \<and> w dvd v \<longrightarrow> bucket v t \<le> bucket w t)"

lemmas durations = hours_def days_def minutes_def

lemma lfp_row_mem: "p \<in> set live \<Longrightarrow> lfp_row avg bucket w live (lfp_key bucket w p) \<in> set (lfp avg bucket w live)"
  by (auto simp: lfp_def)

lemma lfp_row_time [simp]:
  "p_time (lfp_row avg bucket w live (lfp_key bucket w p)) = bucket w (p_time p)"
  "p_contract (lfp_row avg bucket w live (lfp_key bucket w p)) = p_contract p"
  by (simp_all add: lfp_row_def lfp_key_def)

lemma layer_mem:
  "p \<in> set live \<Longrightarrow> a \<le> bucket w (p_time p) \<Longrightarrow> bucket w (p_time p) < b \<Longrightarrow>
   shifted w (lfp_row avg bucket w live (lfp_key bucket w p)) \<in> set (layer w a b (lfp avg bucket w live))"
  unfolding layer_def by (auto intro!: imageI lfp_row_mem)

text \<open>The smart view over complete aggregates.\<close>

definition complete_view :: "(rat list \<Rightarrow> rat) \<Rightarrow> bucketing \<Rightarrow> utc \<Rightarrow> point list \<Rightarrow> point list" where
  "complete_view avg bucket now live = lfp_smart now (filter (\<lambda>p. now - raw_retention \<le> p_time p) live)
     (lfp avg bucket (minutes 5) live) (lfp avg bucket (minutes 15) live) (lfp avg bucket (hours 1) live)"

definition averaged :: "(rat list \<Rightarrow> rat) \<Rightarrow> bucketing \<Rightarrow> timedelta \<Rightarrow> point list \<Rightarrow> point \<Rightarrow> point" where
  "averaged avg bucket w live p = shifted w (lfp_row avg bucket w live (lfp_key bucket w p))"

lemma averaged_simps [simp]:
  "p_time (averaged avg bucket w live p) = bucket w (p_time p) + w"
  "p_contract (averaged avg bucket w live p) = p_contract p"
  by (simp_all add: averaged_def shifted_def)

lemma complete_view_mem:
  assumes "p \<in> set live"
  shows "now - hours 3 \<le> p_time p \<Longrightarrow> p \<in> set (complete_view avg bucket now live)"
    "now - days 3 \<le> bucket (minutes 5) (p_time p) \<Longrightarrow> bucket (minutes 5) (p_time p) < now - hours 3 \<Longrightarrow>
      averaged avg bucket (minutes 5) live p \<in> set (complete_view avg bucket now live)"
    "now - days 7 \<le> bucket (minutes 15) (p_time p) \<Longrightarrow> bucket (minutes 15) (p_time p) < now - days 3 \<Longrightarrow>
      averaged avg bucket (minutes 15) live p \<in> set (complete_view avg bucket now live)"
    "now - days 30 \<le> bucket (hours 1) (p_time p) \<Longrightarrow> bucket (hours 1) (p_time p) < now - days 7 \<Longrightarrow>
      averaged avg bucket (hours 1) live p \<in> set (complete_view avg bucket now live)"
  unfolding complete_view_def lfp_smart_def averaged_def set_sort set_append
  using assms by (auto simp: layer_mem durations raw_retention_def)

text \<open>C35. With complete aggregates the smart view has no gap: every live point of the last 30 days but an
  hour is represented by a row of its contract that is dated within the hour after it. The layers
  do overlap: a point in a bucket that straddles the boundary of two layers is in both, raw and
  averaged at three hours, and in the averages of both widths at three and at seven days.\<close>

theorem smart_view_covers:
  fixes avg :: "rat list \<Rightarrow> rat"
  assumes "buckets_ok bucket" and "p \<in> set live" and "now - days 30 + hours 1 \<le> p_time p" and "p_time p \<le> now"
  defines "view \<equiv> set (complete_view avg bucket now live)"
  shows "(\<exists>r\<in>view. p_contract r = p_contract p \<and> p_time p \<le> p_time r \<and> p_time r \<le> p_time p + hours 1) \<and>
    (bucket (minutes 5) (p_time p) < now - hours 3 \<and> now - hours 3 \<le> p_time p \<longrightarrow>
      p \<in> view \<and> averaged avg bucket (minutes 5) live p \<in> view) \<and>
    (bucket (minutes 15) (p_time p) < now - days 3 \<and> now - days 3 \<le> bucket (minutes 5) (p_time p) \<longrightarrow>
      averaged avg bucket (minutes 5) live p \<in> view \<and> averaged avg bucket (minutes 15) live p \<in> view) \<and>
    (bucket (hours 1) (p_time p) < now - days 7 \<and> now - days 7 \<le> bucket (minutes 15) (p_time p) \<longrightarrow>
      averaged avg bucket (minutes 15) live p \<in> view \<and> averaged avg bucket (hours 1) live p \<in> view)"
proof -
  let ?t = "p_time p"
  note mem = complete_view_mem [where now = now and avg = avg and bucket = bucket, OF assms(2), folded view_def]
  have w: "0 < minutes 5" "0 < minutes 15" "0 < hours 1" by (simp_all add: durations)
  have "minutes 5 dvd minutes 15" "minutes 15 dvd hours 1" by (simp_all add: durations)
  then have nest: "bucket (minutes 15) ?t \<le> bucket (minutes 5) ?t" "bucket (hours 1) ?t \<le> bucket (minutes 15) ?t"
    using assms(1) w by (auto simp: buckets_ok_def)
  have b: "bucket v ?t \<le> ?t" "?t < bucket v ?t + v" if "0 < v" for v
    using assms(1) that by (auto simp: buckets_ok_def)
  note b5 = b [OF w(1)] and b15 = b [OF w(2)] and b60 = b [OF w(3)]
  have "\<exists>r\<in>view. p_contract r = p_contract p \<and> ?t \<le> p_time r \<and> p_time r \<le> ?t + hours 1"
  proof -
    consider "now - hours 3 \<le> ?t"
      | "?t < now - hours 3" "now - days 3 \<le> bucket (minutes 5) ?t"
      | "bucket (minutes 5) ?t < now - days 3" "now - days 7 \<le> bucket (minutes 15) ?t"
      | "bucket (minutes 15) ?t < now - days 7" by linarith
    then show ?thesis
    proof cases
      case 1
      then show ?thesis using mem(1) by (intro bexI [of _ p]) (auto simp: durations)
    next
      case 2
      then show ?thesis using mem(2) b5 by (intro bexI [of _ "averaged avg bucket (minutes 5) live p"]) (auto simp: durations)
    next
      case 3
      then show ?thesis using mem(3) b15 nest
        by (intro bexI [of _ "averaged avg bucket (minutes 15) live p"]) (auto simp: durations)
    next
      case 4
      then show ?thesis using mem(4) b60 nest assms(3)
        by (intro bexI [of _ "averaged avg bucket (hours 1) live p"]) (auto simp: durations)
    qed
  qed
  moreover have "days 3 \<le> days 7" "hours 3 \<le> days 3" "days 7 \<le> days 30 - hours 1" by (simp_all add: durations)
  ultimately show ?thesis using mem nest b5 b15 b60 assms(3) by (auto simp: durations)
qed


section \<open>Retention against refresh\<close>

text \<open>What TimescaleDB documents of the refresh of a continuous aggregate: the buckets that lie in the
  window are computed anew from the raw table as it is, the others stay. A bucket whose raw
  points have been dropped since counts as changed.\<close>

type_synonym refresh = "timedelta \<Rightarrow> utc \<Rightarrow> utc \<Rightarrow> point list \<Rightarrow> point list \<Rightarrow> point list"

definition in_refresh :: "timedelta \<Rightarrow> utc \<Rightarrow> utc \<Rightarrow> point \<Rightarrow> bool" where
  "in_refresh w lo hi r \<longleftrightarrow> lo \<le> p_time r \<and> p_time r + w \<le> hi"

definition refresh_recomputes :: "(rat list \<Rightarrow> rat) \<Rightarrow> bucketing \<Rightarrow> refresh \<Rightarrow> bool" where
  "refresh_recomputes avg bucket refresh \<longleftrightarrow> (\<forall>w lo hi raw view. set (refresh w lo hi raw view) =
     {r \<in> set view. \<not> in_refresh w lo hi r} \<union> {r \<in> set (lfp avg bucket w raw). in_refresh w lo hi r})"

text \<open>The job of a policy at \<open>now\<close>; retention drops chunks of an hour, so points up to an hour older than
  the six hours may still be there.\<close>

definition policy_refresh :: "refresh \<Rightarrow> aggregate_policy \<Rightarrow> utc \<Rightarrow> point list \<Rightarrow> point list \<Rightarrow> point list" where
  "policy_refresh refresh pol now raw view =
     refresh (ag_width pol) (now - ag_start_offset pol) (now - ag_end_offset pol) raw view"

definition retained :: "utc \<Rightarrow> point list \<Rightarrow> bool" where
  "retained now raw \<longleftrightarrow> list_all (\<lambda>p. now - raw_retention - hours 1 \<le> p_time p) raw"

lemma lfp_rows_late:
  assumes "buckets_ok bucket" "0 < w" "retained now raw" "r \<in> set (lfp avg bucket w raw)"
  shows "now - raw_retention - hours 1 < p_time r + w"
proof -
  obtain p where p: "p \<in> set raw" "p_time r = bucket w (p_time p)"
    using assms(4) by (auto simp: lfp_def lfp_row_def lfp_key_def)
  have "p_time p < bucket w (p_time p) + w" using assms(1,2) by (simp add: buckets_ok_def)
  moreover have "now - raw_retention - hours 1 \<le> p_time p" using assms(3) p(1) by (simp add: retained_def list_all_iff)
  ultimately show ?thesis unfolding p(2) by linarith
qed

text \<open>Dropping raw points from before the window does not show in it.\<close>

lemma lfp_filter:
  assumes "buckets_ok bucket" "0 < w" "cut_at \<le> lo"
  shows "{r \<in> set (lfp avg bucket w (filter (\<lambda>p. cut_at \<le> p_time p) live)). in_refresh w lo hi r} =
    {r \<in> set (lfp avg bucket w live). in_refresh w lo hi r}" (is "?A = ?B")
proof -
  let ?raw = "filter (\<lambda>p. cut_at \<le> p_time p) live"
  have late: "cut_at \<le> p_time p" if "lo \<le> bucket w (p_time p)" for p
    using that assms unfolding buckets_ok_def by (meson order_trans)
  have row: "lfp_row avg bucket w ?raw k = lfp_row avg bucket w live k" if "lo \<le> fst k" for k
  proof -
    have "filter (\<lambda>p. lfp_key bucket w p = k) ?raw = filter (\<lambda>p. lfp_key bucket w p = k) live"
      using that late by (auto simp: lfp_key_def intro!: filter_cong)
    then show ?thesis by (simp only: lfp_row_def)
  qed
  have mem: "r \<in> set (lfp avg bucket w ps) \<longleftrightarrow> (\<exists>p\<in>set ps. r = lfp_row avg bucket w ps (lfp_key bucket w p))" for r ps
    by (auto simp: lfp_def)
  have bucket_of: "p_time (lfp_row avg bucket w ps (lfp_key bucket w p)) = bucket w (p_time p)" for ps p by simp
  show ?thesis
  proof (intro equalityI subsetI)
    fix r assume "r \<in> ?A"
    then obtain p where p: "p \<in> set live" "r = lfp_row avg bucket w ?raw (lfp_key bucket w p)" "in_refresh w lo hi r"
      unfolding mem by auto
    then have "lo \<le> fst (lfp_key bucket w p)" by (simp add: in_refresh_def lfp_key_def lfp_row_def)
    with p show "r \<in> ?B" unfolding mem by (auto simp: row)
  next
    fix r assume "r \<in> ?B"
    then obtain p where p: "p \<in> set live" "r = lfp_row avg bucket w live (lfp_key bucket w p)" "in_refresh w lo hi r"
      unfolding mem by auto
    then have lo: "lo \<le> fst (lfp_key bucket w p)" by (simp add: in_refresh_def lfp_key_def lfp_row_def)
    then have "p \<in> set ?raw" using p(1) late by (simp add: lfp_key_def)
    with p(2,3) row [OF lo] show "r \<in> ?A" unfolding mem by auto
  qed
qed

text \<open>C36. The refresh windows of the 15-minute and the one-hour aggregates reach back 12 hours and two days,
  behind the six hours for which raw points are kept: a refresh removes every row of those views whose
  bucket ended more than seven hours ago and lies in the window. So no row grows old enough for the
  layers of the smart view that read them, which start at three and at seven days. The
  five-minute aggregate, refreshed over three hours, does not suffer from the retention.\<close>

theorem refresh_erases_old_aggregates:
  fixes avg :: "rat list \<Rightarrow> rat"
  assumes "refresh_recomputes avg bucket refresh" and "buckets_ok bucket" and "retained now raw"
  shows "(\<forall>pol\<in>{policy_15min, policy_1hour}. \<forall>r\<in>set (policy_refresh refresh pol now raw view).
      p_time r < now - ag_start_offset pol \<or> now - raw_retention - hours 1 < p_time r + ag_width pol) \<and>
    set (policy_refresh refresh policy_5min now (filter (\<lambda>p. now - raw_retention \<le> p_time p) live) view) =
      set (policy_refresh refresh policy_5min now live view)"
proof
  show "\<forall>pol\<in>{policy_15min, policy_1hour}. \<forall>r\<in>set (policy_refresh refresh pol now raw view).
      p_time r < now - ag_start_offset pol \<or> now - raw_retention - hours 1 < p_time r + ag_width pol"
  proof (intro ballI)
    fix pol r assume pol: "pol \<in> {policy_15min, policy_1hour}" and r: "r \<in> set (policy_refresh refresh pol now raw view)"
    let ?w = "ag_width pol" and ?lo = "now - ag_start_offset pol" and ?hi = "now - ag_end_offset pol"
    have w: "0 < ?w" "ag_end_offset pol \<le> raw_retention + hours 1"
      using pol by (auto simp: policy_15min_def policy_1hour_def raw_retention_def durations)
    consider "\<not> in_refresh ?w ?lo ?hi r" | "r \<in> set (lfp avg bucket ?w raw)"
      using assms(1) r unfolding refresh_recomputes_def policy_refresh_def by auto
    then show "p_time r < ?lo \<or> now - raw_retention - hours 1 < p_time r + ?w"
    proof cases
      case 1
      then show ?thesis using w(2) by (auto simp: in_refresh_def)
    next
      case 2
      then show ?thesis using lfp_rows_late [OF assms(2) w(1) assms(3)] by blast
    qed
  qed
  have "now - raw_retention \<le> now - ag_start_offset policy_5min" "0 < ag_width policy_5min"
    by (simp_all add: raw_retention_def policy_5min_def durations)
  then show "set (policy_refresh refresh policy_5min now (filter (\<lambda>p. now - raw_retention \<le> p_time p) live) view) =
      set (policy_refresh refresh policy_5min now live view)"
    using assms(1) lfp_filter [OF assms(2)] unfolding refresh_recomputes_def policy_refresh_def by (simp only:)
qed


section \<open>Witnesses\<close>

definition w_bucket :: bucketing where "w_bucket w t = t - t mod w"
definition w_avg :: "rat list \<Rightarrow> rat" where "w_avg rs = sum_list rs / of_nat (length rs)"

lemma w_bucket_ok: "buckets_ok w_bucket"
proof -
  have "t mod w \<le> t mod v" if "0 < w" "0 < v" "w dvd v" for w v t :: int
  proof -
    have "t mod w = (t mod v) mod w" using that(3) by (simp add: mod_mod_cancel)
    also have "\<dots> \<le> t mod v" using that(1,2) by (simp add: zmod_le_nonneg_dividend)
    finally show ?thesis .
  qed
  moreover have "0 \<le> t mod w \<and> t mod w < w" if "0 < w" for w t :: int using that by simp
  ultimately show ?thesis unfolding buckets_ok_def w_bucket_def by (smt (verit))
qed

definition w_now :: utc where "w_now = hours 100000 + minutes 2"

definition w_live :: "point list" where
  "w_live = [\<lparr>p_time = w_now - hours 3, p_contract = 1, p_rate = 1 / 100\<rparr>,
     \<lparr>p_time = w_now - hours 11, p_contract = 1, p_rate = 1 / 50\<rparr>]"

text \<open>The first point is three hours old to the second, and its bucket began two minutes before.\<close>

theorem smart_view_covers_witness:
  "hd w_live \<in> set (complete_view w_avg w_bucket w_now w_live) \<and>
   averaged w_avg w_bucket (minutes 5) w_live (hd w_live) \<in> set (complete_view w_avg w_bucket w_now w_live)"
proof -
  have p: "hd w_live \<in> set w_live" "w_now - days 30 + hours 1 \<le> p_time (hd w_live)" "p_time (hd w_live) \<le> w_now"
    "w_bucket (minutes 5) (p_time (hd w_live)) < w_now - hours 3" "w_now - hours 3 \<le> p_time (hd w_live)"
    by (simp_all add: w_live_def w_now_def w_bucket_def durations)
  show ?thesis using smart_view_covers [OF w_bucket_ok p(1-3), of w_avg] p(4,5) by blast
qed

text \<open>A refresh as documented. The 15-minute row of the second point, eleven hours old, disappears.\<close>

definition w_refresh :: refresh where
  "w_refresh w lo hi raw view = filter (\<lambda>r. \<not> in_refresh w lo hi r) view @
     filter (in_refresh w lo hi) (lfp w_avg w_bucket w raw)"

theorem refresh_erases_old_aggregates_witness:
  "length (lfp w_avg w_bucket (minutes 15) w_live) = 2 \<and>
   \<not> list_ex (\<lambda>r. p_time r = w_bucket (minutes 15) (w_now - hours 11))
      (policy_refresh w_refresh policy_15min w_now [hd w_live] (lfp w_avg w_bucket (minutes 15) w_live))"
proof -
  have doc: "refresh_recomputes w_avg w_bucket w_refresh"
    by (auto simp: refresh_recomputes_def w_refresh_def)
  have ret: "retained w_now [hd w_live]"
    by (simp add: retained_def w_live_def raw_retention_def durations)
  have "\<not> (x < w_now - ag_start_offset policy_15min \<or> w_now - raw_retention - hours 1 < x + ag_width policy_15min)"
    if "x = w_bucket (minutes 15) (w_now - hours 11)" for x
    by (simp add: that w_bucket_def w_now_def policy_15min_def raw_retention_def durations)
  then have "\<not> list_ex (\<lambda>r. p_time r = w_bucket (minutes 15) (w_now - hours 11))
      (policy_refresh w_refresh policy_15min w_now [hd w_live] (lfp w_avg w_bucket (minutes 15) w_live))"
    using refresh_erases_old_aggregates [OF doc w_bucket_ok ret, of _ _] unfolding list_ex_iff by blast
  moreover have "length (lfp w_avg w_bucket (minutes 15) w_live) = 2" by code_simp
  ultimately show ?thesis by blast
qed

definition w_old_db :: db where
  "w_old_db = \<lparr>sections = [\<lparr>s_name = ''okx'', s_special = JObj []\<rparr>],
     assets = [\<lparr>a_name = ''BTC'', a_rank = None\<rparr>, \<lparr>a_name = ''ETH'', a_rank = None\<rparr>], quotes = [''USDT''],
     contracts = map (\<lambda>(i, a). \<lparr>c_id = i, c_asset = a, c_section = ''okx'', c_interval = 8, c_quote = ''USDT'',
       c_special = JObj [], c_deprecated = False\<rparr>) [(1, ''BTC''), (2, ''ETH'')],
     history_states = [], historical_points = [\<lparr>p_time = hours 8, p_contract = 1, p_rate = 1 / 100\<rparr>,
       \<lparr>p_time = hours 16, p_contract = 1, p_rate = 1 / 50\<rparr>], live_points = []\<rparr>"

theorem migration_establishes_invariants_witness:
  "bounds_tight (upgrade_007 (hours 20) [1, 2] w_old_db) \<and>
   fst (downgrade_007 (upgrade_007 (hours 20) [1, 2] w_old_db)) = [1]"
proof -
  have "db_ok w_old_db" "history_states w_old_db = []" by code_simp+
  from migration_establishes_invariants [OF this, of "hours 20" "[1, 2]"] show ?thesis
    by (simp add: w_old_db_def times_of_def points_of_def)
qed

end
