(* ===== verification/Migrations.thy ===== *)
theory Migrations
  imports Ddl Schema
begin

text \<open>
  The nine migrations as lists of statements, each upgrade with its downgrade, and the tables that the
  classes of \<open>models/\<close> declare. The contents that the statements move are in the theory \<open>Schema\<close>; here a
  statement on rows only needs its columns.
\<close>

section \<open>001: the tables\<close>

definition required :: "string \<Rightarrow> coltype \<Rightarrow> column" where
  "required n ty = \<lparr>cl_name = n, cl_type = ty, cl_default = None, cl_nullable = False\<rparr>"

definition optional :: "string \<Rightarrow> coltype \<Rightarrow> column" where
  "optional n ty = \<lparr>cl_name = n, cl_type = ty, cl_default = None, cl_nullable = True\<rparr>"

definition with_default :: "string \<Rightarrow> column \<Rightarrow> column" where
  "with_default d c = c\<lparr>cl_default := Some d\<rparr>"

definition table_of :: "string \<Rightarrow> column list \<Rightarrow> string list \<Rightarrow> db_table" where
  "table_of n cols pk = \<lparr>tb_name = n, tb_columns = cols, tb_primary = pk, tb_foreign = [], tb_unique = [], tb_checks = [],
     tb_hyper = None\<rparr>"

definition foreign :: "string \<Rightarrow> string \<Rightarrow> string \<Rightarrow> bool \<Rightarrow> foreign_key" where
  "foreign col n target casc = \<lparr>fk_column = col, fk_table = n, fk_target = target, fk_cascade = casc\<rparr>"

definition index_on :: "string \<Rightarrow> string \<Rightarrow> string list \<Rightarrow> bool \<Rightarrow> db_index" where
  "index_on n rel cols u = \<lparr>ix_name = n, ix_on = rel, ix_columns = cols, ix_unique = u, ix_where = None, ix_method = Btree\<rparr>"

definition table_asset :: db_table where
  "table_asset = table_of ''asset'' [required ''name'' AutoString, optional ''market_cap_rank'' Integer] [''name'']"

definition table_quote :: db_table where
  "table_quote = table_of ''quote'' [required ''name'' AutoString] [''name'']"

definition table_section :: db_table where
  "table_section = table_of ''section'' [required ''name'' AutoString, with_default ''{}'' (optional ''special_fields'' Json)] [''name'']"

definition table_contract :: db_table where
  "table_contract = (table_of ''contract''
     [with_default ''gen_random_uuid()'' (required ''id'' Uuid), required ''asset_name'' AutoString,
      required ''section_name'' AutoString, required ''funding_interval'' Integer, required ''quote_name'' AutoString,
      required ''synced'' Boolean, with_default ''{}'' (optional ''special_fields'' Json),
      with_default ''false'' (required ''deprecated'' Boolean)] [''id''])
     \<lparr>tb_foreign := [foreign ''asset_name'' ''asset'' ''name'' False, foreign ''section_name'' ''section'' ''name'' False],
      tb_unique := [[''asset_name'', ''section_name'', ''quote_name'']]\<rparr>"

definition table_points :: "string \<Rightarrow> db_table" where
  "table_points n = (table_of n [required ''timestamp'' DateTimeTz, required ''contract_id'' Uuid, required ''funding_rate'' Float]
     [''contract_id'', ''timestamp''])\<lparr>tb_foreign := [foreign ''contract_id'' ''contract'' ''id'' False]\<rparr>"

definition ddl_upgrade_001 :: "step list" where
  "ddl_upgrade_001 = [
     Tx (CreateExtension ''timescaledb''),
     Tx (CreateTable table_asset None),
     Tx (CreateIndex False (index_on ''ix_asset_market_cap_rank'' ''asset'' [''market_cap_rank''] False)),
     Tx (CreateIndex False (index_on ''ix_asset_name'' ''asset'' [''name''] True)),
     Tx (CreateTable table_quote None),
     Tx (CreateIndex False (index_on ''ix_quote_name'' ''quote'' [''name''] True)),
     Tx (CreateTable table_section None),
     Tx (CreateIndex False (index_on ''ix_section_name'' ''section'' [''name''] True)),
     Tx (CreateTable table_contract None),
     Tx (CreateIndex False (index_on ''ix_contract_id'' ''contract'' [''id''] True)),
     Tx (CreateIndex False (index_on ''ix_contract_quote_name'' ''contract'' [''quote_name''] False)),
     Tx (CreateTable (table_points ''historical_funding_point'') (Some ''timestamp'')),
     Tx (CreateTable (table_points ''live_funding_point'') (Some ''timestamp'')),
     Auto (CreateHypertable ''live_funding_point'' ''timestamp'' (hours 1)),
     Auto (CreateHypertable ''historical_funding_point'' ''timestamp'' (days 1))]"

definition ddl_downgrade_001 :: "step list" where
  "ddl_downgrade_001 = [
     Tx (DropTable ''live_funding_point''),
     Tx (DropTable ''historical_funding_point''),
     Tx (DropIndex False ''ix_contract_quote_name''),
     Tx (DropIndex False ''ix_contract_id''),
     Tx (DropTable ''contract''),
     Tx (DropIndex False ''ix_section_name''),
     Tx (DropTable ''section''),
     Tx (DropIndex False ''ix_quote_name''),
     Tx (DropTable ''quote''),
     Tx (DropIndex False ''ix_asset_name''),
     Tx (DropIndex False ''ix_asset_market_cap_rank''),
     Tx (DropTable ''asset''),
     Tx (DropExtension ''timescaledb'')]"

section \<open>002 and 003: the function and the view of active contracts\<close>

definition ddl_upgrade_002 :: "step list" where
  "ddl_upgrade_002 = [Tx (CreateFunction False ''get_funding_multiplier'')]"

definition ddl_downgrade_002 :: "step list" where
  "ddl_downgrade_002 = [Tx (DropFunction ''get_funding_multiplier'')]"

definition view_contract_enriched :: db_view where
  "view_contract_enriched = \<lparr>vw_name = ''contract_enriched'', vw_kind = Materialized,
     vw_columns = [''id'', ''asset_name'', ''quote_name'', ''funding_interval'', ''section_name'', ''deprecated'',
       ''multiplier_1h'', ''multiplier_8h'', ''multiplier_1d'', ''multiplier_365d''],
     vw_reads = [(''contract'', ''id''), (''contract'', ''asset_name''), (''contract'', ''quote_name''),
       (''contract'', ''funding_interval''), (''section'', ''name''), (''contract'', ''deprecated''), (''contract'', ''section_name'')],
     vw_calls = [''get_funding_multiplier'']\<rparr>"

definition ddl_upgrade_003 :: "step list" where
  "ddl_upgrade_003 = [
     Tx (CreateView view_contract_enriched),
     Tx (CreateIndex False (index_on ''contract_enriched_id_idx'' ''contract_enriched'' [''id''] True)),
     Tx (CreateIndex False (index_on ''contract_enriched_asset_name_idx'' ''contract_enriched'' [''asset_name''] False)),
     Tx (CreateIndex False (index_on ''contract_enriched_quote_name_idx'' ''contract_enriched'' [''quote_name''] False)),
     Tx (CreateIndex False (index_on ''contract_enriched_section_name_idx'' ''contract_enriched'' [''section_name''] False)),
     Tx (RefreshView ''contract_enriched'')]"

definition ddl_downgrade_003 :: "step list" where
  "ddl_downgrade_003 = [Tx (DropMaterializedView ''contract_enriched'')]"

section \<open>004 and 005: the aggregates and the view over them\<close>

definition view_lfp :: "string \<Rightarrow> db_view" where
  "view_lfp n = \<lparr>vw_name = n, vw_kind = Continuous, vw_columns = [''bucket'', ''contract_id'', ''avg_funding_rate''],
     vw_reads = [(''live_funding_point'', ''timestamp''), (''live_funding_point'', ''contract_id''), (''live_funding_point'', ''funding_rate'')],
     vw_calls = []\<rparr>"

definition refresh_policy :: "string \<Rightarrow> aggregate_policy \<Rightarrow> ddl" where
  "refresh_policy n p = AddRefreshPolicy n (ag_start_offset p) (ag_end_offset p) (ag_schedule p)"

definition ddl_upgrade_004 :: "step list" where
  "ddl_upgrade_004 = [
     Auto (DropMaterializedView ''lfp_5min''),
     Auto (CreateView (view_lfp ''lfp_5min'')),
     Auto (DropMaterializedView ''lfp_15min''),
     Auto (CreateView (view_lfp ''lfp_15min'')),
     Auto (DropMaterializedView ''lfp_1hour''),
     Auto (CreateView (view_lfp ''lfp_1hour'')),
     Auto (RefreshAggregate ''lfp_5min'' (days 3)),
     Auto (RefreshAggregate ''lfp_15min'' (days 7)),
     Auto (RefreshAggregate ''lfp_1hour'' (days 30)),
     Auto (RemoveRefreshPolicy ''lfp_5min''),
     Auto (refresh_policy ''lfp_5min'' policy_5min),
     Auto (RemoveRefreshPolicy ''lfp_15min''),
     Auto (refresh_policy ''lfp_15min'' policy_15min),
     Auto (RemoveRefreshPolicy ''lfp_1hour''),
     Auto (refresh_policy ''lfp_1hour'' policy_1hour),
     Auto (RemoveRetentionPolicy ''lfp_5min''),
     Auto (AddRetentionPolicy ''lfp_5min'' (ag_retention policy_5min)),
     Auto (RemoveRetentionPolicy ''lfp_15min''),
     Auto (AddRetentionPolicy ''lfp_15min'' (ag_retention policy_15min)),
     Auto (RemoveRetentionPolicy ''lfp_1hour''),
     Auto (AddRetentionPolicy ''lfp_1hour'' (ag_retention policy_1hour))]"

definition ddl_downgrade_004 :: "step list" where
  "ddl_downgrade_004 = [
     Auto (RemoveRetentionPolicy ''lfp_5min''),
     Auto (RemoveRetentionPolicy ''lfp_15min''),
     Auto (RemoveRetentionPolicy ''lfp_1hour''),
     Auto (RemoveRefreshPolicy ''lfp_5min''),
     Auto (RemoveRefreshPolicy ''lfp_15min''),
     Auto (RemoveRefreshPolicy ''lfp_1hour''),
     Auto (DropMaterializedView ''lfp_5min''),
     Auto (DropMaterializedView ''lfp_15min''),
     Auto (DropMaterializedView ''lfp_1hour'')]"

definition view_lfp_smart :: db_view where
  "view_lfp_smart = \<lparr>vw_name = ''lfp_smart'', vw_kind = PlainView, vw_columns = [''bucket'', ''contract_id'', ''avg_funding_rate''],
     vw_reads = vw_reads (view_lfp ''lfp_5min'') @
       concat (map (\<lambda>n. [(n, ''bucket''), (n, ''contract_id''), (n, ''avg_funding_rate'')]) [''lfp_5min'', ''lfp_15min'', ''lfp_1hour'']),
     vw_calls = []\<rparr>"

definition ddl_upgrade_005 :: "step list" where
  "ddl_upgrade_005 = [Tx (CreateView view_lfp_smart)]"

definition ddl_downgrade_005 :: "step list" where
  "ddl_downgrade_005 = [Tx (DropView ''lfp_smart'')]"

section \<open>006 to 009: search, history state, retention, task queue\<close>

definition ddl_upgrade_006 :: "step list" where
  "ddl_upgrade_006 = [
     Tx (CreateExtension ''pg_trgm''),
     Tx (CreateFunction True ''match_quality''),
     Tx (CreateIndex True ((index_on ''contract_search_trgm_idx'' ''contract'' [''asset_name'', ''section_name'', ''quote_name''] False)
       \<lparr>ix_method := GinTrgm\<rparr>))]"

definition ddl_downgrade_006 :: "step list" where
  "ddl_downgrade_006 = [Tx (DropIndex True ''contract_search_trgm_idx''), Tx (DropFunction ''match_quality'')]"

definition table_contract_history_state :: db_table where
  "table_contract_history_state = (table_of ''contract_history_state''
     [required ''contract_id'' Uuid, with_default ''false'' (required ''history_synced'' Boolean),
      optional ''oldest_timestamp'' DateTimeTz, optional ''newest_timestamp'' DateTimeTz,
      with_default ''NOW()'' (required ''updated_at'' DateTimeTz)] [''contract_id''])
     \<lparr>tb_foreign := [foreign ''contract_id'' ''contract'' ''id'' True],
      tb_checks := [(''contract_history_state_synced_has_bounds'',
        ''history_synced = false OR (oldest_timestamp IS NOT NULL AND newest_timestamp IS NOT NULL)'')]\<rparr>"

definition ddl_upgrade_007 :: "step list" where
  "ddl_upgrade_007 = [
     Tx (CreateTable table_contract_history_state None),
     Tx (Statement (map (\<lambda>k. (''contract_history_state'', k)) [''contract_id'', ''history_synced'', ''oldest_timestamp'',
          ''newest_timestamp'', ''updated_at''] @
        [(''contract'', ''id''), (''contract'', ''synced''), (''historical_funding_point'', ''contract_id''),
         (''historical_funding_point'', ''timestamp'')])),
     Tx (DropColumn ''contract'' ''synced'')]"

definition ddl_downgrade_007 :: "step list" where
  "ddl_downgrade_007 = [
     Tx (AddColumn ''contract'' (with_default ''false'' (required ''synced'' Boolean))),
     Tx (Statement [(''contract'', ''synced''), (''contract'', ''id''), (''contract_history_state'', ''contract_id''),
       (''contract_history_state'', ''history_synced'')]),
     Tx (AlterDefault ''contract'' ''synced'' None),
     Tx (DropTable ''contract_history_state'')]"

definition ddl_upgrade_008 :: "step list" where
  "ddl_upgrade_008 = [
     Auto (RemoveRetentionPolicy ''live_funding_point''),
     Auto (AddRetentionPolicy ''live_funding_point'' raw_retention)]"

definition ddl_downgrade_008 :: "step list" where
  "ddl_downgrade_008 = [Auto (RemoveRetentionPolicy ''live_funding_point'')]"

definition task_indexes :: "db_index list" where
  "task_indexes = [
     (index_on ''ix_ingestion_task_pending_claim'' ''ingestion_task'' [''pipeline'', ''created_at''] False)
       \<lparr>ix_where := Some (''status'', [''pending''])\<rparr>,
     (index_on ''ix_ingestion_task_active_exchange'' ''ingestion_task'' [''pipeline'', ''exchange_name''] False)
       \<lparr>ix_where := Some (''status'', [''pending'', ''running''])\<rparr>,
     (index_on ''ix_ingestion_task_running_claimed_at'' ''ingestion_task'' [''pipeline'', ''claimed_at''] False)
       \<lparr>ix_where := Some (''status'', [''running''])\<rparr>]"


definition status_check :: "string \<times> string" where
  "status_check = (''ingestion_task_status_check'', ''status IN ('pending', 'running', 'done', 'failed')'')"

definition table_ingestion_task :: db_table where
  "table_ingestion_task = (table_of ''ingestion_task''
     [required ''task_key'' Text, required ''pipeline'' Text, required ''exchange_name'' Text,
      required ''scheduled_for'' DateTimeTz, with_default ''{}::jsonb'' (required ''payload'' Jsonb), required ''status'' Text,
      with_default ''NOW()'' (required ''created_at'' DateTimeTz), optional ''claimed_at'' DateTimeTz,
      optional ''finished_at'' DateTimeTz, optional ''worker_id'' Text, optional ''error_type'' Text,
      optional ''error_message'' Text] [''task_key''])\<lparr>tb_checks := [status_check]\<rparr>"

definition ddl_upgrade_009 :: "step list" where
  "ddl_upgrade_009 = Tx (CreateTable table_ingestion_task None) # map (\<lambda>i. Tx (CreateIndex False i)) task_indexes"

definition ddl_downgrade_009 :: "step list" where
  "ddl_downgrade_009 = [
     Tx (DropIndex False ''ix_ingestion_task_running_claimed_at''),
     Tx (DropIndex False ''ix_ingestion_task_active_exchange''),
     Tx (DropIndex False ''ix_ingestion_task_pending_claim''),
     Tx (DropTable ''ingestion_task'')]"

section \<open>The chain of revisions\<close>

definition upgrades :: "step list list" where
  "upgrades = [ddl_upgrade_001, ddl_upgrade_002, ddl_upgrade_003, ddl_upgrade_004, ddl_upgrade_005, ddl_upgrade_006,
     ddl_upgrade_007, ddl_upgrade_008, ddl_upgrade_009]"

definition downgrades :: "step list list" where
  "downgrades = [ddl_downgrade_001, ddl_downgrade_002, ddl_downgrade_003, ddl_downgrade_004, ddl_downgrade_005,
     ddl_downgrade_006, ddl_downgrade_007, ddl_downgrade_008, ddl_downgrade_009]"

text \<open>The catalogue at a revision, reached from an empty database.\<close>

primrec catalogue_at :: "int option \<Rightarrow> nat \<Rightarrow> catalogue ddl_result" where
  "catalogue_at chunk 0 = Inr empty_catalogue"
| "catalogue_at chunk (Suc n) = (case catalogue_at chunk n of Inl e \<Rightarrow> Inl e
     | Inr c \<Rightarrow> run_steps chunk (upgrades ! n) c)"

section \<open>The tables of the models\<close>

text \<open>
  A field of a model class: its Python type, whether it is \<open>| None\<close>, the arguments of \<open>Field\<close>, and the
  column that \<open>sa_column\<close> gives instead. Fields of a base class come first, as SQLModel orders them.
\<close>

datatype py_type = PyStr | PyInt | PyFloat | PyBool | PyUuid | PyDatetime | PyDict

record model_field =
  mf_name :: string
  mf_type :: py_type
  mf_optional :: bool
  mf_primary :: bool
  mf_index :: bool
  mf_unique :: bool
  mf_foreign :: "foreign_key list"
  mf_default :: "string option"
  mf_sa_type :: "coltype option"
  mf_sa_column :: "column option"

record model =
  md_name :: string
  md_fields :: "model_field list"
  md_primary :: "string list"
  md_unique :: "string list list"
  md_checks :: "(string \<times> string) list"
  md_indexes :: "db_index list"
  md_hyper :: "string option"

definition field :: "string \<Rightarrow> py_type \<Rightarrow> model_field" where
  "field n ty = \<lparr>mf_name = n, mf_type = ty, mf_optional = False, mf_primary = False, mf_index = False, mf_unique = False,
     mf_foreign = [], mf_default = None, mf_sa_type = None, mf_sa_column = None\<rparr>"

definition plain_model :: "string \<Rightarrow> model_field list \<Rightarrow> model" where
  "plain_model n fs = \<lparr>md_name = n, md_fields = fs, md_primary = [], md_unique = [], md_checks = [], md_indexes = [], md_hyper = None\<rparr>"

definition UUIDModel :: "model_field list" where
  "UUIDModel = [(field ''id'' PyUuid)\<lparr>mf_primary := True, mf_index := True, mf_unique := True, mf_default := Some ''gen_random_uuid()''\<rparr>]"

definition NameModel :: "model_field list" where
  "NameModel = [(field ''name'' PyStr)\<lparr>mf_primary := True, mf_index := True, mf_unique := True\<rparr>]"

definition BaseFundingPoint :: "model_field list" where
  "BaseFundingPoint = [(field ''timestamp'' PyDatetime)\<lparr>mf_sa_type := Some DateTimeTz\<rparr>,
     (field ''contract_id'' PyUuid)\<lparr>mf_foreign := [foreign ''contract_id'' ''contract'' ''id'' False]\<rparr>,
     field ''funding_rate'' PyFloat]"

definition special_fields :: model_field where
  "special_fields = (field ''special_fields'' PyDict)\<lparr>mf_sa_column := Some (with_default ''{}'' (optional ''special_fields'' Json))\<rparr>"

definition Asset :: model where
  "Asset = plain_model ''asset'' (NameModel @ [(field ''market_cap_rank'' PyInt)\<lparr>mf_optional := True, mf_index := True\<rparr>])"

definition Quote :: model where
  "Quote = plain_model ''quote'' NameModel"

definition Section :: model where
  "Section = plain_model ''section'' (NameModel @ [special_fields])"

definition Contract :: model where
  "Contract = (plain_model ''contract'' (UUIDModel @ [
     (field ''asset_name'' PyStr)\<lparr>mf_foreign := [foreign ''asset_name'' ''asset'' ''name'' False]\<rparr>,
     (field ''section_name'' PyStr)\<lparr>mf_foreign := [foreign ''section_name'' ''section'' ''name'' False]\<rparr>,
     field ''funding_interval'' PyInt, (field ''quote_name'' PyStr)\<lparr>mf_index := True\<rparr>, special_fields,
     (field ''deprecated'' PyBool)\<lparr>mf_default := Some ''false''\<rparr>]))
     \<lparr>md_unique := [[''asset_name'', ''section_name'', ''quote_name'']]\<rparr>"

definition HistoricalFundingPoint :: model where
  "HistoricalFundingPoint = (plain_model ''historical_funding_point'' BaseFundingPoint)
     \<lparr>md_primary := [''contract_id'', ''timestamp''], md_hyper := Some ''timestamp''\<rparr>"

definition LiveFundingPoint :: model where
  "LiveFundingPoint = (plain_model ''live_funding_point'' BaseFundingPoint)
     \<lparr>md_primary := [''contract_id'', ''timestamp''], md_hyper := Some ''timestamp''\<rparr>"

definition ContractHistoryState :: model where
  "ContractHistoryState = (plain_model ''contract_history_state'' [
     (field ''contract_id'' PyUuid)\<lparr>mf_primary := True, mf_foreign := [foreign ''contract_id'' ''contract'' ''id'' True],
       mf_sa_column := Some (required ''contract_id'' Uuid)\<rparr>,
     (field ''history_synced'' PyBool)\<lparr>mf_default := Some ''false''\<rparr>,
     (field ''oldest_timestamp'' PyDatetime)\<lparr>mf_optional := True, mf_sa_type := Some DateTimeTz\<rparr>,
     (field ''newest_timestamp'' PyDatetime)\<lparr>mf_optional := True, mf_sa_type := Some DateTimeTz\<rparr>,
     (field ''updated_at'' PyDatetime)\<lparr>mf_sa_type := Some DateTimeTz, mf_default := Some ''NOW()''\<rparr>])
     \<lparr>md_checks := [(''contract_history_state_synced_has_bounds'',
        ''history_synced = false OR (oldest_timestamp IS NOT NULL AND newest_timestamp IS NOT NULL)'')]\<rparr>"

definition IngestionTask :: model where
  "IngestionTask = (plain_model ''ingestion_task'' [
     (field ''task_key'' PyStr)\<lparr>mf_primary := True\<rparr>, field ''pipeline'' PyStr, field ''exchange_name'' PyStr,
     (field ''scheduled_for'' PyDatetime)\<lparr>mf_sa_type := Some DateTimeTz\<rparr>,
     (field ''payload'' PyDict)\<lparr>mf_sa_column := Some (with_default ''{}::jsonb'' (required ''payload'' Jsonb))\<rparr>,
     field ''status'' PyStr,
     (field ''created_at'' PyDatetime)\<lparr>mf_sa_type := Some DateTimeTz, mf_default := Some ''NOW()''\<rparr>,
     (field ''claimed_at'' PyDatetime)\<lparr>mf_optional := True, mf_sa_type := Some DateTimeTz\<rparr>,
     (field ''finished_at'' PyDatetime)\<lparr>mf_optional := True, mf_sa_type := Some DateTimeTz\<rparr>,
     (field ''worker_id'' PyStr)\<lparr>mf_optional := True\<rparr>, (field ''error_type'' PyStr)\<lparr>mf_optional := True\<rparr>,
     (field ''error_message'' PyStr)\<lparr>mf_optional := True\<rparr>])
     \<lparr>md_checks := [(''ingestion_task_status_check'', ''status IN ('pending', 'running', 'done', 'failed')'')],
      md_indexes := [
        (index_on ''ix_ingestion_task_pending_claim'' ''ingestion_task'' [''pipeline'', ''created_at''] False)
          \<lparr>ix_where := Some (''status'', [''pending''])\<rparr>,
        (index_on ''ix_ingestion_task_active_exchange'' ''ingestion_task'' [''pipeline'', ''exchange_name''] False)
          \<lparr>ix_where := Some (''status'', [''pending'', ''running''])\<rparr>,
        (index_on ''ix_ingestion_task_running_claimed_at'' ''ingestion_task'' [''pipeline'', ''claimed_at''] False)
          \<lparr>ix_where := Some (''status'', [''running''])\<rparr>]\<rparr>"

definition models :: "model list" where
  "models = [Asset, Quote, Section, Contract, HistoricalFundingPoint, LiveFundingPoint, ContractHistoryState, IngestionTask]"

text \<open>\<open>sql_type\<close> is SQLModel's column type for a Python type; a field with \<open>index=True\<close> has the index
  \<open>ix_<table>_<column>\<close>, which is unique with \<open>unique=True\<close>.\<close>

definition model_column :: "(py_type \<Rightarrow> coltype) \<Rightarrow> model_field \<Rightarrow> column" where
  "model_column sql_type f = (case mf_sa_column f of Some c \<Rightarrow> c
     | None \<Rightarrow> \<lparr>cl_name = mf_name f, cl_type = (case mf_sa_type f of Some t \<Rightarrow> t | None \<Rightarrow> sql_type (mf_type f)),
         cl_default = mf_default f, cl_nullable = mf_optional f\<rparr>)"

definition model_table :: "(py_type \<Rightarrow> coltype) \<Rightarrow> model \<Rightarrow> db_table" where
  "model_table sql_type m = \<lparr>tb_name = md_name m, tb_columns = map (model_column sql_type) (md_fields m),
     tb_primary = (if md_primary m = [] then map mf_name (filter mf_primary (md_fields m)) else md_primary m),
     tb_foreign = concat (map mf_foreign (md_fields m)), tb_unique = md_unique m, tb_checks = md_checks m, tb_hyper = None\<rparr>"

definition model_indexes :: "model \<Rightarrow> db_index list" where
  "model_indexes m = map (\<lambda>f. index_on (''ix_'' @ md_name m @ ''_'' @ mf_name f) (md_name m) [mf_name f] (mf_unique f))
     (filter mf_index (md_fields m)) @ md_indexes m"

end
