(* ===== verification/MigrationRerun.thy ===== *)
theory MigrationRerun
  imports Migrations
begin

text \<open>
  What an interrupted migration leaves behind, and what repeating it does: migration 004 can be repeated
  after any series of interruptions, the first migration cannot.
\<close>

section \<open>Repeating an interrupted migration\<close>

definition aggregate_names :: "string list" where
  "aggregate_names = [''lfp_5min'', ''lfp_15min'', ''lfp_1hour'']"

text \<open>The hypertable of live points is there, and nothing reads the aggregates, if some are there already.\<close>

definition before_aggregates :: "catalogue \<Rightarrow> bool" where
  "before_aggregates c \<longleftrightarrow> (case table_named ''live_funding_point'' c of None \<Rightarrow> False
       | Some t \<Rightarrow> tb_hyper t \<noteq> None \<and> {''timestamp'', ''contract_id'', ''funding_rate''} \<subseteq> cl_name ` set (tb_columns t)) \<and>
     (\<forall>n\<in>set aggregate_names. table_named n c = None \<and> (view_named n c = None \<longrightarrow> forget [n] c = c)) \<and>
     (\<forall>v\<in>set (ct_views c). (vw_name v \<in> set aggregate_names \<longrightarrow> vw_kind v = Continuous) \<and>
       (\<forall>rc\<in>set (vw_reads v). fst rc \<notin> set aggregate_names))"

text \<open>The catalogue without the aggregates, and the result of the migration over it.\<close>

definition without_aggregates :: "catalogue \<Rightarrow> catalogue" where
  "without_aggregates c = forget aggregate_names (c\<lparr>ct_views := filter (\<lambda>v. vw_name v \<notin> set aggregate_names) (ct_views c)\<rparr>)"

definition redefined :: "string \<Rightarrow> catalogue \<Rightarrow> catalogue" where
  "redefined n c = forget [n] (c\<lparr>ct_views := filter (\<lambda>v. vw_name v \<noteq> n) (ct_views c) @ [view_lfp n]\<rparr>)"

definition refreshed_by :: "string \<Rightarrow> aggregate_policy \<Rightarrow> catalogue \<Rightarrow> catalogue" where
  "refreshed_by n p c = c\<lparr>ct_refresh := filter (\<lambda>q. fst q \<noteq> n) (ct_refresh c) @ [(n, ag_start_offset p, ag_end_offset p, ag_schedule p)]\<rparr>"

definition retained_for :: "string \<Rightarrow> int \<Rightarrow> catalogue \<Rightarrow> catalogue" where
  "retained_for n i c = c\<lparr>ct_retention := filter (\<lambda>q. fst q \<noteq> n) (ct_retention c) @ [(n, i)]\<rparr>"

lemma cascade_none: "\<forall>v\<in>set vs. \<forall>rc\<in>set (vw_reads v). fst rc \<noteq> n \<Longrightarrow> cascade [n] vs = [n]"
  by (induction vs) auto

lemma relation_columns_view: "table_named n c = None \<Longrightarrow> relation_columns n c = map_option vw_columns (view_named n c)"
  by (simp add: relation_columns_def)

lemma view_named_forget [simp]: "view_named n (forget ns c) = view_named n c" "table_named n (forget ns c) = table_named n c"
  by (simp_all add: view_named_def table_named_def forget_def)

lemma forget_fields [simp]: "ct_views (forget ns c) = ct_views c" "ct_tables (forget ns c) = ct_tables c"
  by (simp_all add: forget_def)

lemma table_named_views [simp]: "table_named n (c\<lparr>ct_views := vs\<rparr>) = table_named n c"
  "table_named n (c\<lparr>ct_refresh := rs\<rparr>) = table_named n c" "table_named n (c\<lparr>ct_retention := qs\<rparr>) = table_named n c"
  "view_named n (c\<lparr>ct_refresh := rs\<rparr>) = view_named n c" "view_named n (c\<lparr>ct_retention := qs\<rparr>) = view_named n c"
  by (simp_all add: table_named_def view_named_def)

lemma find_filter_None [simp]: "find (\<lambda>v. vw_name v = n) (filter (\<lambda>v. vw_name v \<noteq> n) vs) = None"
  by (simp add: find_None_iff)

lemma forget_id: "forget ns c = c \<longleftrightarrow> (\<forall>i\<in>set (ct_indexes c). ix_on i \<notin> set ns) \<and>
    (\<forall>p\<in>set (ct_refresh c). fst p \<notin> set ns) \<and> (\<forall>p\<in>set (ct_retention c). fst p \<notin> set ns)"
  by (cases c) (auto simp: forget_def filter_id_conv)

lemma filter_none: "find (\<lambda>v. vw_name v = n) vs = None \<Longrightarrow> filter (\<lambda>v. vw_name v \<noteq> n) vs = vs"
  by (auto simp: find_None_iff filter_id_conv)

definition undefined_view :: "string \<Rightarrow> catalogue \<Rightarrow> catalogue" where
  "undefined_view n c = forget [n] (c\<lparr>ct_views := filter (\<lambda>v. vw_name v \<noteq> n) (ct_views c)\<rparr>)"

lemma exec_drop_aggregate:
  assumes "before_aggregates c" and "n \<in> set aggregate_names"
  shows "exec chunk (DropMaterializedView n) c = Inr (undefined_view n c)"
proof -
  have t: "table_named n c = None" and k: "\<And>v. view_named n c = Some v \<Longrightarrow> vw_kind v = Continuous"
    and r: "cascade [n] (ct_views c) = [n]" and w: "view_named n c = None \<Longrightarrow> forget [n] c = c"
    using assms by (auto simp: before_aggregates_def view_named_def find_Some_iff intro!: cascade_none)
  show ?thesis
  proof (cases "view_named n c")
    case None
    then have "undefined_view n c = forget [n] c" by (simp add: undefined_view_def view_named_def filter_none)
    then show ?thesis using None t w by (simp add: drop_view_of_def)
  next
    case (Some v)
    then show ?thesis using t k [of v] r by (simp add: drop_view_of_def drop_view_def undefined_view_def)
  qed
qed

lemma exec_create_aggregate:
  assumes "before_aggregates c" and "n \<in> set aggregate_names" and "view_named n c = None"
  shows "exec chunk (CreateView (view_lfp n)) c = Inr (c\<lparr>ct_views := ct_views c @ [view_lfp n]\<rparr>)"
proof -
  obtain t where t: "table_named ''live_funding_point'' c = Some t" "tb_hyper t \<noteq> None"
      "{''timestamp'', ''contract_id'', ''funding_rate''} \<subseteq> cl_name ` set (tb_columns t)"
    using assms(1) by (auto simp: before_aggregates_def split: option.splits)
  have "table_named n c = None" using assms(1,2) by (simp add: before_aggregates_def)
  moreover have "relation_columns ''live_funding_point'' c = Some (map cl_name (tb_columns t))"
    using t by (simp add: relation_columns_def)
  ultimately show ?thesis using t assms(3)
    by (simp add: create_view_def relation_columns_def view_lfp_def columns_error_def column_error_def checked_def
        is_hypertable_def List.map_filter_def)
qed

lemma before_undefined:
  assumes "before_aggregates c" and "n \<in> set aggregate_names"
  shows "before_aggregates (undefined_view n c)" "view_named n (undefined_view n c) = None"
proof -
  show "view_named n (undefined_view n c) = None" by (simp add: undefined_view_def view_named_def forget_def)
  have w: "forget [m] c = c" if "m \<in> set aggregate_names" "view_named m c = None" for m
    using assms(1) that by (simp add: before_aggregates_def)
  have "forget [m] (undefined_view n c) = undefined_view n c"
    if m: "m \<in> set aggregate_names" "view_named m (undefined_view n c) = None" for m
  proof (cases "m = n")
    case False
    then have "view_named m c = None" using m(2)
      by (auto simp: undefined_view_def view_named_def forget_def find_None_iff)
    then show ?thesis using w [OF m(1)] by (simp add: forget_id undefined_view_def) (simp add: forget_def)
  qed (simp add: forget_id undefined_view_def, simp add: forget_def)
  then show "before_aggregates (undefined_view n c)"
    using assms(1) by (auto simp: before_aggregates_def undefined_view_def)
qed


lemma find_snoc: "find P (xs @ [x]) = (case find P xs of None \<Rightarrow> if P x then Some x else None | Some y \<Rightarrow> Some y)"
  by (induction xs) auto

lemma view_named_append: "view_named n (c\<lparr>ct_views := ct_views c @ [v]\<rparr>) =
    (case view_named n c of None \<Rightarrow> if vw_name v = n then Some v else None | Some w \<Rightarrow> Some w)"
  by (simp add: view_named_def find_snoc split: option.splits)

lemma before_created:
  assumes "before_aggregates c" and "n \<in> set aggregate_names" and "view_named n c = None"
  shows "before_aggregates (c\<lparr>ct_views := ct_views c @ [view_lfp n]\<rparr>)"
  using assms by (auto simp: before_aggregates_def view_named_append view_lfp_def aggregate_names_def forget_id split: option.splits)

lemma before_policies [simp]:
  assumes "before_aggregates c" and "is_view_kind Continuous n c"
  shows "before_aggregates (refreshed_by n p c)" "before_aggregates (retained_for n i c)"
  using assms by (auto simp: before_aggregates_def refreshed_by_def retained_for_def forget_id is_view_kind_def)


text \<open>What a single statement of the migration keeps.\<close>

lemma without_aggregates_keeps:
  assumes "n \<in> set aggregate_names"
  shows "without_aggregates (undefined_view n c) = without_aggregates c"
    "without_aggregates (c\<lparr>ct_views := ct_views c @ [view_lfp n]\<rparr>) = without_aggregates c"
    "without_aggregates (c\<lparr>ct_refresh := filter (\<lambda>q. fst q \<noteq> n) (ct_refresh c)\<rparr>) = without_aggregates c"
    "without_aggregates (c\<lparr>ct_refresh := ct_refresh c @ [(n, r)]\<rparr>) = without_aggregates c"
    "without_aggregates (c\<lparr>ct_retention := filter (\<lambda>q. fst q \<noteq> n) (ct_retention c)\<rparr>) = without_aggregates c"
    "without_aggregates (c\<lparr>ct_retention := ct_retention c @ [(n, i)]\<rparr>) = without_aggregates c"
  using assms by (auto simp: without_aggregates_def undefined_view_def forget_def view_lfp_def intro!: catalogue.equality filter_cong)

definition aggregate_step :: "ddl \<Rightarrow> bool" where
  "aggregate_step s \<longleftrightarrow> (\<exists>n\<in>set aggregate_names. s = DropMaterializedView n \<or> s = CreateView (view_lfp n) \<or>
     (\<exists>i. s = RefreshAggregate n i) \<or> s = RemoveRefreshPolicy n \<or> (\<exists>i j k. s = AddRefreshPolicy n i j k) \<or>
     s = RemoveRetentionPolicy n \<or> (\<exists>i. s = AddRetentionPolicy n i))"

lemma aggregate_steps: "s \<in> set ddl_upgrade_004 \<Longrightarrow> aggregate_step (statement s)"
  by (auto simp: ddl_upgrade_004_def aggregate_step_def aggregate_names_def refresh_policy_def)

lemma before_policy:
  assumes "before_aggregates c" and "is_view_kind Continuous n c"
  shows "before_aggregates (c\<lparr>ct_refresh := filter (\<lambda>q. fst q \<noteq> n) (ct_refresh c)\<rparr>)"
    "before_aggregates (c\<lparr>ct_refresh := ct_refresh c @ [(n, r)]\<rparr>)"
    "before_aggregates (c\<lparr>ct_retention := filter (\<lambda>q. fst q \<noteq> n) (ct_retention c)\<rparr>)"
    "before_aggregates (c\<lparr>ct_retention := ct_retention c @ [(n, i)]\<rparr>)"
  using assms by (auto simp: before_aggregates_def forget_id is_view_kind_def)

lemma aggregate_step_keeps:
  assumes "before_aggregates c" and "aggregate_step s" and "exec chunk s c = Inr c'"
  shows "before_aggregates c' \<and> without_aggregates c' = without_aggregates c"
proof -
  obtain n where n: "n \<in> set aggregate_names" and s: "s = DropMaterializedView n \<or> s = CreateView (view_lfp n) \<or>
     (\<exists>i. s = RefreshAggregate n i) \<or> s = RemoveRefreshPolicy n \<or> (\<exists>i j k. s = AddRefreshPolicy n i j k) \<or>
     s = RemoveRetentionPolicy n \<or> (\<exists>i. s = AddRetentionPolicy n i)"
    using assms(2) by (auto simp: aggregate_step_def)
  have t: "table_named n c = None" using assms(1) n by (simp add: before_aggregates_def)
  then have h: "\<not> is_hypertable n c" by (simp add: is_hypertable_def)
  consider "s = DropMaterializedView n" | "s = CreateView (view_lfp n)" | "c' = c"
    | "is_view_kind Continuous n c" "c' = c\<lparr>ct_refresh := filter (\<lambda>q. fst q \<noteq> n) (ct_refresh c)\<rparr> \<or>
        (\<exists>r. c' = c\<lparr>ct_refresh := ct_refresh c @ [(n, r)]\<rparr>) \<or>
        c' = c\<lparr>ct_retention := filter (\<lambda>q. fst q \<noteq> n) (ct_retention c)\<rparr> \<or>
        (\<exists>i. c' = c\<lparr>ct_retention := ct_retention c @ [(n, i)]\<rparr>)"
    using s assms(3) h by (auto simp: with_aggregate_def with_chunks_def split: if_split_asm) blast+
  then show ?thesis
  proof cases
    case 1
    then show ?thesis using assms(1,3) n exec_drop_aggregate [of c n chunk] before_undefined [of c n] without_aggregates_keeps
      by simp
  next
    case 2
    then have "view_named n c = None" using assms(3) t
      by (auto simp: create_view_def view_lfp_def relation_columns_def split: if_split_asm option.split_asm)
    then show ?thesis using 2 assms(1,3) n exec_create_aggregate [of c n chunk] before_created [of c n] without_aggregates_keeps
      by simp
  next
    case 4
    then show ?thesis using assms(1) n before_policy [of c n] without_aggregates_keeps by auto
  qed (simp add: assms(1))
qed

lemma aggregate_steps_keep:
  "before_aggregates c \<Longrightarrow> list_all aggregate_step ss \<Longrightarrow> run_ddl chunk ss c = Inr c' \<Longrightarrow>
    before_aggregates c' \<and> without_aggregates c' = without_aggregates c"
proof (induction ss arbitrary: c)
  case (Cons s ss)
  then obtain d where d: "exec chunk s c = Inr d" "run_ddl chunk ss d = Inr c'" by (auto split: sum.split_asm)
  then show ?case using Cons.prems Cons.IH [OF _ _ d(2)] aggregate_step_keeps [OF _ _ d(1)] by simp
qed simp


text \<open>The run over the whole file.\<close>

lemma run_redefine:
  assumes "before_aggregates c" and "n \<in> set aggregate_names"
  shows "run_ddl chunk [DropMaterializedView n, CreateView (view_lfp n)] c = Inr (redefined n c)"
    "before_aggregates (redefined n c)" "is_view_kind Continuous n (redefined n c)"
proof -
  let ?d = "undefined_view n c"
  have r: "redefined n c = ?d\<lparr>ct_views := ct_views ?d @ [view_lfp n]\<rparr>"
    by (simp add: redefined_def undefined_view_def forget_def)
  note d = before_undefined [OF assms]
  show "run_ddl chunk [DropMaterializedView n, CreateView (view_lfp n)] c = Inr (redefined n c)"
    using exec_drop_aggregate [OF assms] exec_create_aggregate [OF d(1) assms(2) d(2)] by (simp add: r)
  show "before_aggregates (redefined n c)" using before_created [OF d(1) assms(2) d(2)] by (simp add: r)
  show "is_view_kind Continuous n (redefined n c)"
    by (simp add: r is_view_kind_def view_named_append d(2) view_lfp_def)
qed

lemma redefine_other: "m \<noteq> n \<Longrightarrow> is_view_kind Continuous m c \<Longrightarrow> is_view_kind Continuous m (redefined n c)"
proof -
  have f: "m \<noteq> n \<Longrightarrow> find (\<lambda>v. vw_name v = m) (filter (\<lambda>v. vw_name v \<noteq> n) vs) = find (\<lambda>v. vw_name v = m) vs" for vs
    by (induction vs) auto
  show "m \<noteq> n \<Longrightarrow> is_view_kind Continuous m c \<Longrightarrow> is_view_kind Continuous m (redefined n c)"
    by (auto simp: is_view_kind_def redefined_def view_named_def find_snoc f split: option.splits)
qed

definition aggregates_defined :: "catalogue \<Rightarrow> bool" where
  "aggregates_defined c \<longleftrightarrow> (\<forall>n\<in>set aggregate_names. is_view_kind Continuous n c)"

lemma relation_of_kind: "is_view_kind k n c \<Longrightarrow> relation_columns n c \<noteq> None"
  by (auto simp: is_view_kind_def relation_columns_def split: option.splits)

lemma run_policies:
  assumes "aggregates_defined c" and "n \<in> set aggregate_names"
  shows "run_ddl chunk [RefreshAggregate n i] c = Inr c"
    "run_ddl chunk [RemoveRefreshPolicy n, refresh_policy n p] c = Inr (refreshed_by n p c)"
    "run_ddl chunk [RemoveRetentionPolicy n, AddRetentionPolicy n i] c = Inr (retained_for n i c)"
    "aggregates_defined (refreshed_by n p c)" "aggregates_defined (retained_for n i c)"
proof -
  have k: "is_view_kind Continuous n c" using assms by (simp add: aggregates_defined_def)
  note r = relation_of_kind [OF k]
  have u: "is_view_kind k m (c\<lparr>ct_refresh := x\<rparr>) = is_view_kind k m c" "is_view_kind k m (c\<lparr>ct_retention := y\<rparr>) = is_view_kind k m c"
    "relation_columns m (c\<lparr>ct_refresh := x\<rparr>) = relation_columns m c" "relation_columns m (c\<lparr>ct_retention := y\<rparr>) = relation_columns m c" for k m x y
    by (simp_all add: is_view_kind_def relation_columns_def split: option.split)
  show "run_ddl chunk [RefreshAggregate n i] c = Inr c" using r k by (auto simp: with_aggregate_def)
  show "run_ddl chunk [RemoveRefreshPolicy n, refresh_policy n p] c = Inr (refreshed_by n p c)"
    using r k by (auto simp: with_aggregate_def refresh_policy_def refreshed_by_def u)
  show "run_ddl chunk [RemoveRetentionPolicy n, AddRetentionPolicy n i] c = Inr (retained_for n i c)"
    using r k by (auto simp: with_chunks_def retained_for_def u)
  show "aggregates_defined (refreshed_by n p c)" "aggregates_defined (retained_for n i c)"
    using assms(1) by (simp_all add: aggregates_defined_def refreshed_by_def retained_for_def u)
qed


definition all_redefined :: "catalogue \<Rightarrow> catalogue" where
  "all_redefined c = redefined ''lfp_1hour'' (redefined ''lfp_15min'' (redefined ''lfp_5min'' c))"

definition with_policies :: "catalogue \<Rightarrow> catalogue" where
  "with_policies c = retained_for ''lfp_1hour'' (ag_retention policy_1hour)
     (retained_for ''lfp_15min'' (ag_retention policy_15min) (retained_for ''lfp_5min'' (ag_retention policy_5min)
     (refreshed_by ''lfp_1hour'' policy_1hour (refreshed_by ''lfp_15min'' policy_15min
     (refreshed_by ''lfp_5min'' policy_5min c)))))"

lemma run_redefines:
  assumes "before_aggregates c"
  shows "run_ddl chunk (concat (map (\<lambda>n. [DropMaterializedView n, CreateView (view_lfp n)]) aggregate_names)) c =
      Inr (all_redefined c)" "aggregates_defined (all_redefined c)"
proof -
  let ?a = "redefined ''lfp_5min'' c" let ?b = "redefined ''lfp_15min'' ?a"
  note a = run_redefine [OF assms, of "''lfp_5min''"]
  note b = run_redefine [of ?a "''lfp_15min''"]
  note d = run_redefine [of ?b "''lfp_1hour''"]
  have n: "''lfp_5min'' \<in> set aggregate_names" "''lfp_15min'' \<in> set aggregate_names" "''lfp_1hour'' \<in> set aggregate_names"
    by (simp_all add: aggregate_names_def)
  note n' = a [OF n(1)] b [OF _ n(2)] d [OF _ n(3)]
  have "concat (map (\<lambda>n. [DropMaterializedView n, CreateView (view_lfp n)]) aggregate_names) =
      [DropMaterializedView ''lfp_5min'', CreateView (view_lfp ''lfp_5min'')] @
      [DropMaterializedView ''lfp_15min'', CreateView (view_lfp ''lfp_15min'')] @
      [DropMaterializedView ''lfp_1hour'', CreateView (view_lfp ''lfp_1hour'')]" by (simp add: aggregate_names_def)
  then show "run_ddl chunk (concat (map (\<lambda>n. [DropMaterializedView n, CreateView (view_lfp n)]) aggregate_names)) c =
      Inr (all_redefined c)" using n' by (simp only: run_ddl_append sum.case all_redefined_def)
  show "aggregates_defined (all_redefined c)"
    using n' by (simp add: aggregates_defined_def aggregate_names_def all_redefined_def redefine_other)
qed

lemma upgrade_004_statements: "map statement ddl_upgrade_004 =
    concat (map (\<lambda>n. [DropMaterializedView n, CreateView (view_lfp n)]) aggregate_names) @
    [RefreshAggregate ''lfp_5min'' (days 3)] @ [RefreshAggregate ''lfp_15min'' (days 7)] @ [RefreshAggregate ''lfp_1hour'' (days 30)] @
    [RemoveRefreshPolicy ''lfp_5min'', refresh_policy ''lfp_5min'' policy_5min] @
    [RemoveRefreshPolicy ''lfp_15min'', refresh_policy ''lfp_15min'' policy_15min] @
    [RemoveRefreshPolicy ''lfp_1hour'', refresh_policy ''lfp_1hour'' policy_1hour] @
    [RemoveRetentionPolicy ''lfp_5min'', AddRetentionPolicy ''lfp_5min'' (ag_retention policy_5min)] @
    [RemoveRetentionPolicy ''lfp_15min'', AddRetentionPolicy ''lfp_15min'' (ag_retention policy_15min)] @
    [RemoveRetentionPolicy ''lfp_1hour'', AddRetentionPolicy ''lfp_1hour'' (ag_retention policy_1hour)]"
  by (simp add: ddl_upgrade_004_def aggregate_names_def)

lemma run_upgrade_004:
  assumes "before_aggregates c"
  shows "run_steps chunk ddl_upgrade_004 c = Inr (with_policies (all_redefined c))"
    "aggregates_defined (with_policies (all_redefined c))"
proof -
  have n: "''lfp_5min'' \<in> set aggregate_names" "''lfp_15min'' \<in> set aggregate_names" "''lfp_1hour'' \<in> set aggregate_names"
    by (simp_all add: aggregate_names_def)
  note r = run_redefines [OF assms]
  show "aggregates_defined (with_policies (all_redefined c))" using r(2) n by (simp add: with_policies_def run_policies)
  show "run_steps chunk ddl_upgrade_004 c = Inr (with_policies (all_redefined c))"
    unfolding run_steps_def upgrade_004_statements
    by (simp only: run_ddl_append sum.case r n run_policies with_policies_def)
qed

lemma rerun_from_rest: "with_policies (all_redefined c) = with_policies (all_redefined (without_aggregates c))"
proof -
  have d: "distinct aggregate_names" by (simp add: aggregate_names_def)
  show ?thesis
    by (rule catalogue.equality) (simp_all add: with_policies_def all_redefined_def redefined_def refreshed_by_def retained_for_def
      without_aggregates_def forget_def view_lfp_def aggregate_names_def conj_commute conj_left_commute)
qed

primrec interruptions :: "int option \<Rightarrow> nat list \<Rightarrow> step list \<Rightarrow> catalogue \<Rightarrow> catalogue ddl_result" where
  "interruptions chunk [] m c = Inr c"
| "interruptions chunk (k # ks) m c = (case interrupted chunk k m c of Inl e \<Rightarrow> Inl e | Inr c \<Rightarrow> interruptions chunk ks m c)"

lemma interrupted_004:
  assumes "before_aggregates c"
  shows "\<exists>c'. interrupted chunk k ddl_upgrade_004 c = Inr c' \<and> before_aggregates c' \<and> without_aggregates c' = without_aggregates c"
proof -
  let ?m = "map statement ddl_upgrade_004" and ?j = "committed k ddl_upgrade_004"
  have "(case run_ddl chunk (take ?j ?m) c of Inl e \<Rightarrow> Inl e | Inr c' \<Rightarrow> run_ddl chunk (drop ?j ?m) c') =
      Inr (with_policies (all_redefined c))"
    using run_upgrade_004(1) [OF assms, of chunk] run_ddl_append [of chunk "take ?j ?m" "drop ?j ?m" c]
    by (simp add: run_steps_def)
  then obtain c' where c': "run_ddl chunk (take ?j ?m) c = Inr c'" by (auto split: sum.split_asm)
  moreover have "list_all aggregate_step (take ?j ?m)"
    using aggregate_steps by (auto simp: list_all_iff take_map dest!: in_set_takeD)
  ultimately show ?thesis using aggregate_steps_keep [OF assms] by (auto simp: interrupted_def run_steps_def take_map)
qed

lemma interruptions_004:
  assumes "before_aggregates c"
  shows "\<exists>c'. interruptions chunk ks ddl_upgrade_004 c = Inr c' \<and> before_aggregates c' \<and> without_aggregates c' = without_aggregates c"
  using assms
proof (induction ks arbitrary: c)
  case (Cons k ks)
  then obtain d where "interrupted chunk k ddl_upgrade_004 c = Inr d" "before_aggregates d"
      "without_aggregates d = without_aggregates c" using interrupted_004 by blast
  then show ?case using Cons.IH [of d] by auto
qed simp

text \<open>C32. Migration 004 can be repeated: whatever was there of the aggregates before, after any number of
  interrupted runs another run succeeds and ends in the same catalogue as a single run without interruption,
  with exactly one refresh policy and one retention policy for each aggregate.\<close>

theorem aggregates_rerunnable:
  assumes "before_aggregates c"
  shows "\<exists>c' d. interruptions chunk ks ddl_upgrade_004 c = Inr c' \<and>
    run_steps chunk ddl_upgrade_004 c = Inr d \<and> run_steps chunk ddl_upgrade_004 c' = Inr d \<and>
    map vw_name (filter (\<lambda>v. vw_kind v = Continuous \<and> vw_name v \<in> set aggregate_names) (ct_views d)) = aggregate_names \<and>
    map fst (filter (\<lambda>p. fst p \<in> set aggregate_names) (ct_refresh d)) = aggregate_names \<and>
    map fst (filter (\<lambda>p. fst p \<in> set aggregate_names) (ct_retention d)) = aggregate_names"
proof -
  obtain c' where c': "interruptions chunk ks ddl_upgrade_004 c = Inr c'" "before_aggregates c'"
      "without_aggregates c' = without_aggregates c" using interruptions_004 [OF assms] by blast
  let ?d = "with_policies (all_redefined c)"
  have "with_policies (all_redefined c') = ?d" using c'(3) rerun_from_rest by metis
  then have "run_steps chunk ddl_upgrade_004 c' = Inr ?d" using run_upgrade_004(1) [OF c'(2)] by simp
  moreover have "map vw_name (filter (\<lambda>v. vw_kind v = Continuous \<and> vw_name v \<in> set aggregate_names) (ct_views ?d)) = aggregate_names"
    "map fst (filter (\<lambda>p. fst p \<in> set aggregate_names) (ct_refresh ?d)) = aggregate_names"
    "map fst (filter (\<lambda>p. fst p \<in> set aggregate_names) (ct_retention ?d)) = aggregate_names"
    by (auto simp: with_policies_def all_redefined_def redefined_def refreshed_by_def retained_for_def forget_def view_lfp_def
      aggregate_names_def filter_empty_conv)
  ultimately show ?thesis using c'(1) run_upgrade_004(1) [OF assms] by blast
qed


section \<open>The first migration\<close>

text \<open>The autocommit blocks of 001 commit the tables before the revision is recorded.\<close>

lemma committed_001: "committed k ddl_upgrade_001 = (if k < 13 then 0 else min k 15)"
proof (cases "k < 15")
  case True
  have "list_all (\<lambda>k. committed k ddl_upgrade_001 = (if k < 13 then 0 else min k 15)) [0..<15]" by code_simp
  then show ?thesis using True by (simp add: list_all_iff)
next
  case False
  have "length ddl_upgrade_001 = 15" by (simp add: ddl_upgrade_001_def)
  then have "take k ddl_upgrade_001 = ddl_upgrade_001" using False by simp
  moreover have "length (dropWhile (\<lambda>s. \<not> is_auto s) (rev ddl_upgrade_001)) = 15" by code_simp
  ultimately show ?thesis using False \<open>length ddl_upgrade_001 = 15\<close> by (simp add: committed_def)
qed

lemma first_prefixes:
  "list_all (\<lambda>j. case run_steps None (take j ddl_upgrade_001) empty_catalogue of Inl e \<Rightarrow> False
     | Inr c \<Rightarrow> run_steps None ddl_upgrade_001 c = Inl DuplicateTable) [13, 14, 15]"
  "list_all (\<lambda>j. case run_steps (Some i) (take j ddl_upgrade_001) empty_catalogue of Inl e \<Rightarrow> False
     | Inr c \<Rightarrow> run_steps (Some i) ddl_upgrade_001 c = Inl DuplicateTable) [13, 14, 15]"
  by code_simp+

text \<open>C33. The first migration cannot be repeated once its first autocommit block was entered: an interruption
  before it leaves the database empty, a later one leaves tables on which the next run fails with a duplicate
  table.\<close>

theorem initial_migration_stuck:
  "\<exists>c. interrupted chunk k ddl_upgrade_001 empty_catalogue = Inr c \<and>
     (if k < 13 then c = empty_catalogue else run_steps chunk ddl_upgrade_001 c = Inl DuplicateTable)"
proof (cases "k < 13")
  case True
  then show ?thesis by (simp add: interrupted_def committed_001 run_steps_def)
next
  case False
  then have "committed k ddl_upgrade_001 \<in> set [13, 14, 15]" by (auto simp: committed_001)
  moreover have "list_all (\<lambda>j. case run_steps chunk (take j ddl_upgrade_001) empty_catalogue of Inl e \<Rightarrow> False
     | Inr c \<Rightarrow> run_steps chunk ddl_upgrade_001 c = Inl DuplicateTable) [13, 14, 15]"
    using first_prefixes by (cases chunk) blast+
  ultimately show ?thesis using False by (fastforce simp: interrupted_def list_all_iff split: sum.split_asm)
qed

section \<open>Witness\<close>

lemma before_004: "case catalogue_at None 3 of Inl e \<Rightarrow> False | Inr c \<Rightarrow> before_aggregates c"
  by code_simp

theorem aggregates_rerunnable_witness:
  "\<exists>c c' d. catalogue_at None 3 = Inr c \<and> interruptions None [5, 12] ddl_upgrade_004 c = Inr c' \<and>
     run_steps None ddl_upgrade_004 c' = Inr d \<and> catalogue_at None 4 = Inr d"
proof -
  obtain c where c: "catalogue_at None 3 = Inr c" "before_aggregates c"
    using before_004 by (auto split: sum.split_asm)
  have "(4::nat) = Suc 3" by simp
  then have "catalogue_at None 4 = run_steps None ddl_upgrade_004 c"
    using c(1) by (simp only: catalogue_at.simps sum.case) (simp add: upgrades_def)
  then show ?thesis using aggregates_rerunnable [OF c(2), of None "[5, 12]"] c(1) by auto
qed

end
