(* ===== verification/MigratedSchema.thy ===== *)
theory MigratedSchema
  imports Migrations
begin

text \<open>
  The schema that the migrations leave in an empty database, compared with the tables that the models
  declare, the comparison that Alembic's autogenerate makes under the filter of \<open>migrations/env.py\<close>.
\<close>

section \<open>The migrated schema and the models\<close>

text \<open>The filter of \<open>env.py\<close> over what autogenerate compares.\<close>

definition include_object :: "string \<Rightarrow> string \<Rightarrow> bool" where
  "include_object kind name \<longleftrightarrow> \<not> (kind = ''index'' \<and>
     name \<in> set [''historical_funding_point_timestamp_idx'', ''live_funding_point_timestamp_idx''])"

definition varchar_for_text :: "column \<Rightarrow> column" where
  "varchar_for_text c = (if cl_type c = Text then c\<lparr>cl_type := AutoString\<rparr> else c)"

definition as_varchar :: "db_table \<Rightarrow> db_table" where
  "as_varchar t = t\<lparr>tb_columns := map varchar_for_text (tb_columns t), tb_hyper := None\<rparr>"

definition same_table :: "db_table \<Rightarrow> db_table \<Rightarrow> bool" where
  "same_table t u \<longleftrightarrow> t\<lparr>tb_columns := []\<rparr> = u\<lparr>tb_columns := []\<rparr> \<and> set (tb_columns t) = set (tb_columns u)"

definition matching_table :: "(py_type \<Rightarrow> coltype) \<Rightarrow> catalogue \<Rightarrow> model \<Rightarrow> bool" where
  "matching_table sql_type c m \<longleftrightarrow> (case table_named (md_name m) c of None \<Rightarrow> False
     | Some t \<Rightarrow> same_table (as_varchar t) (model_table sql_type m))"

text \<open>The columns that differ from every column of the models, and the indexes of tables that autogenerate
  compares but no model declares.\<close>

definition differing_columns :: "(py_type \<Rightarrow> coltype) \<Rightarrow> catalogue \<Rightarrow> (string \<times> string) list" where
  "differing_columns sql_type c = [(tb_name t, cl_name k). t \<leftarrow> ct_tables c, k \<leftarrow> tb_columns t,
     \<not> list_ex (\<lambda>m. md_name m = tb_name t \<and> List.member (map (model_column sql_type) (md_fields m)) k) models]"

definition compared_indexes :: "catalogue \<Rightarrow> db_index list" where
  "compared_indexes c = filter (\<lambda>i. include_object ''index'' (ix_name i) \<and> table_named (ix_on i) c \<noteq> None) (ct_indexes c)"

definition hypertables :: "catalogue \<Rightarrow> (string \<times> string \<times> int) list" where
  "hypertables c = [(tb_name t, h). t \<leftarrow> ct_tables c, h \<leftarrow> (case tb_hyper t of None \<Rightarrow> [] | Some h \<Rightarrow> [h])]"

definition schema_summary :: "(py_type \<Rightarrow> coltype) \<Rightarrow> catalogue \<Rightarrow> bool list" where
  "schema_summary sql_type c = [list_all (matching_table sql_type c) models,
     length (ct_tables c) = length models,
     differing_columns sql_type c = map (\<lambda>k. (''ingestion_task'', k))
       [''task_key'', ''pipeline'', ''exchange_name'', ''status'', ''worker_id'', ''error_type'', ''error_message''],
     map ix_name (filter (\<lambda>i. \<not> List.member (concat (map model_indexes models)) i) (compared_indexes c)) = [''contract_search_trgm_idx''],
     list_all (\<lambda>i. List.member (ct_indexes c) i) (concat (map model_indexes models)),
     list_ex (\<lambda>i. ix_on i = ''contract_enriched'' \<and> ix_unique i \<and> ix_where i = None) (ct_indexes c)]"

primrec documented_type :: "py_type \<Rightarrow> coltype" where
  "documented_type PyStr = AutoString"
| "documented_type PyInt = Integer"
| "documented_type PyFloat = Float"
| "documented_type PyBool = Boolean"
| "documented_type PyUuid = Uuid"
| "documented_type PyDatetime = DateTimeTz"
| "documented_type PyDict = Json"

definition head_schema :: "(py_type \<Rightarrow> coltype) \<Rightarrow> int option \<Rightarrow> catalogue \<Rightarrow> bool" where
  "head_schema sql_type chunk c \<longleftrightarrow> list_all (\<lambda>b. b) (schema_summary sql_type c) \<and>
     hypertables c = [(''historical_funding_point'', ''timestamp'', case chunk of None \<Rightarrow> days 1 | Some i \<Rightarrow> i),
       (''live_funding_point'', ''timestamp'', case chunk of None \<Rightarrow> hours 1 | Some i \<Rightarrow> i)]"

lemma head_None: "case catalogue_at None 9 of Inl e \<Rightarrow> False | Inr c \<Rightarrow> head_schema documented_type None c"
  by code_simp

lemma head_Some: "case catalogue_at (Some i) 9 of Inl e \<Rightarrow> False | Inr c \<Rightarrow> head_schema documented_type (Some i) c"
  by code_simp

definition sqlmodel_types :: "(py_type \<Rightarrow> coltype) \<Rightarrow> bool" where
  "sqlmodel_types sql_type \<longleftrightarrow> sql_type PyStr = AutoString \<and> sql_type PyInt = Integer \<and> sql_type PyFloat = Float \<and>
     sql_type PyBool = Boolean \<and> sql_type PyUuid = Uuid"

lemma model_columns_documented:
  assumes "sqlmodel_types sql_type" and "m \<in> set models"
  shows "map (model_column sql_type) (md_fields m) = map (model_column documented_type) (md_fields m)"
proof -
  have "\<forall>m\<in>set models. \<forall>f\<in>set (md_fields m). mf_sa_column f \<noteq> None \<or> mf_sa_type f \<noteq> None \<or> mf_type f \<notin> {PyDatetime, PyDict}"
    by code_simp
  then have g: "mf_sa_column f \<noteq> None \<or> mf_sa_type f \<noteq> None \<or> mf_type f \<notin> {PyDatetime, PyDict}"
    if "f \<in> set (md_fields m)" for f using assms(2) that by blast
  have "model_column sql_type f = model_column documented_type f" if "f \<in> set (md_fields m)" for f
    using assms(1) g [OF that] by (cases "mf_type f") (auto simp: model_column_def sqlmodel_types_def split: option.splits)
  then show ?thesis by simp
qed

lemma head_schema_documented:
  assumes "sqlmodel_types sql_type"
  shows "head_schema sql_type chunk c = head_schema documented_type chunk c"
proof -
  note d = model_columns_documented [OF assms]
  have "matching_table sql_type c m = matching_table documented_type c m" if "m \<in> set models" for m
  proof -
    have "model_table sql_type m = model_table documented_type m" unfolding model_table_def d [OF that] ..
    then show ?thesis by (simp add: matching_table_def split: option.split)
  qed
  moreover have "list_ex (\<lambda>m. md_name m = n \<and> List.member (map (model_column sql_type) (md_fields m)) k) models =
      list_ex (\<lambda>m. md_name m = n \<and> List.member (map (model_column documented_type) (md_fields m)) k) models" for n k
    using d by (auto simp: list_ex_iff)
  ultimately show ?thesis by (simp add: head_schema_def schema_summary_def differing_columns_def cong: list.pred_cong)
qed

text \<open>C30. From an empty database all nine migrations succeed, and the result has a table for each model and no
  other, with the columns, defaults, keys and checks that the model declares, if \<open>TEXT\<close> counts as
  \<open>VARCHAR\<close>; the columns that differ in this are seven of \<open>ingestion_task\<close>. Every declared index exists, and
  \<open>contract_search_trgm_idx\<close> is the only index that autogenerate compares and no model declares. The view
  \<open>contract_enriched\<close> has the unique index that a concurrent refresh needs. The chunk intervals of 001 take
  effect only if the dialect has not made the tables hypertables before (\<open>chunk = None\<close>).\<close>

theorem migrations_reach_models:
  assumes "sqlmodel_types sql_type"
  shows "\<exists>c. catalogue_at chunk 9 = Inr c \<and>
    (\<forall>m\<in>set models. matching_table sql_type c m) \<and> length (ct_tables c) = length models \<and>
    differing_columns sql_type c = map (\<lambda>k. (''ingestion_task'', k))
      [''task_key'', ''pipeline'', ''exchange_name'', ''status'', ''worker_id'', ''error_type'', ''error_message''] \<and>
    (\<forall>m\<in>set models. set (model_indexes m) \<subseteq> set (ct_indexes c)) \<and>
    map ix_name (filter (\<lambda>i. i \<notin> (\<Union>m\<in>set models. set (model_indexes m))) (compared_indexes c)) = [''contract_search_trgm_idx''] \<and>
    (\<exists>i\<in>set (ct_indexes c). ix_on i = ''contract_enriched'' \<and> ix_unique i \<and> ix_where i = None) \<and>
    hypertables c = [(''historical_funding_point'', ''timestamp'', case chunk of None \<Rightarrow> days 1 | Some i \<Rightarrow> i),
      (''live_funding_point'', ''timestamp'', case chunk of None \<Rightarrow> hours 1 | Some i \<Rightarrow> i)]"
proof -
  have "case catalogue_at chunk 9 of Inl e \<Rightarrow> False | Inr c \<Rightarrow> head_schema documented_type chunk c"
    using head_None head_Some by (cases chunk) auto
  then obtain c where c: "catalogue_at chunk 9 = Inr c" "head_schema documented_type chunk c"
    by (auto split: sum.split_asm)
  then have h: "head_schema sql_type chunk c" using head_schema_documented [OF assms] by simp
  have "(List.member (concat (map model_indexes models)) i) = (i \<in> (\<Union>m\<in>set models. set (model_indexes m)))" for i
    by simp
  then show ?thesis using c(1) h
    by (auto simp: head_schema_def schema_summary_def list_all_iff list_ex_iff)
qed

theorem migrations_reach_models_witness:
  "sqlmodel_types documented_type \<and> (\<exists>c. catalogue_at (Some (days 7)) 9 = Inr c \<and>
     hypertables c = [(''historical_funding_point'', ''timestamp'', days 7), (''live_funding_point'', ''timestamp'', days 7)])"
proof -
  have s: "sqlmodel_types documented_type" by (simp add: sqlmodel_types_def)
  show ?thesis using migrations_reach_models [OF s, of "Some (days 7)"] s by auto
qed

end
