(* ===== verification/MigrationWalk.thy ===== *)
theory MigrationWalk
  imports MigratedSchema
begin

text \<open>
  Walks along the chain of revisions: every \<open>alembic upgrade\<close> and \<open>alembic downgrade\<close> between two neighbours
  succeeds, and the schema depends on the revision only. The locale \<open>revision_chain\<close> is interpreted on the
  nine migrations, with at most three catalogues at each revision: the one of a straight upgrade, the one
  after a downgrade from the head, in which the column \<open>synced\<close> has moved to the end of its table, and the
  first one with the extension that the downgrade of 006 leaves.
\<close>

section \<open>The states of a walk\<close>

definition same_schema :: "catalogue \<Rightarrow> catalogue \<Rightarrow> bool" where
  "same_schema c d \<longleftrightarrow> list_all2 same_table (ct_tables c) (ct_tables d) \<and>
     c\<lparr>ct_extensions := [], ct_tables := []\<rparr> = d\<lparr>ct_extensions := [], ct_tables := []\<rparr> \<and>
     set (ct_extensions c) - {''pg_trgm''} = set (ct_extensions d) - {''pg_trgm''}"

definition upgrade_step :: "int option \<Rightarrow> nat \<Rightarrow> catalogue \<Rightarrow> catalogue ddl_result" where
  "upgrade_step chunk n = run_steps chunk (upgrades ! n)"

definition downgrade_step :: "int option \<Rightarrow> nat \<Rightarrow> catalogue \<Rightarrow> catalogue ddl_result" where
  "downgrade_step chunk n = run_steps chunk (downgrades ! n)"

fun scan :: "int option \<Rightarrow> step list list \<Rightarrow> catalogue \<Rightarrow> catalogue list" where
  "scan chunk [] c = [c]"
| "scan chunk (m # ms) c = c # (case run_steps chunk m c of Inl e \<Rightarrow> [] | Inr c \<Rightarrow> scan chunk ms c)"

definition with_trgm :: "catalogue \<Rightarrow> catalogue" where
  "with_trgm c = c\<lparr>ct_extensions := insort ''pg_trgm'' (ct_extensions c)\<rparr>"

definition level :: "nat \<Rightarrow> catalogue \<Rightarrow> catalogue \<Rightarrow> catalogue list" where
  "level n a b = take (if n < 6 then 3 else if n = 6 then 2 else 1) [a, b, with_trgm a]"

text \<open>Functions instead of \<open>let\<close>: an argument is evaluated once.\<close>

definition levels_of :: "int option \<Rightarrow> catalogue list \<Rightarrow> catalogue list list" where
  "levels_of chunk as = map (\<lambda>(n, a, b). level n a b)
     (zip [0, 1, 2, 3, 4, 5, 6, 7, 8, 9] (zip as (rev (scan chunk (rev downgrades) (last as)))))"

definition walk_levels :: "int option \<Rightarrow> catalogue list list" where
  "walk_levels chunk = levels_of chunk (scan chunk upgrades empty_catalogue)"

definition up_target :: "nat \<Rightarrow> nat \<Rightarrow> nat" where
  "up_target n j = (if n = 0 \<and> j = 1 then 2 else if n = 5 \<and> j = 2 \<or> n = 6 then 0 else j)"

definition down_target :: "nat \<Rightarrow> nat \<Rightarrow> nat" where
  "down_target n j = (if n = 6 then 1 else if n = 5 \<and> j = 0 then 2 else j)"

text \<open>The checks are made under a variable for equality, so that equal catalogues are compared as a whole.\<close>

definition arrives :: "(catalogue \<Rightarrow> catalogue \<Rightarrow> bool) \<Rightarrow> int option \<Rightarrow> step list \<Rightarrow> catalogue \<Rightarrow> catalogue \<Rightarrow> bool" where
  "arrives eq chunk m target c = (case run_steps chunk m c of Inl e \<Rightarrow> False | Inr c \<Rightarrow> eq c target)"

definition level_checks :: "(catalogue \<Rightarrow> catalogue \<Rightarrow> bool) \<Rightarrow> int option \<Rightarrow> nat \<Rightarrow> step list \<Rightarrow> step list \<Rightarrow>
    catalogue list \<Rightarrow> catalogue list \<Rightarrow> bool list" where
  "level_checks eq chunk n u d xs ys =
     map (\<lambda>(j, c). arrives eq chunk u (ys ! up_target n j) c) (zip [0, 1, 2] xs) @
     map (\<lambda>(j, c). arrives eq chunk d (xs ! down_target n j) c) (zip [0, 1, 2] ys)"

fun chain_checks :: "(catalogue \<Rightarrow> catalogue \<Rightarrow> bool) \<Rightarrow> int option \<Rightarrow> nat \<Rightarrow> (step list \<times> step list) list \<Rightarrow>
    catalogue list list \<Rightarrow> bool list" where
  "chain_checks eq chunk n ((u, d) # ms) (xs # ys # rest) =
     level_checks eq chunk n u d xs ys @ chain_checks eq chunk (Suc n) ms (ys # rest)"
| "chain_checks eq chunk n _ _ = []"

text \<open>Columns have distinct names, so it is enough to sort them to compare them as sets.\<close>

definition moved_column :: "(catalogue \<Rightarrow> catalogue \<Rightarrow> bool) \<Rightarrow> catalogue \<Rightarrow> catalogue \<Rightarrow> bool" where
  "moved_column eq a b = eq (b\<lparr>ct_extensions := [], ct_tables := map (\<lambda>t. t\<lparr>tb_columns := sort_key cl_name (tb_columns t)\<rparr>) (ct_tables b)\<rparr>)
     (a\<lparr>ct_extensions := [], ct_tables := map (\<lambda>t. t\<lparr>tb_columns := sort_key cl_name (tb_columns t)\<rparr>) (ct_tables a)\<rparr>)"

definition walk_checks :: "(catalogue \<Rightarrow> catalogue \<Rightarrow> bool) \<Rightarrow> int option \<Rightarrow> catalogue list list \<Rightarrow> bool list" where
  "walk_checks eq chunk ss =
     (map length ss = [3, 3, 3, 3, 3, 3, 2, 1, 1, 1]) # (ss ! 0 ! 0 = empty_catalogue) #
     chain_checks eq chunk 0 (zip upgrades downgrades) ss @
     map (\<lambda>s. moved_column eq (s ! 0) (s ! 1) \<and> set (ct_extensions (s ! 1)) - {''pg_trgm''} =
       set (ct_extensions (s ! 0)) - {''pg_trgm''}) (take 7 ss) @
     map (\<lambda>s. eq (s ! 2) (with_trgm (s ! 0))) (take 6 ss)"

lemma walk_checks_Some:
  assumes "\<And>c. eq c c"
  shows "list_all (\<lambda>b. b) (walk_checks eq (Some i) (walk_levels (Some i)))"
  by code_simp (simp add: assms)

lemma walk_checks_hold: "list_all (\<lambda>b. b) (walk_checks (=) (Some i) (walk_levels (Some i)))"
  using walk_checks_Some [of "(=)"] by simp

definition level_sizes :: "nat list" where
  "level_sizes = [3, 3, 3, 3, 3, 3, 2, 1, 1, 1]"

lemma list_all_upt: "list_all P [0..<n] \<longleftrightarrow> (\<forall>k<n. P k)"
  by (auto simp: list_all_iff)

lemma list_all_concat_map: "list_all P (concat (map f xs)) \<longleftrightarrow> list_all (\<lambda>x. list_all P (f x)) xs"
  by (induction xs) auto

lemmas check_simps = list_all_upt list_all_concat_map list.pred_map list_all_append list.pred_inject comp_def

lemma chain_checks_nth:
  "list_all (\<lambda>b. b) (chain_checks eq chunk m ms ss) \<Longrightarrow> k < length ms \<Longrightarrow> Suc k < length ss \<Longrightarrow>
    list_all (\<lambda>b. b) (level_checks eq chunk (m + k) (fst (ms ! k)) (snd (ms ! k)) (ss ! k) (ss ! Suc k))"
proof (induction eq chunk m ms ss arbitrary: k rule: chain_checks.induct)
  case (1 eq chunk n u d ms xs ys rest)
  then show ?case by (cases k) (auto simp: list_all_append)
qed auto

lemma level_checks_nth:
  assumes "list_all (\<lambda>b. b) (level_checks eq chunk n u d xs ys)"
  shows "j < length xs \<Longrightarrow> j < 3 \<Longrightarrow> arrives eq chunk u (ys ! up_target n j) (xs ! j)"
    "j < length ys \<Longrightarrow> j < 3 \<Longrightarrow> arrives eq chunk d (xs ! down_target n j) (ys ! j)"
proof -
  have z: "(j, zs ! j) \<in> set (zip [0, 1, 2] zs)" if "j < length zs" "j < 3" for zs :: "catalogue list"
  proof -
    have "[0, 1, 2] ! j = j" using that(2) by (auto simp: less_Suc_eq numeral_eq_Suc)
    then show ?thesis using that by (auto simp: in_set_zip intro!: exI [of _ j])
  qed
  have c: "(\<forall>p\<in>set (zip [0, 1, 2] xs). arrives eq chunk u (ys ! up_target n (fst p)) (snd p)) \<and>
    (\<forall>p\<in>set (zip [0, 1, 2] ys). arrives eq chunk d (xs ! down_target n (fst p)) (snd p))"
    using assms by (simp only: level_checks_def case_prod_beta list_all_append list.pred_map comp_def) (simp only: list_all_iff)
  from bspec [OF c [THEN conjunct1] z] bspec [OF c [THEN conjunct2] z]
  show "j < length xs \<Longrightarrow> j < 3 \<Longrightarrow> arrives eq chunk u (ys ! up_target n j) (xs ! j)"
    "j < length ys \<Longrightarrow> j < 3 \<Longrightarrow> arrives eq chunk d (xs ! down_target n j) (ys ! j)" by simp_all
qed

lemma targets_in_range:
  "n < 9 \<Longrightarrow> j < level_sizes ! n \<Longrightarrow> up_target n j < level_sizes ! Suc n"
  "n < 9 \<Longrightarrow> j < level_sizes ! Suc n \<Longrightarrow> down_target n j < level_sizes ! n"
proof -
  have "list_all (\<lambda>n. list_all (\<lambda>j. up_target n j < level_sizes ! Suc n) [0..<level_sizes ! n] \<and>
      list_all (\<lambda>j. down_target n j < level_sizes ! n) [0..<level_sizes ! Suc n]) [0..<9]"
    by code_simp
  then show "n < 9 \<Longrightarrow> j < level_sizes ! n \<Longrightarrow> up_target n j < level_sizes ! Suc n"
    "n < 9 \<Longrightarrow> j < level_sizes ! Suc n \<Longrightarrow> down_target n j < level_sizes ! n"
    by (auto simp: list_all_iff)
qed


lemma size_bound: "n < 10 \<Longrightarrow> level_sizes ! n \<le> 3"
proof -
  have "list_all (\<lambda>n. level_sizes ! n \<le> 3) [0..<10]" by code_simp
  then show "n < 10 \<Longrightarrow> level_sizes ! n \<le> 3" by (simp add: list_all_upt)
qed

lemma walk_levels_facts:
  fixes i
  defines "ss \<equiv> walk_levels (Some i)"
  shows "map length ss = level_sizes" "ss ! 0 ! 0 = empty_catalogue"
    "list_all (\<lambda>b. b) (chain_checks (=) (Some i) 0 (zip upgrades downgrades) ss)"
    "list_all (\<lambda>s. moved_column (=) (s ! 0) (s ! 1) \<and> set (ct_extensions (s ! 1)) - {''pg_trgm''} =
       set (ct_extensions (s ! 0)) - {''pg_trgm''}) (take 7 ss)"
    "list_all (\<lambda>s. s ! 2 = with_trgm (s ! 0)) (take 6 ss)"
  using walk_checks_hold [of i]
  unfolding walk_checks_def ss_def [symmetric] level_sizes_def check_simps by blast+

lemma levels_length: "length (walk_levels (Some i)) = 10"
  using arg_cong [OF walk_levels_facts(1) [of i], of length] by (simp add: level_sizes_def)

lemma level_length: "n < 10 \<Longrightarrow> length (walk_levels (Some i) ! n) = level_sizes ! n"
  using walk_levels_facts(1) [of i] levels_length [of i] by (metis nth_map)

lemma level_moved:
  assumes "n < 7"
  shows "moved_column (=) (walk_levels (Some i) ! n ! 0) (walk_levels (Some i) ! n ! 1) \<and>
    set (ct_extensions (walk_levels (Some i) ! n ! 1)) - {''pg_trgm''} = set (ct_extensions (walk_levels (Some i) ! n ! 0)) - {''pg_trgm''}"
  using walk_levels_facts(4) [of i] assms levels_length [of i] by (auto simp: list_all_length)

lemma level_trgm: "n < 6 \<Longrightarrow> walk_levels (Some i) ! n ! 2 = with_trgm (walk_levels (Some i) ! n ! 0)"
  using walk_levels_facts(5) [of i] levels_length [of i] by (auto simp: list_all_length)

lemma level_arrives:
  assumes "n < 9"
  shows "j < level_sizes ! n \<Longrightarrow>
      arrives (=) (Some i) (upgrades ! n) (walk_levels (Some i) ! Suc n ! up_target n j) (walk_levels (Some i) ! n ! j)"
    "j < level_sizes ! Suc n \<Longrightarrow>
      arrives (=) (Some i) (downgrades ! n) (walk_levels (Some i) ! n ! down_target n j) (walk_levels (Some i) ! Suc n ! j)"
proof -
  have l: "length upgrades = 9" "length downgrades = 9" by (simp_all add: upgrades_def downgrades_def)
  have "list_all (\<lambda>b. b) (level_checks (=) (Some i) n (upgrades ! n) (downgrades ! n) (walk_levels (Some i) ! n) (walk_levels (Some i) ! Suc n))"
    using chain_checks_nth [OF walk_levels_facts(3), of n i] l assms levels_length [of i] by simp
  note c = level_checks_nth [OF this]
  show "j < level_sizes ! n \<Longrightarrow>
      arrives (=) (Some i) (upgrades ! n) (walk_levels (Some i) ! Suc n ! up_target n j) (walk_levels (Some i) ! n ! j)"
    using c(1) [of j] level_length [of n i] size_bound [of n] assms by simp
  show "j < level_sizes ! Suc n \<Longrightarrow>
      arrives (=) (Some i) (downgrades ! n) (walk_levels (Some i) ! n ! down_target n j) (walk_levels (Some i) ! Suc n ! j)"
    using c(2) [of j] level_length [of "Suc n" i] size_bound [of "Suc n"] assms by simp
qed

lemma level_up:
  assumes "n < 9" and "c \<in> set (walk_levels (Some i) ! n)"
  shows "\<exists>c'\<in>set (walk_levels (Some i) ! Suc n). upgrade_step (Some i) n c = Inr c'"
proof -
  let ?s = "walk_levels (Some i)"
  obtain j where j: "j < level_sizes ! n" "c = ?s ! n ! j"
    using assms level_length [of n i] by (auto simp: in_set_conv_nth)
  have "arrives (=) (Some i) (upgrades ! n) (?s ! Suc n ! up_target n j) (?s ! n ! j)"
    using level_arrives(1) [OF assms(1) j(1)] .
  moreover have "?s ! Suc n ! up_target n j \<in> set (?s ! Suc n)"
    using targets_in_range(1) [OF assms(1) j(1)] level_length [of "Suc n" i] assms(1) by simp
  ultimately show ?thesis using j(2) by (auto simp: arrives_def upgrade_step_def split: sum.split_asm)
qed

lemma level_down:
  assumes "n < 9" and "c \<in> set (walk_levels (Some i) ! Suc n)"
  shows "\<exists>c'\<in>set (walk_levels (Some i) ! n). downgrade_step (Some i) n c = Inr c'"
proof -
  let ?s = "walk_levels (Some i)"
  obtain j where j: "j < level_sizes ! Suc n" "c = ?s ! Suc n ! j"
    using assms level_length [of "Suc n" i] by (auto simp: in_set_conv_nth)
  have "arrives (=) (Some i) (downgrades ! n) (?s ! n ! down_target n j) (?s ! Suc n ! j)"
    using level_arrives(2) [OF assms(1) j(1)] .
  moreover have "?s ! n ! down_target n j \<in> set (?s ! n)"
    using targets_in_range(2) [OF assms(1) j(1)] level_length [of n i] assms(1) by simp
  ultimately show ?thesis using j(2) by (auto simp: arrives_def downgrade_step_def split: sum.split_asm)
qed

interpretation migration_chain: revision_chain "upgrade_step (Some i)" "downgrade_step (Some i)" 9 empty_catalogue
  "\<lambda>n. set (walk_levels (Some i) ! n)" for i
proof
  show "empty_catalogue \<in> set (walk_levels (Some i) ! 0)"
    using walk_levels_facts(2) [of i] level_length [of 0 i] by (metis level_sizes_def nth_Cons_0 nth_mem zero_less_numeral)
qed (fact level_up level_down)+


section \<open>Every walk\<close>

lemma straight_upgrade: "n \<le> 9 \<Longrightarrow> catalogue_at (Some i) n = Inr (walk_levels (Some i) ! n ! 0)"
proof (induction n)
  case 0
  then show ?case using walk_levels_facts(2) [of i] by simp
next
  case (Suc n)
  have "0 < level_sizes ! n" using Suc.prems by (auto simp: level_sizes_def less_Suc_eq numeral_eq_Suc nth_Cons split: nat.split)
  then have "arrives (=) (Some i) (upgrades ! n) (walk_levels (Some i) ! Suc n ! up_target n 0) (walk_levels (Some i) ! n ! 0)"
    using level_arrives(1) [of n 0 i] Suc.prems by simp
  then show ?case using Suc by (auto simp: arrives_def up_target_def split: sum.split_asm)
qed

lemma same_sorted_table:
  "t\<lparr>tb_columns := sort_key cl_name (tb_columns t)\<rparr> = u\<lparr>tb_columns := sort_key cl_name (tb_columns u)\<rparr> \<Longrightarrow> same_table t u"
proof -
  assume a: "t\<lparr>tb_columns := sort_key cl_name (tb_columns t)\<rparr> = u\<lparr>tb_columns := sort_key cl_name (tb_columns u)\<rparr>"
  have "sort_key cl_name (tb_columns t) = sort_key cl_name (tb_columns u)"
    using arg_cong [OF a, of tb_columns] by simp
  then have "set (tb_columns t) = set (tb_columns u)" by (metis set_sort)
  then show ?thesis using arg_cong [OF a, of "\<lambda>t. t\<lparr>tb_columns := []\<rparr>"] by (simp add: same_table_def)
qed

lemma same_schema_refl [simp]: "same_schema c c"
  by (simp add: same_schema_def same_table_def list_all2_refl)

lemma moved_column_same:
  assumes "moved_column (=) a b" and "set (ct_extensions b) - {''pg_trgm''} = set (ct_extensions a) - {''pg_trgm''}"
  shows "same_schema b a"
proof -
  let ?f = "\<lambda>t. t\<lparr>tb_columns := sort_key cl_name (tb_columns t)\<rparr>"
  have e: "b\<lparr>ct_extensions := [], ct_tables := map ?f (ct_tables b)\<rparr> = a\<lparr>ct_extensions := [], ct_tables := map ?f (ct_tables a)\<rparr>"
    using assms(1) by (simp add: moved_column_def)
  have "map ?f (ct_tables b) = map ?f (ct_tables a)" using arg_cong [OF e, of ct_tables] by simp
  then have "list_all2 same_table (ct_tables b) (ct_tables a)"
    by (auto simp: list_all2_conv_all_nth list_eq_iff_nth_eq intro: same_sorted_table)
  then show ?thesis using assms(2) arg_cong [OF e, of "\<lambda>c. c\<lparr>ct_tables := []\<rparr>"] by (simp add: same_schema_def)
qed

lemma with_trgm_same: "same_schema (with_trgm a) a"
  by (auto simp: same_schema_def with_trgm_def same_table_def set_insort_key intro!: list_all2_refl)

lemma level_same:
  assumes "n \<le> 9" and "c \<in> set (walk_levels (Some i) ! n)"
  shows "same_schema c (walk_levels (Some i) ! n ! 0)"
proof -
  obtain j where j: "j < level_sizes ! n" "c = walk_levels (Some i) ! n ! j"
    using assms level_length [of n i] by (auto simp: in_set_conv_nth)
  have "list_all (\<lambda>n. level_sizes ! n \<le> 3 \<and> (6 \<le> n \<longrightarrow> level_sizes ! n \<le> 2) \<and> (7 \<le> n \<longrightarrow> level_sizes ! n \<le> 1)) [0..<10]"
    by code_simp
  then have s: "level_sizes ! n \<le> 3" "6 \<le> n \<longrightarrow> level_sizes ! n \<le> 2" "7 \<le> n \<longrightarrow> level_sizes ! n \<le> 1"
    using assms(1) by (auto simp: list_all_upt)
  consider "j = 0" | "j = 1" "n < 7" | "j = 2" "n < 6" using j(1) s by linarith
  then show ?thesis
  proof cases
    case 2
    then show ?thesis using j(2) level_moved [of n i] by (simp add: moved_column_same)
  next
    case 3
    then show ?thesis using j(2) level_trgm [of n i] by (simp add: with_trgm_same)
  qed (simp add: j(2))
qed

text \<open>C31. Starting from an empty database, upgrades and downgrades by one revision can be made in any order:
  each succeeds (the dialect makes a hypertable of a table created with the option), and the schema at a revision is that of a straight upgrade, up to the order of columns and
  the extension \<open>pg_trgm\<close>, which the downgrade of 006 leaves installed.\<close>

theorem migration_walks:
  assumes "walk (upgrade_step (Some i)) (downgrade_step (Some i)) 9 empty_catalogue n c"
  shows "n \<le> 9 \<and> (\<exists>d. catalogue_at (Some i) n = Inr d \<and> same_schema c d) \<and>
    (n < 9 \<longrightarrow> (\<exists>c'. upgrade_step (Some i) n c = Inr c')) \<and> (0 < n \<longrightarrow> (\<exists>c'. downgrade_step (Some i) (n - 1) c = Inr c'))"
proof -
  note s = migration_chain.walk_state [OF assms]
  have "\<exists>c'. downgrade_step (Some i) (n - 1) c = Inr c'" if "0 < n"
    using migration_chain.walk_down [of i "n - 1" c] assms that by simp
  then show ?thesis
    using s straight_upgrade [of n i] level_same [of n c i] migration_chain.walk_up [OF assms] by blast
qed

theorem migration_walks_witness:
  "\<exists>c c' d. walk (upgrade_step (Some (days 7))) (downgrade_step (Some (days 7))) 9 empty_catalogue 1 c \<and> catalogue_at (Some (days 7)) 1 = Inr d \<and>
     same_schema c d \<and> downgrade_step (Some (days 7)) 0 c = Inr c'"
proof -
  have s: "walk (upgrade_step (Some (days 7))) (downgrade_step (Some (days 7))) 9 empty_catalogue 0 empty_catalogue" by (rule walk.intros)
  then obtain c where "upgrade_step (Some (days 7)) 0 empty_catalogue = Inr c" using migration_walks by fastforce
  then have w: "walk (upgrade_step (Some (days 7))) (downgrade_step (Some (days 7))) 9 empty_catalogue (Suc 0) c" using s by (auto intro: walk.intros)
  show ?thesis using migration_walks [OF w] w by auto
qed

end
