(* ===== verification/MigrationEnv.thy ===== *)
theory MigrationEnv
  imports Adapter
begin

text \<open>
  The hook of \<open>migrations/env.py\<close> that numbers new revisions. The directory of scripts is represented by its
  head and the number of its revisions; a directive is represented by its revision id.
\<close>

section \<open>Numbering a revision\<close>

text \<open>\<open>f"{n:03d}"\<close>: the sign counts towards the width.\<close>

definition format_03d :: "int \<Rightarrow> string" where
  "format_03d n = (if n < 0 then CHR ''-'' # replicate (2 - length (dec_digits (nat (- n)))) (CHR ''0'') @ dec_digits (nat (- n))
     else replicate (3 - length (dec_digits (nat n))) (CHR ''0'') @ dec_digits (nat n))"

definition new_revision_number :: "string option \<Rightarrow> nat \<Rightarrow> int" where
  "new_revision_number head_revision revisions = (case head_revision of None \<Rightarrow> 1
     | Some r \<Rightarrow> (case parse_int (dropWhile (\<lambda>c. c = CHR ''0'') r) of
         Some last_rev_id \<Rightarrow> last_rev_id + 1
       | None \<Rightarrow> int revisions + 1))"

definition process_revision_directives :: "string option \<Rightarrow> nat \<Rightarrow> string list \<Rightarrow> string list" where
  "process_revision_directives head_revision revisions directives = (case directives of [] \<Rightarrow> []
     | _ # rest \<Rightarrow> format_03d (new_revision_number head_revision revisions) # rest)"

text \<open>A directory that grows by generated revisions, each on top of the last one.\<close>

definition add_revision :: "string \<Rightarrow> string list \<Rightarrow> string list" where
  "add_revision hash revisions = revisions @
     process_revision_directives (if revisions = [] then None else Some (last revisions)) (length revisions) [hash]"

section \<open>The printed numbers\<close>

lemma dec_digit_val: "n < 10 \<Longrightarrow> is_digit (char_of (48 + n)) \<and> digit_val (char_of (48 + n)) = int n"
  by (simp add: is_digit_def digit_val_def)

lemma dec_digits_props: "dec_digits n \<noteq> [] \<and> list_all is_digit (dec_digits n) \<and> digits_val (dec_digits n) = int n \<and>
    (0 < n \<longrightarrow> hd (dec_digits n) \<noteq> CHR ''0'')"
proof (induction n rule: dec_digits.induct)
  case (1 n)
  show ?case
  proof (cases "n < 10")
    case True
    have "0 < n \<Longrightarrow> char_of (48 + n) \<noteq> CHR ''0''"
    proof -
      assume "0 < n"
      then have "of_char (char_of (48 + n) :: char) \<noteq> (48 :: nat)" using True by simp
      then show ?thesis by fastforce
    qed
    then show ?thesis using True dec_digit_val [of n] by (simp add: dec_digits.simps [of n] digits_val_def)
  next
    case False
    moreover have "10 * int (n div 10) + int (n mod 10) = int n" by (simp add: zdiv_int zmod_int)
    ultimately show ?thesis using 1 dec_digit_val [of "n mod 10"]
      by (simp add: dec_digits.simps [of n] digits_val_snoc)
  qed
qed

lemma digits_plain:
  assumes "list_all is_digit s" and "s \<noteq> []"
  shows "parse_int s = Some (digits_val s)"
proof -
  have c: "\<not> is_space c \<and> c \<noteq> CHR ''-'' \<and> c \<noteq> CHR ''+'' \<and> c \<noteq> CHR ''_''" if "is_digit c" for c
    using that by (auto simp: is_digit_def is_space_def)
  have w: "dropWhile is_space t = t" if "list_all is_digit t" for t using that c by (cases t) auto
  have "py_strip s = s" using assms(1) w [of s] w [of "rev s"] by (simp add: py_strip_def)
  moreover have "split_sign s = (1, s)" using assms c by (cases s) (auto simp: split_sign_def)
  moreover have "py_split (CHR ''_'') t = [t]" if "list_all is_digit t" for t
    using that c by (induction t) auto
  ultimately show ?thesis using assms
    by (simp add: parse_int_def digit_run_def list_all_iff filter_id_conv [THEN iffD2])
qed

lemma format_round_trip: "0 < n \<Longrightarrow> parse_int (dropWhile (\<lambda>c. c = CHR ''0'') (format_03d n)) = Some n"
proof -
  assume n: "0 < n"
  let ?s = "dec_digits (nat n)"
  note p = dec_digits_props [of "nat n"]
  have "dropWhile (\<lambda>c. c = CHR ''0'') ?s = ?s" using p n by (cases ?s) auto
  then have "dropWhile (\<lambda>c. c = CHR ''0'') (format_03d n) = ?s" using n by (simp add: format_03d_def dropWhile_append)
  then show ?thesis using p n by (simp add: digits_plain)
qed

lemma add_revision_next: "add_revision h (map (\<lambda>k. format_03d (int k + 1)) [0..<n]) = map (\<lambda>k. format_03d (int k + 1)) [0..<Suc n]"
  by (cases n) (simp_all add: add_revision_def process_revision_directives_def new_revision_number_def format_round_trip)

text \<open>Revisions that are generated one after the other are numbered 001, 002, 003 and so on, also beyond 999,
  whatever hashes Alembic has proposed, and no two have the same id.\<close>

theorem revision_ids_sequential:
  "fold add_revision hashes [] = map (\<lambda>k. format_03d (int k + 1)) [0..<length hashes] \<and>
    distinct (fold add_revision hashes [])"
proof -
  have "fold add_revision hashes [] = map (\<lambda>k. format_03d (int k + 1)) [0..<length hashes]"
    by (induction hashes rule: rev_induct) (simp_all add: add_revision_next del: upt_Suc)
  moreover have "inj_on (\<lambda>k. format_03d (int k + 1)) A" for A
  proof (rule inj_onI)
    fix k l :: nat
    assume e: "format_03d (int k + 1) = format_03d (int l + 1)"
    have "Some (int k + 1) = Some (int l + 1)"
      using format_round_trip [of "int k + 1"] format_round_trip [of "int l + 1"] unfolding e by simp
    then show "k = l" by simp
  qed
  ultimately show ?thesis by (simp add: distinct_map)
qed

end
