(* ===== verification/ApiQueries.thy ===== *)
theory ApiQueries
  imports Store
begin

text \<open>
  The queries of the read API: \<open>api/queries/funding_sql_composer.py\<close> and
  \<open>api/queries/funding_data.py\<close>. A SQL statement is translated to the rows it selects from the
  tables; \<open>enriched\<close> are the rows of the materialized view \<open>contract_enriched\<close>, which may lag
  behind the table, \<open>smart\<close> those of the view \<open>lfp_smart\<close>, and \<open>now\<close> is \<open>NOW()\<close>.

  PostgreSQL is a parameter where its result is its own choice: \<open>pg_sum\<close> and \<open>pg_avg\<close> add doubles
  in an order of its own, \<open>pg_bucket\<close> is TimescaleDB's \<open>time_bucket\<close> for a width in hours, and \<open>plan\<close>
  ranks the rows that \<open>ORDER BY\<close> leaves tied. Text is ordered by code point. A double times a
  double is rounded once, and \<open>NULL\<close> is \<open>None\<close>.
\<close>

record pg =
  pg_sum :: "rat list \<Rightarrow> rat"
  pg_avg :: "rat list \<Rightarrow> rat"
  pg_bucket :: "int \<Rightarrow> utc \<Rightarrow> utc"

section \<open>Normalization\<close>

datatype normalize = RAW | H1 | H8 | D1 | D365

fun interval_value :: "normalize \<Rightarrow> string" where
  "interval_value RAW = ''raw''"
| "interval_value H1 = ''1h''"
| "interval_value H8 = ''8h''"
| "interval_value D1 = ''1d''"
| "interval_value D365 = ''365d''"

text \<open>\<open>float(s)\<close> of a string of digits.\<close>

definition float_of_digits :: "string \<Rightarrow> rat" where
  "float_of_digits s = of_nat (foldl (\<lambda>n c. 10 * n + (of_char c - 48)) 0 s)"

definition hours_of_value :: "string \<Rightarrow> rat" where
  "hours_of_value v = (let amount = float_of_digits (butlast v) in
     if last v = CHR ''h'' then amount else fl (amount * 24))"

definition calculate_target_hours :: "normalize \<Rightarrow> rat" where
  "calculate_target_hours n = (if n = RAW then 1 else hours_of_value (interval_value n))"

definition extract_hours_from_interval :: "normalize \<Rightarrow> rat res" where
  "extract_hours_from_interval n = (if n = RAW then Inl ValueError else Inr (hours_of_value (interval_value n)))"

definition calculate_normalization_multiplier :: "db \<Rightarrow> nat \<Rightarrow> normalize \<Rightarrow> rat res" where
  "calculate_normalization_multiplier d cid n =
     (if n = RAW then Inr 1
      else case find (\<lambda>c. c_id c = cid) (contracts d) of
        None \<Rightarrow> Inl ValueError
      | Some c \<Rightarrow> Inr (if c_interval c > 0 then fl (hours_of_value (interval_value n) / of_int (c_interval c)) else 1))"

text \<open>The \<open>CASE\<close> of the latest, average and wall queries.\<close>

definition sql_multiplier :: "normalize \<Rightarrow> int \<Rightarrow> rat" where
  "sql_multiplier n interval = (if n = RAW then 1
     else if interval > 0 then fl (calculate_target_hours n / of_int interval) else 1)"

section \<open>Points of one contract\<close>

text \<open>\<open>EXTRACT(EPOCH FROM t)::bigint\<close> rounds half away from zero.\<close>

definition epoch_bigint :: "utc \<Rightarrow> int" where
  "epoch_bigint t = (if 0 \<le> t then (t + 500000) div 1000000 else - ((- t + 500000) div 1000000))"

record api_point =
  ap_timestamp :: int
  ap_rate :: rat
  ap_contract :: nat

definition get_historical_points :: "db \<Rightarrow> nat \<Rightarrow> int \<Rightarrow> int \<Rightarrow> normalize \<Rightarrow> api_point list res" where
  "get_historical_points d cid from_ts to_ts n =
     rbind (calculate_normalization_multiplier d cid n) (\<lambda>m.
       Inr (map (\<lambda>p. \<lparr>ap_timestamp = epoch_bigint (p_time p), ap_rate = fl (p_rate p * m), ap_contract = p_contract p\<rparr>)
         (sort_key p_time (filter (\<lambda>p. p_contract p = cid \<and> seconds from_ts \<le> p_time p \<and> p_time p \<le> seconds to_ts)
            (historical_points d)))))"

definition get_aggregated_live_points ::
  "db \<Rightarrow> point list \<Rightarrow> nat \<Rightarrow> int \<Rightarrow> int \<Rightarrow> normalize \<Rightarrow> api_point list res" where
  "get_aggregated_live_points d smart cid from_ts to_ts n =
     rbind (calculate_normalization_multiplier d cid n) (\<lambda>m.
       Inr (map (\<lambda>p. \<lparr>ap_timestamp = epoch_bigint (p_time p), ap_rate = fl (p_rate p * m), ap_contract = p_contract p\<rparr>)
         (sort_key p_time (filter (\<lambda>p. p_contract p = cid \<and> seconds from_ts \<le> p_time p \<and> p_time p \<le> seconds to_ts)
            smart))))"

section \<open>Filters and pairs\<close>

definition process_filter_list :: "string list option \<Rightarrow> string option \<Rightarrow> bool \<Rightarrow> string list" where
  "process_filter_list filter_list compare_for_section is_section_filter =
     (let processed = (case filter_list of None \<Rightarrow> [''all'']
            | Some l \<Rightarrow> if l = [] \<or> ''all'' \<in> set l then [''all''] else l)
      in case compare_for_section of None \<Rightarrow> processed
        | Some s \<Rightarrow> if is_section_filter \<and> s \<noteq> [] \<and> ''all'' \<notin> set processed \<and> s \<notin> set processed
            then processed @ [s] else processed)"

record filters =
  f_assets :: "string list"
  f_sections :: "string list"
  f_quotes :: "string list"
  f_compare :: "string option"

definition process_filters ::
  "string list option \<Rightarrow> string list option \<Rightarrow> string list option \<Rightarrow> string option \<Rightarrow> filters" where
  "process_filters asset_names section_names quote_names compare_for_section =
     \<lparr>f_assets = process_filter_list asset_names None False,
      f_sections = process_filter_list section_names compare_for_section True,
      f_quotes = process_filter_list quote_names None False,
      f_compare = compare_for_section\<rparr>"

definition any_name :: "string list \<Rightarrow> string \<Rightarrow> bool" where
  "any_name names x \<longleftrightarrow> ''all'' \<in> set names \<or> x \<in> set names"

definition filtered_contracts :: "filters \<Rightarrow> contract_row list \<Rightarrow> contract_row list" where
  "filtered_contracts f enriched = filter (\<lambda>c. any_name (f_assets f) (c_asset c) \<and>
     any_name (f_sections f) (c_section c) \<and> any_name (f_quotes f) (c_quote c)) enriched"

definition pairing_condition :: "string option \<Rightarrow> contract_row \<Rightarrow> contract_row \<Rightarrow> bool" where
  "pairing_condition compare_for_section c1 c2 = (case compare_for_section of
     Some (ch # s) \<Rightarrow> c_section c1 = ch # s \<and> c_section c2 \<noteq> ch # s
   | _ \<Rightarrow> c_id c1 < c_id c2)"

definition contract_pairs :: "string option \<Rightarrow> contract_row list \<Rightarrow> (contract_row \<times> contract_row) list" where
  "contract_pairs compare_for_section fc = filter (\<lambda>(c1, c2). c_asset c1 = c_asset c2 \<and>
     pairing_condition compare_for_section c1 c2) (List.product fc fc)"

section \<open>Differences\<close>

record diff_row =
  d_asset :: string
  d_id1 :: nat
  d_section1 :: string
  d_quote1 :: string
  d_value1 :: rat
  d_id2 :: nat
  d_section2 :: string
  d_quote2 :: string
  d_value2 :: rat
  d_difference :: rat
  d_abs :: rat
  d_from :: int
  d_to :: int

definition mk_diff :: "contract_row \<Rightarrow> contract_row \<Rightarrow> rat \<Rightarrow> rat \<Rightarrow> int \<Rightarrow> int \<Rightarrow> diff_row" where
  "mk_diff c1 c2 v1 v2 from_ts to_ts = \<lparr>d_asset = c_asset c1, d_id1 = c_id c1, d_section1 = c_section c1,
     d_quote1 = c_quote c1, d_value1 = v1, d_id2 = c_id c2, d_section2 = c_section c2, d_quote2 = c_quote c2,
     d_value2 = v2, d_difference = fl (v1 - v2), d_abs = \<bar>fl (v1 - v2)\<bar>, d_from = from_ts, d_to = to_ts\<rparr>"

text \<open>\<open>WHERE min_diff ... ORDER BY abs_difference DESC\<close>: \<open>plan\<close> ranks the rows that tie. It belongs to the
  statement: PostgreSQL may order ties differently the next time.\<close>

definition select_diffs :: "(diff_row \<Rightarrow> nat) \<Rightarrow> rat option \<Rightarrow> diff_row list \<Rightarrow> diff_row list" where
  "select_diffs plan min_diff rows = (let m = (case min_diff of None \<Rightarrow> - 1 | Some x \<Rightarrow> x) in
     sort_key (\<lambda>r. - d_abs r) (sort_key plan (filter (\<lambda>r. m < 0 \<or> d_abs r \<ge> m) rows)))"

text \<open>\<open>COUNT(*) OVER()\<close> with \<open>LIMIT\<close> and \<open>OFFSET\<close>: the count beside each row of the page.\<close>

definition sql_page :: "nat option \<Rightarrow> nat option \<Rightarrow> 'a list \<Rightarrow> ('a \<times> nat) list" where
  "sql_page offset limit rows = (let rest = drop (case offset of None \<Rightarrow> 0 | Some k \<Rightarrow> k) rows in
     map (\<lambda>r. (r, length rows)) (case limit of None \<Rightarrow> rest | Some l \<Rightarrow> take l rest))"

record 'a page =
  pg_data :: "'a list"
  pg_total :: nat
  pg_offset :: nat
  pg_limit :: nat
  pg_has_more :: bool

definition paginate :: "('a \<times> nat) list \<Rightarrow> nat option \<Rightarrow> nat option \<Rightarrow> 'a page" where
  "paginate rows offset limit = (let total_count = (case rows of [] \<Rightarrow> 0 | (r, n) # _ \<Rightarrow> n);
       data = map fst rows; off = (case offset of None \<Rightarrow> 0 | Some k \<Rightarrow> k) in
     \<lparr>pg_data = data, pg_total = total_count, pg_offset = off,
      pg_limit = (case limit of None \<Rightarrow> length data | Some l \<Rightarrow> if l = 0 then length data else l),
      pg_has_more = off + length data < total_count\<rparr>)"

definition paginate_cumulative :: "('a \<times> nat) list \<Rightarrow> nat option \<Rightarrow> nat option \<Rightarrow> 'a page" where
  "paginate_cumulative rows offset limit = (let total_count = (case rows of [] \<Rightarrow> 0 | (r, n) # _ \<Rightarrow> n);
       data = map fst rows; off = (case offset of None \<Rightarrow> 0 | Some k \<Rightarrow> k) in
     \<lparr>pg_data = data, pg_total = total_count, pg_offset = off,
      pg_limit = (case limit of None \<Rightarrow> length data | Some l \<Rightarrow> if l = 0 then length data else l),
      pg_has_more = off + length data < total_count\<rparr>)"

lemma paginate_cumulative_same [simp]: "paginate_cumulative = paginate"
  by (intro ext) (simp add: paginate_def paginate_cumulative_def)

text \<open>\<open>last(funding_rate, timestamp)\<close> over the live points of ten minutes.\<close>

fun newest :: "point list \<Rightarrow> point option" where
  "newest [] = None"
| "newest (p # ps) = (case newest ps of None \<Rightarrow> Some p | Some q \<Rightarrow> Some (if p_time q > p_time p then q else p))"

definition recent_points :: "utc \<Rightarrow> timedelta \<Rightarrow> point list \<Rightarrow> nat \<Rightarrow> point list" where
  "recent_points now validity tbl cid = filter (\<lambda>p. p_contract p = cid \<and> now - validity \<le> p_time p) tbl"

text \<open>\<open>funding_rate * 8760.0 / funding_interval\<close>: the product first, and a zero interval is an error
  of the statement.\<close>

definition normalized_live_rate :: "normalize \<Rightarrow> int \<Rightarrow> rat \<Rightarrow> rat res" where
  "normalized_live_rate n interval r = (if n = RAW then Inr (fl (r * 1))
     else rbind (extract_hours_from_interval n) (\<lambda>h.
       if interval = 0 then Inl DBAPIError else Inr (fl (fl (r * h) / of_int interval))))"

definition contracts_with_rates ::
  "normalize \<Rightarrow> utc \<Rightarrow> point list \<Rightarrow> contract_row list \<Rightarrow> (nat, rat) dict res" where
  "contracts_with_rates n now live fc = rcollect (\<lambda>c. case newest (recent_points now (10 * us_per_minute) live (c_id c)) of
     None \<Rightarrow> Inr None
   | Some p \<Rightarrow> rbind (normalized_live_rate n (c_interval c) (p_rate p)) (\<lambda>r. Inr (Some (c_id c, r)))) fc"

definition funding_rate_rows ::
  "normalize \<Rightarrow> utc \<Rightarrow> filters \<Rightarrow> contract_row list \<Rightarrow> db \<Rightarrow> diff_row list res" where
  "funding_rate_rows n now f enriched d = (let fc = filtered_contracts f enriched in
     rbind (contracts_with_rates n now (live_points d) fc) (\<lambda>rates.
       Inr (List.map_filter (\<lambda>(c1, c2). case (map_of rates (c_id c1), map_of rates (c_id c2)) of
           (Some r1, Some r2) \<Rightarrow> Some (mk_diff c1 c2 r1 r2 0 0) | _ \<Rightarrow> None) (contract_pairs (f_compare f) fc))))"

definition get_funding_rate_differences ::
  "(diff_row \<Rightarrow> nat) \<Rightarrow> utc \<Rightarrow> contract_row list \<Rightarrow> db \<Rightarrow> filters \<Rightarrow> normalize \<Rightarrow> rat option \<Rightarrow> nat option \<Rightarrow> nat option \<Rightarrow>
   diff_row page res" where
  "get_funding_rate_differences plan now enriched d f n min_diff offset limit =
     rbind (funding_rate_rows n now f enriched d) (\<lambda>rows.
       Inr (paginate (sql_page offset limit (select_diffs plan min_diff rows)) offset limit))"

section \<open>Cumulative differences\<close>

text \<open>\<open>distinct_windows\<close>: the largest interval of each pair with the aligned ends of the period.\<close>

type_synonym window = "int \<times> utc \<times> utc"

definition max_interval :: "contract_row \<times> contract_row \<Rightarrow> int" where
  "max_interval p = max (c_interval (fst p)) (c_interval (snd p))"

definition pair_window :: "pg \<Rightarrow> utc \<Rightarrow> utc \<Rightarrow> contract_row \<times> contract_row \<Rightarrow> window" where
  "pair_window pg from_time to_time p =
     (max_interval p, pg_bucket pg (max_interval p) from_time, pg_bucket pg (max_interval p) to_time)"

definition distinct_windows ::
  "pg \<Rightarrow> utc \<Rightarrow> utc \<Rightarrow> (contract_row \<times> contract_row) list \<Rightarrow> window list" where
  "distinct_windows pg from_time to_time pairs = remdups (map (pair_window pg from_time to_time) pairs)"

definition window_rates :: "int \<Rightarrow> point list \<Rightarrow> nat \<Rightarrow> utc \<Rightarrow> utc \<Rightarrow> rat list" where
  "window_rates buffer_minutes tbl cid aligned_from aligned_to = map p_rate (filter (\<lambda>p. p_contract p = cid \<and>
     aligned_from - buffer_minutes * us_per_minute \<le> p_time p \<and> p_time p < aligned_to) tbl)"

text \<open>\<open>funding_in_window\<close> joins every window with the points inside it and groups by the ends of the
  window and the contract; a contract without a group has total 0.\<close>

definition funding_in_window ::
  "pg \<Rightarrow> int \<Rightarrow> point list \<Rightarrow> window list \<Rightarrow> nat \<Rightarrow> utc \<Rightarrow> utc \<Rightarrow> rat" where
  "funding_in_window pg buffer_minutes tbl windows cid aligned_from aligned_to =
     (let rs = concat (map (\<lambda>(h, a, b). window_rates buffer_minutes tbl cid a b)
                 (filter (\<lambda>(h, a, b). a = aligned_from \<and> b = aligned_to) windows))
      in if rs = [] then 0 else pg_sum pg rs)"

definition cumulative_rows ::
  "pg \<Rightarrow> utc \<Rightarrow> utc \<Rightarrow> int \<Rightarrow> filters \<Rightarrow> contract_row list \<Rightarrow> db \<Rightarrow> diff_row list res" where
  "cumulative_rows pg from_time to_time buffer_minutes f enriched d =
     (let pairs = contract_pairs (f_compare f) (filtered_contracts f enriched);
          windows = distinct_windows pg from_time to_time pairs;
          total = funding_in_window pg buffer_minutes (historical_points d) windows in
      if list_ex (\<lambda>p. max_interval p \<le> 0) pairs then Inl DBAPIError
      else Inr (map (\<lambda>p. case pair_window pg from_time to_time p of (h, a, b) \<Rightarrow>
             mk_diff (fst p) (snd p) (total (c_id (fst p)) a b) (total (c_id (snd p)) a b)
               (epoch_bigint a) (epoch_bigint b)) pairs))"

definition get_cumulative_funding_differences ::
  "pg \<Rightarrow> (diff_row \<Rightarrow> nat) \<Rightarrow> contract_row list \<Rightarrow> db \<Rightarrow> int \<Rightarrow> int \<Rightarrow> filters \<Rightarrow> rat option \<Rightarrow> int \<Rightarrow>
   nat option \<Rightarrow> nat option \<Rightarrow> diff_row page res" where
  "get_cumulative_funding_differences pg plan enriched d from_ts to_ts f min_diff buffer_minutes offset limit =
     rbind (from_unix_seconds (of_int from_ts)) (\<lambda>from_time. rbind (from_unix_seconds (of_int to_ts)) (\<lambda>to_time.
     rbind (cumulative_rows pg from_time to_time buffer_minutes f enriched d) (\<lambda>rows.
       Inr (paginate_cumulative (sql_page offset limit (select_diffs plan min_diff rows)) offset limit))))"

section \<open>Average differences\<close>

text \<open>\<open>normalized_avg_rate\<close> of a contract with points in the period, 0 for the others.\<close>

definition normalized_avg_rate :: "pg \<Rightarrow> normalize \<Rightarrow> point list \<Rightarrow> utc \<Rightarrow> utc \<Rightarrow> contract_row \<Rightarrow> rat" where
  "normalized_avg_rate pg n tbl start_date end_date c =
     (let rs = map p_rate (filter (\<lambda>p. p_contract p = c_id c \<and> start_date \<le> p_time p \<and> p_time p \<le> end_date) tbl)
      in if rs = [] then 0 else fl (pg_avg pg rs *
        (if c_interval c > 0 then fl (calculate_target_hours n / of_int (c_interval c)) else 1)))"

definition avg_difference_rows ::
  "pg \<Rightarrow> normalize \<Rightarrow> filters \<Rightarrow> contract_row list \<Rightarrow> point list \<Rightarrow> utc \<Rightarrow> utc \<Rightarrow> int \<Rightarrow> int \<Rightarrow> diff_row list" where
  "avg_difference_rows pg n f enriched tbl start_date end_date from_ts to_ts =
     (let avg = normalized_avg_rate pg n tbl start_date end_date in
      map (\<lambda>(c1, c2). mk_diff c1 c2 (avg c1) (avg c2) from_ts to_ts)
        (contract_pairs (f_compare f) (filtered_contracts f enriched)))"

definition get_historical_funding_differences_avg ::
  "pg \<Rightarrow> (diff_row \<Rightarrow> nat) \<Rightarrow> contract_row list \<Rightarrow> db \<Rightarrow> int \<Rightarrow> int \<Rightarrow> normalize \<Rightarrow> filters \<Rightarrow> rat option \<Rightarrow>
   nat option \<Rightarrow> nat option \<Rightarrow> diff_row page res" where
  "get_historical_funding_differences_avg pg plan enriched d from_ts to_ts n f min_diff offset limit =
     (if n = RAW then Inl ValueError
      else rbind (from_unix_seconds (of_int from_ts)) (\<lambda>start_date. rbind (from_unix_seconds (of_int to_ts)) (\<lambda>end_date.
       Inr (paginate_cumulative (sql_page offset limit (select_diffs plan min_diff
         (avg_difference_rows pg n f enriched (historical_points d) start_date end_date from_ts to_ts))) offset limit))))"

section \<open>The funding wall\<close>

record wall_row =
  wr_asset :: string
  wr_rank :: "int option"
  wr_section :: string
  wr_rate :: rat
  wr_timestamp :: int

record wall_asset =
  wa_asset :: string
  wa_rank :: "int option"
  wa_rates :: "(string, rat option) dict"

record wall =
  w_timestamp :: int
  w_assets :: "wall_asset list"
  w_exchanges :: "string list"

text \<open>The Python part of the four wall queries: one entry per asset, a later row of the same section
  overwriting an earlier one, and \<open>None\<close> for the sections without a row.\<close>

definition add_wall_row :: "(string, wall_asset) dict \<Rightarrow> wall_row \<Rightarrow> (string, wall_asset) dict" where
  "add_wall_row asset_data r = (let e = (case map_of asset_data (wr_asset r) of
        None \<Rightarrow> \<lparr>wa_asset = wr_asset r, wa_rank = wr_rank r, wa_rates = []\<rparr> | Some e \<Rightarrow> e)
     in AList.update (wr_asset r) (e\<lparr>wa_rates := AList.update (wr_section r) (Some (wr_rate r)) (wa_rates e)\<rparr>) asset_data)"

definition fill_missing :: "string list \<Rightarrow> wall_asset \<Rightarrow> wall_asset" where
  "fill_missing section_names e = e\<lparr>wa_rates := foldl (\<lambda>rs s. if map_of rs s = None then AList.update s None rs else rs)
     (wa_rates e) section_names\<rparr>"

definition wall_response :: "string list \<Rightarrow> int \<Rightarrow> wall_row list \<Rightarrow> wall" where
  "wall_response section_names ts rows = \<lparr>w_timestamp = ts,
     w_assets = map (fill_missing section_names \<circ> snd) (foldl add_wall_row [] rows), w_exchanges = section_names\<rparr>"

text \<open>The contracts a wall shows, ordered by asset and section, with the row of their asset.\<close>

definition wall_contracts :: "db \<Rightarrow> string list \<Rightarrow> string list \<Rightarrow> (contract_row \<times> asset_row) list" where
  "wall_contracts d asset_names section_names =
     filter (\<lambda>(c, a). \<not> c_deprecated c \<and> a_name a = c_asset c \<and> c_asset c \<in> set asset_names \<and>
       c_section c \<in> set section_names) (List.product (contracts d) (assets d))"

definition wall_key :: "contract_row \<times> asset_row \<Rightarrow> string \<times> string" where
  "wall_key ca = (c_asset (fst ca), c_section (fst ca))"

definition wall_keys :: "(contract_row \<times> asset_row) list \<Rightarrow> (string \<times> string) list" where
  "wall_keys cs = sort_key fst (sort_key snd (remdups (map wall_key cs)))"

text \<open>\<open>DISTINCT ON (asset_name, section_name) ... ORDER BY ..., timestamp DESC\<close>: the newest recent point
  of a cell, whatever the quote of its contract; \<open>plan\<close> ranks points of one time.\<close>

definition wall_live_cell ::
  "(point \<Rightarrow> nat) \<Rightarrow> utc \<Rightarrow> point list \<Rightarrow> (contract_row \<times> asset_row) list \<Rightarrow> (contract_row \<times> asset_row \<times> point) option" where
  "wall_live_cell plan now live cell =
     (case newest (sort_key plan (concat (map (\<lambda>(c, a). recent_points now (10 * us_per_minute) live (c_id c)) cell))) of
        None \<Rightarrow> None
      | Some p \<Rightarrow> map_option (\<lambda>(c, a). (c, a, p)) (find (\<lambda>(c, a). c_id c = p_contract p) cell))"

definition wall_live_cells ::
  "(point \<Rightarrow> nat) \<Rightarrow> utc \<Rightarrow> db \<Rightarrow> string list \<Rightarrow> string list \<Rightarrow> (contract_row \<times> asset_row \<times> point) list" where
  "wall_live_cells plan now d asset_names section_names =
     (let cs = wall_contracts d asset_names section_names in
      List.map_filter (\<lambda>k. wall_live_cell plan now (live_points d) (filter (\<lambda>ca. wall_key ca = k) cs)) (wall_keys cs))"

definition wall_live_rows :: "(int \<Rightarrow> rat \<Rightarrow> rat) \<Rightarrow> (contract_row \<times> asset_row \<times> point) list \<Rightarrow> wall_row list" where
  "wall_live_rows rate_of cells = map (\<lambda>(c, a, p). \<lparr>wr_asset = c_asset c, wr_rank = a_rank a, wr_section = c_section c,
     wr_rate = rate_of (c_interval c) (p_rate p),
     wr_timestamp = epoch_bigint (Max (set (map (\<lambda>(_, _, p). p_time p) cells)))\<rparr>) cells"

definition live_wall :: "utc \<Rightarrow> string list \<Rightarrow> wall_row list \<Rightarrow> wall" where
  "live_wall utc_now section_names rows = (case rows of
     [] \<Rightarrow> \<lparr>w_timestamp = to_unix_seconds utc_now, w_assets = [], w_exchanges = section_names\<rparr>
   | r # _ \<Rightarrow> wall_response section_names (wr_timestamp r) rows)"

definition get_funding_wall_live_raw ::
  "(point \<Rightarrow> nat) \<Rightarrow> utc \<Rightarrow> db \<Rightarrow> string list \<Rightarrow> string list \<Rightarrow> wall" where
  "get_funding_wall_live_raw plan now d asset_names section_names =
     live_wall now section_names (wall_live_rows (\<lambda>_ r. r) (wall_live_cells plan now d asset_names section_names))"

definition get_funding_wall_live_normalized ::
  "(point \<Rightarrow> nat) \<Rightarrow> utc \<Rightarrow> db \<Rightarrow> string list \<Rightarrow> string list \<Rightarrow> normalize \<Rightarrow> wall" where
  "get_funding_wall_live_normalized plan now d asset_names section_names n =
     live_wall now section_names (wall_live_rows (\<lambda>i r. fl (r * sql_multiplier n i))
       (wall_live_cells plan now d asset_names section_names))"

text \<open>The historical walls group the settled points of a period: the raw one by asset and section, the
  normalized one also by interval (\<open>plan\<close> ranks the intervals of a cell).\<close>

definition period_rates :: "point list \<Rightarrow> utc \<Rightarrow> utc \<Rightarrow> (contract_row \<times> asset_row) list \<Rightarrow> rat list" where
  "period_rates tbl start_date end_date cell = concat (map (\<lambda>(c, a). map p_rate (filter (\<lambda>p. p_contract p = c_id c \<and>
     start_date \<le> p_time p \<and> p_time p \<le> end_date) tbl)) cell)"

definition wall_group_row :: "point list \<Rightarrow> utc \<Rightarrow> utc \<Rightarrow> int \<Rightarrow> (rat list \<Rightarrow> rat) \<Rightarrow> (contract_row \<times> asset_row) list \<Rightarrow> wall_row option" where
  "wall_group_row tbl start_date end_date to_ts agg cell = (case cell of [] \<Rightarrow> None
     | ca # _ \<Rightarrow> (let rs = period_rates tbl start_date end_date cell in if rs = [] then None
         else Some \<lparr>wr_asset = c_asset (fst ca), wr_rank = a_rank (snd ca), wr_section = c_section (fst ca),
           wr_rate = agg rs, wr_timestamp = to_ts\<rparr>))"

definition get_funding_wall_historical_raw ::
  "pg \<Rightarrow> db \<Rightarrow> string list \<Rightarrow> string list \<Rightarrow> int \<Rightarrow> int \<Rightarrow> wall res" where
  "get_funding_wall_historical_raw pg d asset_names section_names from_ts to_ts =
     rbind (from_unix_seconds (of_int from_ts)) (\<lambda>start_date. rbind (from_unix_seconds (of_int to_ts)) (\<lambda>end_date.
       let cs = wall_contracts d asset_names section_names;
           rows = List.map_filter (\<lambda>k. wall_group_row (historical_points d) start_date end_date to_ts (pg_sum pg)
             (filter (\<lambda>ca. wall_key ca = k) cs)) (wall_keys cs)
       in Inr (wall_response section_names to_ts rows)))"

definition wall_normalized_rows ::
  "pg \<Rightarrow> (int \<Rightarrow> nat) \<Rightarrow> point list \<Rightarrow> utc \<Rightarrow> utc \<Rightarrow> int \<Rightarrow> normalize \<Rightarrow> (contract_row \<times> asset_row) list \<Rightarrow> wall_row list" where
  "wall_normalized_rows pg plan tbl start_date end_date to_ts n cs =
     concat (map (\<lambda>k. let cell = filter (\<lambda>ca. wall_key ca = k) cs in
       List.map_filter (\<lambda>i. wall_group_row tbl start_date end_date to_ts
           (\<lambda>rs. fl (pg_avg pg rs * sql_multiplier n i)) (filter (\<lambda>ca. c_interval (fst ca) = i) cell))
         (sort_key plan (remdups (map (c_interval \<circ> fst) cell)))) (wall_keys cs))"

definition get_funding_wall_historical_normalized ::
  "pg \<Rightarrow> (int \<Rightarrow> nat) \<Rightarrow> db \<Rightarrow> string list \<Rightarrow> string list \<Rightarrow> int \<Rightarrow> int \<Rightarrow> normalize \<Rightarrow> wall res" where
  "get_funding_wall_historical_normalized pg plan d asset_names section_names from_ts to_ts n =
     rbind (from_unix_seconds (of_int from_ts)) (\<lambda>start_date. rbind (from_unix_seconds (of_int to_ts)) (\<lambda>end_date.
       let cs = wall_contracts d asset_names section_names;
           rows = wall_normalized_rows pg plan (historical_points d) start_date end_date to_ts n cs
       in Inr (wall_response section_names to_ts rows)))"

section \<open>The latest rate per contract\<close>

record latest_point =
  lp_contract :: nat
  lp_asset :: string
  lp_section :: string
  lp_quote :: string
  lp_interval :: int
  lp_rate :: "rat option"
  lp_timestamp :: "int option"

text \<open>\<open>_slice_params\<close>: an empty or missing list means all.\<close>

definition slice_params :: "string list option \<Rightarrow> string list option \<Rightarrow> string list option \<Rightarrow> filters" where
  "slice_params asset_names section_names quote_names = (let all = (\<lambda>l. case l of Some (x # xs) \<Rightarrow> x # xs | _ \<Rightarrow> [''all'']) in
     \<lparr>f_assets = all asset_names, f_sections = all section_names, f_quotes = all quote_names, f_compare = None\<rparr>)"

definition latest_of :: "normalize \<Rightarrow> utc \<Rightarrow> timedelta \<Rightarrow> point list \<Rightarrow> contract_row \<Rightarrow> latest_point" where
  "latest_of n now validity source c = (let p = newest (recent_points now validity source (c_id c)) in
     \<lparr>lp_contract = c_id c, lp_asset = c_asset c, lp_section = c_section c, lp_quote = c_quote c, lp_interval = c_interval c,
      lp_rate = map_option (\<lambda>p. fl (p_rate p * sql_multiplier n (c_interval c))) p,
      lp_timestamp = map_option (\<lambda>p. epoch_bigint (p_time p)) p\<rparr>)"

definition get_latest :: "normalize \<Rightarrow> utc \<Rightarrow> timedelta \<Rightarrow> point list \<Rightarrow> filters \<Rightarrow> contract_row list \<Rightarrow> latest_point list" where
  "get_latest n now validity source f enriched =
     map (latest_of n now validity source) (sort_key c_id (filtered_contracts f enriched))"

definition get_live_latest ::
  "utc \<Rightarrow> contract_row list \<Rightarrow> db \<Rightarrow> string list option \<Rightarrow> string list option \<Rightarrow> string list option \<Rightarrow> normalize \<Rightarrow> latest_point list" where
  "get_live_latest now enriched d asset_names section_names quote_names n =
     get_latest n now (10 * us_per_minute) (live_points d) (slice_params asset_names section_names quote_names) enriched"

definition get_historical_latest ::
  "utc \<Rightarrow> contract_row list \<Rightarrow> db \<Rightarrow> string list option \<Rightarrow> string list option \<Rightarrow> string list option \<Rightarrow> normalize \<Rightarrow> latest_point list" where
  "get_historical_latest now enriched d asset_names section_names quote_names n =
     get_latest n now (days 30) (historical_points d) (slice_params asset_names section_names quote_names) enriched"

section \<open>Windows of days\<close>

record window_entry =
  we_days :: int
  we_rate :: "rat option"
  we_points :: nat
  we_expected :: int
  we_oldest :: "int option"

record contract_windows =
  cw_contract :: nat
  cw_asset :: string
  cw_section :: string
  cw_quote :: string
  cw_interval :: int
  cw_windows :: "window_entry list"

text \<open>The points of a contract in the pool and in a window; a window listed twice counts them twice.\<close>

definition day_window :: "utc \<Rightarrow> int list \<Rightarrow> point list \<Rightarrow> nat \<Rightarrow> int \<Rightarrow> point list" where
  "day_window now windows_days tbl cid n = concat (replicate (count_list windows_days n) (filter (\<lambda>p. p_contract p = cid \<and>
     now - days (Max (set windows_days)) \<le> p_time p \<and> now - days n \<le> p_time p) tbl))"

definition expected_count :: "int \<Rightarrow> int \<Rightarrow> int" where
  "expected_count n interval = \<lceil>24 * of_int n / of_int interval :: rat\<rceil>"

definition oldest_timestamp :: "point list \<Rightarrow> int option" where
  "oldest_timestamp ps = (if ps = [] then None else Some (epoch_bigint (Min (set (map p_time ps)))))"

text \<open>A row of the statement; \<open>NULLIF(funding_interval, 0)\<close> makes the expected count \<open>NULL\<close>, which the
  response model rejects.\<close>

definition avg_window :: "pg \<Rightarrow> normalize \<Rightarrow> contract_row \<Rightarrow> int \<Rightarrow> point list \<Rightarrow> window_entry res" where
  "avg_window pg n c w ps = (if c_interval c = 0 then Inl ValueError else Inr \<lparr>we_days = w,
     we_rate = (if ps = [] then None else Some (fl (pg_avg pg (map p_rate ps) * sql_multiplier n (c_interval c)))),
     we_points = length ps, we_expected = expected_count w (c_interval c), we_oldest = oldest_timestamp ps\<rparr>)"

definition sum_window :: "pg \<Rightarrow> contract_row \<Rightarrow> int \<Rightarrow> point list \<Rightarrow> window_entry res" where
  "sum_window pg c w ps = (if c_interval c = 0 then Inl ValueError else Inr \<lparr>we_days = w,
     we_rate = (if ps \<noteq> [] \<and> of_nat (length ps) \<ge> (of_int (expected_count w (c_interval c)) * (98 / 100) :: rat)
       then Some (pg_sum pg (map p_rate ps)) else None),
     we_points = length ps, we_expected = expected_count w (c_interval c), we_oldest = oldest_timestamp ps\<rparr>)"

definition window_rows ::
  "(contract_row \<Rightarrow> int \<Rightarrow> point list \<Rightarrow> window_entry res) \<Rightarrow> utc \<Rightarrow> point list \<Rightarrow> int list \<Rightarrow> contract_row list \<Rightarrow>
   (contract_row \<times> window_entry) list res" where
  "window_rows entry now tbl windows_days fc = rmap (\<lambda>(c, w). rbind (entry c w (day_window now windows_days tbl (c_id c) w))
     (\<lambda>e. Inr (c, e))) (List.product (sort_key c_asset (sort_key c_section (sort_key c_quote fc))) (sort (remdups windows_days)))"

text \<open>The Python loop: rows are collected per contract in the order of first appearance.\<close>

definition add_window :: "(nat, contract_windows) dict \<Rightarrow> contract_row \<times> window_entry \<Rightarrow> (nat, contract_windows) dict" where
  "add_window entries cw = (case cw of (c, w) \<Rightarrow> let e = (case map_of entries (c_id c) of
       None \<Rightarrow> \<lparr>cw_contract = c_id c, cw_asset = c_asset c, cw_section = c_section c, cw_quote = c_quote c,
         cw_interval = c_interval c, cw_windows = []\<rparr> | Some e \<Rightarrow> e)
     in AList.update (c_id c) (e\<lparr>cw_windows := cw_windows e @ [w]\<rparr>) entries)"

definition get_windows ::
  "(contract_row \<Rightarrow> int \<Rightarrow> point list \<Rightarrow> window_entry res) \<Rightarrow> utc \<Rightarrow> contract_row list \<Rightarrow> db \<Rightarrow> filters \<Rightarrow> int list \<Rightarrow>
   contract_windows list res" where
  "get_windows entry now enriched d f windows_days = (if windows_days = [] then Inl ValueError
     else rbind (window_rows entry now (historical_points d) windows_days (filtered_contracts f enriched)) (\<lambda>rows.
       Inr (map snd (foldl add_window [] rows))))"

definition get_historical_avg ::
  "pg \<Rightarrow> utc \<Rightarrow> contract_row list \<Rightarrow> db \<Rightarrow> string list option \<Rightarrow> string list option \<Rightarrow> string list option \<Rightarrow> int list \<Rightarrow>
   normalize \<Rightarrow> contract_windows list res" where
  "get_historical_avg pg now enriched d asset_names section_names quote_names windows_days n =
     get_windows (avg_window pg n) now enriched d (slice_params asset_names section_names quote_names) windows_days"

definition get_historical_sums ::
  "pg \<Rightarrow> utc \<Rightarrow> contract_row list \<Rightarrow> db \<Rightarrow> string list option \<Rightarrow> string list option \<Rightarrow> string list option \<Rightarrow> int list \<Rightarrow>
   contract_windows list res" where
  "get_historical_sums pg now enriched d asset_names section_names quote_names windows_days =
     get_windows (sum_window pg) now enriched d (slice_params asset_names section_names quote_names) windows_days"

end
