(* ===== verification/Api.thy ===== *)
theory Api
  imports ApiQueries "HOL-Library.Multiset"
begin

text \<open>
  The endpoints of the read API: \<open>api/api/v0/funding_data.py\<close> with its validation dependencies,
  \<open>api/api/v0/meta.py\<close> and \<open>api/queries/meta.py\<close>. A response is a value or an error: an HTTP status
  the code or FastAPI's parameter validation raises, or an exception that escapes the handler
  (status 500). FastAPI runs the dependencies first and then checks the endpoint's own parameters.
\<close>

datatype api_error = Http int string | Escaped pyexc

type_synonym 'a response = "api_error + 'a"

definition respond :: "'a res \<Rightarrow> 'a response" where
  "respond r = (case r of Inl e \<Rightarrow> Inl (Escaped e) | Inr v \<Rightarrow> Inr v)"

definition abind :: "'a response \<Rightarrow> ('a \<Rightarrow> 'b response) \<Rightarrow> 'b response" where
  "abind m f = (case m of Inl e \<Rightarrow> Inl e | Inr x \<Rightarrow> f x)"

lemma abind_simps [simp]: "abind (Inl e) f = Inl e" "abind (Inr x) f = f x"
  by (simp_all add: abind_def)

lemma respond_simps [simp]: "respond (Inl e) = Inl (Escaped e)" "respond (Inr x) = Inr x"
  by (simp_all add: respond_def)

section \<open>Dependencies\<close>

definition validate_time_range :: "utc \<Rightarrow> int \<Rightarrow> int \<Rightarrow> (int \<times> int) response" where
  "validate_time_range now from_ts to_ts =
     (let now_ts = to_unix_seconds now; one_year_ago_ts = to_unix_seconds (now - days 365) in
      if from_ts < one_year_ago_ts then Inl (Http 400 ''from_ts cannot be older than 1 year'')
      else if from_ts \<ge> to_ts then Inl (Http 400 ''from_ts must be less than to_ts'')
      else if to_ts > now_ts then Inl (Http 400 ''to_ts cannot be in the future'')
      else Inr (from_ts, to_ts))"

definition validate_optional_time_range ::
  "utc \<Rightarrow> int option \<Rightarrow> int option \<Rightarrow> (int option \<times> int option) response" where
  "validate_optional_time_range now from_ts to_ts = (case (from_ts, to_ts) of
     (None, None) \<Rightarrow> Inr (None, None)
   | (Some f, Some t) \<Rightarrow> abind (validate_time_range now f t) (\<lambda>_. Inr (from_ts, to_ts))
   | _ \<Rightarrow> Inl (Http 400 ''Both from_ts and to_ts must be provided together''))"

type_synonym contract_slice = "string list option \<times> string list option \<times> string list option"

definition no_names :: "string list option \<Rightarrow> bool" where
  "no_names l \<longleftrightarrow> l = None \<or> l = Some []"

definition require_contract_slice ::
  "string list option \<Rightarrow> string list option \<Rightarrow> string list option \<Rightarrow> contract_slice response" where
  "require_contract_slice asset_names section_names quote_names =
     (if no_names asset_names \<and> no_names section_names
      then Inl (Http 400 ''at least one of asset_names or section_names must be non-empty'')
      else Inr (asset_names, section_names, quote_names))"

fun check_windows :: "int list \<Rightarrow> unit response" where
  "check_windows [] = Inr ()"
| "check_windows (n # ns) =
     (if n \<le> 0 then Inl (Http 400 ''each window must be a positive integer number of days'')
      else if n > 365 then Inl (Http 400 ''window cannot exceed 365 days'')
      else check_windows ns)"

definition validate_windows :: "int list \<Rightarrow> int list response" where
  "validate_windows windows = (if windows = [] then Inl (Http 400 ''windows must be non-empty'')
     else abind (check_windows windows) (\<lambda>_. Inr (sort (remdups windows))))"

text \<open>\<open>WindowsValidated\<close>: the parameter has no default, so FastAPI answers 422 itself when no window is given
  and does not call \<open>validate_windows\<close>.\<close>

definition windows_param :: "int list \<Rightarrow> int list response" where
  "windows_param windows = (if windows = [] then Inl (Http 422 ''validation'') else validate_windows windows)"

text \<open>\<open>Query(ge=0)\<close>, \<open>Query(0, ge=0)\<close> and \<open>Query(20, ge=1, le=100)\<close>.\<close>

definition check_page_params :: "rat option \<Rightarrow> int \<Rightarrow> int \<Rightarrow> unit response" where
  "check_page_params min_diff offset limit =
     (if (case min_diff of None \<Rightarrow> False | Some x \<Rightarrow> x < 0) \<or> offset < 0 \<or> limit < 1 \<or> 100 < limit
      then Inl (Http 422 ''validation'') else Inr ())"

section \<open>Endpoints\<close>

definition historical_points_endpoint :: "utc \<Rightarrow> db \<Rightarrow> nat \<Rightarrow> int \<Rightarrow> int \<Rightarrow> normalize \<Rightarrow> api_point list response" where
  "historical_points_endpoint now d cid from_ts to_ts n =
     abind (validate_time_range now from_ts to_ts) (\<lambda>(f, t). respond (get_historical_points d cid f t n))"

definition live_points_endpoint :: "utc \<Rightarrow> db \<Rightarrow> point list \<Rightarrow> nat \<Rightarrow> int \<Rightarrow> int \<Rightarrow> normalize \<Rightarrow> api_point list response" where
  "live_points_endpoint now d smart cid from_ts to_ts n =
     abind (validate_time_range now from_ts to_ts) (\<lambda>(f, t). respond (get_aggregated_live_points d smart cid f t n))"

definition historical_sums_endpoint ::
  "pg \<Rightarrow> utc \<Rightarrow> contract_row list \<Rightarrow> db \<Rightarrow> contract_slice \<Rightarrow> int list \<Rightarrow> contract_windows list response" where
  "historical_sums_endpoint pg now enriched d sl windows = (case sl of (a, s, q) \<Rightarrow>
     abind (require_contract_slice a s q) (\<lambda>(a, s, q). abind (windows_param windows) (\<lambda>ws.
       respond (get_historical_sums pg now enriched d a s q ws))))"

definition historical_avg_endpoint ::
  "pg \<Rightarrow> utc \<Rightarrow> contract_row list \<Rightarrow> db \<Rightarrow> contract_slice \<Rightarrow> int list \<Rightarrow> normalize \<Rightarrow> contract_windows list response" where
  "historical_avg_endpoint pg now enriched d sl windows n = (case sl of (a, s, q) \<Rightarrow>
     abind (require_contract_slice a s q) (\<lambda>(a, s, q). abind (windows_param windows) (\<lambda>ws.
       respond (get_historical_avg pg now enriched d a s q ws n))))"

definition live_latest_endpoint ::
  "utc \<Rightarrow> contract_row list \<Rightarrow> db \<Rightarrow> contract_slice \<Rightarrow> normalize \<Rightarrow> latest_point list response" where
  "live_latest_endpoint now enriched d sl n = (case sl of (a, s, q) \<Rightarrow>
     abind (require_contract_slice a s q) (\<lambda>(a, s, q). Inr (get_live_latest now enriched d a s q n)))"

definition historical_latest_endpoint ::
  "utc \<Rightarrow> contract_row list \<Rightarrow> db \<Rightarrow> contract_slice \<Rightarrow> normalize \<Rightarrow> latest_point list response" where
  "historical_latest_endpoint now enriched d sl n = (case sl of (a, s, q) \<Rightarrow>
     abind (require_contract_slice a s q) (\<lambda>(a, s, q). Inr (get_historical_latest now enriched d a s q n)))"

record diff_request =
  q_assets :: "string list option"
  q_sections :: "string list option"
  q_quotes :: "string list option"
  q_compare :: "string option"
  q_min_diff :: "rat option"
  q_offset :: int
  q_limit :: int

definition request_filters :: "diff_request \<Rightarrow> filters" where
  "request_filters q = process_filters (q_assets q) (q_sections q) (q_quotes q) (q_compare q)"

definition funding_rate_differences ::
  "(diff_row \<Rightarrow> nat) \<Rightarrow> utc \<Rightarrow> contract_row list \<Rightarrow> db \<Rightarrow> normalize \<Rightarrow> diff_request \<Rightarrow> diff_row page response" where
  "funding_rate_differences plan now enriched d n q =
     abind (check_page_params (q_min_diff q) (q_offset q) (q_limit q)) (\<lambda>_.
       respond (get_funding_rate_differences plan now enriched d (request_filters q) n (q_min_diff q)
         (Some (nat (q_offset q))) (Some (nat (q_limit q)))))"

definition historical_cumulative_differences ::
  "pg \<Rightarrow> (diff_row \<Rightarrow> nat) \<Rightarrow> utc \<Rightarrow> contract_row list \<Rightarrow> db \<Rightarrow> int \<Rightarrow> int \<Rightarrow> int \<Rightarrow> diff_request \<Rightarrow> diff_row page response" where
  "historical_cumulative_differences pg plan now enriched d from_ts to_ts buffer_minutes q =
     abind (validate_time_range now from_ts to_ts) (\<lambda>(f, t).
     abind (check_page_params (q_min_diff q) (q_offset q) (q_limit q)) (\<lambda>_.
       respond (get_cumulative_funding_differences pg plan enriched d f t (request_filters q) (q_min_diff q) buffer_minutes
         (Some (nat (q_offset q))) (Some (nat (q_limit q))))))"

definition historical_funding_differences ::
  "pg \<Rightarrow> (diff_row \<Rightarrow> nat) \<Rightarrow> utc \<Rightarrow> contract_row list \<Rightarrow> db \<Rightarrow> int \<Rightarrow> int \<Rightarrow> normalize \<Rightarrow> int \<Rightarrow> diff_request \<Rightarrow>
   diff_row page response" where
  "historical_funding_differences pg plan now enriched d from_ts to_ts n buffer_minutes q =
     abind (validate_time_range now from_ts to_ts) (\<lambda>(f, t).
     abind (check_page_params (q_min_diff q) (q_offset q) (q_limit q)) (\<lambda>_.
       if n = RAW then respond (get_cumulative_funding_differences pg plan enriched d f t (request_filters q) (q_min_diff q)
         buffer_minutes (Some (nat (q_offset q))) (Some (nat (q_limit q))))
       else respond (get_historical_funding_differences_avg pg plan enriched d f t n (request_filters q) (q_min_diff q)
         (Some (nat (q_offset q))) (Some (nat (q_limit q))))))"

datatype period = Live | Historical

definition funding_wall ::
  "pg \<Rightarrow> (point \<Rightarrow> nat) \<Rightarrow> (int \<Rightarrow> nat) \<Rightarrow> utc \<Rightarrow> db \<Rightarrow> int option \<Rightarrow> int option \<Rightarrow> period \<Rightarrow> string list \<Rightarrow> string list \<Rightarrow>
   normalize \<Rightarrow> wall response" where
  "funding_wall pg point_plan interval_plan now d from_ts to_ts period asset_names exchanges n =
     abind (validate_optional_time_range now from_ts to_ts) (\<lambda>(from_ts, to_ts).
       case period of
         Live \<Rightarrow> if n = RAW then Inr (get_funding_wall_live_raw point_plan now d asset_names exchanges)
           else Inr (get_funding_wall_live_normalized point_plan now d asset_names exchanges n)
       | Historical \<Rightarrow> (case (from_ts, to_ts) of
           (Some f, Some t) \<Rightarrow>
             if f = 0 \<or> t = 0 then Inl (Http 400 ''from_ts and to_ts are required for historical period'')
             else if n = RAW then respond (get_funding_wall_historical_raw pg d asset_names exchanges f t)
             else respond (get_funding_wall_historical_normalized pg interval_plan d asset_names exchanges f t n)
         | _ \<Rightarrow> Inl (Http 400 ''from_ts and to_ts are required for historical period'')))"

section \<open>Meta data\<close>

text \<open>\<open>plan\<close> ranks the assets of one rank.\<close>

definition get_all_assets :: "(asset_row \<Rightarrow> nat) \<Rightarrow> db \<Rightarrow> string list" where
  "get_all_assets plan d = (let contract_asset_names = remdups (map c_asset (contracts d));
       ranked = sort_key (\<lambda>a. case a_rank a of None \<Rightarrow> 0 | Some r \<Rightarrow> r) (sort_key plan (filter (\<lambda>a. a_rank a \<noteq> None)
         (filter (\<lambda>a. a_name a \<in> set contract_asset_names) (assets d))));
       sorted_asset_names = map a_name ranked
     in sorted_asset_names @ sort (filter (\<lambda>x. x \<notin> set sorted_asset_names) contract_asset_names))"

definition get_all_sections :: "db \<Rightarrow> string list" where
  "get_all_sections d = sort (map s_name (sections d))"

definition get_all_quotes :: "db \<Rightarrow> string list" where
  "get_all_quotes d = sort (quotes d)"

definition get_contract_by_id :: "db \<Rightarrow> nat \<Rightarrow> contract_row option" where
  "get_contract_by_id d cid = find (\<lambda>c. c_id c = cid) (contracts d)"

definition get_contract_meta :: "db \<Rightarrow> nat \<Rightarrow> contract_row response" where
  "get_contract_meta d cid = (case get_contract_by_id d cid of
     None \<Rightarrow> Inl (Http 404 ''Contract not found'') | Some c \<Rightarrow> Inr c)"


section \<open>Lemmas: pages\<close>

lemma paginate_sql_page:
  assumes "0 < L"
  shows "paginate (sql_page (Some k) (Some L) rows) (Some k) (Some L) =
    \<lparr>pg_data = take L (drop k rows), pg_total = (if k < length rows then length rows else 0), pg_offset = k, pg_limit = L,
     pg_has_more = k + L < length rows\<rparr>"
proof (cases "take L (drop k rows)")
  case Nil
  then have "length rows \<le> k" using assms by simp
  then show ?thesis using Nil assms by (simp add: paginate_def sql_page_def Let_def)
next
  case (Cons r rs)
  then have k: "k < length rows" by (cases "k < length rows") auto
  have "length (take L (drop k rows)) = min L (length rows - k)" by (simp add: min.commute)
  then show ?thesis using Cons assms k
    by (auto simp: paginate_def sql_page_def Let_def comp_def)
qed

lemma concat_pages: "concat (map (\<lambda>k. take L (drop (k * L) rows)) [0..<K]) = take (K * L) rows"
proof (induction K)
  case (Suc K)
  have "take (Suc K * L) rows = take (K * L) rows @ take L (drop (K * L) rows)"
    using take_add [of "K * L" L rows] by (simp add: add.commute)
  then show ?case using Suc by simp
qed simp

section \<open>Lemmas: pairs and rates\<close>

lemma contracts_with_rates_map:
  assumes "contracts_with_rates n now live fc = Inr rates" "distinct (map c_id fc)" "c \<in> set fc"
  shows "map_of rates (c_id c) = Some x \<longleftrightarrow> (\<exists>p. newest (recent_points now (10 * us_per_minute) live (c_id c)) = Some p \<and>
      normalized_live_rate n (c_interval c) (p_rate p) = Inr x)"
  using assms
proof (induction fc arbitrary: rates)
  case (Cons a fc)
  let ?f = "\<lambda>c. case newest (recent_points now (10 * us_per_minute) live (c_id c)) of
     None \<Rightarrow> Inr None
   | Some p \<Rightarrow> rbind (normalized_live_rate n (c_interval c) (p_rate p)) (\<lambda>r. Inr (Some (c_id c, r)))"
  obtain w rs where w: "?f a = Inr w" "contracts_with_rates n now live fc = Inr rs"
    "rates = (case w of None \<Rightarrow> rs | Some y \<Rightarrow> y # rs)"
    using Cons.prems(1) by (auto simp: contracts_with_rates_def res_simps)
  have keys: "fst ` set rs \<subseteq> c_id ` set fc"
  proof
    fix i assume "i \<in> fst ` set rs"
    then obtain y where y: "y \<in> set rs" "fst y = i" by auto
    then obtain b where b: "b \<in> set fc" "?f b = Inr (Some y)"
      using rcollect_set [OF w(2) [unfolded contracts_with_rates_def], of y] by blast
    then show "i \<in> c_id ` set fc" using y by (auto simp: res_simps split: option.split_asm)
  qed
  show ?case
  proof (cases "c = a")
    case True
    have "map_of rs (c_id a) = None" using keys Cons.prems(2) by (auto simp: map_of_eq_None_iff)
    then show ?thesis using w True by (auto simp: res_simps split: option.split_asm)
  next
    case False
    then have c: "c \<in> set fc" using Cons.prems(3) by simp
    moreover have "c_id c \<noteq> c_id a" using c Cons.prems(2) by (metis distinct.simps(2) image_eqI list.set_map list.simps(9))
    ultimately have c: "c \<in> set fc" "c_id c \<noteq> c_id a" by simp_all
    then have "map_of rates (c_id c) = map_of rs (c_id c)"
      using w by (auto simp: res_simps split: option.split_asm)
    then show ?thesis using Cons.IH [OF w(2) _ c(1)] Cons.prems(2) by simp
  qed
qed simp

lemma filtered_ids: "distinct (map c_id enriched) \<Longrightarrow> distinct (map c_id (filtered_contracts f enriched))"
  unfolding filtered_contracts_def by (rule distinct_map_filter)

lemma distinct_pair_ids:
  assumes "distinct (map c_id fc)"
  shows "distinct (map (\<lambda>(c1, c2). (c_id c1, c_id c2)) (contract_pairs cmp fc))"
proof -
  have inj: "inj_on c_id (set fc)" "distinct fc" using assms by (simp_all add: distinct_map)
  have "distinct (contract_pairs cmp fc)"
    unfolding contract_pairs_def by (intro distinct_filter distinct_product inj(2))
  moreover have "inj_on (\<lambda>(c1, c2). (c_id c1, c_id c2)) (set (contract_pairs cmp fc))"
    using inj(1) by (auto simp: inj_on_def contract_pairs_def)
  ultimately show ?thesis by (simp add: distinct_map)
qed

lemma distinct_map_filter_key:
  assumes "distinct (map g xs)" "\<And>x y. x \<in> set xs \<Longrightarrow> f x = Some y \<Longrightarrow> h y = g x"
  shows "distinct (map h (List.map_filter f xs))"
  using assms
proof (induction xs)
  case (Cons x xs)
  have d: "distinct (map h (List.map_filter f xs))" using Cons by simp
  show ?case
  proof (cases "f x")
    case (Some y)
    have "h y \<notin> h ` set (List.map_filter f xs)"
    proof
      assume "h y \<in> h ` set (List.map_filter f xs)"
      then obtain z where z: "z \<in> set xs" "\<exists>v. f z = Some v \<and> h v = h y" by (auto simp: List.map_filter_def)
      then have "g z = g x" using Cons.prems(2) [of x y] Cons.prems(2) [of z] Some by auto
      then show False using Cons.prems(1) z(1) by (metis distinct.simps(2) image_eqI list.set_map list.simps(9))
    qed
    moreover have "List.map_filter f (x # xs) = y # List.map_filter f xs" using Some by (simp add: List.map_filter_def)
    ultimately show ?thesis using d by simp
  qed (use d in \<open>simp add: List.map_filter_def\<close>)
qed (simp add: List.map_filter_def)


lemma set_map_filter_pairs: "z \<in> set (List.map_filter f xs) \<longleftrightarrow> (\<exists>a b. (a, b) \<in> set xs \<and> f (a, b) = Some z)"
proof (induction xs)
  case (Cons x xs)
  then show ?case by (cases x; cases "f x") (auto simp: List.map_filter_def)
qed (simp add: List.map_filter_def)

section \<open>Properties: differences\<close>

text \<open>The live rate of a contract, normalized: its newest point of the last ten minutes.\<close>

definition has_live_rate :: "normalize \<Rightarrow> utc \<Rightarrow> db \<Rightarrow> contract_row \<Rightarrow> rat \<Rightarrow> bool" where
  "has_live_rate n now d c x \<longleftrightarrow> (\<exists>p. newest (recent_points now (10 * us_per_minute) (live_points d) (c_id c)) = Some p \<and>
     normalized_live_rate n (c_interval c) (p_rate p) = Inr x)"

text \<open>C23. The live differences are exactly the admissible pairs: a row compares two filtered contracts of
  one asset, both with a live rate, and every such pair has exactly one row, in one direction only,
  whose difference is that of the normalized rates; with a section to compare, the first contract is
  of that section and the second is not.\<close>

theorem live_differences_exact:
  assumes "funding_rate_rows n now f enriched d = Inr rows" and "distinct (map c_id enriched)"
  shows "set rows = {mk_diff c1 c2 x y 0 0 | c1 c2 x y. c1 \<in> set (filtered_contracts f enriched) \<and>
      c2 \<in> set (filtered_contracts f enriched) \<and> c_asset c1 = c_asset c2 \<and> pairing_condition (f_compare f) c1 c2 \<and>
      has_live_rate n now d c1 x \<and> has_live_rate n now d c2 y} \<and>
    distinct (map (\<lambda>r. (d_id1 r, d_id2 r)) rows) \<and>
    (\<forall>r\<in>set rows. (d_id2 r, d_id1 r) \<notin> (\<lambda>r. (d_id1 r, d_id2 r)) ` set rows)"
proof -
  let ?fc = "filtered_contracts f enriched"
  let ?g = "\<lambda>rates (c1, c2). case (map_of rates (c_id c1), map_of rates (c_id c2)) of
     (Some r1, Some r2) \<Rightarrow> Some (mk_diff c1 c2 r1 r2 0 0) | _ \<Rightarrow> None"
  obtain rates where r: "contracts_with_rates n now (live_points d) ?fc = Inr rates"
    "rows = List.map_filter (?g rates) (contract_pairs (f_compare f) ?fc)"
    using assms(1) by (auto simp: funding_rate_rows_def Let_def res_simps)
  note ids = filtered_ids [OF assms(2), of f]
  have rate: "map_of rates (c_id c) = Some x \<longleftrightarrow> has_live_rate n now d c x" if "c \<in> set ?fc" for c x
    using contracts_with_rates_map [OF r(1) ids that] by (simp add: has_live_rate_def)
  have pairs: "set (contract_pairs (f_compare f) ?fc) =
      {(c1, c2). c1 \<in> set ?fc \<and> c2 \<in> set ?fc \<and> c_asset c1 = c_asset c2 \<and> pairing_condition (f_compare f) c1 c2}"
    by (auto simp: contract_pairs_def)
  have row: "?g rates (c1, c2) = Some y \<longleftrightarrow> (\<exists>x1 x2. map_of rates (c_id c1) = Some x1 \<and> map_of rates (c_id c2) = Some x2 \<and>
      y = mk_diff c1 c2 x1 x2 0 0)" for c1 c2 y
    by (auto split: option.splits)
  have set_rows: "set rows = {mk_diff c1 c2 x y 0 0 | c1 c2 x y. c1 \<in> set ?fc \<and> c2 \<in> set ?fc \<and> c_asset c1 = c_asset c2 \<and>
      pairing_condition (f_compare f) c1 c2 \<and> has_live_rate n now d c1 x \<and> has_live_rate n now d c2 y}"
  proof (rule set_eqI)
    fix z
    have "z \<in> set rows \<longleftrightarrow> (\<exists>c1 c2. (c1, c2) \<in> set (contract_pairs (f_compare f) ?fc) \<and> ?g rates (c1, c2) = Some z)"
      unfolding r(2) set_map_filter_pairs by blast
    then show "z \<in> set rows \<longleftrightarrow> z \<in> {mk_diff c1 c2 x y 0 0 | c1 c2 x y. c1 \<in> set ?fc \<and> c2 \<in> set ?fc \<and>
        c_asset c1 = c_asset c2 \<and> pairing_condition (f_compare f) c1 c2 \<and> has_live_rate n now d c1 x \<and> has_live_rate n now d c2 y}"
      unfolding row pairs using rate by blast
  qed
  moreover have "distinct (map (\<lambda>r. (d_id1 r, d_id2 r)) rows)"
    unfolding r(2) by (rule distinct_map_filter_key [OF distinct_pair_ids [OF ids, of "f_compare f"]])
      (auto simp: mk_diff_def split: option.split_asm)
  moreover have "(d_id2 z, d_id1 z) \<notin> (\<lambda>r. (d_id1 r, d_id2 r)) ` set rows" if zin: "z \<in> set rows" for z
  proof
    assume "(d_id2 z, d_id1 z) \<in> (\<lambda>r. (d_id1 r, d_id2 r)) ` set rows"
    then obtain v where v: "v \<in> set rows" "d_id1 v = d_id2 z" "d_id2 v = d_id1 z" by auto
    obtain a1 a2 where a: "a1 \<in> set ?fc" "a2 \<in> set ?fc" "pairing_condition (f_compare f) a1 a2" "d_id1 z = c_id a1" "d_id2 z = c_id a2"
      using zin unfolding set_rows by (auto simp: mk_diff_def)
    obtain b1 b2 where b: "b1 \<in> set ?fc" "b2 \<in> set ?fc" "pairing_condition (f_compare f) b1 b2" "d_id1 v = c_id b1" "d_id2 v = c_id b2"
      using v(1) unfolding set_rows by (auto simp: mk_diff_def)
    have "inj_on c_id (set ?fc)" using ids by (simp add: distinct_map)
    then have "b1 = a2" "b2 = a1" using a b v(2,3) by (metis inj_onD)+
    then show False using a(3) b(3) by (auto simp: pairing_condition_def split: option.splits list.splits)
  qed
  ultimately show ?thesis by blast
qed

lemma sorted_split:
  assumes "sorted_wrt (\<lambda>r s. f s \<le> (f r :: rat)) xs"
  shows "xs = filter (\<lambda>r. v < f r) xs @ filter (\<lambda>r. f r = v) xs @ filter (\<lambda>r. f r < v) xs"
  using assms
proof (induction xs)
  case (Cons x xs)
  have le: "f y \<le> f x" if "y \<in> set xs" for y using Cons.prems that by simp
  have none: "v < f x \<or> filter (\<lambda>r. v < f r) xs = []" "v \<le> f x \<or> filter (\<lambda>r. f r = v) xs = []"
    using le by (fastforce simp: filter_empty_conv)+
  have IH: "xs = filter (\<lambda>r. v < f r) xs @ filter (\<lambda>r. f r = v) xs @ filter (\<lambda>r. f r < v) xs"
    using Cons by simp
  consider "v < f x" | "f x = v" | "f x < v" by linarith
  then show ?case
  proof cases
    case 1
    then show ?thesis using IH by simp
  next
    case 2
    then have "filter (\<lambda>r. v < f r) xs = []" using none by simp
    then show ?thesis using IH 2 by simp
  next
    case 3
    then have "filter (\<lambda>r. v < f r) xs = []" "filter (\<lambda>r. f r = v) xs = []" using none by auto
    then show ?thesis using IH 3 by simp
  qed
qed simp

text \<open>A page of a sorted list has all rows of one value, if they lie on it, and none if they lie on another.\<close>

lemma page_of_value:
  assumes "sorted_wrt (\<lambda>r s. f s \<le> (f r :: rat)) xs"
    and "k * L \<le> length (filter (\<lambda>r. v < f r) xs)" and "length (filter (\<lambda>r. v \<le> f r) xs) \<le> Suc k * L"
  shows "filter (\<lambda>r. f r = v) (take L (drop (j * L) xs)) = (if j = k then filter (\<lambda>r. f r = v) xs else [])"
proof -
  define A B C where abc: "A = filter (\<lambda>r. v < f r) xs" "B = filter (\<lambda>r. f r = v) xs" "C = filter (\<lambda>r. f r < v) xs"
  have xs: "xs = A @ B @ C" unfolding abc by (rule sorted_split [OF assms(1)])
  have no: "filter (\<lambda>r. f r = v) A = []" "filter (\<lambda>r. f r = v) C = []" "filter (\<lambda>r. f r = v) B = B"
    by (auto simp: abc filter_empty_conv)
  have "length (filter (\<lambda>r. v \<le> f r) xs) = length A + length B"
    unfolding abc by (induction xs) auto
  then have len: "k * L \<le> length A" "length A + length B \<le> Suc k * L" using assms(2,3) by (simp_all add: abc)
  have part: "take L (drop (j * L) xs) = take L (drop (j * L) A) @ take (L - (length A - j * L)) (drop (j * L - length A) B) @
      take (L - (length A - j * L) - (length B - (j * L - length A))) (drop (j * L - length A - length B) C)"
    by (simp add: xs take_append drop_append)
  have nop: "filter (\<lambda>r. f r = v) (take m (drop n A)) = []" "filter (\<lambda>r. f r = v) (take m (drop n C)) = []" for m n
    using no by (auto simp: filter_empty_conv dest: in_set_takeD in_set_dropD)
  have allB: "filter (\<lambda>r. f r = v) (take m (drop n B)) = take m (drop n B)" for m n
    unfolding filter_id_conv
  proof
    fix r assume "r \<in> set (take m (drop n B))"
    then have "r \<in> set B" by (meson in_set_takeD in_set_dropD)
    then show "f r = v" by (simp add: abc)
  qed
  consider "j = k" | "j < k" | "k < j" by linarith
  then have "take (L - (length A - j * L)) (drop (j * L - length A) B) = (if j = k then B else [])"
  proof cases
    case 1
    then show ?thesis using len by (simp add: take_all)
  next
    case 2
    then have "Suc j * L \<le> k * L" by (intro mult_le_mono1) simp
    then show ?thesis using 2 len by simp
  next
    case 3
    then have "Suc k * L \<le> j * L" by (intro mult_le_mono1) simp
    then show ?thesis using 3 len by simp
  qed
  then show ?thesis unfolding part filter_append nop allB by (simp add: abc)
qed

lemma select_diffs_facts:
  fixes rows :: "diff_row list" and mo :: "rat option"
  assumes "\<forall>m. mo = Some m \<longrightarrow> 0 \<le> m"
  defines "sel \<equiv> filter (\<lambda>r. \<forall>m. mo = Some m \<longrightarrow> m \<le> d_abs r) rows"
  shows "mset (select_diffs plan mo rows) = mset sel"
    "sorted_wrt (\<lambda>r s. d_abs s \<le> d_abs r) (select_diffs plan mo rows)"
    "map d_abs (select_diffs plan mo rows) = rev (sort (map d_abs sel))"
proof -
  have f: "filter (\<lambda>r. (case mo of None \<Rightarrow> - 1 | Some x \<Rightarrow> x) < 0 \<or> (case mo of None \<Rightarrow> - 1 | Some x \<Rightarrow> x) \<le> d_abs r) rows = sel"
    using assms(1) unfolding sel_def by (intro filter_cong) (auto split: option.splits)
  then have s: "select_diffs plan mo rows = sort_key (\<lambda>r. - d_abs r) (sort_key plan sel)"
    by (simp add: select_diffs_def Let_def)
  then show m: "mset (select_diffs plan mo rows) = mset sel" by simp
  have "sorted (map (\<lambda>r. - d_abs r) (select_diffs plan mo rows))" unfolding s by (rule sorted_sort_key)
  then show w: "sorted_wrt (\<lambda>r s. d_abs s \<le> d_abs r) (select_diffs plan mo rows)" by (simp add: sorted_map)
  have "sorted (rev (map d_abs (select_diffs plan mo rows)))"
    using w by (simp add: sorted_wrt_rev sorted_wrt_map)
  moreover have "mset (rev (map d_abs (select_diffs plan mo rows))) = mset (map d_abs sel)"
    using m by (metis mset_map mset_rev)
  ultimately have "rev (map d_abs (select_diffs plan mo rows)) = sort (map d_abs sel)"
    by (metis properties_for_sort)
  then show "map d_abs (select_diffs plan mo rows) = rev (sort (map d_abs sel))" by (metis rev_rev_ident)
qed

text \<open>C24. Paging through the live differences with any page size, each page a statement of its own that may order
  tied rows in its own way (\<open>plan k\<close> for page \<open>k\<close>). The absolute differences on the pages are consecutive segments of
  the falling list of all of them that reach the minimum, if one is given; no page repeats a
  row; and the rows of one absolute difference, if their places in that list lie on one page, are all on
  this page and on no other. So rows are lost or repeated among ties across the end of a page
  only. The flag for more data is exact, and the total on a page that has a row; a page past the end
  reports a total of 0.\<close>

theorem difference_pages_partition:
  assumes "funding_rate_rows n now (request_filters q) enriched d = Inr rows"
    and "\<forall>m. q_min_diff q = Some m \<longrightarrow> 0 \<le> m" and "1 \<le> L" and "L \<le> 100"
    and "sel = filter (\<lambda>r. \<forall>m. q_min_diff q = Some m \<longrightarrow> m \<le> d_abs r) rows"
  shows "\<exists>pages. (\<forall>k. funding_rate_differences (plan k) now enriched d n (q\<lparr>q_offset := int (k * L), q_limit := int L\<rparr>) = Inr (pages k)) \<and>
    (\<forall>K. map d_abs (concat (map (\<lambda>k. pg_data (pages k)) [0..<K])) = take (K * L) (rev (sort (map d_abs sel)))) \<and>
    (\<forall>k. mset (pg_data (pages k)) \<subseteq># mset sel) \<and>
    (\<forall>v k. k * L \<le> length (filter (\<lambda>r. v < d_abs r) sel) \<and> length (filter (\<lambda>r. v \<le> d_abs r) sel) \<le> Suc k * L \<longrightarrow>
      (\<forall>j. mset (filter (\<lambda>r. d_abs r = v) (pg_data (pages j))) = (if j = k then mset (filter (\<lambda>r. d_abs r = v) sel) else {#}))) \<and>
    (\<forall>k. pg_has_more (pages k) = (Suc k * L < length sel) \<and>
      pg_total (pages k) = (if k * L < length sel then length sel else 0))"
proof -
  define all where "all = (\<lambda>k. select_diffs (plan k) (q_min_diff q) rows)"
  define pages where "pages = (\<lambda>k. paginate (sql_page (Some (k * L)) (Some L) (all k)) (Some (k * L)) (Some L))"
  have L: "0 < L" using assms(3) by simp
  note facts = select_diffs_facts [OF assms(2), where rows = rows, folded assms(5)]
  have m: "mset (all k) = mset sel" and w: "sorted_wrt (\<lambda>r s. d_abs s \<le> d_abs r) (all k)"
    and v: "map d_abs (all k) = rev (sort (map d_abs sel))" for k
    unfolding all_def by (rule facts)+
  have len: "length (all k) = length sel" for k using m by (rule mset_eq_length)
  have filt: "mset (filter P (all k)) = mset (filter P sel)" "length (filter P (all k)) = length (filter P sel)" for P k
    using m [of k] by (metis mset_filter, metis mset_filter size_mset)
  have pages: "pages k = \<lparr>pg_data = take L (drop (k * L) (all k)), pg_total = (if k * L < length sel then length sel else 0),
      pg_offset = k * L, pg_limit = L, pg_has_more = k * L + L < length sel\<rparr>" for k
    unfolding pages_def len [symmetric, of k] by (rule paginate_sql_page [OF L])
  have req: "request_filters (q\<lparr>q_offset := i, q_limit := j\<rparr>) = request_filters q" for i j
    by (simp add: request_filters_def)
  have "funding_rate_differences (plan k) now enriched d n (q\<lparr>q_offset := int (k * L), q_limit := int L\<rparr>) = Inr (pages k)" for k
    unfolding funding_rate_differences_def get_funding_rate_differences_def req assms(1) pages_def all_def
    using assms(2-4) by (auto simp: check_page_params_def not_less split: option.splits simp flip: of_nat_mult)
  moreover have "map d_abs (concat (map (\<lambda>k. pg_data (pages k)) [0..<K])) = take (K * L) (rev (sort (map d_abs sel)))" for K
  proof -
    have "map d_abs (pg_data (pages k)) = take L (drop (k * L) (rev (sort (map d_abs sel))))" for k
      unfolding pages by (simp add: v [of k, symmetric] take_map drop_map)
    then show ?thesis using concat_pages [of L _ K] by (simp add: map_concat comp_def)
  qed
  moreover have "mset (pg_data (pages k)) \<subseteq># mset sel" for k
  proof -
    have "mset (drop (k * L) (all k)) \<subseteq># mset (all k)"
      by (metis append_take_drop_id mset_append mset_subset_eq_add_right)
    moreover have "mset (take L (drop (k * L) (all k))) \<subseteq># mset (drop (k * L) (all k))"
      by (metis append_take_drop_id mset_append mset_subset_eq_add_left)
    ultimately show ?thesis unfolding pages m by simp
  qed
  moreover have "mset (filter (\<lambda>r. d_abs r = v) (pg_data (pages j))) = (if j = k then mset (filter (\<lambda>r. d_abs r = v) sel) else {#})"
    if "k * L \<le> length (filter (\<lambda>r. v < d_abs r) sel) \<and> length (filter (\<lambda>r. v \<le> d_abs r) sel) \<le> Suc k * L" for v k j
    using page_of_value [OF w, of k L v j j] that unfolding pages filt(2) by (simp add: m)
  moreover have "pg_has_more (pages k) = (Suc k * L < length sel) \<and>
      pg_total (pages k) = (if k * L < length sel then length sel else 0)" for k
    by (simp add: pages add.commute)
  ultimately show ?thesis by (intro exI [of _ pages]) blast
qed

section \<open>Properties: cumulative differences\<close>

lemma concat_replicate_const: "(\<And>x. x \<in> set xs \<Longrightarrow> f x = y) \<Longrightarrow> concat (map f xs) = concat (replicate (length xs) y)"
  by (induction xs) auto

lemma windows_with_ends:
  "length (filter (\<lambda>(h, a, b). a = A \<and> b = B) (distinct_windows pg from_time to_time pairs)) =
   card (max_interval ` {p \<in> set pairs. snd (pair_window pg from_time to_time p) = (A, B)})"
proof -
  let ?ws = "filter (\<lambda>(h, a, b). a = A \<and> b = B) (distinct_windows pg from_time to_time pairs)"
  have "distinct ?ws" by (simp add: distinct_windows_def)
  then have "length ?ws = card (set ?ws)" by (rule distinct_card [symmetric])
  also have "set ?ws = (\<lambda>h. (h, A, B)) ` max_interval ` {p \<in> set pairs. snd (pair_window pg from_time to_time p) = (A, B)}"
    by (auto simp: distinct_windows_def pair_window_def image_iff)
  also have "card \<dots> = card (max_interval ` {p \<in> set pairs. snd (pair_window pg from_time to_time p) = (A, B)})"
    by (rule card_image) (auto simp: inj_on_def)
  finally show ?thesis .
qed

text \<open>\<open>SUM\<close> over the rates of a window, each as often as there are maximal intervals with the window.\<close>

definition repeated_total ::
  "pg \<Rightarrow> int \<Rightarrow> point list \<Rightarrow> utc \<Rightarrow> utc \<Rightarrow> (contract_row \<times> contract_row) list \<Rightarrow> nat \<Rightarrow> utc \<Rightarrow> utc \<Rightarrow> rat" where
  "repeated_total pg buffer tbl from_time to_time pairs cid A B =
     (let k = card (max_interval ` {p \<in> set pairs. snd (pair_window pg from_time to_time p) = (A, B)});
          rs = concat (replicate k (window_rates buffer tbl cid A B))
      in if rs = [] then 0 else pg_sum pg rs)"

lemma funding_in_window_repeats:
  "funding_in_window pg buffer tbl (distinct_windows pg from_time to_time pairs) cid A B =
   repeated_total pg buffer tbl from_time to_time pairs cid A B"
proof -
  have "concat (map (\<lambda>(h, a, b). window_rates buffer tbl cid a b)
      (filter (\<lambda>(h, a, b). a = A \<and> b = B) (distinct_windows pg from_time to_time pairs))) =
    concat (replicate (length (filter (\<lambda>(h, a, b). a = A \<and> b = B) (distinct_windows pg from_time to_time pairs)))
      (window_rates buffer tbl cid A B))"
    by (rule concat_replicate_const) auto
  then show ?thesis by (simp only: funding_in_window_def windows_with_ends repeated_total_def Let_def)
qed

text \<open>C25. What a cumulative total counts: in the row of a pair, the total of a contract is the \<open>SUM\<close> of
  its settled rates in the aligned window of the pair, each taken once for every distinct maximal
  interval of the compared pairs whose window has the same ends; the grouping of the statement
  forgets the interval. So the totals are right when one interval has the window, and are multiplied
  when several do, as for a period from midnight to midnight.\<close>

theorem cumulative_total_multiplicity:
  assumes "cumulative_rows pg from_time to_time buffer f enriched d = Inr rows"
    and "contract_pairs (f_compare f) (filtered_contracts f enriched) = pairs"
  shows "list_all2 (\<lambda>p r. d_id1 r = c_id (fst p) \<and> d_id2 r = c_id (snd p) \<and>
      (case pair_window pg from_time to_time p of (h, A, B) \<Rightarrow>
         d_value1 r = repeated_total pg buffer (historical_points d) from_time to_time pairs (c_id (fst p)) A B \<and>
         d_value2 r = repeated_total pg buffer (historical_points d) from_time to_time pairs (c_id (snd p)) A B \<and>
         d_from r = epoch_bigint A \<and> d_to r = epoch_bigint B)) pairs rows"
proof -
  have "rows = map (\<lambda>p. case pair_window pg from_time to_time p of (h, a, b) \<Rightarrow>
      mk_diff (fst p) (snd p)
        (funding_in_window pg buffer (historical_points d) (distinct_windows pg from_time to_time pairs) (c_id (fst p)) a b)
        (funding_in_window pg buffer (historical_points d) (distinct_windows pg from_time to_time pairs) (c_id (snd p)) a b)
        (epoch_bigint a) (epoch_bigint b)) pairs"
    using assms(1) unfolding cumulative_rows_def Let_def assms(2) by (auto split: if_splits)
  then show ?thesis unfolding funding_in_window_repeats
    by (simp add: list_all2_conv_all_nth mk_diff_def split: prod.splits)
qed

text \<open>Three contracts of one asset with intervals of 1, 1 and 8 hours and one settled rate of 1/4,
  compared over a day from midnight to midnight: the total is 1/2 with an exact \<open>SUM\<close>.\<close>

definition w_pg :: pg where
  "w_pg = \<lparr>pg_sum = sum_list, pg_avg = (\<lambda>rs. sum_list rs / of_nat (length rs)),
     pg_bucket = (\<lambda>h t. t - t mod (h * us_per_hour))\<rparr>"

definition w_contract :: "nat \<Rightarrow> string \<Rightarrow> int \<Rightarrow> contract_row" where
  "w_contract i sec h = \<lparr>c_id = i, c_asset = ''BTC'', c_section = sec, c_interval = h, c_quote = ''USD'',
     c_special = JObj [], c_deprecated = False\<rparr>"

lemma w_contract_id: "c_id (w_contract i sec h) = i"
  by (simp add: w_contract_def)

definition w_enriched :: "contract_row list" where
  "w_enriched = [w_contract 1 ''okx'' 1, w_contract 2 ''dydx'' 1, w_contract 3 ''bybit'' 8]"

definition w_api_db :: db where
  "w_api_db = \<lparr>sections = [], assets = [], quotes = [], contracts = w_enriched, history_states = [],
     historical_points = [\<lparr>p_time = 3600000000, p_contract = 1, p_rate = 1 / 4\<rparr>],
     live_points = [\<lparr>p_time = 3600000000, p_contract = 1, p_rate = 1 / 4\<rparr>, \<lparr>p_time = 3600000000, p_contract = 2, p_rate = 1 / 8\<rparr>]\<rparr>"

definition w_filters :: filters where
  "w_filters = process_filters None None None None"

theorem cumulative_total_multiplicity_witness:
  "\<exists>rows. cumulative_rows w_pg 0 86400000000 30 w_filters w_enriched w_api_db = Inr rows \<and>
     d_value1 (rows ! 0) = 1 / 2 \<and> window_rates 30 (historical_points w_api_db) 1 0 86400000000 = [1 / 4]"
proof -
  let ?o = "cumulative_rows w_pg 0 86400000000 30 w_filters w_enriched w_api_db"
  let ?pairs = "contract_pairs (f_compare w_filters) (filtered_contracts w_filters w_enriched)"
  have o: "?o = Inr (projr ?o)" by code_simp
  have p: "?pairs ! 0 = (w_contract 1 ''okx'' 1, w_contract 2 ''dydx'' 1)" "0 < length ?pairs"
    "pair_window w_pg 0 86400000000 (w_contract 1 ''okx'' 1, w_contract 2 ''dydx'' 1) = (1, 0, 86400000000)"
    "window_rates 30 (historical_points w_api_db) 1 0 86400000000 = [1 / 4]"
    by code_simp+
  have set: "max_interval ` {p \<in> set ?pairs. snd (pair_window w_pg 0 86400000000 p) = (0, 86400000000)} = {1, 8}"
    by code_simp
  have "d_value1 (projr ?o ! 0) = repeated_total w_pg 30 (historical_points w_api_db) 0 86400000000 ?pairs 1 0 86400000000"
    using list_all2_nthD [OF cumulative_total_multiplicity [OF o refl] p(2)] unfolding p(1) fst_conv snd_conv p(3) prod.case
    by (simp only: w_contract_id)
  then have "d_value1 (projr ?o ! 0) = 1 / 2" unfolding repeated_total_def set p(4) by (simp add: w_pg_def numeral_2_eq_2)
  then show ?thesis using o p(4) by blast
qed


section \<open>Windows of days\<close>

lemma check_windows_spec:
  "check_windows ns = (if set ns \<subseteq> {1..365} then Inr () else check_windows ns)"
  "set ns \<subseteq> {1..365} \<or> (\<exists>m. check_windows ns = Inl (Http 400 m))"
  by (induction ns) auto

lemma update_last:
  "k \<notin> fst ` set es \<Longrightarrow> AList.update k v (es @ [(k, u)]) = es @ [(k, v)]"
  "k \<notin> fst ` set es \<Longrightarrow> AList.update k v es = es @ [(k, v)]"
  by (induction es) auto

definition windows_of :: "contract_row \<Rightarrow> window_entry list \<Rightarrow> contract_windows" where
  "windows_of c ws = \<lparr>cw_contract = c_id c, cw_asset = c_asset c, cw_section = c_section c, cw_quote = c_quote c,
     cw_interval = c_interval c, cw_windows = ws\<rparr>"

lemma add_window_new: "c_id c \<notin> fst ` set es \<Longrightarrow> add_window es (c, w) = es @ [(c_id c, windows_of c [w])]"
  by (simp add: add_window_def windows_of_def Let_def update_last map_of_eq_None_iff [symmetric] split: option.splits)

lemma add_window_more:
  "c_id c \<notin> fst ` set es \<Longrightarrow>
   add_window (es @ [(c_id c, windows_of c acc)]) (c, w) = es @ [(c_id c, windows_of c (acc @ [w]))]"
proof -
  assume a: "c_id c \<notin> fst ` set es"
  then have "map_of es (c_id c) = None" by (simp add: map_of_eq_None_iff)
  then have "map_of (es @ [(c_id c, windows_of c acc)]) (c_id c) = Some (windows_of c acc)"
    by (simp add: map_add_def)
  then show ?thesis using a by (simp add: add_window_def Let_def update_last(1)) (simp add: windows_of_def)
qed

lemma fold_more_windows:
  "c_id c \<notin> fst ` set es \<Longrightarrow> foldl add_window (es @ [(c_id c, windows_of c acc)]) (map (Pair c) ws) =
     es @ [(c_id c, windows_of c (acc @ ws))]"
  by (induction ws arbitrary: acc) (simp_all add: add_window_more)

lemma fold_windows:
  assumes "distinct (map c_id cs)" "\<And>c. c \<in> set cs \<Longrightarrow> c_id c \<notin> fst ` set es" "\<And>c. c \<in> set cs \<Longrightarrow> g c \<noteq> []"
  shows "foldl add_window es (concat (map (\<lambda>c. map (Pair c) (g c)) cs)) = es @ map (\<lambda>c. (c_id c, windows_of c (g c))) cs"
  using assms
proof (induction cs arbitrary: es)
  case (Cons c cs)
  then obtain w ws where g: "g c = w # ws" by (cases "g c") auto
  have new: "c_id c \<notin> fst ` set es" using Cons.prems(2) by simp
  have "foldl add_window es (map (Pair c) (g c)) = es @ [(c_id c, windows_of c (g c))]"
    using fold_more_windows [OF new, of "[w]" ws] by (simp add: g add_window_new [OF new])
  moreover have "foldl add_window (es @ [(c_id c, windows_of c (g c))]) (concat (map (\<lambda>c. map (Pair c) (g c)) cs)) =
      (es @ [(c_id c, windows_of c (g c))]) @ map (\<lambda>c. (c_id c, windows_of c (g c))) cs"
    using Cons.prems by (intro Cons.IH) (auto simp: image_iff)
  ultimately show ?case by simp
qed simp

lemma day_window_points:
  assumes "distinct windows_days" "n \<in> set windows_days"
  shows "day_window now windows_days tbl cid n = filter (\<lambda>p. p_contract p = cid \<and> now - days n \<le> p_time p) tbl"
proof -
  have "days n \<le> days (Max (set windows_days))" using assms(2) by (simp add: days_def)
  then have "(now - days (Max (set windows_days)) \<le> t \<and> now - days n \<le> t) = (now - days n \<le> t)" for t by linarith
  moreover have "count_list windows_days n = 1" using assms
    by (induction windows_days) (auto simp: count_list_0_iff)
  ultimately show ?thesis by (simp add: day_window_def)
qed

lemma list_all2_map_eq: "list_all2 (\<lambda>x y. y = h x) xs ys \<Longrightarrow> ys = map h xs"
  by (induction xs ys rule: list_all2_induct) auto

lemma product_concat: "List.product xs ys = concat (map (\<lambda>x. map (Pair x) ys) xs)"
  by (induction xs) auto

lemma get_windows_result:
  assumes "get_windows entry now enriched d f ws = Inr es" and "distinct (map c_id enriched)" and "distinct ws" "sorted ws"
  obtains cs g where "mset cs = mset (filtered_contracts f enriched)" "es = map (\<lambda>c. windows_of c (map (g c) ws)) cs"
    "\<And>c w. c \<in> set cs \<Longrightarrow> w \<in> set ws \<Longrightarrow>
       entry c w (filter (\<lambda>p. p_contract p = c_id c \<and> now - days w \<le> p_time p) (historical_points d)) = Inr (g c w)"
proof -
  let ?fc = "filtered_contracts f enriched"
  let ?cs = "sort_key c_asset (sort_key c_section (sort_key c_quote ?fc))"
  let ?pts = "\<lambda>c w. filter (\<lambda>p. p_contract p = c_id c \<and> now - days w \<le> p_time p) (historical_points d)"
  let ?g = "\<lambda>c w. projr (entry c w (?pts c w))"
  have ne: "ws \<noteq> []" using assms(1) by (auto simp: get_windows_def)
  have ws: "sort (remdups ws) = ws" using assms(3,4) by (simp add: distinct_remdups_id sort_key_id_if_sorted)
  obtain rows where rows: "window_rows entry now (historical_points d) ws ?fc = Inr rows" "es = map snd (foldl add_window [] rows)"
    using assms(1) ne by (auto simp: get_windows_def res_simps)
  have all: "list_all2 (\<lambda>x r. entry (fst x) (snd x) (?pts (fst x) (snd x)) = Inr (?g (fst x) (snd x)) \<and> r = (fst x, ?g (fst x) (snd x))) (List.product ?cs ws) rows"
  proof -
    have "list_all2 (\<lambda>x r. (case x of (c, w) \<Rightarrow> rbind (entry c w (day_window now ws (historical_points d) (c_id c) w))
        (\<lambda>e. Inr (c, e))) = Inr r) (List.product ?cs ws) rows"
      using rows(1) by (simp only: window_rows_def rmap_Inr_iff ws)
    then show ?thesis
    proof (rule list.rel_mono_strong)
      fix x r assume x: "x \<in> set (List.product ?cs ws)"
        and e: "(case x of (c, w) \<Rightarrow> rbind (entry c w (day_window now ws (historical_points d) (c_id c) w)) (\<lambda>e. Inr (c, e))) = Inr r"
      obtain c w where cw: "x = (c, w)" "w \<in> set ws" using x by auto
      then show "entry (fst x) (snd x) (?pts (fst x) (snd x)) = Inr (?g (fst x) (snd x)) \<and> r = (fst x, ?g (fst x) (snd x))"
        using e by (auto simp: day_window_points [OF assms(3)] res_simps)
    qed
  qed
  have "rows = map (\<lambda>x. (fst x, ?g (fst x) (snd x))) (List.product ?cs ws)"
    by (rule list_all2_map_eq) (rule list_all2_mono [OF all], blast)
  also have "\<dots> = concat (map (\<lambda>c. map (Pair c) (map (?g c) ws)) ?cs)"
    by (simp add: product_concat map_concat comp_def)
  finally have rows': "rows = concat (map (\<lambda>c. map (Pair c) (map (?g c) ws)) ?cs)" .
  have ids: "distinct (map c_id ?cs)"
    using filtered_ids [OF assms(2), of f] by (simp add: distinct_map)
  have "foldl add_window [] rows = map (\<lambda>c. (c_id c, windows_of c (map (?g c) ws))) ?cs"
    unfolding rows' using fold_windows [OF ids, of "[]" "\<lambda>c. map (?g c) ws"] ne by simp
  then have es: "es = map (\<lambda>c. windows_of c (map (?g c) ws)) ?cs" using rows(2) by (simp add: comp_def)
  have "entry c w (?pts c w) = Inr (?g c w)" if "c \<in> set ?cs" "w \<in> set ws" for c w
  proof -
    have "(c, w) \<in> set (List.product ?cs ws)" using that by simp
    then obtain k where "k < length (List.product ?cs ws)" "List.product ?cs ws ! k = (c, w)"
      by (meson in_set_conv_nth)
    then show ?thesis using list_all2_nthD [OF all] by fastforce
  qed
  then show thesis using es by (intro that [of ?cs ?g]) simp_all
qed

section \<open>Properties: windows\<close>

text \<open>What an entry of the answer says of one of its windows.\<close>

definition exact_window :: "pg \<Rightarrow> utc \<Rightarrow> db \<Rightarrow> contract_windows \<Rightarrow> window_entry \<Rightarrow> bool" where
  "exact_window pg now d e w \<longleftrightarrow> (let rs = map p_rate (filter (\<lambda>p. p_contract p = cw_contract e \<and>
       now - days (we_days w) \<le> p_time p) (historical_points d)) in
     we_points w = length rs \<and> we_expected w = expected_count (we_days w) (cw_interval e) \<and>
     we_rate w = (if rs \<noteq> [] \<and> of_int (we_expected w) * (98 / 100) \<le> (of_nat (length rs) :: rat)
       then Some (pg_sum pg rs) else None))"

lemma exact_window_sum:
  assumes "\<And>w. w \<in> set ws \<Longrightarrow>
    sum_window pg c w (filter (\<lambda>p. p_contract p = c_id c \<and> now - days w \<le> p_time p) (historical_points d)) = Inr (g w)"
  shows "map we_days (cw_windows (windows_of c (map g ws))) = ws \<and>
    (\<forall>w\<in>set (cw_windows (windows_of c (map g ws))). exact_window pg now d (windows_of c (map g ws)) w)"
proof -
  let ?ps = "\<lambda>w. filter (\<lambda>p. p_contract p = c_id c \<and> now - days w \<le> p_time p) (historical_points d)"
  have g: "g w = \<lparr>we_days = w, we_rate = (if ?ps w \<noteq> [] \<and> of_nat (length (?ps w)) \<ge>
        (of_int (expected_count w (c_interval c)) * (98 / 100) :: rat) then Some (pg_sum pg (map p_rate (?ps w))) else None),
      we_points = length (?ps w), we_expected = expected_count w (c_interval c), we_oldest = oldest_timestamp (?ps w)\<rparr>"
    if "w \<in> set ws" for w
    using assms [OF that] unfolding sum_window_def by (auto split: if_splits)
  have "map (\<lambda>w. we_days (g w)) ws = map (\<lambda>w. w) ws" by (rule map_cong [OF refl]) (simp add: g)
  moreover have "exact_window pg now d (windows_of c (map g ws)) w" if win: "w \<in> set (cw_windows (windows_of c (map g ws)))" for w
  proof -
    obtain n where n: "n \<in> set ws" "w = g n" using win by (auto simp: windows_of_def)
    have i: "cw_contract (windows_of c (map g ws)) = c_id c" "cw_interval (windows_of c (map g ws)) = c_interval c"
      by (simp_all add: windows_of_def)
    show ?thesis unfolding exact_window_def n(2) g [OF n(1)] i Let_def by simp
  qed
  ultimately show ?thesis by (simp add: windows_of_def comp_def)
qed

lemma sums_answer:
  assumes "historical_sums_endpoint pg now enriched d (a, s, q) windows = Inr es"
  shows "get_windows (sum_window pg) now enriched d (slice_params a s q) (sort (remdups windows)) = Inr es"
  using assms check_windows_spec [of windows]
  by (auto simp: historical_sums_endpoint_def require_contract_slice_def get_historical_sums_def respond_def
      windows_param_def validate_windows_def split: if_splits sum.split_asm)

lemma sums_status:
  "(\<exists>m. historical_sums_endpoint pg now enriched d (a, s, q) windows = Inl (Http 400 m)) \<longleftrightarrow>
    no_names a \<and> no_names s \<or> \<not> set windows \<subseteq> {1..365}"
  "(\<exists>m. historical_sums_endpoint pg now enriched d (a, s, q) windows = Inl (Http 422 m)) \<longleftrightarrow>
    \<not> (no_names a \<and> no_names s) \<and> windows = []"
proof -
  have r: "respond (get_historical_sums pg now enriched d a s q ws) \<noteq> Inl (Http k m)" for ws k m
    by (simp add: respond_def split: sum.splits)
  have p: "if windows = [] then windows_param windows = Inl (Http 422 ''validation'')
    else if set windows \<subseteq> {1..365} then windows_param windows = Inr (sort (remdups windows))
    else \<exists>m. windows_param windows = Inl (Http 400 m)"
  proof (cases "set windows \<subseteq> {1..365}")
    case True
    then have "check_windows windows = Inr ()" using check_windows_spec(1) [of windows] by simp
    then show ?thesis using True by (simp add: windows_param_def validate_windows_def)
  next
    case False
    then obtain m where "check_windows windows = Inl (Http 400 m)" using check_windows_spec(2) by blast
    then show ?thesis using False by (simp add: windows_param_def validate_windows_def)
  qed
  show "(\<exists>m. historical_sums_endpoint pg now enriched d (a, s, q) windows = Inl (Http 400 m)) \<longleftrightarrow>
    no_names a \<and> no_names s \<or> \<not> set windows \<subseteq> {1..365}"
    "(\<exists>m. historical_sums_endpoint pg now enriched d (a, s, q) windows = Inl (Http 422 m)) \<longleftrightarrow>
    \<not> (no_names a \<and> no_names s) \<and> windows = []"
    using p r by (auto simp: historical_sums_endpoint_def require_contract_slice_def split: if_splits)
qed

text \<open>C26. The window endpoint rejects and answers exactly: it answers 400 if and only if the slice names
  neither assets nor sections, or a window is not within 1..365 days, and 422 if and only if the slice names
  some but no window is given; and an answer
  has one entry per contract of the slice, whose windows are the requested ones, without repetition
  and ascending, each counting the settled points of its last days and summing them if and only if
  there are any and at least 98 percent of the expected number.\<close>

theorem historical_sums_exact:
  assumes "distinct (map c_id enriched)"
  shows "((\<exists>m. historical_sums_endpoint pg now enriched d (a, s, q) windows = Inl (Http 400 m)) \<longleftrightarrow>
      no_names a \<and> no_names s \<or> \<not> set windows \<subseteq> {1..365}) \<and>
    ((\<exists>m. historical_sums_endpoint pg now enriched d (a, s, q) windows = Inl (Http 422 m)) \<longleftrightarrow>
      \<not> (no_names a \<and> no_names s) \<and> windows = []) \<and>
    (\<forall>es. historical_sums_endpoint pg now enriched d (a, s, q) windows = Inr es \<longrightarrow>
      mset (map cw_contract es) = mset (map c_id (filtered_contracts (slice_params a s q) enriched)) \<and>
      (\<forall>e\<in>set es. map we_days (cw_windows e) = sort (remdups windows) \<and>
        (\<forall>w\<in>set (cw_windows e). exact_window pg now d e w)))"
proof (intro conjI allI impI ballI)
  show "(\<exists>m. historical_sums_endpoint pg now enriched d (a, s, q) windows = Inl (Http 400 m)) \<longleftrightarrow>
      no_names a \<and> no_names s \<or> \<not> set windows \<subseteq> {1..365}" by (rule sums_status(1))
  show "(\<exists>m. historical_sums_endpoint pg now enriched d (a, s, q) windows = Inl (Http 422 m)) \<longleftrightarrow>
      \<not> (no_names a \<and> no_names s) \<and> windows = []" by (rule sums_status(2))
  fix es assume "historical_sums_endpoint pg now enriched d (a, s, q) windows = Inr es"
  from sums_answer [OF this]
  obtain cs g where cs: "mset cs = mset (filtered_contracts (slice_params a s q) enriched)"
    "es = map (\<lambda>c. windows_of c (map (g c) (sort (remdups windows)))) cs"
    "\<And>c w. c \<in> set cs \<Longrightarrow> w \<in> set (sort (remdups windows)) \<Longrightarrow>
       sum_window pg c w (filter (\<lambda>p. p_contract p = c_id c \<and> now - days w \<le> p_time p) (historical_points d)) = Inr (g c w)"
    by (rule get_windows_result [OF _ assms]) auto
  have "map cw_contract es = map c_id cs" by (simp add: cs(2) windows_of_def comp_def)
  then have "mset (map cw_contract es) = image_mset c_id (mset cs)" by simp
  then show "mset (map cw_contract es) = mset (map c_id (filtered_contracts (slice_params a s q) enriched))"
    by (simp add: cs(1))
  fix e assume "e \<in> set es"
  then obtain c where c: "c \<in> set cs" "e = windows_of c (map (g c) (sort (remdups windows)))" unfolding cs(2) by auto
  have "map we_days (cw_windows e) = sort (remdups windows) \<and> (\<forall>w\<in>set (cw_windows e). exact_window pg now d e w)"
    unfolding c(2) by (rule exact_window_sum [OF cs(3) [OF c(1)]])
  then show "map we_days (cw_windows e) = sort (remdups windows)"
    "\<And>w. w \<in> set (cw_windows e) \<Longrightarrow> exact_window pg now d e w" by blast+
qed

section \<open>Witnesses\<close>

definition w_now :: utc where "w_now = 3600000000"

lemma w_enriched_ids: "distinct (map c_id w_enriched)"
  by code_simp

theorem live_differences_exact_witness:
  "\<exists>rows. funding_rate_rows H8 w_now w_filters w_enriched w_api_db = Inr rows \<and>
     mk_diff (w_contract 1 ''okx'' 1) (w_contract 2 ''dydx'' 1) 2 1 0 0 \<in> set rows \<and> length rows = 1"
proof -
  let ?o = "funding_rate_rows H8 w_now w_filters w_enriched w_api_db"
  have o: "?o = Inr (projr ?o)" "length (projr ?o) = 1" by code_simp+
  have "newest (recent_points w_now (10 * us_per_minute) (live_points w_api_db) 1) = Some \<lparr>p_time = 3600000000, p_contract = 1, p_rate = 1 / 4\<rparr>"
    "normalized_live_rate H8 1 (1 / 4) = Inr 2"
    "newest (recent_points w_now (10 * us_per_minute) (live_points w_api_db) 2) = Some \<lparr>p_time = 3600000000, p_contract = 2, p_rate = 1 / 8\<rparr>"
    "normalized_live_rate H8 1 (1 / 8) = Inr 1" by code_simp+
  then have r: "has_live_rate H8 w_now w_api_db (w_contract 1 ''okx'' 1) 2" "has_live_rate H8 w_now w_api_db (w_contract 2 ''dydx'' 1) 1"
    by (simp_all add: has_live_rate_def w_contract_def)
  have c: "w_contract 1 ''okx'' 1 \<in> set (filtered_contracts w_filters w_enriched)"
    "w_contract 2 ''dydx'' 1 \<in> set (filtered_contracts w_filters w_enriched)"
    "c_asset (w_contract 1 ''okx'' 1) = c_asset (w_contract 2 ''dydx'' 1)"
    "pairing_condition (f_compare w_filters) (w_contract 1 ''okx'' 1) (w_contract 2 ''dydx'' 1)" by code_simp+
  have "mk_diff (w_contract 1 ''okx'' 1) (w_contract 2 ''dydx'' 1) 2 1 0 0 \<in> set (projr ?o)"
    unfolding conjunct1 [OF live_differences_exact [OF o(1) w_enriched_ids]] using r c by blast
  then show ?thesis using o by blast
qed

definition w_request :: diff_request where
  "w_request = \<lparr>q_assets = None, q_sections = None, q_quotes = None, q_compare = None, q_min_diff = Some (1 / 2), q_offset = 0, q_limit = 20\<rparr>"

text \<open>Two of three contracts have the same rate, so the third differs from both by 1.\<close>

definition w_tied_db :: db where
  "w_tied_db = w_api_db\<lparr>live_points := \<lparr>p_time = 3600000000, p_contract = 3, p_rate = 1\<rparr> # live_points w_api_db\<rparr>"

text \<open>The statement of an odd page orders tied rows the other way round.\<close>

definition w_plans :: "nat \<Rightarrow> diff_row \<Rightarrow> nat" where
  "w_plans k r = (if odd k then 10 - d_id1 r - d_id2 r else d_id1 r + d_id2 r)"

definition w_rows :: "diff_row list" where
  "w_rows = projr (funding_rate_rows H8 w_now (request_filters w_request) w_enriched w_tied_db)"

lemma w_rows_table:
  "map_sum id (map (\<lambda>r. (d_abs r, d_id1 r, d_id2 r))) (funding_rate_rows H8 w_now (request_filters w_request) w_enriched w_tied_db) =
   Inr [(1, 1, 2), (1, 1, 3), (0, 2, 3)]"
  by code_simp

lemma w_rows:
  "funding_rate_rows H8 w_now (request_filters w_request) w_enriched w_tied_db = Inr w_rows"
  "map d_abs w_rows = [1, 1, 0]" "map (\<lambda>r. (d_id1 r, d_id2 r)) w_rows = [(1, 2), (1, 3), (2, 3)]"
proof -
  let ?o = "funding_rate_rows H8 w_now (request_filters w_request) w_enriched w_tied_db"
  obtain rs where rs: "?o = Inr rs" using w_rows_table by (cases ?o) auto
  then have "map (\<lambda>r. (d_abs r, d_id1 r, d_id2 r)) w_rows = [(1, 1, 2), (1, 1, 3), (0, 2, 3)]"
    using w_rows_table by (simp add: w_rows_def)
  from arg_cong [OF this, of "map fst"] arg_cong [OF this, of "map snd"] rs
  show "?o = Inr w_rows" "map d_abs w_rows = [1, 1, 0]" "map (\<lambda>r. (d_id1 r, d_id2 r)) w_rows = [(1, 2), (1, 3), (2, 3)]"
    by (simp_all add: w_rows_def comp_def)
qed

lemma w_rows_cases:
  obtains a b c where "w_rows = [a, b, c]" "d_abs a = 1" "d_abs b = 1" "d_abs c = 0"
    "d_id1 a = 1" "d_id2 a = 2" "d_id1 b = 1" "d_id2 b = 3"
proof -
  obtain a b c where rows: "w_rows = [a, b, c]" using arg_cong [OF w_rows(2), of length] by (auto simp: length_Suc_conv eval_nat_numeral)
  show ?thesis using that [OF rows] w_rows(2,3) by (simp add: rows)
qed

theorem difference_pages_partition_witness:
  "\<exists>p0 p1. funding_rate_differences (w_plans 0) w_now w_enriched w_tied_db H8 (w_request\<lparr>q_offset := 0, q_limit := 2\<rparr>) = Inr p0 \<and>
     funding_rate_differences (w_plans 1) w_now w_enriched w_tied_db H8 (w_request\<lparr>q_offset := 2, q_limit := 2\<rparr>) = Inr p1 \<and>
     length (filter (\<lambda>r. d_abs r = 1) (pg_data p0)) = 2 \<and> filter (\<lambda>r. d_abs r = 1) (pg_data p1) = [] \<and> pg_total p0 = 2 \<and>
     pg_total p1 = 0"
proof -
  let ?sel = "filter (\<lambda>r. \<forall>m. q_min_diff w_request = Some m \<longrightarrow> m \<le> d_abs r) w_rows"
  obtain a b c where abc: "w_rows = [a, b, c]" "d_abs a = 1" "d_abs b = 1" "d_abs c = 0" by (rule w_rows_cases)
  have o: "length (filter (\<lambda>r. 1 / 2 \<le> d_abs r) w_rows) = 2" "length (filter (\<lambda>r. d_abs r = 1) w_rows) = 2"
    by (simp_all add: abc)
  have m: "q_min_diff w_request = Some (1 / 2)" by (simp add: w_request_def)
  have sel: "?sel = filter (\<lambda>r. 1 / 2 \<le> d_abs r) w_rows" by (intro filter_cong refl) (simp only: m option.inject, blast)
  have one: "filter (\<lambda>r. d_abs r = 1) (filter (\<lambda>r. 1 / 2 \<le> d_abs r) xs) = filter (\<lambda>r. d_abs r = 1) xs" for xs :: "diff_row list"
    unfolding filter_filter by (rule filter_cong) auto
  have "\<forall>m. q_min_diff w_request = Some m \<longrightarrow> 0 \<le> m" "1 \<le> (2 :: nat)" "2 \<le> (100 :: nat)" by (simp_all add: m)
  from difference_pages_partition [OF w_rows(1) this refl, of w_plans] obtain pages where
    p: "\<forall>k. funding_rate_differences (w_plans k) w_now w_enriched w_tied_db H8 (w_request\<lparr>q_offset := int (k * 2), q_limit := int 2\<rparr>) = Inr (pages k)"
      "\<forall>v k. k * 2 \<le> length (filter (\<lambda>r. v < d_abs r) ?sel) \<and> length (filter (\<lambda>r. v \<le> d_abs r) ?sel) \<le> Suc k * 2 \<longrightarrow>
        (\<forall>j. mset (filter (\<lambda>r. d_abs r = v) (pg_data (pages j))) = (if j = k then mset (filter (\<lambda>r. d_abs r = v) ?sel) else {#}))"
      "\<forall>k. pg_has_more (pages k) = (Suc k * 2 < length ?sel) \<and> pg_total (pages k) = (if k * 2 < length ?sel then length ?sel else 0)"
    by blast
  have pre: "0 * 2 \<le> length (filter (\<lambda>r. 1 < d_abs r) ?sel) \<and> length (filter (\<lambda>r. 1 \<le> d_abs r) ?sel) \<le> Suc 0 * 2"
    using length_filter_le [of "\<lambda>r. 1 \<le> d_abs r" ?sel] o(1) sel by simp
  have t: "mset (filter (\<lambda>r. d_abs r = 1) (pg_data (pages j))) =
      (if j = 0 then mset (filter (\<lambda>r. d_abs r = 1) w_rows) else {#})" for j
    using spec [OF mp [OF spec [OF spec [OF p(2), of 1], of 0] pre], of j] unfolding sel one .
  have "length (filter (\<lambda>r. d_abs r = 1) (pg_data (pages 0))) = 2" "filter (\<lambda>r. d_abs r = 1) (pg_data (pages 1)) = []"
    using t [of 0] t [of 1] o(2) by (metis (full_types) size_mset, metis (full_types) mset_zero_iff zero_neq_one)
  moreover have "length ?sel = 2" unfolding sel by (rule o(1))
  then have "pg_total (pages 0) = 2" "pg_total (pages 1) = 0" using p(3) [rule_format, of 0] p(3) [rule_format, of 1] by (simp_all only:) simp_all
  ultimately show ?thesis using p(1) [rule_format, of 0] p(1) [rule_format, of 1]
    by (intro exI [of _ "pages 0"] exI [of _ "pages 1"]) simp
qed

text \<open>With pages of one row the two tied rows come in both orders: the same pair twice, the other one never, under a
  total of 2.\<close>

lemma difference_pages_lose_ties:
  "\<exists>p0 p1 r. funding_rate_differences (w_plans 0) w_now w_enriched w_tied_db H8 (w_request\<lparr>q_offset := 0, q_limit := 1\<rparr>) = Inr p0 \<and>
     funding_rate_differences (w_plans 1) w_now w_enriched w_tied_db H8 (w_request\<lparr>q_offset := 1, q_limit := 1\<rparr>) = Inr p1 \<and>
     pg_data p0 = [r] \<and> pg_data p1 = [r] \<and> pg_total p0 = 2 \<and> pg_total p1 = 2 \<and> \<not> pg_has_more p1"
proof -
  obtain a b c where rows: "w_rows = [a, b, c]"
    and v: "d_abs a = 1" "d_abs b = 1" "d_abs c = 0" "d_id1 a = 1" "d_id2 a = 2" "d_id1 b = 1" "d_id2 b = 3" by (rule w_rows_cases)
  have req: "request_filters (w_request\<lparr>q_offset := i, q_limit := j\<rparr>) = request_filters w_request" for i j
    by (simp add: request_filters_def)
  have sel: "select_diffs (w_plans 0) (Some (1 / 2)) w_rows = [a, b]" "select_diffs (w_plans 1) (Some (1 / 2)) w_rows = [b, a]"
    by (simp_all add: select_diffs_def rows v w_plans_def Let_def)
  have m: "q_min_diff w_request = Some (1 / 2)" by (simp add: w_request_def)
  show ?thesis
    by (simp add: funding_rate_differences_def get_funding_rate_differences_def req w_rows(1) check_page_params_def
        m respond_def sel [unfolded One_nat_def] paginate_def sql_page_def Let_def)
qed

theorem historical_sums_exact_witness:
  "\<exists>es. historical_sums_endpoint w_pg w_now w_enriched w_api_db (Some [''BTC''], None, None) [7, 1, 7] = Inr es \<and> length es = 3 \<and>
     (\<exists>e\<in>set es. cw_contract e = 1 \<and> map we_days (cw_windows e) = [1, 7])"
proof -
  let ?o = "historical_sums_endpoint w_pg w_now w_enriched w_api_db (Some [''BTC''], None, None) [7, 1, 7]"
  have o: "?o = Inr (projr ?o)" "map cw_contract (projr ?o) = [3, 2, 1]" "sort (remdups [7, 1, 7]) = [1::int, 7]" by code_simp+
  note h = conjunct2 [OF conjunct2 [OF historical_sums_exact [OF w_enriched_ids]], rule_format, OF o(1)]
  have "1 \<in> set (map cw_contract (projr ?o))" by (simp only: o(2)) simp
  then have "\<exists>e\<in>set (projr ?o). cw_contract e = 1" by auto
  moreover have "length (map cw_contract (projr ?o)) = 3" by (simp only: o(2)) simp
  moreover have "map we_days (cw_windows e) = [1, 7]" if "e \<in> set (projr ?o)" for e
    using conjunct2 [OF h, rule_format, OF that] unfolding o(3) by (rule conjunct1)
  ultimately show ?thesis using o(1) unfolding length_map by blast
qed

end
