(* ===== verification/ApiApp.thy ===== *)
theory ApiApp
  imports Api Selection
begin

text \<open>
  The application that serves the endpoints: \<open>api/main.py\<close>, \<open>api/db.py\<close>, \<open>api/settings.py\<close>, the routers and
  the wrappers of \<open>api/dto/\<close>. The state of a process is the engine and the session factory that the lifespan
  keeps in \<open>app.state\<close>. Starlette asks the routes in the order of their registration;
  \<open>create\<close> is what the construction of the engine raises. That a session is closed at the end of its scope is
  SQLAlchemy's own doing and not modelled.
\<close>

section \<open>Settings\<close>

datatype names_or_star = Names "string list" | Star

record CORSSettings =
  allow_origins :: "names_or_star option"
  allow_origin_regex :: "string option"
  allow_methods :: "names_or_star option"
  allow_headers :: "names_or_star option"
  allow_credentials :: "bool option"
  allow_private_network :: "bool option"
  expose_headers :: "string list option"
  max_age :: "int option"

definition names_json :: "names_or_star \<Rightarrow> json" where
  "names_json v = (case v of Names ns \<Rightarrow> JArr (map JStr ns) | Star \<Rightarrow> JStr ''*'')"

definition cors_dump :: "CORSSettings \<Rightarrow> (string \<times> json option) list" where
  "cors_dump s = [(''allow_origins'', map_option names_json (allow_origins s)),
     (''allow_origin_regex'', map_option JStr (allow_origin_regex s)),
     (''allow_methods'', map_option names_json (allow_methods s)),
     (''allow_headers'', map_option names_json (allow_headers s)),
     (''allow_credentials'', map_option JBool (allow_credentials s)),
     (''allow_private_network'', map_option JBool (allow_private_network s)),
     (''expose_headers'', map_option (\<lambda>ns. JArr (map JStr ns)) (expose_headers s)),
     (''max_age'', map_option JInt (max_age s))]"

definition to_middleware_kwargs :: "CORSSettings \<Rightarrow> kwargs" where
  "to_middleware_kwargs s = List.map_filter (\<lambda>(k, v). map_option (\<lambda>v. (k, v)) v) (cors_dump s)"

text \<open>The configuration is read once and cached.\<close>

record api_db_config =
  ac_url :: string
  ac_tuning :: db_tuning

definition load_api_db_config :: "string res \<Rightarrow> kwargs \<Rightarrow> kwargs \<Rightarrow> api_db_config res" where
  "load_api_db_config url ek sk = rbind url (\<lambda>u.
     Inr \<lparr>ac_url = u, ac_tuning = apply_defaults \<lparr>engine_kwargs = ek, session_kwargs = sk\<rparr>\<rparr>)"

section \<open>Routes\<close>

datatype segment = Lit string | Param string

datatype endpoint = HistoricalPoints | LivePoints | HistoricalSums | LiveDifferences | HistoricalDifferences
  | CumulativeDifferences | FundingWall | LiveLatest | HistoricalLatest | HistoricalAvg
  | GetAssets | GetSections | GetQuotes | SearchContracts | GetContractMeta | Healthcheck

type_synonym router = "(segment list \<times> endpoint) list"

definition under_prefix :: "string list \<Rightarrow> router \<Rightarrow> router" where
  "under_prefix p r = map (\<lambda>(path, e). (map Lit p @ path, e)) r"

definition meta_router :: router where
  "meta_router = under_prefix [''meta''] [
     ([Lit ''assets''], GetAssets), ([Lit ''sections''], GetSections), ([Lit ''quotes''], GetQuotes),
     ([Lit ''contracts'', Lit ''search''], SearchContracts),
     ([Lit ''contracts'', Param ''contract_id''], GetContractMeta)]"

definition funding_data_router :: router where
  "funding_data_router = under_prefix [''funding-data''] [
     ([Lit ''historical_points''], HistoricalPoints), ([Lit ''live_points''], LivePoints),
     ([Lit ''historical_sums''], HistoricalSums), ([Lit ''diff'', Lit ''live_differences''], LiveDifferences),
     ([Lit ''diff'', Lit ''historical_differences''], HistoricalDifferences),
     ([Lit ''diff'', Lit ''historical_cumulative_differences''], CumulativeDifferences),
     ([Lit ''funding-wall''], FundingWall), ([Lit ''live_latest''], LiveLatest),
     ([Lit ''historical_latest''], HistoricalLatest), ([Lit ''historical_avg''], HistoricalAvg)]"

definition v0_router :: router where
  "v0_router = under_prefix [''api'', ''v0''] (meta_router @ funding_data_router)"

definition app_routes :: router where
  "app_routes = v0_router @ [([Lit ''health''], Healthcheck)]"

fun matches :: "segment list \<Rightarrow> string list \<Rightarrow> bool" where
  "matches [] [] = True"
| "matches (Lit s # ss) (w # ws) = (s = w \<and> matches ss ws)"
| "matches (Param n # ss) (w # ws) = (w \<noteq> [] \<and> matches ss ws)"
| "matches _ _ = False"

definition find_route :: "string list \<Rightarrow> endpoint option" where
  "find_route path = map_option snd (find (\<lambda>(p, e). matches p path) app_routes)"

section \<open>Requests\<close>

record api_process =
  ap_engine :: bool
  ap_factory :: bool

definition stopped :: api_process where
  "stopped = \<lparr>ap_engine = False, ap_factory = False\<rparr>"

text \<open>\<open>lifespan\<close> before and after its \<open>yield\<close>; the factory goes first, then the engine.\<close>

definition lifespan_enter :: "unit res \<Rightarrow> api_process \<Rightarrow> api_process res" where
  "lifespan_enter create p = rbind create (\<lambda>_. Inr (p\<lparr>ap_engine := True, ap_factory := True\<rparr>))"

definition lifespan_exit :: "api_process \<Rightarrow> api_process" where
  "lifespan_exit p = p\<lparr>ap_factory := False, ap_engine := False\<rparr>"

text \<open>The dependency of every endpoint: without the factory it raises, and the handler does not run.\<close>

definition get_session :: "api_process \<Rightarrow> unit res" where
  "get_session p = (if \<not> ap_factory p then Inl RuntimeError else Inr ())"

definition with_session :: "api_process \<Rightarrow> 'a response \<Rightarrow> 'a response" where
  "with_session p handler = (case get_session p of Inl exc \<Rightarrow> Inl (Escaped exc) | Inr _ \<Rightarrow> handler)"

record http_response =
  hr_status :: int
  hr_body :: json

definition generic_exception_handler :: "pyexc \<Rightarrow> http_response" where
  "generic_exception_handler exc = \<lparr>hr_status = 500, hr_body = JObj [(''error'', JObj [(''code'', JStr ''INTERNAL_ERROR''),
     (''message'', JStr ''Internal server error''), (''details'', JObj [])])]\<rparr>"

text \<open>The endpoints of \<open>meta.py\<close> wrap what they return; those of \<open>funding_data.py\<close> return a bare list or page.\<close>

definition base_response :: "json \<Rightarrow> json" where
  "base_response data = JObj [(''data'', data), (''meta'', JNull)]"

definition returns_base_response :: "endpoint \<Rightarrow> bool" where
  "returns_base_response e = (e \<in> {GetAssets, GetSections, GetQuotes, SearchContracts, GetContractMeta})"

text \<open>\<open>response_model_exclude_none\<close>, set on the search only.\<close>

fun exclude_none :: "json \<Rightarrow> json" where
  "exclude_none (JObj kvs) = JObj (filter (\<lambda>(k, v). v \<noteq> JNull) (map (\<lambda>(k, v). (k, exclude_none v)) kvs))"
| "exclude_none (JArr xs) = JArr (map exclude_none xs)"
| "exclude_none v = v"

definition response_body :: "endpoint \<Rightarrow> json \<Rightarrow> json" where
  "response_body e data = (let body = if returns_base_response e then base_response data else data in
     if e = SearchContracts then exclude_none body else body)"

text \<open>FastAPI's own handler turns an \<open>HTTPException\<close> into its status and detail.\<close>

definition answer :: "endpoint \<Rightarrow> json response \<Rightarrow> http_response" where
  "answer e r = (case r of Inl (Http code detail) \<Rightarrow> \<lparr>hr_status = code, hr_body = JObj [(''detail'', JStr detail)]\<rparr>
     | Inl (Escaped exc) \<Rightarrow> generic_exception_handler exc
     | Inr data \<Rightarrow> \<lparr>hr_status = 200, hr_body = response_body e data\<rparr>)"

definition healthcheck :: http_response where
  "healthcheck = \<lparr>hr_status = 200, hr_body = JObj [(''status'', JStr ''ok'')]\<rparr>"

text \<open>\<open>handlers\<close> are the endpoints on the database of the request.\<close>

definition serve :: "(endpoint \<Rightarrow> json response) \<Rightarrow> string list \<Rightarrow> api_process \<Rightarrow> http_response" where
  "serve handlers path p = (case find_route path of
     None \<Rightarrow> \<lparr>hr_status = 404, hr_body = JObj [(''detail'', JStr ''Not Found'')]\<rparr>
   | Some Healthcheck \<Rightarrow> healthcheck
   | Some e \<Rightarrow> answer e (with_session p (handlers e)))"

datatype api_event = Startup "unit res" | Request "endpoint \<Rightarrow> json response" "string list" | Shutdown

text \<open>The server delivers requests between a startup that succeeds and the shutdown.\<close>

fun run_app :: "api_event list \<Rightarrow> api_process \<Rightarrow> http_response list \<times> api_process" where
  "run_app [] p = ([], p)"
| "run_app (Startup create # es) p = (case lifespan_enter create p of Inl _ \<Rightarrow> ([], p) | Inr p \<Rightarrow> run_app es p)"
| "run_app (Request handlers path # es) p = (case run_app es p of (rs, q) \<Rightarrow> (serve handlers path p # rs, q))"
| "run_app (Shutdown # es) p = run_app es (lifespan_exit p)"

section \<open>Lemmas\<close>

definition expected_answer :: "(endpoint \<Rightarrow> json response) \<Rightarrow> string list \<Rightarrow> http_response" where
  "expected_answer handlers path = (case find_route path of
     None \<Rightarrow> \<lparr>hr_status = 404, hr_body = JObj [(''detail'', JStr ''Not Found'')]\<rparr>
   | Some Healthcheck \<Rightarrow> healthcheck
   | Some e \<Rightarrow> answer e (handlers e))"

lemma serve_started: "ap_factory p \<Longrightarrow> serve handlers path p = expected_answer handlers path"
  by (auto simp: serve_def expected_answer_def with_session_def get_session_def split: option.splits endpoint.splits)

lemma serve_stopped:
  assumes "\<not> ap_factory p" and "find_route path = Some e" and "e \<noteq> Healthcheck"
  shows "serve handlers path p = generic_exception_handler RuntimeError"
  using assms by (cases e) (simp_all add: serve_def with_session_def get_session_def answer_def)

lemma run_requests: "ap_factory p \<Longrightarrow> run_app (map (\<lambda>(h, path). Request h path) reqs @ es) p =
    (case run_app es p of (rs, q) \<Rightarrow> (map (\<lambda>(h, path). expected_answer h path) reqs @ rs, q))"
  by (induction reqs) (auto simp: serve_started split: prod.splits)


definition search_path :: "string list" where
  "search_path = [''api'', ''v0'', ''meta'', ''contracts'', ''search'']"

fun overlap :: "segment list \<Rightarrow> segment list \<Rightarrow> bool" where
  "overlap [] [] = True"
| "overlap (Lit s # ss) (Lit t # ts) = (s = t \<and> overlap ss ts)"
| "overlap (s # ss) (t # ts) = overlap ss ts"
| "overlap _ _ = False"

lemma matches_overlap: "matches p path \<Longrightarrow> matches q path \<Longrightarrow> overlap p q"
  by (induction p q arbitrary: path rule: overlap.induct) (auto elim: matches.elims)

lemma matches_literal: "matches (map Lit ws) path \<longleftrightarrow> path = ws"
  by (induction ws arbitrary: path; case_tac path) auto

text \<open>Only the search and the route of a single contract overlap.\<close>

lemma routes_apart:
  "list_all (\<lambda>(p, e). (e = SearchContracts \<longrightarrow> p = map Lit search_path) \<and>
     list_all (\<lambda>(q, f). overlap p q \<longrightarrow> e = f \<or> e = SearchContracts \<or> f = SearchContracts) app_routes) app_routes"
  by code_simp

lemma find_route_exact:
  assumes "(p, e) \<in> set app_routes" and "matches p path" and "path \<noteq> search_path"
  shows "find_route path = Some e"
proof -
  obtain q f where f: "find (\<lambda>(p, e). matches p path) app_routes = Some (q, f)"
    using assms(1,2) by (cases "find (\<lambda>(p, e). matches p path) app_routes") (auto simp: find_None_iff)
  then have q: "(q, f) \<in> set app_routes" "matches q path" by (auto simp: find_Some_iff) (metis nth_mem)
  have "e = f \<or> e = SearchContracts \<or> f = SearchContracts"
    using routes_apart assms(1) q matches_overlap [OF assms(2) q(2)] by (fastforce simp: list_all_iff)
  moreover have "e' \<noteq> SearchContracts" if "(p', e') \<in> set app_routes" "matches p' path" for p' e'
    using routes_apart that assms(3) by (auto simp: list_all_iff matches_literal)
  ultimately show ?thesis using f q assms(1,2) by (auto simp: find_route_def)
qed

lemma find_search: "find_route search_path = Some SearchContracts"
  by code_simp

text \<open>The wrapped answers are those below one prefix.\<close>

lemma wrapped_below_meta:
  assumes "find_route path = Some e"
  shows "returns_base_response e \<longleftrightarrow> take 3 path = [''api'', ''v0'', ''meta'']"
proof -
  obtain p where p: "(p, e) \<in> set app_routes" "matches p path"
    using assms by (auto simp: find_route_def find_Some_iff) (metis nth_mem)
  have h: "list_all (\<lambda>(p, e). if e = Healthcheck then p = [Lit ''health'']
      else take 2 p = [Lit ''api'', Lit ''v0''] \<and> (\<exists>s\<in>{''meta'', ''funding-data''}. take 1 (drop 2 p) = [Lit s] \<and>
        (returns_base_response e \<longleftrightarrow> s = ''meta''))) app_routes"
    by code_simp
  have pe: "if e = Healthcheck then p = [Lit ''health'']
      else take 2 p = [Lit ''api'', Lit ''v0''] \<and> (\<exists>s\<in>{''meta'', ''funding-data''}. take 1 (drop 2 p) = [Lit s] \<and>
        (returns_base_response e \<longleftrightarrow> s = ''meta''))"
    using bspec [OF h [unfolded list_all_iff] p(1)] by (simp only: prod.case)
  have m: "matches (Lit s # ss) path \<longleftrightarrow> (\<exists>ws. path = s # ws \<and> matches ss ws)" for s ss path by (cases path) auto
  show ?thesis
  proof (cases "e = Healthcheck")
    case True
    then have "p = [Lit ''health'']" using pe by simp
    then show ?thesis using p(2) True by (auto simp: m returns_base_response_def)
  next
    case False
    then obtain s where s: "take 2 p = [Lit ''api'', Lit ''v0'']" "take 1 (drop 2 p) = [Lit s]" "s \<in> {''meta'', ''funding-data''}"
      "returns_base_response e \<longleftrightarrow> s = ''meta''" using False pe by auto
    have "p = take 2 p @ take 1 (drop 2 p) @ drop 1 (drop 2 p)" by (metis append_take_drop_id)
    then have "p = Lit ''api'' # Lit ''v0'' # Lit s # drop 1 (drop 2 p)" unfolding s append_Cons append_Nil .
    from subst [OF this, of "\<lambda>p. matches p path", OF p(2)]
    obtain ws where "path = ''api'' # ''v0'' # s # ws" unfolding m by blast
    then show ?thesis using s(3,4) by auto
  qed
qed

section \<open>Properties\<close>

text \<open>C39. A request to a registered route, between the startup and the shutdown and among any others, is answered
  by its endpoint, where the path of the search is answered by the search and not by the route of a
  single contract. What the endpoint returns is the body as it is, except below \<open>/api/v0/meta\<close>, where it is
  wrapped with the key \<open>data\<close>, and the search leaves out what has no value. An exception that
  escapes is answered by a response that does not depend on it, and after the shutdown an
  endpoint answers so too, as no session can be opened.\<close>

theorem api_serves:
  assumes "(p, e0) \<in> set app_routes" and "e0 \<noteq> Healthcheck" and "matches p path"
    and "e = (if path = search_path then SearchContracts else e0)"
  shows "run_app (Startup (Inr ()) # map (\<lambda>(h, path). Request h path) before @ Request handlers path #
        map (\<lambda>(h, path). Request h path) after @ [Shutdown, Request handlers path]) stopped =
      (map (\<lambda>(h, path). expected_answer h path) before @ answer e (handlers e) #
        map (\<lambda>(h, path). expected_answer h path) after @ [generic_exception_handler RuntimeError], stopped) \<and>
    (\<forall>exc. handlers e = Inl (Escaped exc) \<longrightarrow> answer e (handlers e) = generic_exception_handler RuntimeError) \<and>
    (\<forall>data. handlers e = Inr data \<longrightarrow> answer e (handlers e) = \<lparr>hr_status = 200, hr_body =
      if path = search_path then exclude_none (JObj [(''data'', data), (''meta'', JNull)])
      else if take 3 path = [''api'', ''v0'', ''meta''] then JObj [(''data'', data), (''meta'', JNull)] else data\<rparr>)"
proof -
  let ?started = "\<lparr>ap_engine = True, ap_factory = True\<rparr>"
  have r: "find_route path = Some e" using find_route_exact [OF assms(1,3)] find_search assms(4) by simp
  have e: "e \<noteq> Healthcheck" using assms(2,4) by simp
  have s: "lifespan_enter (Inr ()) stopped = Inr ?started" by (simp add: lifespan_enter_def stopped_def)
  have a: "expected_answer handlers path = answer e (handlers e)" using r e
    by (cases e) (simp_all add: expected_answer_def)
  have x: "lifespan_exit ?started = stopped" by (simp add: lifespan_exit_def stopped_def)
  have late: "serve handlers path stopped = generic_exception_handler RuntimeError"
    by (rule serve_stopped [OF _ r e]) (simp add: stopped_def)
  have "serve handlers path ?started = answer e (handlers e)" using serve_started [of ?started handlers path] by (simp add: a)
  moreover have "response_body e data = (if path = search_path then exclude_none (JObj [(''data'', data), (''meta'', JNull)])
      else if take 3 path = [''api'', ''v0'', ''meta''] then JObj [(''data'', data), (''meta'', JNull)] else data)" for data
  proof -
    have "e = SearchContracts \<longleftrightarrow> path = search_path" using assms(1,3,4) routes_apart by (auto simp: list_all_iff matches_literal)
    then show ?thesis using wrapped_below_meta [OF r] by (auto simp: response_body_def base_response_def returns_base_response_def)
  qed
  ultimately show ?thesis using s x late by (simp add: run_requests answer_def generic_exception_handler_def)
qed

lemma witness_routes:
  "(map Lit [''api'', ''v0'', ''meta'', ''contracts''] @ [Param ''contract_id''], GetContractMeta) \<in> set app_routes"
  "find_route [''health''] = Some Healthcheck"
  by code_simp+

text \<open>The path of the search also fits the route of a contract.\<close>

theorem api_serves_witness:
  "run_app [Startup (Inr ()), Request (\<lambda>_. Inr (JInt 1)) [''health''],
      Request (\<lambda>e. if e = SearchContracts then Inr (JArr [JNull, JObj [(''fuzzy_score'', JNull)]]) else Inl (Escaped ValueError)) search_path,
      Shutdown,
      Request (\<lambda>e. if e = SearchContracts then Inr (JArr [JNull, JObj [(''fuzzy_score'', JNull)]]) else Inl (Escaped ValueError)) search_path] stopped =
    ([healthcheck, \<lparr>hr_status = 200, hr_body = JObj [(''data'', JArr [JNull, JObj []])]\<rparr>, generic_exception_handler RuntimeError], stopped)"
proof -
  let ?h = "\<lambda>e. if e = SearchContracts then Inr (JArr [JNull, JObj [(''fuzzy_score'', JNull)]]) else Inl (Escaped ValueError)"
  have m: "matches (map Lit [''api'', ''v0'', ''meta'', ''contracts''] @ [Param ''contract_id'']) search_path"
    by (simp add: search_path_def)
  note a = api_serves [OF witness_routes(1) _ m refl, of "[(\<lambda>_. Inr (JInt 1), [''health''])]" ?h "[]"]
  show ?thesis using a witness_routes(2) by (simp add: expected_answer_def)
qed

end
