(* ===== verification/AdaptersBinance.thy ===== *)
theory AdaptersBinance
  imports Adapter
begin

text \<open>
  The adapters with the Binance API: USD-M and COIN-M futures of Binance, and Aster, of the tracker
  (\<open>tracker/exchanges\<close>) and of live ingestion (\<open>ingestion/exchanges\<close>, prefix \<open>ing\<close>).
\<close>

section \<open>Binance USD-M\<close>

definition usdm_format_symbol :: "contract_row \<Rightarrow> string" where
  "usdm_format_symbol c = c_asset c @ c_quote c"

text \<open>\<open>{item["symbol"]: item["fundingIntervalHours"] for item in ...}\<close>.\<close>

definition usdm_intervals :: "json \<Rightarrow> (json, json) dict res" where
  "usdm_intervals funding = rbind (jiter funding) (\<lambda>items.
     rbind (rmap (\<lambda>item. rbind (jkey item ''symbol'') (\<lambda>s. rbind (jkey item ''fundingIntervalHours'') (\<lambda>h.
       rbind (jhash s) (\<lambda>s. Inr (s, h))))) items) (\<lambda>ps. Inr (dict_of ps)))"

definition usdm_get_contracts :: "api \<Rightarrow> listing list res" where
  "usdm_get_contracts api =
     rbind (api_get api 0 ''https://fapi.binance.com/fapi/v1/exchangeInfo'' []) (\<lambda>exchange.
     rbind (api_get api 1 ''https://fapi.binance.com/fapi/v1/fundingInfo'' []) (\<lambda>funding.
     rbind (usdm_intervals funding) (\<lambda>funding_intervals.
     rbind (jkey exchange ''symbols'') (\<lambda>symbols. rbind (jiter symbols) (\<lambda>instruments.
     rcollect (\<lambda>i. rbind (jkey i ''contractType'') (\<lambda>ty.
       if jeq_str ty ''PERPETUAL'' then
         rbind (jkey i ''pair'') (\<lambda>p. rbind (jhash p) (\<lambda>p.
         rbind (jkey i ''baseAsset'') (\<lambda>a. rbind (jkey i ''quoteAsset'') (\<lambda>q.
         rbind (mk_listing ''binance_usd-m'' a q
           (case map_of funding_intervals p of None \<Rightarrow> JInt 8 | Some h \<Rightarrow> h)) (\<lambda>l. Inr (Some l))))))
       else Inr None)) instruments)))))"

definition usdm_fetch_history :: "api \<Rightarrow> fetch_history" where
  "usdm_fetch_history api c start_ms end_ms =
     rbind (api_get api 0 ''https://fapi.binance.com/fapi/v1/fundingRate''
       [(''symbol'', JStr (usdm_format_symbol c)), (''startTime'', JInt start_ms), (''endTime'', JInt end_ms),
        (''limit'', JInt 1000)]) (\<lambda>response.
     if truthy response
     then rbind (jiter response) (history_points (float_at ''fundingRate'') (ms_at ''fundingTime''))
     else Inr [])"

definition last_funding_rate_item :: "json \<Rightarrow> (json \<times> rat) option res" where
  "last_funding_rate_item item = rbind (jkey item ''symbol'') (\<lambda>s.
     rbind (float_at ''lastFundingRate'' item) (\<lambda>x. Inr (Some (s, x))))"

definition usdm_fetch_live_batch :: "api \<Rightarrow> utc \<Rightarrow> rates res" where
  "usdm_fetch_live_batch api now =
     rbind (api_get api 0 ''https://fapi.binance.com/fapi/v1/premiumIndex'' []) (\<lambda>response.
     rbind (jiter response) (live_rates now last_funding_rate_item))"

definition ing_usdm_format_symbol :: "contract_row \<Rightarrow> string" where
  "ing_usdm_format_symbol c = c_asset c @ c_quote c"

definition ing_usdm_fetch_live_batch :: "api \<Rightarrow> utc \<Rightarrow> rates res" where
  "ing_usdm_fetch_live_batch api now =
     rbind (api_get api 0 ''https://fapi.binance.com/fapi/v1/premiumIndex'' []) (\<lambda>response.
     rbind (jiter response) (live_rates now last_funding_rate_item))"

section \<open>Binance COIN-M\<close>

definition coinm_format_symbol :: "contract_row \<Rightarrow> string" where
  "coinm_format_symbol c = c_asset c @ c_quote c @ ''_PERP''"

definition coinm_get_contracts :: "api \<Rightarrow> listing list res" where
  "coinm_get_contracts api =
     rbind (api_get api 0 ''https://dapi.binance.com/dapi/v1/exchangeInfo'' []) (\<lambda>response.
     rbind (jkey response ''symbols'') (\<lambda>symbols. rbind (jiter symbols) (\<lambda>instruments.
     rcollect (\<lambda>i. rbind (jkey i ''contractType'') (\<lambda>ty.
       if jeq_str ty ''PERPETUAL'' then
         rbind (jkey i ''baseAsset'') (\<lambda>a. rbind (jkey i ''quoteAsset'') (\<lambda>q.
         rbind (mk_listing ''binance_coin-m'' a q (JInt 8)) (\<lambda>l. Inr (Some l))))
       else Inr None)) instruments)))"

definition coinm_fetch_history :: "api \<Rightarrow> fetch_history" where
  "coinm_fetch_history api c start_ms end_ms =
     rbind (api_get api 0 ''https://dapi.binance.com/dapi/v1/fundingRate''
       [(''symbol'', JStr (coinm_format_symbol c)), (''startTime'', JInt start_ms), (''endTime'', JInt end_ms),
        (''limit'', JInt 1000)]) (\<lambda>response.
     if truthy response
     then rbind (jiter response) (history_points (float_at ''fundingRate'') (ms_at ''fundingTime''))
     else Inr [])"

definition coinm_fetch_live_batch :: "api \<Rightarrow> utc \<Rightarrow> rates res" where
  "coinm_fetch_live_batch api now =
     rbind (api_get api 0 ''https://dapi.binance.com/dapi/v1/premiumIndex'' []) (\<lambda>response.
     rbind (jiter response) (live_rates now last_funding_rate_item))"

definition ing_coinm_format_symbol :: "contract_row \<Rightarrow> string" where
  "ing_coinm_format_symbol c = c_asset c @ c_quote c @ ''_PERP''"

definition ing_coinm_fetch_live_batch :: "api \<Rightarrow> utc \<Rightarrow> rates res" where
  "ing_coinm_fetch_live_batch api now =
     rbind (api_get api 0 ''https://dapi.binance.com/dapi/v1/premiumIndex'' []) (\<lambda>response.
     rbind (jiter response) (live_rates now last_funding_rate_item))"

section \<open>Aster\<close>

definition aster_format_symbol :: "contract_row \<Rightarrow> string" where
  "aster_format_symbol c = c_asset c @ c_quote c"

text \<open>\<open>a - b\<close> on JSON numbers: integers subtract exactly, floats round.\<close>

fun jsub :: "json \<Rightarrow> json \<Rightarrow> rat res" where
  "jsub (JInt a) (JInt b) = Inr (of_int (a - b))"
| "jsub a b = rbind (jnumber a) (\<lambda>x. rbind (jnumber b) (\<lambda>y. Inr (fl (x - y))))"

text \<open>\<open>_detect_funding_interval\<close>; its \<open>except Exception\<close> turns every failure into \<open>None\<close>.\<close>

definition aster_detect_body :: "api \<Rightarrow> nat \<Rightarrow> string \<Rightarrow> json \<Rightarrow> (string \<times> int) option res" where
  "aster_detect_body api k symbol premium_item =
     rbind (api_get api k ''https://fapi.asterdex.com/fapi/v1/fundingRate''
       [(''symbol'', JStr symbol), (''limit'', JInt 1)]) (\<lambda>response.
     rbind (assert_arr response) (\<lambda>_.
     if \<not> truthy response then Inr None
     else rbind (jidx response 0) (\<lambda>r. rbind (jkey r ''fundingTime'') (\<lambda>last_time.
       rbind (jkey premium_item ''nextFundingTime'') (\<lambda>next_time.
       rbind (jsub next_time last_time) (\<lambda>interval_ms.
         let interval_hours = fl (fl (interval_ms / 1000) / 3600) in
         if interval_hours \<le> 0 then Inr None
         else Inr (Some (symbol, max 1 (round_half_even interval_hours)))))))))"

definition aster_detect_funding_interval :: "api \<Rightarrow> nat \<Rightarrow> string \<Rightarrow> json \<Rightarrow> (string \<times> int) option" where
  "aster_detect_funding_interval api k symbol premium_item =
     (case aster_detect_body api k symbol premium_item of Inl e \<Rightarrow> None | Inr r \<Rightarrow> r)"

definition aster_premium_lookup :: "json \<Rightarrow> (json, json) dict res" where
  "aster_premium_lookup premium = rbind (jiter premium) (\<lambda>items.
     rbind (rmap (\<lambda>item. rbind (jkey item ''symbol'') (\<lambda>s. rbind (jhash s) (\<lambda>s. Inr (s, item)))) items)
       (\<lambda>ps. Inr (dict_of ps)))"

text \<open>The first loop: the symbols to process, each with its base and quote asset.\<close>

definition aster_symbol :: "(json, json) dict \<Rightarrow> json \<Rightarrow> (string \<times> string \<times> string) option res" where
  "aster_symbol premium_lookup s =
     rbind (jget s ''contractType'' JNull) (\<lambda>ty. if \<not> jeq_str ty ''PERPETUAL'' then Inr None else
     rbind (jget s ''status'' JNull) (\<lambda>st. if \<not> jeq_str st ''TRADING'' then Inr None else
     rbind (jget s ''baseAsset'' (JStr [])) (\<lambda>b. rbind (jget s ''quoteAsset'' (JStr [])) (\<lambda>q.
       if \<not> truthy b \<or> \<not> truthy q then Inr None
       else rbind (jstr b) (\<lambda>b. rbind (jstr q) (\<lambda>q.
         if map_of premium_lookup (JStr (b @ q)) = None then Inr None
         else Inr (Some (b @ q, b, q))))))))"

text \<open>The requests and the symbols to process; then the detected listings.\<close>

definition aster_symbols :: "api \<Rightarrow> ((json, json) dict \<times> (string \<times> string \<times> string) list) res" where
  "aster_symbols api =
     rbind (api_get api 0 ''https://fapi.asterdex.com/fapi/v1/exchangeInfo'' []) (\<lambda>exchange.
     rbind (api_get api 1 ''https://fapi.asterdex.com/fapi/v1/premiumIndex'' []) (\<lambda>premium.
     rbind (assert_obj exchange) (\<lambda>_. rbind (assert_arr premium) (\<lambda>_.
     rbind (aster_premium_lookup premium) (\<lambda>premium_lookup.
     rbind (jget exchange ''symbols'' (JArr [])) (\<lambda>symbols. rbind (jiter symbols) (\<lambda>infos.
     rbind (rcollect (aster_symbol premium_lookup) infos) (\<lambda>process. Inr (premium_lookup, process)))))))))"

definition aster_result :: "(string, string \<times> string) dict \<Rightarrow> (string \<times> int) option \<Rightarrow> listing option" where
  "aster_result symbol_to_asset_quote r = (case r of None \<Rightarrow> None
     | Some (symbol, funding_interval) \<Rightarrow> (case map_of symbol_to_asset_quote symbol of None \<Rightarrow> None
       | Some (base_asset, quote_asset) \<Rightarrow> Some \<lparr>l_asset = base_asset, l_quote = quote_asset,
           l_interval = funding_interval, l_section = ''aster''\<rparr>))"

definition aster_task :: "api \<Rightarrow> (json, json) dict \<Rightarrow> nat \<times> string \<times> string \<times> string \<Rightarrow> (string \<times> int) option" where
  "aster_task api premium_lookup t = (case t of (k, symbol, _) \<Rightarrow>
     (case map_of premium_lookup (JStr symbol) of None \<Rightarrow> None
      | Some item \<Rightarrow> aster_detect_funding_interval api k symbol item))"

definition aster_get_contracts :: "api \<Rightarrow> listing list res" where
  "aster_get_contracts api = rbind (aster_symbols api) (\<lambda>(premium_lookup, process).
     Inr (List.map_filter (aster_result (dict_of process))
            (map (aster_task api premium_lookup) (enumerate 2 process))))"

definition aster_fetch_history :: "api \<Rightarrow> fetch_history" where
  "aster_fetch_history api c start_ms end_ms =
     rbind (api_get api 0 ''https://fapi.asterdex.com/fapi/v1/fundingRate''
       [(''symbol'', JStr (aster_format_symbol c)), (''startTime'', JInt start_ms), (''endTime'', JInt end_ms),
        (''limit'', JInt 1000)]) (\<lambda>response.
     rbind (assert_arr response) (\<lambda>_.
     if truthy response
     then rbind (jiter response) (history_points (float_at ''fundingRate'') (ms_at ''fundingTime''))
     else Inr []))"

definition aster_fetch_live_batch :: "api \<Rightarrow> utc \<Rightarrow> rates res" where
  "aster_fetch_live_batch api now =
     rbind (api_get api 0 ''https://fapi.asterdex.com/fapi/v1/premiumIndex'' []) (\<lambda>response.
     rbind (assert_arr response) (\<lambda>_. rbind (jiter response) (live_rates now last_funding_rate_item)))"

definition ing_aster_format_symbol :: "contract_row \<Rightarrow> string" where
  "ing_aster_format_symbol c = c_asset c @ c_quote c"

definition ing_aster_fetch_live_batch :: "api \<Rightarrow> utc \<Rightarrow> rates res" where
  "ing_aster_fetch_live_batch api now =
     rbind (api_get api 0 ''https://fapi.asterdex.com/fapi/v1/premiumIndex'' []) (\<lambda>response.
     rbind (assert_arr response) (\<lambda>_. rbind (jiter response) (live_rates now last_funding_rate_item)))"

section \<open>Properties\<close>

lemma aster_detect_bounds:
  "aster_detect_funding_interval api k symbol item = Some (s, i) \<Longrightarrow> s = symbol \<and> 1 \<le> i"
  by (auto simp: aster_detect_funding_interval_def aster_detect_body_def Let_def res_simps
      split: sum.split_asm if_split_asm)

text \<open>Aster's listing is isolated from its interval detection: whether it succeeds depends on the two
  listing requests only, so no failing, malformed or empty answer to a per-symbol request can abort
  it; and every contract it lists has an interval of at least one hour.\<close>

theorem aster_detection_isolated:
  assumes "aster_get_contracts api = Inr ls" and "\<And>k r. k < 2 \<Longrightarrow> api' k r = api k r"
  shows "(\<exists>ls'. aster_get_contracts api' = Inr ls') \<and> (\<forall>l\<in>set ls. 1 \<le> l_interval l \<and> l_section l = ''aster'')"
proof
  have e: "aster_symbols api' = aster_symbols api" using assms(2) by (simp add: aster_symbols_def api_get_def)
  obtain lookup process where p: "aster_symbols api = Inr (lookup, process)"
    "ls = List.map_filter (aster_result (dict_of process)) (map (aster_task api lookup) (enumerate 2 process))"
    using assms(1) by (auto simp: aster_get_contracts_def res_simps)
  show "\<exists>ls'. aster_get_contracts api' = Inr ls'" by (simp add: aster_get_contracts_def e p(1))
  show "\<forall>l\<in>set ls. 1 \<le> l_interval l \<and> l_section l = ''aster''"
  proof
    fix l assume "l \<in> set ls"
    then obtain t where "aster_result (dict_of process) (aster_task api lookup t) = Some l"
      unfolding p(2) by (auto simp: set_map_filter)
    then show "1 \<le> l_interval l \<and> l_section l = ''aster''"
      by (auto simp: aster_result_def aster_task_def split: option.split_asm prod.split_asm dest: aster_detect_bounds)
  qed
qed

definition w_aster_api :: api where
  "w_aster_api k r = (if k = 0 then Inr (JObj [(''symbols'', JArr [JObj [(''contractType'', JStr ''PERPETUAL''),
       (''status'', JStr ''TRADING''), (''baseAsset'', JStr ''BTC''), (''quoteAsset'', JStr ''USDT'')]])])
     else if k = 1 then Inr (JArr [JObj [(''symbol'', JStr ''BTCUSDT''), (''nextFundingTime'', JInt 1700000000000)]])
     else Inr (JArr [JObj [(''fundingTime'', JInt 1699985600000)]]))"

theorem aster_detection_isolated_witness:
  "aster_get_contracts w_aster_api = Inr [\<lparr>l_asset = ''BTC'', l_quote = ''USDT'', l_interval = 4, l_section = ''aster''\<rparr>] \<and>
   (\<exists>ls'. aster_get_contracts (\<lambda>k r. if k < 2 then w_aster_api k r else Inl HTTPError) = Inr ls')"
proof -
  have "aster_get_contracts w_aster_api = Inr [\<lparr>l_asset = ''BTC'', l_quote = ''USDT'', l_interval = 4, l_section = ''aster''\<rparr>]"
    by code_simp
  with aster_detection_isolated [OF this, of "\<lambda>k r. if k < 2 then w_aster_api k r else Inl HTTPError"]
  show ?thesis by simp
qed

end
