(* ===== verification/History.thy ===== *)
theory History
  imports Store
begin

text \<open>
  The two historical workflows: \<open>tracker/orchestration/history_update.py\<close> moves the newest bound
  of each contract forward, \<open>history_backfill.py\<close> walks backward from the oldest stored point
  until the exchange has nothing older. The adapter's \<open>fetch_history_after\<close> and
  \<open>fetch_history_before\<close> are parameters; the backward one also gets the number of the call,
  so its answers may change while the loop runs.

  A task that the run's timeout cancels stops between two transactions. The budget of a
  backfill is the number of iterations it gets before that: with budget 0 the next thing
  that happens is the cancellation. Tasks work on different contracts; they are run here one
  after the other in list order, and theory HistoryState treats arbitrary interleavings.
\<close>

section \<open>Incremental update\<close>

datatype 'a outcome = Done 'a | Raised pyexc | Cancelled

record contract_update_result =
  u_fetched :: nat
  u_written :: nat
  u_failed :: bool

record update_progress =
  up_total :: nat
  up_skipped :: nat
  up_attempted :: nat
  up_updated :: nat
  up_failed :: nat
  up_fetched :: nat
  up_written :: nat

definition no_update :: update_progress where
  "no_update = \<lparr>up_total = 0, up_skipped = 0, up_attempted = 0, up_updated = 0, up_failed = 0,
     up_fetched = 0, up_written = 0\<rparr>"

definition apply_update :: "update_progress \<Rightarrow> contract_update_result \<Rightarrow> update_progress" where
  "apply_update p r = p\<lparr>up_updated := up_updated p + (if u_written r > 0 then 1 else 0),
     up_failed := up_failed p + (if u_failed r then 1 else 0),
     up_fetched := up_fetched p + u_fetched r, up_written := up_written p + u_written r\<rparr>"

text \<open>\<open>_is_fresh\<close> and \<open>_next_fetch_timestamp\<close>.\<close>

definition is_fresh :: "contract_row \<Rightarrow> history_state \<Rightarrow> utc \<Rightarrow> bool" where
  "is_fresh c s now = (case hs_newest s of None \<Rightarrow> False
     | Some t \<Rightarrow> now - (t + seconds 1) < hours (c_interval c))"

definition next_fetch_timestamp :: "history_state \<Rightarrow> utc \<Rightarrow> utc" where
  "next_fetch_timestamp s now = (case hs_newest s of
     None \<Rightarrow> start_of_hour now - seconds 1 | Some t \<Rightarrow> t + seconds 1)"

text \<open>\<open>_update_one_contract\<close>: every exception becomes a failed result.\<close>

definition update_one_contract ::
  "(contract_row \<Rightarrow> utc \<Rightarrow> funding_point list res) \<Rightarrow> utc \<Rightarrow> contract_row \<times> history_state \<Rightarrow>
   db \<Rightarrow> contract_update_result \<times> db" where
  "update_one_contract fetch_after now cs d =
     (case rbind (fetch_after (fst cs) (next_fetch_timestamp (snd cs) now)) (\<lambda>points.
             if points = [] then Inr (\<lparr>u_fetched = 0, u_written = 0, u_failed = False\<rparr>, d)
             else rbind (persist_historical_funding_batch now (c_id (fst cs)) points d) (\<lambda>(b, d').
               Inr (\<lparr>u_fetched = length points, u_written = b_written b, u_failed = False\<rparr>, d')))
      of Inl e \<Rightarrow> (\<lparr>u_fetched = 0, u_written = 0, u_failed = True\<rparr>, d)
       | Inr r \<Rightarrow> r)"

text \<open>The tasks of one run; \<open>cancel\<close> tells which of them the timeout cancels before their
  transaction. The flag tells whether the run completed.\<close>

fun run_updates ::
  "(contract_row \<Rightarrow> bool) \<Rightarrow> (contract_row \<Rightarrow> utc \<Rightarrow> funding_point list res) \<Rightarrow> utc \<Rightarrow>
   (contract_row \<times> history_state) list \<Rightarrow> update_progress \<Rightarrow> db \<Rightarrow> bool \<times> update_progress \<times> db" where
  "run_updates cancel fetch_after now [] p d = (True, p, d)"
| "run_updates cancel fetch_after now (cs # css) p d =
     (if cancel (fst cs) then
        (case run_updates cancel fetch_after now css p d of (ok, q, d') \<Rightarrow> (False, q, d'))
      else (case update_one_contract fetch_after now cs d of
        (r, d') \<Rightarrow> run_updates cancel fetch_after now css (apply_update p r) d'))"

definition run_history_update ::
  "(contract_row \<Rightarrow> bool) \<Rightarrow> (contract_row \<Rightarrow> utc \<Rightarrow> funding_point list res) \<Rightarrow> utc \<Rightarrow> string \<Rightarrow> db \<Rightarrow>
   bool \<times> update_progress \<times> db" where
  "run_history_update cancel fetch_after now sec d =
     (let css = get_contracts_with_history_state_by_section d sec;
          stale = filter (\<lambda>(c, s). \<not> is_fresh c s now) css in
      if css = [] then (True, no_update, d)
      else run_updates cancel fetch_after now stale
             (no_update\<lparr>up_total := length css, up_skipped := length css - length stale,
                        up_attempted := length stale\<rparr>) d)"

section \<open>Backfill\<close>

record contract_backfill_result =
  k_fetched :: nat
  k_written :: nat
  k_backfilled :: bool
  k_failed :: bool

record backfill_progress =
  bp_total :: nat
  bp_attempted :: nat
  bp_backfilled :: nat
  bp_failed :: nat
  bp_fetched :: nat
  bp_written :: nat

definition no_backfill :: backfill_progress where
  "no_backfill = \<lparr>bp_total = 0, bp_attempted = 0, bp_backfilled = 0, bp_failed = 0,
     bp_fetched = 0, bp_written = 0\<rparr>"

definition apply_backfill :: "backfill_progress \<Rightarrow> contract_backfill_result \<Rightarrow> backfill_progress" where
  "apply_backfill p r = p\<lparr>bp_backfilled := bp_backfilled p + (if k_backfilled r then 1 else 0),
     bp_failed := bp_failed p + (if k_failed r then 1 else 0),
     bp_fetched := bp_fetched p + k_fetched r, bp_written := bp_written p + k_written r\<rparr>"

type_synonym backward_fetch = "nat \<Rightarrow> utc option \<Rightarrow> funding_point list res"

definition mark_history_synced_if_ready :: "utc \<Rightarrow> nat \<Rightarrow> bool \<Rightarrow> bool tx" where
  "mark_history_synced_if_ready now cid has_stored d =
     (if has_stored then rbind (mark_history_synced now cid d) (\<lambda>(_, d'). Inr (True, d'))
      else Inr (False, d))"

text \<open>\<open>_fetch_and_persist_backfill\<close>: \<open>budget\<close> iterations before the cancellation; \<open>k\<close> numbers
  the calls, \<open>clock k\<close> is the time written into the rows.\<close>

fun backfill_loop ::
  "nat \<Rightarrow> backward_fetch \<Rightarrow> (nat \<Rightarrow> utc) \<Rightarrow> nat \<Rightarrow> nat \<Rightarrow> utc option \<Rightarrow> bool \<Rightarrow> nat \<Rightarrow> nat \<Rightarrow> db \<Rightarrow>
   contract_backfill_result outcome \<times> db" where
  "backfill_loop 0 fetch clock cid k before stored pf pw d = (Cancelled, d)"
| "backfill_loop (Suc budget) fetch clock cid k before stored pf pw d =
     (case fetch k before of
        Inl e \<Rightarrow> (Raised e, d)
      | Inr points \<Rightarrow>
          if points = [] then
            (case mark_history_synced_if_ready (clock k) cid stored d of
               Inl e \<Rightarrow> (Raised e, d)
             | Inr (done, d') \<Rightarrow>
                 (Done \<lparr>k_fetched = pf, k_written = pw, k_backfilled = done, k_failed = False\<rparr>, d'))
          else
            (case persist_historical_funding_batch (clock k) cid points d of
               Inl e \<Rightarrow> (Raised e, d)
             | Inr (b, d') \<Rightarrow>
                 backfill_loop budget fetch clock cid (Suc k) (Some (b_oldest b - seconds 1)) True
                   (pf + length points) (pw + b_written b) d'))"

definition initial_before_timestamp :: "history_state \<Rightarrow> utc option" where
  "initial_before_timestamp s = map_option (\<lambda>t. t - seconds 1) (hs_oldest s)"

text \<open>\<open>_backfill_one_contract\<close>: every exception becomes a failed result whose counters are 0.\<close>

definition backfill_one_contract ::
  "nat \<Rightarrow> backward_fetch \<Rightarrow> (nat \<Rightarrow> utc) \<Rightarrow> contract_row \<times> history_state \<Rightarrow> db \<Rightarrow>
   contract_backfill_result outcome \<times> db" where
  "backfill_one_contract budget fetch clock cs d =
     (case backfill_loop budget fetch clock (c_id (fst cs)) 0 (initial_before_timestamp (snd cs))
             (hs_oldest (snd cs) \<noteq> None) 0 0 d of
        (Raised e, d') \<Rightarrow>
          (Done \<lparr>k_fetched = 0, k_written = 0, k_backfilled = False, k_failed = True\<rparr>, d')
      | r \<Rightarrow> r)"

text \<open>The tasks of one run. A cancelled task means that the run's timeout struck; the completed
  ones have been applied to the progress. The flag tells whether the run was cut short.\<close>

fun run_backfills ::
  "(contract_row \<Rightarrow> nat) \<Rightarrow> (contract_row \<Rightarrow> backward_fetch) \<Rightarrow> (nat \<Rightarrow> utc) \<Rightarrow>
   (contract_row \<times> history_state) list \<Rightarrow> backfill_progress \<Rightarrow> db \<Rightarrow> bool \<times> backfill_progress \<times> db" where
  "run_backfills budget fetch clock [] p d = (True, p, d)"
| "run_backfills budget fetch clock (cs # css) p d =
     (case backfill_one_contract (budget (fst cs)) (fetch (fst cs)) clock cs d of
        (Done r, d') \<Rightarrow> run_backfills budget fetch clock css (apply_backfill p r) d'
      | (_, d') \<Rightarrow> (case run_backfills budget fetch clock css p d' of (ok, q, d'') \<Rightarrow> (False, q, d'')))"

definition run_history_backfill ::
  "(contract_row \<Rightarrow> nat) \<Rightarrow> (contract_row \<Rightarrow> backward_fetch) \<Rightarrow> (nat \<Rightarrow> utc) \<Rightarrow> string \<Rightarrow> db \<Rightarrow>
   bool \<times> backfill_progress \<times> db" where
  "run_history_backfill budget fetch clock sec d =
     (let css = get_contracts_pending_history_backfill_by_section d sec in
      if css = [] then (True, no_backfill, d)
      else run_backfills budget fetch clock css
             (no_backfill\<lparr>bp_total := length css, bp_attempted := length css\<rparr>) d)"

section \<open>What a task touches\<close>

text \<open>\<open>touches cid d d'\<close>: the database changed only in the points and the state row of one
  contract, and points were only added.\<close>

definition touches :: "nat \<Rightarrow> db \<Rightarrow> db \<Rightarrow> bool" where
  "touches cid d d' \<longleftrightarrow>
     contracts d' = contracts d \<and> sections d' = sections d \<and> assets d' = assets d \<and>
     quotes d' = quotes d \<and> live_points d' = live_points d \<and>
     (\<exists>new. historical_points d' = historical_points d @ new \<and> (\<forall>p\<in>set new. p_contract p = cid)) \<and>
     map hs_contract (history_states d') = map hs_contract (history_states d) \<and>
     filter (\<lambda>s. hs_contract s \<noteq> cid) (history_states d') =
       filter (\<lambda>s. hs_contract s \<noteq> cid) (history_states d)"

lemma touches_refl [simp]: "touches cid d d"
  by (simp add: touches_def)

lemma touches_trans: "touches cid d e \<Longrightarrow> touches cid e f \<Longrightarrow> touches cid d f"
  unfolding touches_def by (elim conjE exE) auto

lemma touches_points:
  "touches cid d d' \<Longrightarrow> k \<noteq> cid \<Longrightarrow> points_of d' k = points_of d k"
  by (auto simp: touches_def points_of_def filter_empty_iff_all)

lemma filter_map_other:
  "(\<And>s. key (f s) = key s) \<Longrightarrow>
   filter (\<lambda>s. key s \<noteq> k) (map (\<lambda>s. if key s = k then f s else s) xs) = filter (\<lambda>s. key s \<noteq> k) xs"
  by (induction xs) auto

lemma persist_touches:
  assumes "persist_historical_funding_batch now cid ps d = Inr (b, d')"
  shows "touches cid d d'"
proof -
  note pp = persist_points [OF assms] and st = persist_states [OF assms]
  from pp(1) obtain new where n: "historical_points d' = historical_points d @ new"
    "set new \<subseteq> record_of cid ` set ps" by blast
  have "\<forall>p\<in>record_of cid ` set ps. p_contract p = cid" by (simp add: record_of_def)
  then have "\<forall>p\<in>set new. p_contract p = cid" using n(2) by blast
  then show ?thesis
    using n(1) pp(3-7) persist_state_keys [OF assms] st
    by (auto simp: touches_def filter_map_other)
qed

lemma mark_touches:
  assumes "mark_history_synced now cid d = Inr (u, d')" shows "touches cid d d'"
  using mark_synced_ok(1) [OF assms] by (simp add: touches_def filter_map_other comp_def)

lemma mark_if_ready_cases:
  assumes "mark_history_synced_if_ready now cid stored d = Inr (done, d')"
  shows "done = stored" "touches cid d d'"
    "stored \<Longrightarrow> mark_history_synced now cid d = Inr ((), d')" "\<not> stored \<Longrightarrow> d' = d"
  using assms mark_touches by (auto simp: mark_history_synced_if_ready_def res_simps split: if_splits)

lemma mark_if_ready_inv:
  assumes "mark_history_synced_if_ready now cid stored d = Inr (done, d')" "db_ok d" "bounds_tight d"
  shows "db_ok d' \<and> bounds_tight d'"
  using mark_if_ready_cases [OF assms(1)] mark_synced_db_ok mark_synced_bounds_tight assms(2,3)
  by (cases stored) blast+

text \<open>Whatever the adapter answers and wherever it is cancelled, a backfill touches only its own
  contract and keeps the invariants.\<close>

lemma backfill_loop_inv:
  assumes "backfill_loop n fetch clock cid k before stored pf pw d = (r, d')"
    and "db_ok d" "bounds_tight d"
  shows "db_ok d' \<and> bounds_tight d' \<and> touches cid d d'"
  using assms
proof (induction n arbitrary: k before stored pf pw d)
  case (Suc n)
  show ?case
  proof (cases "fetch k before")
    case (Inr points)
    show ?thesis
    proof (cases "points = []")
      case True
      then show ?thesis
        using Inr Suc.prems mark_if_ready_inv mark_if_ready_cases(2)
        by (cases "mark_history_synced_if_ready (clock k) cid stored d") auto
    next
      case False
      show ?thesis
      proof (cases "persist_historical_funding_batch (clock k) cid points d")
        case (Inr p)
        obtain b e where p: "p = (b, e)" by force
        note per = Inr [unfolded p]
        have "backfill_loop n fetch clock cid (Suc k) (Some (b_oldest b - seconds 1)) True
            (pf + length points) (pw + b_written b) e = (r, d')"
          using Suc.prems(1) False \<open>fetch k before = Inr points\<close> per by simp
        from Suc.IH [OF this] have "db_ok d' \<and> bounds_tight d' \<and> touches cid e d'"
          using persist_db_ok [OF per] persist_bounds_tight [OF per] Suc.prems(2,3) by blast
        then show ?thesis using persist_touches [OF per] touches_trans by blast
      next
        case (Inl e)
        then show ?thesis using False \<open>fetch k before = Inr points\<close> Suc.prems by simp
      qed
    qed
  qed (use Suc.prems in simp)
qed simp

lemma backfill_one_inv:
  assumes "backfill_one_contract n fetch clock cs d = (r, d')" "db_ok d" "bounds_tight d"
  shows "db_ok d' \<and> bounds_tight d' \<and> touches (c_id (fst cs)) d d'"
proof -
  obtain r0 d0 where l: "backfill_loop n fetch clock (c_id (fst cs)) 0 (initial_before_timestamp (snd cs))
      (hs_oldest (snd cs) \<noteq> None) 0 0 d = (r0, d0)" by force
  then have "d' = d0" using assms(1) by (auto simp: backfill_one_contract_def split: outcome.splits)
  then show ?thesis using backfill_loop_inv [OF l] assms(2,3) by simp
qed

lemma update_one_inv:
  assumes "update_one_contract fetch now cs d = (r, d')" "db_ok d" "bounds_tight d"
  shows "db_ok d' \<and> bounds_tight d' \<and> touches (c_id (fst cs)) d d'"
proof (cases "d' = d")
  case False
  then obtain ps b where "persist_historical_funding_batch now (c_id (fst cs)) ps d = Inr (b, d')"
    using assms(1) by (auto simp: update_one_contract_def res_simps split: sum.splits if_splits)
  then show ?thesis using persist_db_ok persist_bounds_tight persist_touches assms(2,3) by blast
qed (use assms in simp)

lemma run_updates_inv:
  "run_updates cancel fetch now css p d = (ok, q, d') \<Longrightarrow> db_ok d \<Longrightarrow> bounds_tight d \<Longrightarrow>
   db_ok d' \<and> bounds_tight d'"
proof (induction css arbitrary: p d ok)
  case (Cons cs css)
  show ?case
  proof (cases "cancel (fst cs)")
    case True
    then obtain ok' where "run_updates cancel fetch now css p d = (ok', q, d')"
      using Cons.prems(1) by (auto split: prod.splits)
    then show ?thesis using Cons.IH Cons.prems by blast
  next
    case False
    then obtain r e where u: "update_one_contract fetch now cs d = (r, e)"
      and "run_updates cancel fetch now css (apply_update p r) e = (ok, q, d')"
      using Cons.prems(1) by (auto split: prod.splits)
    then show ?thesis using Cons.IH update_one_inv [OF u] Cons.prems by blast
  qed
qed simp

lemma run_backfills_inv:
  "run_backfills budget fetch clock css p d = (ok, q, d') \<Longrightarrow> db_ok d \<Longrightarrow> bounds_tight d \<Longrightarrow>
   db_ok d' \<and> bounds_tight d'"
proof (induction css arbitrary: p d ok)
  case (Cons cs css)
  obtain r e where u: "backfill_one_contract (budget (fst cs)) (fetch (fst cs)) clock cs d = (r, e)" by force
  then obtain p' ok' where "run_backfills budget fetch clock css p' e = (ok', q, d')"
    using Cons.prems(1) by (auto split: prod.splits outcome.splits)
  then show ?case using Cons.IH backfill_one_inv [OF u] Cons.prems by blast
qed simp

section \<open>What a run changes\<close>

text \<open>\<open>grows_by ids src d d'\<close>: only points were added, each of them a record that \<open>src\<close> admits, and apart from
  the state rows of the contracts \<open>ids\<close> nothing else has changed.\<close>

definition grows_by :: "nat set \<Rightarrow> (point \<Rightarrow> bool) \<Rightarrow> db \<Rightarrow> db \<Rightarrow> bool" where
  "grows_by ids src d d' \<longleftrightarrow>
     contracts d' = contracts d \<and> sections d' = sections d \<and> assets d' = assets d \<and>
     quotes d' = quotes d \<and> live_points d' = live_points d \<and>
     (\<exists>new. historical_points d' = historical_points d @ new \<and> (\<forall>p\<in>set new. src p)) \<and>
     map hs_contract (history_states d') = map hs_contract (history_states d) \<and>
     filter (\<lambda>s. hs_contract s \<notin> ids) (history_states d') = filter (\<lambda>s. hs_contract s \<notin> ids) (history_states d)"

text \<open>The records of a run: what a source answered to a task, stored under the contract of the task.\<close>

definition fetched_record :: "(contract_row \<Rightarrow> backward_fetch) \<Rightarrow> contract_row set \<Rightarrow> point \<Rightarrow> bool" where
  "fetched_record fetch cs p \<longleftrightarrow> (\<exists>c\<in>cs. \<exists>k before ps. fetch c k before = Inr ps \<and>
     (\<exists>h\<in>set ps. p = \<lparr>p_time = timestamp h, p_contract = c_id c, p_rate = rate h\<rparr>))"

lemma grows_by_refl [simp]: "grows_by ids src d d"
  by (simp add: grows_by_def)

lemma filter_notin_mono:
  assumes "A \<subseteq> B" and "filter (\<lambda>s. f s \<notin> A) xs = filter (\<lambda>s. f s \<notin> A) ys"
  shows "filter (\<lambda>s. f s \<notin> B) xs = filter (\<lambda>s. f s \<notin> B) ys"
proof -
  have "filter (\<lambda>s. f s \<notin> B) zs = filter (\<lambda>s. f s \<notin> B) (filter (\<lambda>s. f s \<notin> A) zs)" for zs
    using assms(1) by (simp add: filter_filter) (rule filter_cong, auto)
  then show ?thesis by (metis assms(2))
qed

lemma grows_by_mono:
  "grows_by A P d d' \<Longrightarrow> A \<subseteq> B \<Longrightarrow> (\<And>p. P p \<Longrightarrow> Q p) \<Longrightarrow> grows_by B Q d d'"
  unfolding grows_by_def by (elim conjE exE, intro conjI) (blast intro: filter_notin_mono | assumption)+

lemma grows_by_trans: "grows_by ids src d e \<Longrightarrow> grows_by ids src e f \<Longrightarrow> grows_by ids src d f"
  unfolding grows_by_def by (elim conjE exE) auto

lemma touches_grows:
  assumes "touches cid d d'" and "\<And>p. p \<in> set (historical_points d') \<Longrightarrow> p \<in> set (historical_points d) \<or> src p"
    and "distinct (historical_points d')"
  shows "grows_by {cid} src d d'"
  using assms unfolding touches_def grows_by_def by (elim conjE exE) force

lemma db_ok_points: "db_ok d \<Longrightarrow> distinct (historical_points d)"
  by (simp add: db_ok_def distinct_map)

lemma backfill_source_points:
  "backfill_loop n fetch clock cid k before stored pf pw d = (r, d') \<Longrightarrow>
   p \<in> set (historical_points d') \<Longrightarrow> p \<in> set (historical_points d) \<or>
     (\<exists>k b ps. fetch k b = Inr ps \<and> p \<in> record_of cid ` set ps)"
proof (induction n arbitrary: k before stored pf pw d)
  case (Suc n)
  show ?case
  proof (cases "fetch k before")
    case (Inr ps)
    show ?thesis
    proof (cases "ps = []")
      case True
      have "historical_points d' = historical_points d"
      proof (cases "mark_history_synced_if_ready (clock k) cid stored d")
        case (Inr m)
        then obtain dn where "mark_history_synced_if_ready (clock k) cid stored d = Inr (dn, d')"
          using Suc.prems(1) \<open>fetch k before = Inr ps\<close> True by (cases m) auto
        from mark_if_ready_cases(3,4) [OF this] show ?thesis
          using mark_synced_ok(1) by (cases stored) fastforce+
      qed (use Suc.prems(1) Inr True in simp)
      then show ?thesis using Suc.prems(2) by simp
    next
      case False
      show ?thesis
      proof (cases "persist_historical_funding_batch (clock k) cid ps d")
        case (Inl e)
        then show ?thesis using Suc.prems Inr False by auto
      next
        case per: (Inr be)
        obtain b e where be: "be = (b, e)" by force
        have "backfill_loop n fetch clock cid (Suc k) (Some (b_oldest b - seconds 1)) True
            (pf + length ps) (pw + b_written b) e = (r, d')"
          using Suc.prems(1) Inr False per be by simp
        note ih = Suc.IH [OF this Suc.prems(2)]
        obtain new where "historical_points e = historical_points d @ new" "set new \<subseteq> record_of cid ` set ps"
          using persist_points(1) [OF per [unfolded be]] by blast
        then have "p \<in> set (historical_points d) \<or> p \<in> record_of cid ` set ps" if "p \<in> set (historical_points e)"
          using that by (metis Un_iff set_append subsetD)
        then show ?thesis using ih Inr by blast
      qed
    qed
  qed (use Suc.prems in auto)
qed auto

lemma backfill_one_grows:
  assumes "backfill_one_contract n fetch clock cs d = (r, d')" "db_ok d" "bounds_tight d"
    and "\<And>k b ps p. fetch k b = Inr ps \<Longrightarrow> p \<in> record_of (c_id (fst cs)) ` set ps \<Longrightarrow> src p"
  shows "grows_by {c_id (fst cs)} src d d'"
proof -
  note inv = backfill_one_inv [OF assms(1-3)]
  obtain r0 where l: "backfill_loop n fetch clock (c_id (fst cs)) 0 (initial_before_timestamp (snd cs))
      (hs_oldest (snd cs) \<noteq> None) 0 0 d = (r0, d')"
    using assms(1) by (auto simp: backfill_one_contract_def split: prod.splits outcome.splits)
  show ?thesis
    by (rule touches_grows) (use inv backfill_source_points [OF l] assms(4) db_ok_points in blast)+
qed

lemma run_backfills_grows:
  "run_backfills budget fetch clock css p d = (ok, q, d') \<Longrightarrow> db_ok d \<Longrightarrow> bounds_tight d \<Longrightarrow>
   fst ` set css \<subseteq> cs \<Longrightarrow> grows_by (c_id ` cs) (fetched_record fetch cs) d d'"
proof (induction css arbitrary: p d ok)
  case (Cons x css)
  obtain r e where u: "backfill_one_contract (budget (fst x)) (fetch (fst x)) clock x d = (r, e)" by force
  then obtain p' ok' where rest: "run_backfills budget fetch clock css p' e = (ok', q, d')"
    using Cons.prems(1) by (auto split: prod.splits outcome.splits)
  have x: "fst x \<in> cs" using Cons.prems(4) by simp
  have "grows_by {c_id (fst x)} (fetched_record fetch cs) d e"
    by (rule backfill_one_grows [OF u Cons.prems(2,3)]) (use x in \<open>unfold fetched_record_def record_of_def, blast\<close>)
  then have "grows_by (c_id ` cs) (fetched_record fetch cs) d e"
    by (rule grows_by_mono) (use x in auto)
  moreover have "grows_by (c_id ` cs) (fetched_record fetch cs) e d'"
    using Cons.IH [OF rest] backfill_one_inv [OF u Cons.prems(2,3)] Cons.prems(4) by simp
  ultimately show ?case by (rule grows_by_trans)
qed simp

lemma run_history_backfill_grows:
  assumes "run_history_backfill budget fetch clock sec d = (ok, q, d')" "db_ok d" "bounds_tight d"
  defines "cs \<equiv> fst ` set (get_contracts_pending_history_backfill_by_section d sec)"
  shows "grows_by (c_id ` cs) (fetched_record fetch cs) d d'"
proof (cases "get_contracts_pending_history_backfill_by_section d sec = []")
  case False
  then have "run_backfills budget fetch clock (get_contracts_pending_history_backfill_by_section d sec)
      (no_backfill\<lparr>bp_total := length (get_contracts_pending_history_backfill_by_section d sec),
        bp_attempted := length (get_contracts_pending_history_backfill_by_section d sec)\<rparr>) d = (ok, q, d')"
    using assms(1) by (simp add: run_history_backfill_def Let_def)
  then show ?thesis by (rule run_backfills_grows [OF _ assms(2,3)]) (simp add: cs_def)
qed (use assms(1) in \<open>simp add: run_history_backfill_def\<close>)

section \<open>Backfill reaches the whole archive\<close>

text \<open>
  \<open>archive\<close> are the settlement times the exchange has for a contract. An answer is honest if it
  is a newest part of the archive at or before the bound, and empty only when nothing is left.
\<close>

definition eligible :: "utc list \<Rightarrow> utc option \<Rightarrow> utc set" where
  "eligible archive before = {t \<in> set archive. case before of None \<Rightarrow> True | Some b \<Rightarrow> t \<le> b}"

definition honest_batch :: "utc list \<Rightarrow> utc option \<Rightarrow> funding_point list \<Rightarrow> bool" where
  "honest_batch archive before ps \<longleftrightarrow> timestamp ` set ps \<subseteq> eligible archive before \<and>
     (\<forall>t\<in>eligible archive before. t \<notin> timestamp ` set ps \<longrightarrow> (\<forall>s\<in>timestamp ` set ps. t < s)) \<and>
     (ps = [] \<longrightarrow> eligible archive before = {})"

definition honest_source :: "utc list \<Rightarrow> backward_fetch \<Rightarrow> bool" where
  "honest_source archive fetch \<longleftrightarrow> (\<forall>k before. \<exists>ps. fetch k before = Inr ps \<and> honest_batch archive before ps)"

text \<open>Settlements are at least a second apart.\<close>

definition spaced :: "utc list \<Rightarrow> bool" where
  "spaced archive \<longleftrightarrow> (\<forall>s\<in>set archive. \<forall>t\<in>set archive. s < t \<longrightarrow> s + seconds 1 \<le> t)"

definition synced_now :: "db \<Rightarrow> nat \<Rightarrow> bool" where
  "synced_now d cid \<longleftrightarrow> (\<exists>s\<in>set (history_states d). hs_contract s = cid \<and> hs_synced s)"

lemma finite_eligible [simp]: "finite (eligible archive before)"
  by (simp add: eligible_def)

lemma eligible_step:
  assumes h: "honest_batch archive before ps" and ne: "ps \<noteq> []" and sp: "spaced archive"
  shows "eligible archive (Some (min_time ps - seconds 1)) = eligible archive before - timestamp ` set ps"
    "card (eligible archive (Some (min_time ps - seconds 1))) < card (eligible archive before)"
    "eligible archive before = eligible archive (Some (min_time ps - seconds 1)) \<union> timestamp ` set ps"
proof -
  let ?S = "timestamp ` set ps" and ?E = "eligible archive before"
  have S: "?S \<subseteq> ?E" using h by (simp add: honest_batch_def)
  have m: "min_time ps \<in> ?S" "\<And>s. s \<in> ?S \<Longrightarrow> min_time ps \<le> s"
    using ne by (simp_all add: min_time_in min_time_eq)
  have arch: "s \<in> set archive" if "s \<in> ?E" for s using that by (simp add: eligible_def)
  have gap: "t + seconds 1 \<le> min_time ps" if "t \<in> set archive" "t < min_time ps" for t
    using sp that arch m(1) S unfolding spaced_def by blast
  show eq: "eligible archive (Some (min_time ps - seconds 1)) = ?E - ?S"
  proof (intro equalityI subsetI)
    fix t assume t: "t \<in> eligible archive (Some (min_time ps - seconds 1))"
    then have lt: "t < min_time ps" "t \<in> set archive" by (auto simp: eligible_def seconds_def)
    then have "t \<notin> ?S" using m(2) by fastforce
    moreover have "t \<in> ?E" using lt S m(1) by (auto simp: eligible_def split: option.splits)
    ultimately show "t \<in> ?E - ?S" by blast
  next
    fix t assume t: "t \<in> ?E - ?S"
    then have "t < min_time ps" using h m(1) unfolding honest_batch_def by blast
    then show "t \<in> eligible archive (Some (min_time ps - seconds 1))"
      using gap [of t] t arch [of t] by (auto simp: eligible_def)
  qed
  have "?E - ?S \<subset> ?E" using S m(1) by blast
  then show "card (eligible archive (Some (min_time ps - seconds 1))) < card ?E"
    unfolding eq by (intro psubset_card_mono) simp_all
  show "?E = eligible archive (Some (min_time ps - seconds 1)) \<union> ?S" using eq S by blast
qed

lemma state_row_facts:
  assumes "db_ok d" "bounds_tight d" "s \<in> set (history_states d)" "hs_contract s = cid"
  shows "hs_oldest s \<noteq> None \<longleftrightarrow> times_of d cid \<noteq> []" "hs_newest s \<noteq> None \<longleftrightarrow> times_of d cid \<noteq> []"
    "cid \<in> c_id ` set (contracts d)" "s' \<in> set (history_states d) \<Longrightarrow> hs_contract s' = cid \<Longrightarrow> s' = s"
proof -
  have "state_tight d s" using assms by (auto simp: bounds_tight_def list_all_iff)
  then show "hs_oldest s \<noteq> None \<longleftrightarrow> times_of d cid \<noteq> []" "hs_newest s \<noteq> None \<longleftrightarrow> times_of d cid \<noteq> []"
    using assms(4) by (simp_all add: state_tight_def least_of_def greatest_of_def)
  show "cid \<in> c_id ` set (contracts d)" using assms(1,3,4) unfolding db_ok_def by blast
  show "s' = s" if "s' \<in> set (history_states d)" "hs_contract s' = cid"
    using assms(1,3,4) that by (auto simp: db_ok_def distinct_map inj_on_def)
qed

lemma update_row_length:
  assumes "db_ok d" "cid \<in> hs_contract ` set (history_states d)"
  shows "length (filter (\<lambda>s. hs_contract s = cid) (history_states d)) = 1"
  using assms by (intro distinct_one_match) (simp_all add: db_ok_def)

lemma persist_succeeds:
  assumes ok: "db_ok d" and ne: "ps \<noteq> []" and row: "cid \<in> hs_contract ` set (history_states d)"
  shows "\<exists>b d'. persist_historical_funding_batch now cid ps d = Inr (b, d')"
proof -
  have "cid \<in> c_id ` set (contracts d)" using ok row unfolding db_ok_def by blast
  then have fk: "list_all (fk_contract d) (map (record_of cid) ps)"
    by (simp add: list_all_iff fk_contract_def record_of_def)
  obtain n d1 where i: "insert_historical_funding_points (map (record_of cid) ps) d = Inr (n, d1)"
    using fk ne by (cases "insert_ignore p_key (historical_points d) (map (record_of cid) ps)")
      (simp add: insert_historical_funding_points_def)
  have h: "history_states d1 = history_states d" using insert_historical_ok [OF i] by auto
  show ?thesis
    using update_row_length [OF ok row] ne
    by (simp add: persist_historical_funding_batch_def i update_bounds_def execute_state_update_def
        update_where_def h list_all_iff synced_has_bounds_def least_case_def greatest_case_def
        split: option.splits)
qed

lemma mark_succeeds:
  assumes ok: "db_ok d" and t: "bounds_tight d" and row: "cid \<in> hs_contract ` set (history_states d)"
    and pts: "times_of d cid \<noteq> []"
  shows "\<exists>d'. mark_history_synced now cid d = Inr ((), d') \<and> synced_now d' cid"
proof -
  have "synced_has_bounds (s\<lparr>hs_synced := True, hs_updated_at := now\<rparr>)"
    if "s \<in> set (history_states d)" "hs_contract s = cid" for s
    using state_row_facts(1,2) [OF ok t that] pts by (simp add: synced_has_bounds_def)
  then obtain d' where m: "mark_history_synced now cid d = Inr ((), d')"
    using update_row_length [OF ok row]
    by (simp add: mark_history_synced_def execute_state_update_def update_where_def list_all_iff)
  from row obtain s where "s \<in> set (history_states d)" "hs_contract s = cid" by blast
  then have "synced_now d' cid"
    unfolding synced_now_def mark_synced_ok(1) [OF m]
    by (intro bexI [of _ "s\<lparr>hs_synced := True, hs_updated_at := now\<rparr>"]) (auto simp: image_iff)
  with m show ?thesis by blast
qed

text \<open>The loop, for any state it can be in.\<close>

lemma backfill_loop_complete:
  assumes src: "honest_source archive fetch" and sp: "spaced archive"
  shows "db_ok d \<Longrightarrow> bounds_tight d \<Longrightarrow> cid \<in> hs_contract ` set (history_states d) \<Longrightarrow>
    stored = (times_of d cid \<noteq> []) \<Longrightarrow> card (eligible archive before) < n \<Longrightarrow>
    \<exists>r d'. backfill_loop n fetch clock cid k before stored pf pw d = (Done r, d') \<and>
      set (times_of d' cid) = set (times_of d cid) \<union> eligible archive before \<and>
      \<not> k_failed r \<and> k_backfilled r = (times_of d' cid \<noteq> []) \<and>
      (k_backfilled r \<longrightarrow> synced_now d' cid)"
proof (induction n arbitrary: k before stored pf pw d)
  case (Suc n)
  from src obtain ps where f: "fetch k before = Inr ps" and h: "honest_batch archive before ps"
    unfolding honest_source_def by blast
  show ?case
  proof (cases "ps = []")
    case True
    have el: "eligible archive before = {}" using h True by (simp add: honest_batch_def)
    show ?thesis
    proof (cases stored)
      case True
      then obtain d' where m: "mark_history_synced (clock k) cid d = Inr ((), d')" "synced_now d' cid"
        using mark_succeeds Suc.prems by blast
      have "times_of d' = times_of d"
        by (rule times_of_cong) (simp add: mark_synced_ok(1) [OF m(1)])
      then show ?thesis
        using True m el Suc.prems(4) f \<open>ps = []\<close> by (simp add: mark_history_synced_if_ready_def)
    next
      case False
      then show ?thesis
        using el Suc.prems(4) f \<open>ps = []\<close> by (simp add: mark_history_synced_if_ready_def)
    qed
  next
    case False
    obtain b e where per: "persist_historical_funding_batch (clock k) cid ps d = Inr (b, e)"
      using persist_succeeds [OF Suc.prems(1) False Suc.prems(3)] by blast
    note st = eligible_step [OF h False sp]
    have t: "set (times_of e cid) = set (times_of d cid) \<union> timestamp ` set ps"
      using persist_times [OF per, of cid] by simp
    have old: "b_oldest b = min_time ps" by (rule persist_ok [OF per])
    have ne: "times_of e cid \<noteq> []" using t False by auto
    have row: "cid \<in> hs_contract ` set (history_states e)"
      using persist_state_keys [OF per] Suc.prems(3) by (metis set_map)
    have c: "card (eligible archive (Some (min_time ps - seconds 1))) < n"
      using st(2) Suc.prems(5) by linarith
    from Suc.IH [OF persist_db_ok [OF per Suc.prems(1)] persist_bounds_tight [OF per Suc.prems(2)]
        row _ c, of True "Suc k" "pf + length ps" "pw + b_written b"] ne
    obtain r d' where r: "backfill_loop n fetch clock cid (Suc k) (Some (min_time ps - seconds 1)) True
        (pf + length ps) (pw + b_written b) e = (Done r, d')"
      "set (times_of d' cid) = set (times_of e cid) \<union> eligible archive (Some (min_time ps - seconds 1))"
      "\<not> k_failed r \<and> k_backfilled r = (times_of d' cid \<noteq> []) \<and> (k_backfilled r \<longrightarrow> synced_now d' cid)"
      by auto
    have loop: "backfill_loop (Suc n) fetch clock cid k before stored pf pw d = (Done r, d')"
      using False f per old r(1) by simp
    have "set (times_of d' cid) = set (times_of d cid) \<union> eligible archive before"
      unfolding r(2) t by (subst st(3)) (simp only: Un_ac)
    with loop r(3) show ?thesis by (intro exI [of _ r] exI [of _ d']) simp
  qed
qed simp

section \<open>Stopping and resuming\<close>

text \<open>\<open>frontier d cid before\<close>: the bound the loop holds is the one a later run would read off the
  state row, one second before the oldest stored point.\<close>

definition frontier :: "db \<Rightarrow> nat \<Rightarrow> utc option \<Rightarrow> bool" where
  "frontier d cid before \<longleftrightarrow>
     before = (if times_of d cid = [] then None else Some (Min (set (times_of d cid)) - seconds 1))"

lemma initial_frontier:
  assumes "bounds_tight d" "s \<in> set (history_states d)"
  shows "frontier d (hs_contract s) (initial_before_timestamp s)"
  using assms by (auto simp: bounds_tight_def list_all_iff state_tight_def frontier_def
      initial_before_timestamp_def least_of_def)

lemma frontier_persist:
  assumes per: "persist_historical_funding_batch now cid ps d = Inr (b, e)"
    and fr: "frontier d cid before" and h: "honest_batch archive before ps"
  shows "frontier e cid (Some (b_oldest b - seconds 1))"
proof -
  have ne: "ps \<noteq> []" and old: "b_oldest b = min_time ps" by (rule persist_ok [OF per]; simp)+
  have t: "set (times_of e cid) = set (times_of d cid) \<union> timestamp ` set ps"
    using persist_times [OF per, of cid] by simp
  have m: "min_time ps \<in> timestamp ` set ps" "\<forall>s\<in>timestamp ` set ps. min_time ps \<le> s"
    using ne by (simp_all add: min_time_in min_time_eq)
  have "min_time ps \<le> x" if x: "x \<in> set (times_of d cid)" for x
  proof -
    have b: "before = Some (Min (set (times_of d cid)) - seconds 1)"
      using fr x by (auto simp: frontier_def)
    have "min_time ps \<le> Min (set (times_of d cid)) - seconds 1"
      using h m(1) unfolding honest_batch_def eligible_def b by auto
    also have "\<dots> \<le> Min (set (times_of d cid))" by (simp add: seconds_def)
    also have "\<dots> \<le> x" using x by simp
    finally show ?thesis .
  qed
  then have "Min (set (times_of e cid)) = min_time ps"
    unfolding t using m by (intro Min_eqI) auto
  moreover have "times_of e cid \<noteq> []" using t ne by auto
  ultimately show ?thesis by (simp add: frontier_def old)
qed

text \<open>A source that is honest whenever it answers.\<close>

definition honest_if_answering :: "utc list \<Rightarrow> backward_fetch \<Rightarrow> bool" where
  "honest_if_answering archive fetch \<longleftrightarrow> (\<forall>k before ps. fetch k before = Inr ps \<longrightarrow> honest_batch archive before ps)"

lemma honest_source_answering: "honest_source archive fetch \<Longrightarrow> honest_if_answering archive fetch"
  unfolding honest_source_def honest_if_answering_def by (metis sum.inject(2))

lemma persist_synced:
  assumes "persist_historical_funding_batch now cid ps d = Inr (b, e)"
  shows "synced_now e k = synced_now d k"
proof -
  have flag: "synced_now x k \<longleftrightarrow> (k, True) \<in> set (map (\<lambda>s. (hs_contract s, hs_synced s)) (history_states x))" for x
    by (auto simp: synced_now_def image_iff)
  have "map (\<lambda>s. (hs_contract s, hs_synced s)) (history_states e) = map (\<lambda>s. (hs_contract s, hs_synced s)) (history_states d)"
    by (simp add: persist_states [OF assms])
  then show ?thesis unfolding flag by simp
qed

lemma backfill_loop_partial:
  assumes src: "honest_if_answering archive fetch" and sp: "spaced archive"
  shows "backfill_loop n fetch clock cid k before stored pf pw d = (r, d') \<Longrightarrow> frontier d cid before \<Longrightarrow>
    \<not> synced_now d cid \<Longrightarrow>
    \<exists>before'. frontier d' cid before' \<and>
      set (times_of d' cid) \<union> eligible archive before' = set (times_of d cid) \<union> eligible archive before \<and>
      set (times_of d cid) \<subseteq> set (times_of d' cid) \<and>
      (synced_now d' cid \<longrightarrow> eligible archive before' = {})"
proof (induction n arbitrary: k before stored pf pw d)
  case (Suc n)
  show ?case
  proof (cases "fetch k before")
    case (Inl e)
    then show ?thesis using Suc.prems by auto
  next
    case (Inr ps)
    then have f: "fetch k before = Inr ps" and h: "honest_batch archive before ps"
      using src by (simp_all add: honest_if_answering_def)
    show ?thesis
    proof (cases "ps = []")
      case True
      have el: "eligible archive before = {}" using h True by (simp add: honest_batch_def)
      have "times_of d' = times_of d"
      proof (cases "mark_history_synced_if_ready (clock k) cid stored d")
        case (Inr p)
        then obtain dn where "mark_history_synced_if_ready (clock k) cid stored d = Inr (dn, d')"
          using Suc.prems(1) f True by (cases p) auto
        from mark_if_ready_cases(3,4) [OF this] have "historical_points d' = historical_points d"
          using mark_synced_ok(1) by (cases stored) fastforce+
        then show ?thesis by (rule times_of_cong)
      qed (use Suc.prems(1) f True in simp)
      then show ?thesis using Suc.prems(2) el by (auto simp: frontier_def)
    next
      case False
      show ?thesis
      proof (cases "persist_historical_funding_batch (clock k) cid ps d")
        case (Inl e)
        then show ?thesis using Suc.prems f False by auto
      next
        case (Inr p)
        obtain b e where p: "p = (b, e)" by force
        note per = Inr [unfolded p]
        have old: "b_oldest b = min_time ps" by (rule persist_ok [OF per])
        have "backfill_loop n fetch clock cid (Suc k) (Some (b_oldest b - seconds 1)) True
            (pf + length ps) (pw + b_written b) e = (r, d')"
          using Suc.prems(1) f False per by simp
        from Suc.IH [OF this frontier_persist [OF per Suc.prems(2) h]] Suc.prems(3) persist_synced [OF per]
        obtain before' where
          b': "frontier d' cid before'" "set (times_of d' cid) \<union> eligible archive before' =
            set (times_of e cid) \<union> eligible archive (Some (min_time ps - seconds 1))"
            "set (times_of e cid) \<subseteq> set (times_of d' cid)" "synced_now d' cid \<longrightarrow> eligible archive before' = {}"
          unfolding old by blast
        have "set (times_of e cid) \<union> eligible archive (Some (min_time ps - seconds 1)) =
            set (times_of d cid) \<union> eligible archive before" "set (times_of d cid) \<subseteq> set (times_of e cid)"
          using persist_times [OF per, of cid] eligible_step(3) [OF h False sp] by (simp_all add: Un_ac)
        then show ?thesis using b' by (intro exI [of _ before'] conjI) (simp; fail | blast)+
      qed
    qed
  qed
qed auto

section \<open>Runs over many contracts\<close>

lemma touches_other:
  assumes "touches k d d'" "k \<noteq> cid"
  shows "times_of d' cid = times_of d cid"
    "filter (\<lambda>s. hs_contract s = cid) (history_states d') = filter (\<lambda>s. hs_contract s = cid) (history_states d)"
proof -
  show "times_of d' cid = times_of d cid"
    using touches_points [OF assms(1)] assms(2) by (simp add: times_of_def)
  have f: "filter (\<lambda>s. hs_contract s = cid) xs =
      filter (\<lambda>s. hs_contract s = cid) (filter (\<lambda>s. hs_contract s \<noteq> k) xs)" for xs
    using assms(2) by (simp add: filter_filter) (rule filter_cong, auto)
  show "filter (\<lambda>s. hs_contract s = cid) (history_states d') = filter (\<lambda>s. hs_contract s = cid) (history_states d)"
    using assms(1) by (subst (1 2) f) (simp add: touches_def)
qed

lemma rows_mem: "s \<in> set (filter (\<lambda>s. hs_contract s = cid) xs) \<longleftrightarrow> s \<in> set xs \<and> hs_contract s = cid"
  by simp

text \<open>\<open>same_contract cid d e\<close>: the two databases agree on everything a task of the contract reads.\<close>

definition same_contract :: "nat \<Rightarrow> db \<Rightarrow> db \<Rightarrow> bool" where
  "same_contract cid d e \<longleftrightarrow> times_of e cid = times_of d cid \<and>
     filter (\<lambda>s. hs_contract s = cid) (history_states e) = filter (\<lambda>s. hs_contract s = cid) (history_states d)"

lemma same_contract_synced: "same_contract cid d e \<Longrightarrow> synced_now e cid = synced_now d cid"
  unfolding synced_now_def same_contract_def by (metis rows_mem)

lemma run_backfills_skip:
  "run_backfills budget fetch clock css p d = (ok, q, d') \<Longrightarrow> db_ok d \<Longrightarrow> bounds_tight d \<Longrightarrow>
   cid \<notin> c_id ` fst ` set css \<Longrightarrow> same_contract cid d d'"
proof (induction css arbitrary: p d ok)
  case (Cons cs css)
  obtain r e where u: "backfill_one_contract (budget (fst cs)) (fetch (fst cs)) clock cs d = (r, e)" by force
  then obtain p' ok' where rest: "run_backfills budget fetch clock css p' e = (ok', q, d')"
    using Cons.prems(1) by (auto split: prod.splits outcome.splits)
  note inv = backfill_one_inv [OF u Cons.prems(2,3)]
  have "same_contract cid e d'" using Cons.IH [OF rest] inv Cons.prems(4) by simp
  moreover have "same_contract cid d e"
    using touches_other [of "c_id (fst cs)" d e cid] inv Cons.prems(4) by (auto simp: same_contract_def)
  ultimately show ?case by (simp add: same_contract_def)
qed (simp add: same_contract_def)

lemma run_backfills_isolated:
  "run_backfills budget fetch clock css p d = (ok, q, d') \<Longrightarrow> db_ok d \<Longrightarrow> bounds_tight d \<Longrightarrow>
   distinct (map (c_id \<circ> fst) css) \<Longrightarrow> (c, s) \<in> set css \<Longrightarrow>
   \<exists>e r e'. same_contract (c_id c) d e \<and> db_ok e \<and> bounds_tight e \<and>
     backfill_one_contract (budget c) (fetch c) clock (c, s) e = (r, e') \<and> same_contract (c_id c) e' d'"
proof (induction css arbitrary: p d ok)
  case (Cons cs css)
  obtain r e where u: "backfill_one_contract (budget (fst cs)) (fetch (fst cs)) clock cs d = (r, e)" by force
  then obtain p' ok' where rest: "run_backfills budget fetch clock css p' e = (ok', q, d')"
    using Cons.prems(1) by (auto split: prod.splits outcome.splits)
  note inv = backfill_one_inv [OF u Cons.prems(2,3)]
  show ?case
  proof (cases "cs = (c, s)")
    case True
    have "c_id c \<notin> c_id ` fst ` set css" using Cons.prems(4) True by (auto simp: image_image)
    then have "same_contract (c_id c) e d'" using run_backfills_skip [OF rest] inv by blast
    then show ?thesis using u True Cons.prems(2,3)
      by (intro exI [of _ d] exI [of _ r] exI [of _ e]) (simp add: same_contract_def)
  next
    case False
    then have mem: "(c, s) \<in> set css" using Cons.prems(5) by simp
    then have "c_id (fst cs) \<noteq> c_id c" using Cons.prems(4) by force
    then have "same_contract (c_id c) d e" using touches_other inv by (auto simp: same_contract_def)
    moreover from Cons.IH [OF rest] inv Cons.prems(4) mem obtain f r' f' where
      "same_contract (c_id c) e f" "db_ok f" "bounds_tight f"
      "backfill_one_contract (budget c) (fetch c) clock (c, s) f = (r', f')" "same_contract (c_id c) f' d'"
      by auto
    ultimately show ?thesis
      by (intro exI [of _ f] exI [of _ r'] exI [of _ f']) (simp add: same_contract_def)
  qed
qed simp

lemma join_distinct:
  assumes "db_ok d"
  shows "distinct (map (c_id \<circ> fst) (contract_state_join d))"
proof -
  have inner: "[(c, s). s \<leftarrow> ss, c_id c = hs_contract s] =
      map (Pair c) (filter (\<lambda>s. c_id c = hs_contract s) ss)" for c :: contract_row and ss
    by (induction ss) auto
  have one: "length (filter (\<lambda>s. c_id c = hs_contract s) (history_states d)) \<le> 1"
    for c :: contract_row
  proof (cases "c_id c \<in> hs_contract ` set (history_states d)")
    case True
    then show ?thesis using update_row_length [OF assms True] by (simp add: eq_commute)
  next
    case False
    then have "filter (\<lambda>s. c_id c = hs_contract s) (history_states d) = []"
      by (auto simp: filter_empty_iff_all)
    then show ?thesis by simp
  qed
  define h where "h c = map (Pair c) (filter (\<lambda>s. c_id c = hs_contract s) (history_states d))"
    for c :: contract_row
  have sub: "set (map (c_id \<circ> fst) (concat (map h cs))) \<subseteq> c_id ` set cs" for cs
    by (auto simp: h_def)
  have hd: "set (map (c_id \<circ> fst) (h c)) \<subseteq> {c_id c}" "distinct (map (c_id \<circ> fst) (h c))" for c
    using one [of c] by (cases "filter (\<lambda>s. c_id c = hs_contract s) (history_states d)"; auto simp: h_def)+
  have "distinct (map (c_id \<circ> fst) (concat (map h cs)))" if "distinct (map c_id cs)" for cs
    using that
  proof (induction cs)
    case (Cons c cs)
    have "set (map (c_id \<circ> fst) (h c)) \<inter> set (map (c_id \<circ> fst) (concat (map h cs))) = {}"
    proof -
      have dis: "A \<inter> B = {}" if "A \<subseteq> {x}" "B \<subseteq> C" "x \<notin> C" for A B C :: "nat set" and x using that by blast
      have "c_id c \<notin> c_id ` set cs" using Cons.prems by simp
      from dis [OF hd(1) sub this] show ?thesis .
    qed
    then show ?case
      using Cons hd(2) [of c] by (simp only: list.map concat.simps map_append distinct_append distinct.simps simp_thms)
  qed simp
  moreover have "contract_state_join d = concat (map h (contracts d))"
    unfolding contract_state_join_def inner by (intro arg_cong [of _ _ concat] map_cong refl) (simp add: h_def)
  ultimately show ?thesis using assms by (simp only: db_ok_def)
qed

lemma pending_facts:
  assumes "(c, s) \<in> set (get_contracts_pending_history_backfill_by_section d sec)"
  shows "s \<in> set (history_states d)" "hs_contract s = c_id c" "c \<in> set (contracts d)" "\<not> hs_synced s"
  using assms by (auto simp: get_contracts_pending_history_backfill_by_section_def contract_state_join_def)

section \<open>Accounting of an update run\<close>

lemma persist_length:
  "persist_historical_funding_batch now cid ps d = Inr (b, d') \<Longrightarrow>
   length (historical_points d') = length (historical_points d) + b_written b"
  using persist_points(1) by fastforce

lemma update_one_count:
  assumes "update_one_contract fetch now cs d = (r, d')"
  shows "length (historical_points d') = length (historical_points d) + u_written r"
    "u_failed r \<Longrightarrow> d' = d"
proof -
  from assms consider "d' = d" "u_written r = 0"
    | ps b where "persist_historical_funding_batch now (c_id (fst cs)) ps d = Inr (b, d')"
        "u_written r = b_written b" "\<not> u_failed r"
    by (auto simp: update_one_contract_def res_simps split: sum.splits if_splits prod.splits)
  then show "length (historical_points d') = length (historical_points d) + u_written r"
    "u_failed r \<Longrightarrow> d' = d"
    using persist_length by (cases; auto)+
qed

lemma run_updates_count:
  "run_updates cancel fetch now css p d = (ok, q, d') \<Longrightarrow>
   length (historical_points d') + up_written p = length (historical_points d) + up_written q \<and>
   up_total q = up_total p \<and> up_skipped q = up_skipped p \<and> up_attempted q = up_attempted p \<and>
   up_failed q + up_updated q \<le> up_failed p + up_updated p + length css \<and>
   ok = list_all (\<lambda>cs. \<not> cancel (fst cs)) css"
proof (induction css arbitrary: p d ok)
  case (Cons cs css)
  show ?case
  proof (cases "cancel (fst cs)")
    case True
    then obtain ok' where "run_updates cancel fetch now css p d = (ok', q, d')" "ok = False"
      using Cons.prems(1) by (auto split: prod.splits)
    then show ?thesis using Cons.IH [of p d ok'] True by auto
  next
    case False
    then obtain r e where u: "update_one_contract fetch now cs d = (r, e)"
      and rest: "run_updates cancel fetch now css (apply_update p r) e = (ok, q, d')"
      using Cons.prems(1) by (auto split: prod.splits)
    have "u_written r > 0 \<Longrightarrow> \<not> u_failed r"
      using update_one_count [OF u] by auto
    then show ?thesis
      using Cons.IH [OF rest] update_one_count [OF u] False
      by (auto simp: apply_update_def split: if_splits)
  qed
qed simp

section \<open>Properties\<close>

text \<open>A history-update run keeps the database invariants, whatever the exchange answers and
  wherever the timeout strikes, and its counters are exact: every contract is skipped or
  attempted, and the reported number of written points is the number of rows added.\<close>

theorem history_update_accounting:
  assumes "run_history_update cancel fetch now sec d = (ok, q, d')"
    and "db_ok d" and "bounds_tight d"
  shows "db_ok d' \<and> bounds_tight d' \<and>
    up_total q = length (get_contracts_with_history_state_by_section d sec) \<and>
    up_skipped q + up_attempted q = up_total q \<and>
    up_failed q + up_updated q \<le> up_attempted q \<and>
    length (historical_points d') = length (historical_points d) + up_written q"
proof (cases "get_contracts_with_history_state_by_section d sec = []")
  case True
  then show ?thesis using assms by (auto simp: run_history_update_def no_update_def)
next
  case False
  let ?css = "get_contracts_with_history_state_by_section d sec"
  let ?stale = "filter (\<lambda>(c, s). \<not> is_fresh c s now) ?css"
  have r: "run_updates cancel fetch now ?stale (no_update\<lparr>up_total := length ?css,
      up_skipped := length ?css - length ?stale, up_attempted := length ?stale\<rparr>) d = (ok, q, d')"
    using assms(1) False by (simp add: run_history_update_def Let_def)
  have "length ?stale \<le> length ?css" by (rule length_filter_le)
  then show ?thesis
    using run_updates_count [OF r] run_updates_inv [OF r assms(2,3)] by (simp add: no_update_def)
qed

text \<open>A contract with one stored point, due for its next settlement.\<close>

definition h_point :: "utc \<Rightarrow> funding_point" where
  "h_point t = \<lparr>rate = 1 / 10000, timestamp = t\<rparr>"

definition h_contract :: contract_row where
  "h_contract = \<lparr>c_id = 3, c_asset = ''BTC'', c_section = ''okx'', c_interval = 8, c_quote = ''USDT'',
     c_special = JObj [], c_deprecated = False\<rparr>"

definition h_db :: db where
  "h_db = \<lparr>sections = [\<lparr>s_name = ''okx'', s_special = JObj []\<rparr>],
     assets = [\<lparr>a_name = ''BTC'', a_rank = None\<rparr>], quotes = [''USDT''], contracts = [h_contract],
     history_states = [\<lparr>hs_contract = 3, hs_synced = False, hs_oldest = Some (hours 40),
        hs_newest = Some (hours 40), hs_updated_at = hours 40\<rparr>],
     historical_points = [record_of 3 (h_point (hours 40))], live_points = []\<rparr>"

theorem history_update_accounting_witness:
  "\<exists>q d'. run_history_update (\<lambda>_. False) (\<lambda>_ _. Inr [h_point (hours 48)]) (hours 49) ''okx'' h_db =
      (True, q, d') \<and> up_written q = 1 \<and> length (historical_points d') = 2 \<and> bounds_tight d'"
proof -
  have ok: "db_ok h_db" "bounds_tight h_db" by code_simp+
  let ?run = "run_history_update (\<lambda>_. False) (\<lambda>_ _. Inr [h_point (hours 48)]) (hours 49) ''okx'' h_db"
  have "fst ?run = True" "up_written (fst (snd ?run)) = 1" "length (historical_points h_db) = 1"
    by code_simp+
  moreover obtain okk q d' where r: "?run = (okk, q, d')" by (cases ?run) auto
  ultimately show ?thesis
    using history_update_accounting [OF r ok] by auto
qed

text \<open>A whole run, seen from one contract. Only the answers its own task asks for matter: any source
  \<open>f\<close> on which the task behaves alike will do.\<close>

lemma backfill_run_complete:
  assumes "run_history_backfill budget fetch clock sec d = (ok, q, d')"
    and "db_ok d" and "bounds_tight d"
    and "(c, s) \<in> set (get_contracts_pending_history_backfill_by_section d sec)"
    and "honest_source archive f" and "spaced archive"
    and "card (eligible archive (initial_before_timestamp s)) < budget c"
    and "\<And>e. backfill_one_contract (budget c) (fetch c) clock (c, s) e =
      backfill_one_contract (budget c) f clock (c, s) e"
  shows "set (times_of d' (c_id c)) =
      set (times_of d (c_id c)) \<union> eligible archive (initial_before_timestamp s) \<and>
    (times_of d' (c_id c) \<noteq> [] \<longrightarrow> synced_now d' (c_id c))"
proof -
  let ?css = "get_contracts_pending_history_backfill_by_section d sec"
  note pf = pending_facts [OF assms(4)]
  have "?css \<noteq> []" using assms(4) by auto
  then have run: "run_backfills budget fetch clock ?css
      (no_backfill\<lparr>bp_total := length ?css, bp_attempted := length ?css\<rparr>) d = (ok, q, d')"
    using assms(1) by (simp add: run_history_backfill_def Let_def)
  have dist: "distinct (map (c_id \<circ> fst) ?css)"
    unfolding get_contracts_pending_history_backfill_by_section_def
    by (rule distinct_map_filter [OF join_distinct [OF assms(2)]])
  from run_backfills_isolated [OF run assms(2,3) dist assms(4)] obtain e r e' where
    same: "same_contract (c_id c) d e" "same_contract (c_id c) e' d'" and ok: "db_ok e" "bounds_tight e"
    and "backfill_one_contract (budget c) (fetch c) clock (c, s) e = (r, e')" by blast
  then have one: "backfill_one_contract (budget c) f clock (c, s) e = (r, e')" by (simp only: assms(8))
  have rows: "s \<in> set (history_states e)"
    using same(1) pf(1,2) unfolding same_contract_def by (metis rows_mem)
  then have row: "c_id c \<in> hs_contract ` set (history_states e)" using pf(2) by force
  have stored: "(hs_oldest s \<noteq> None) = (times_of e (c_id c) \<noteq> [])"
    using state_row_facts(1) [OF ok rows pf(2)] .
  from backfill_loop_complete [OF assms(5,6) ok row stored assms(7), of clock 0 0 0]
  obtain r0 e0 where l: "backfill_loop (budget c) f clock (c_id c) 0 (initial_before_timestamp s)
      (hs_oldest s \<noteq> None) 0 0 e = (Done r0, e0)"
    and res: "set (times_of e0 (c_id c)) = set (times_of e (c_id c)) \<union> eligible archive (initial_before_timestamp s)"
      "k_backfilled r0 = (times_of e0 (c_id c) \<noteq> [])" "k_backfilled r0 \<longrightarrow> synced_now e0 (c_id c)"
    by blast
  have "e' = e0" using one l by (simp add: backfill_one_contract_def)
  then show ?thesis
    using res same same_contract_synced [OF same(2)] by (simp add: same_contract_def)
qed

text \<open>C5. Backfill of one contract is complete and isolated: if the exchange answers honestly for
  it (each answer a newest part of what it has at or before the bound) and the run gives it
  more iterations than there are settlements, then after the run the stored times are the old
  ones and every settlement the exchange has before the oldest of them; and the contract is
  marked synced as soon as it has any point. The other contracts of the run may fail, misbehave
  or be cancelled. The whole run, whatever the sources answer, only appends points, each of them a time
  and rate that a source answered for the contract it is stored under; and apart from the state rows of
  the pending contracts no row of any table has changed.\<close>

theorem backfill_complete_and_isolated:
  assumes "run_history_backfill budget fetch clock sec d = (ok, q, d')"
    and "db_ok d" and "bounds_tight d"
    and "(c, s) \<in> set (get_contracts_pending_history_backfill_by_section d sec)"
    and "honest_source archive (fetch c)" and "spaced archive"
    and "card (eligible archive (initial_before_timestamp s)) < budget c"
  shows "set (times_of d' (c_id c)) =
      set (times_of d (c_id c)) \<union> eligible archive (initial_before_timestamp s) \<and>
    (times_of d' (c_id c) \<noteq> [] \<longrightarrow> synced_now d' (c_id c)) \<and>
    grows_by (c_id ` fst ` set (get_contracts_pending_history_backfill_by_section d sec))
      (fetched_record fetch (fst ` set (get_contracts_pending_history_backfill_by_section d sec))) d d'"
  using backfill_run_complete [OF assms refl] run_history_backfill_grows [OF assms(1-3)] by blast

text \<open>A source that returns the two newest settlements at or before the bound.\<close>

definition two_newest :: "utc list \<Rightarrow> backward_fetch" where
  "two_newest archive k before = Inr (map h_point (take 2 (rev (sort (filter
     (\<lambda>t. case before of None \<Rightarrow> True | Some b \<Rightarrow> t \<le> b) archive)))))"

lemma two_newest_honest: "honest_source archive (two_newest archive)"
  unfolding honest_source_def
proof (intro allI exI conjI)
  fix k and before :: "utc option"
  define el where "el = rev (sort (filter (\<lambda>t. case before of None \<Rightarrow> True | Some b \<Rightarrow> t \<le> b) archive))"
  show "two_newest archive k before = Inr (map h_point (take 2 el))" by (simp add: two_newest_def el_def)
  have elig: "set el = eligible archive before" by (simp add: eligible_def el_def)
  have sw: "sorted_wrt (\<ge>) el" by (simp add: sorted_wrt_rev el_def)
  have split: "el = take 2 el @ drop 2 el" by simp
  have ord: "t \<le> s" if "s \<in> set (take 2 el)" "t \<in> set (drop 2 el)" for s t
    using sw that sorted_wrt_append [of "(\<ge>)" "take 2 el" "drop 2 el"] by simp
  have ts: "timestamp ` set (map h_point (take 2 el)) = set (take 2 el)"
    by (simp add: h_point_def image_image)
  have "t < s" if t: "t \<in> eligible archive before" "t \<notin> set (take 2 el)" and s: "s \<in> set (take 2 el)" for s t
  proof -
    have "t \<in> set (drop 2 el)" using t elig split by (metis Un_iff set_append)
    then have "t \<le> s" using ord s by blast
    moreover have "t \<noteq> s" using t(2) s by blast
    ultimately show ?thesis by simp
  qed
  moreover have "set (take 2 el) \<subseteq> eligible archive before"
    using elig by (metis set_take_subset)
  moreover have "take 2 el = [] \<longrightarrow> el = []" by simp
  ultimately show "honest_batch archive before (map h_point (take 2 el))"
    unfolding honest_batch_def ts using elig by auto
qed

theorem backfill_complete_and_isolated_witness:
  "\<exists>ok q d'. run_history_backfill (\<lambda>_. 9) (\<lambda>_. two_newest (map hours [0, 8, 16, 24, 32, 40])) (\<lambda>_. hours 50)
      ''okx'' h_db = (ok, q, d') \<and>
    set (times_of d' 3) = hours ` {0, 8, 16, 24, 32, 40} \<and> synced_now d' 3"
proof -
  let ?A = "map hours [0, 8, 16, 24, 32, 40]"
  let ?s = "\<lparr>hs_contract = 3, hs_synced = False, hs_oldest = Some (hours 40),
        hs_newest = Some (hours 40), hs_updated_at = hours 40\<rparr>"
  obtain ok q d' where r: "run_history_backfill (\<lambda>_. 9) (\<lambda>_. two_newest ?A) (\<lambda>_. hours 50) ''okx'' h_db = (ok, q, d')"
    by (cases "run_history_backfill (\<lambda>_. 9) (\<lambda>_. two_newest ?A) (\<lambda>_. hours 50) ''okx'' h_db") auto
  have inv: "db_ok h_db" "bounds_tight h_db" by code_simp+
  have pend: "(h_contract, ?s) \<in> set (get_contracts_pending_history_backfill_by_section h_db ''okx'')"
    by code_simp
  have sp: "spaced ?A" by (simp add: spaced_def hours_def seconds_def)
  have el: "eligible ?A (initial_before_timestamp ?s) = hours ` {0, 8, 16, 24, 32}"
    by (auto simp: eligible_def initial_before_timestamp_def hours_def seconds_def)
  have "card (hours ` {0, 8, 16, 24, 32 :: int}) \<le> card {0, 8, 16, 24, 32 :: int}"
    by (rule card_image_le) simp
  then have bud: "card (eligible ?A (initial_before_timestamp ?s)) < 9" unfolding el by simp
  have old: "set (times_of h_db 3) = {hours 40}" by code_simp
  have id: "c_id h_contract = 3" by (simp add: h_contract_def)
  from backfill_complete_and_isolated [OF r inv pend two_newest_honest sp bud] old
  have "set (times_of d' 3) = hours ` {0, 8, 16, 24, 32, 40}"
    "times_of d' 3 \<noteq> [] \<longrightarrow> synced_now d' 3" unfolding id el by auto
  then show ?thesis using r by (metis image_is_empty insert_not_empty list.set(1))
qed

lemma still_pending:
  assumes "(c, s) \<in> set (get_contracts_pending_history_backfill_by_section d sec)" and "db_ok d'"
    and "touches (c_id c) d d'"
  shows "synced_now d' (c_id c) \<Longrightarrow> (c, s') \<notin> set (get_contracts_pending_history_backfill_by_section d' sec)"
    "\<not> synced_now d' (c_id c) \<Longrightarrow> \<exists>s'. (c, s') \<in> set (get_contracts_pending_history_backfill_by_section d' sec)"
proof -
  note pf = pending_facts [OF assms(1)]
  show "(c, s') \<notin> set (get_contracts_pending_history_backfill_by_section d' sec)" if sy: "synced_now d' (c_id c)"
  proof
    assume p: "(c, s') \<in> set (get_contracts_pending_history_backfill_by_section d' sec)"
    note pf' = pending_facts [OF p]
    obtain s0 where "s0 \<in> set (history_states d')" "hs_contract s0 = c_id c" "hs_synced s0"
      using sy by (auto simp: synced_now_def)
    moreover from this(1,2) have "s0 = s'" using pf'(1,2) assms(2) by (auto simp: db_ok_def distinct_map inj_on_def)
    ultimately show False using pf'(4) by simp
  qed
  show "\<exists>s'. (c, s') \<in> set (get_contracts_pending_history_backfill_by_section d' sec)" if sy: "\<not> synced_now d' (c_id c)"
  proof -
    have "c_id c \<in> set (map hs_contract (history_states d'))"
      using assms(3) pf(1,2) by (metis touches_def image_eqI set_map)
    then obtain s' where s': "s' \<in> set (history_states d')" "hs_contract s' = c_id c" by auto
    moreover have "\<not> hs_synced s'" using sy s' by (auto simp: synced_now_def)
    moreover have "c \<in> set (contracts d')" "c_section c = sec \<and> \<not> c_deprecated c"
      using assms(1,3) pf(3) by (auto simp: touches_def get_contracts_pending_history_backfill_by_section_def)
    ultimately show ?thesis
      by (auto simp: get_contracts_pending_history_backfill_by_section_def contract_state_join_def)
  qed
qed

lemma frontier_eligible:
  assumes "frontier d cid b" "frontier d' cid b'" "set (times_of d cid) \<subseteq> set (times_of d' cid)"
  shows "eligible archive b' \<subseteq> eligible archive b"
proof
  fix t assume t: "t \<in> eligible archive b'"
  show "t \<in> eligible archive b"
  proof (cases "times_of d cid = []")
    case False
    then have m: "Min (set (times_of d' cid)) \<le> Min (set (times_of d cid))" and ne: "times_of d' cid \<noteq> []"
      using assms(3) by (auto intro: Min_antimono)
    have "t \<le> Min (set (times_of d' cid)) - seconds 1" "t \<in> set archive"
      using t ne assms(2) by (simp_all add: eligible_def frontier_def)
    with m have "t \<le> Min (set (times_of d cid)) - seconds 1" by linarith
    then show ?thesis using \<open>t \<in> set archive\<close> False assms(1) by (simp add: eligible_def frontier_def)
  qed (use t assms(1) in \<open>auto simp: eligible_def frontier_def\<close>)
qed

text \<open>C6. A backfill may be stopped anywhere, by a timeout or by an exception of the exchange or the database,
  and picked up from the state row by a later run. If what the exchange answered was honest, the
  database it leaves has the contract either synced, with exactly the points an uninterrupted
  run would have stored, and no longer pending; or still pending, and then the next backfill, against an
  exchange that answers, ends with exactly these points and the contract synced.\<close>

theorem backfill_resumes:
  assumes "db_ok d" and "bounds_tight d"
    and "(c, s) \<in> set (get_contracts_pending_history_backfill_by_section d sec)"
    and "honest_if_answering archive fetch1" and "honest_source archive fetch2" and "spaced archive"
    and "backfill_one_contract m fetch1 clock1 (c, s) d = (r1, d1)"
    and "card (eligible archive (initial_before_timestamp s)) < n"
    and "whole = set (times_of d (c_id c)) \<union> eligible archive (initial_before_timestamp s)"
  shows "if synced_now d1 (c_id c)
    then set (times_of d1 (c_id c)) = whole \<and>
      (\<forall>s1. (c, s1) \<notin> set (get_contracts_pending_history_backfill_by_section d1 sec))
    else \<exists>s1. (c, s1) \<in> set (get_contracts_pending_history_backfill_by_section d1 sec) \<and>
      (\<exists>r d2. backfill_one_contract n fetch2 clock2 (c, s1) d1 = (Done r, d2) \<and> \<not> k_failed r \<and>
        set (times_of d2 (c_id c)) = whole \<and> (whole \<noteq> {} \<longrightarrow> synced_now d2 (c_id c)))"
proof -
  note pf = pending_facts [OF assms(3)]
  obtain r0 where l: "backfill_loop m fetch1 clock1 (c_id c) 0 (initial_before_timestamp s)
      (hs_oldest s \<noteq> None) 0 0 d = (r0, d1)"
    using assms(7) by (auto simp: backfill_one_contract_def split: prod.splits outcome.splits)
  have inv: "db_ok d1" "bounds_tight d1" "touches (c_id c) d d1" using backfill_one_inv [OF assms(7,1,2)] by simp_all
  have fr: "frontier d (c_id c) (initial_before_timestamp s)"
    using initial_frontier [OF assms(2) pf(1)] by (simp only: pf(2))
  have "\<not> synced_now d (c_id c)" using state_row_facts(4) [OF assms(1,2) pf(1,2)] pf(4) by (auto simp: synced_now_def)
  from backfill_loop_partial [OF assms(4,6) l fr this] obtain b where
    b: "frontier d1 (c_id c) b" "set (times_of d1 (c_id c)) \<union> eligible archive b = whole"
      "set (times_of d (c_id c)) \<subseteq> set (times_of d1 (c_id c))" "synced_now d1 (c_id c) \<longrightarrow> eligible archive b = {}"
    unfolding assms(9) by blast
  show ?thesis
  proof (cases "synced_now d1 (c_id c)")
    case True
    then show ?thesis using b still_pending(1) [OF assms(3) inv(1,3)] by simp
  next
    case False
    then obtain s1 where s1: "(c, s1) \<in> set (get_contracts_pending_history_backfill_by_section d1 sec)"
      using still_pending(2) [OF assms(3) inv(1,3)] by blast
    note pf1 = pending_facts [OF s1]
    have eq: "b = initial_before_timestamp s1"
      using initial_frontier [OF inv(2) pf1(1)] b(1) pf1(2) by (simp add: frontier_def)
    have row: "c_id c \<in> hs_contract ` set (history_states d1)" using pf1(1,2) by force
    have stored: "(hs_oldest s1 \<noteq> None) = (times_of d1 (c_id c) \<noteq> [])"
      by (rule state_row_facts(1) [OF inv(1,2) pf1(1,2)])
    have "card (eligible archive b) \<le> card (eligible archive (initial_before_timestamp s))"
      using frontier_eligible [OF fr b(1,3)] by (intro card_mono) simp_all
    then have bud: "card (eligible archive b) < n" using assms(8) by simp
    from backfill_loop_complete [OF assms(5,6) inv(1,2) row stored bud, of clock2 0 0 0]
    obtain r d2 where "backfill_loop n fetch2 clock2 (c_id c) 0 b (hs_oldest s1 \<noteq> None) 0 0 d1 = (Done r, d2)"
      "\<not> k_failed r" "set (times_of d2 (c_id c)) = whole" "times_of d2 (c_id c) \<noteq> [] \<longrightarrow> synced_now d2 (c_id c)"
      unfolding b(2) by blast
    then have "backfill_one_contract n fetch2 clock2 (c, s1) d1 = (Done r, d2)" "whole \<noteq> {} \<longrightarrow> synced_now d2 (c_id c)"
      using eq by (auto simp: backfill_one_contract_def)
    then show ?thesis using False s1 \<open>\<not> k_failed r\<close> \<open>set (times_of d2 (c_id c)) = whole\<close> by auto
  qed
qed

text \<open>Stopped by an HTTP error after one batch of two points, resumed from the row that batch left.\<close>

definition fails_second :: "utc list \<Rightarrow> backward_fetch" where
  "fails_second archive k before = (if k = 1 then Inl HTTPError else two_newest archive k before)"

theorem backfill_resumes_witness:
  "\<exists>r1 d1 s1 r d2. backfill_one_contract 9 (fails_second (map hours [0, 8, 16, 24, 32, 40])) (\<lambda>_. hours 50)
      (h_contract, hd (history_states h_db)) h_db = (Done r1, d1) \<and> k_failed r1 \<and>
    backfill_one_contract 9 (two_newest (map hours [0, 8, 16, 24, 32, 40])) (\<lambda>_. hours 60)
      (h_contract, s1) d1 = (Done r, d2) \<and> hs_oldest s1 = Some (hours 24) \<and>
    set (times_of d2 3) = hours ` {0, 8, 16, 24, 32, 40} \<and> synced_now d2 3"
proof -
  let ?A = "map hours [0, 8, 16, 24, 32, 40]"
  let ?s = "hd (history_states h_db)"
  let ?run = "backfill_one_contract 9 (fails_second ?A) (\<lambda>_. hours 50) (h_contract, ?s) h_db"
  let ?whole = "set (times_of h_db (c_id h_contract)) \<union> eligible ?A (initial_before_timestamp ?s)"
  define d1 where "d1 = snd ?run"
  have "case fst ?run of Done r \<Rightarrow> k_failed r | _ \<Rightarrow> False" by code_simp
  then obtain r1 where one: "?run = (Done r1, d1)" "k_failed r1"
    by (cases ?run) (auto simp: d1_def split: outcome.splits)
  have inv: "db_ok h_db" "bounds_tight h_db" by code_simp+
  have pend: "(h_contract, ?s) \<in> set (get_contracts_pending_history_backfill_by_section h_db ''okx'')"
    by code_simp
  have rows: "list_all (\<lambda>(c, s). hs_oldest s = Some (hours 24)) (get_contracts_pending_history_backfill_by_section d1 ''okx'')"
    "list_all (\<lambda>s. \<not> hs_synced s) (history_states d1)"
    unfolding d1_def by code_simp+
  have sp: "spaced ?A" by (simp add: spaced_def hours_def seconds_def)
  have old: "hs_oldest ?s = Some (hours 40)" by (simp add: h_db_def)
  have el: "eligible ?A (initial_before_timestamp ?s) = hours ` {0, 8, 16, 24, 32}"
    by (auto simp: eligible_def initial_before_timestamp_def old hours_def seconds_def)
  have "card (hours ` {0, 8, 16, 24, 32 :: int}) \<le> card {0, 8, 16, 24, 32 :: int}" by (rule card_image_le) simp
  then have bud: "card (eligible ?A (initial_before_timestamp ?s)) < 9" unfolding el by simp
  have t: "set (times_of h_db 3) = {hours 40}" by code_simp
  have id: "c_id h_contract = 3" by (simp add: h_contract_def)
  have whole: "?whole = hours ` {0, 8, 16, 24, 32, 40}" unfolding id el t by auto
  have src: "honest_if_answering ?A (fails_second ?A)"
    using honest_source_answering [OF two_newest_honest, of ?A] by (auto simp: honest_if_answering_def fails_second_def)
  have not_synced: "\<not> synced_now d1 (c_id h_contract)" using rows(2) by (auto simp: synced_now_def list_all_iff)
  obtain s1 r d2 where s1: "(h_contract, s1) \<in> set (get_contracts_pending_history_backfill_by_section d1 ''okx'')"
    and run: "backfill_one_contract 9 (two_newest ?A) (\<lambda>_. hours 60) (h_contract, s1) d1 = (Done r, d2)"
    and res: "set (times_of d2 (c_id h_contract)) = ?whole" "?whole \<noteq> {} \<longrightarrow> synced_now d2 (c_id h_contract)"
    using backfill_resumes [OF inv pend src two_newest_honest sp one(1) bud refl, of "\<lambda>_. hours 60"]
    unfolding if_not_P [OF not_synced] by blast
  have "?whole \<noteq> {}" unfolding whole by blast
  with res have "set (times_of d2 3) = hours ` {0, 8, 16, 24, 32, 40}" "synced_now d2 3"
    unfolding whole by (simp_all only: id simp_thms)
  moreover have "hs_oldest s1 = Some (hours 24)" using s1 rows(1) by (auto simp: list_all_iff)
  ultimately show ?thesis using one run by blast
qed

section \<open>Updates close the gap at the new end\<close>

lemma run_updates_skip:
  "run_updates cancel fetch now css p d = (ok, q, d') \<Longrightarrow> db_ok d \<Longrightarrow> bounds_tight d \<Longrightarrow>
   cid \<notin> c_id ` fst ` set css \<Longrightarrow> same_contract cid d d'"
proof (induction css arbitrary: p d ok)
  case (Cons cs css)
  show ?case
  proof (cases "cancel (fst cs)")
    case True
    then obtain ok' where "run_updates cancel fetch now css p d = (ok', q, d')"
      using Cons.prems(1) by (auto split: prod.splits)
    from Cons.IH [OF this] Cons.prems show ?thesis by simp
  next
    case False
    then obtain r e where u: "update_one_contract fetch now cs d = (r, e)"
      and rest: "run_updates cancel fetch now css (apply_update p r) e = (ok, q, d')"
      using Cons.prems(1) by (auto split: prod.splits)
    note inv = update_one_inv [OF u Cons.prems(2,3)]
    have "same_contract cid e d'" using Cons.IH [OF rest] inv Cons.prems(4) by simp
    moreover have "same_contract cid d e"
      using touches_other [of "c_id (fst cs)" d e cid] inv Cons.prems(4) by (auto simp: same_contract_def)
    ultimately show ?thesis by (simp add: same_contract_def)
  qed
qed (simp add: same_contract_def)

lemma run_updates_isolated:
  "run_updates cancel fetch now css p d = (ok, q, d') \<Longrightarrow> db_ok d \<Longrightarrow> bounds_tight d \<Longrightarrow>
   distinct (map (c_id \<circ> fst) css) \<Longrightarrow> (c, s) \<in> set css \<Longrightarrow> \<not> cancel c \<Longrightarrow>
   \<exists>e r e'. same_contract (c_id c) d e \<and> db_ok e \<and> bounds_tight e \<and>
     update_one_contract fetch now (c, s) e = (r, e') \<and> same_contract (c_id c) e' d'"
proof (induction css arbitrary: p d ok)
  case (Cons cs css)
  show ?case
  proof (cases "cancel (fst cs)")
    case True
    then obtain ok' where "run_updates cancel fetch now css p d = (ok', q, d')"
      using Cons.prems(1) by (auto split: prod.splits)
    moreover have "(c, s) \<in> set css" using True Cons.prems(5,6) by auto
    ultimately show ?thesis using Cons.IH Cons.prems by simp
  next
    case False
    then obtain r e where u: "update_one_contract fetch now cs d = (r, e)"
      and rest: "run_updates cancel fetch now css (apply_update p r) e = (ok, q, d')"
      using Cons.prems(1) by (auto split: prod.splits)
    note inv = update_one_inv [OF u Cons.prems(2,3)]
    show ?thesis
    proof (cases "cs = (c, s)")
      case True
      have "c_id c \<notin> c_id ` fst ` set css" using Cons.prems(4) True by (auto simp: image_image)
      then have "same_contract (c_id c) e d'" using run_updates_skip [OF rest] inv by blast
      then show ?thesis using u True Cons.prems(2,3)
        by (intro exI [of _ d] exI [of _ r] exI [of _ e]) (simp add: same_contract_def)
    next
      case False
      then have mem: "(c, s) \<in> set css" using Cons.prems(5) by simp
      then have "c_id (fst cs) \<noteq> c_id c" using Cons.prems(4) by force
      then have "same_contract (c_id c) d e" using touches_other inv by (auto simp: same_contract_def)
      moreover from Cons.IH [OF rest] inv Cons.prems(4,6) mem obtain f r' f' where
        "same_contract (c_id c) e f" "db_ok f" "bounds_tight f"
        "update_one_contract fetch now (c, s) f = (r', f')" "same_contract (c_id c) f' d'"
        by auto
      ultimately show ?thesis
        by (intro exI [of _ f] exI [of _ r'] exI [of _ f']) (simp add: same_contract_def)
    qed
  qed
qed simp

text \<open>The exchange answers with every settlement from \<open>after\<close> on, up to \<open>now\<close>.\<close>

definition forward_source :: "utc list \<Rightarrow> utc \<Rightarrow> (utc \<Rightarrow> funding_point list res) \<Rightarrow> bool" where
  "forward_source archive now fetch \<longleftrightarrow> (\<forall>after. \<exists>ps. fetch after = Inr ps \<and>
     timestamp ` set ps = {t \<in> set archive. after \<le> t \<and> t \<le> now})"

text \<open>C9. If the exchange answers a contract's update with every settlement since the requested
  instant and the task is not cancelled, the run stores all settlements after the newest
  stored one and loses none in between; a contract is skipped only while less than its
  funding interval and a second has passed since its newest point. Other contracts of the run
  have no influence.\<close>

theorem history_update_closes_gap:
  assumes "run_history_update cancel fetch now sec d = (ok, q, d')"
    and "db_ok d" and "bounds_tight d"
    and "(c, s) \<in> set (get_contracts_with_history_state_by_section d sec)"
    and "hs_newest s = Some newest" and "\<not> cancel c"
    and "forward_source archive now (fetch c)" and "spaced archive" and "newest \<in> set archive"
  shows "if is_fresh c s now then now < newest + hours (c_interval c) + seconds 1
         else set (times_of d' (c_id c)) =
           set (times_of d (c_id c)) \<union> {t \<in> set archive. newest < t \<and> t \<le> now}"
proof (cases "is_fresh c s now")
  case True
  then show ?thesis using assms(5) by (simp add: is_fresh_def)
next
  case False
  let ?css = "get_contracts_with_history_state_by_section d sec"
  let ?stale = "filter (\<lambda>(c, s). \<not> is_fresh c s now) ?css"
  have "?css \<noteq> []" using assms(4) by auto
  then have run: "run_updates cancel fetch now ?stale (no_update\<lparr>up_total := length ?css,
      up_skipped := length ?css - length ?stale, up_attempted := length ?stale\<rparr>) d = (ok, q, d')"
    using assms(1) by (simp add: run_history_update_def Let_def)
  have dist: "distinct (map (c_id \<circ> fst) ?stale)"
    unfolding get_contracts_with_history_state_by_section_def
    by (intro distinct_map_filter join_distinct [OF assms(2)])
  have mem: "(c, s) \<in> set ?stale" using assms(4) False by simp
  have s: "s \<in> set (history_states d)" "hs_contract s = c_id c"
    using assms(4) by (auto simp: get_contracts_with_history_state_by_section_def contract_state_join_def)
  from run_updates_isolated [OF run assms(2,3) dist mem assms(6)] obtain e r e' where
    same: "same_contract (c_id c) d e" "same_contract (c_id c) e' d'" and ok: "db_ok e" "bounds_tight e"
    and one: "update_one_contract fetch now (c, s) e = (r, e')" by blast
  have "s \<in> set (history_states e)" using same(1) s unfolding same_contract_def by (metis rows_mem)
  then have row: "c_id c \<in> hs_contract ` set (history_states e)" using s(2) by force
  from assms(7) obtain ps where ps: "fetch c (newest + seconds 1) = Inr ps"
    "timestamp ` set ps = {t \<in> set archive. newest + seconds 1 \<le> t \<and> t \<le> now}"
    unfolding forward_source_def by blast
  have later: "newest + seconds 1 \<le> t \<longleftrightarrow> newest < t" if "t \<in> set archive" for t
    using assms(8,9) that by (auto simp: spaced_def seconds_def)
  have new: "timestamp ` set ps = {t \<in> set archive. newest < t \<and> t \<le> now}"
    unfolding ps(2) using later by blast
  have "set (times_of e' (c_id c)) = set (times_of e (c_id c)) \<union> timestamp ` set ps"
  proof (cases "ps = []")
    case True
    then have "e' = e" using one ps(1) assms(5) by (simp add: update_one_contract_def next_fetch_timestamp_def)
    then show ?thesis using True by simp
  next
    case False
    obtain b e2 where per: "persist_historical_funding_batch now (c_id c) ps e = Inr (b, e2)"
      using persist_succeeds [OF ok(1) False row] by blast
    then have "e' = e2" using one ps(1) assms(5) False
      by (simp add: update_one_contract_def next_fetch_timestamp_def)
    then show ?thesis using persist_times [OF per, of "c_id c"] by simp
  qed
  then show ?thesis using False same new by (simp add: same_contract_def)
qed

theorem history_update_closes_gap_witness:
  "\<exists>q d'. run_history_update (\<lambda>_. False)
      (\<lambda>_ after. Inr (map h_point (filter (\<lambda>t. after \<le> t \<and> t \<le> hours 57) (map hours [40, 48, 56]))))
      (hours 57) ''okx'' h_db = (True, q, d') \<and> set (times_of d' 3) = hours ` {40, 48, 56}"
proof -
  let ?A = "map hours [40, 48, 56]"
  let ?f = "\<lambda>(_::contract_row) after. Inr (map h_point (filter (\<lambda>t. after \<le> t \<and> t \<le> hours 57) ?A))"
  let ?s = "hd (history_states h_db)"
  let ?run = "run_history_update (\<lambda>_. False) ?f (hours 57) ''okx'' h_db"
  have inv: "db_ok h_db" "bounds_tight h_db" by code_simp+
  have "fst ?run = True" by code_simp
  then obtain q d' where r: "?run = (True, q, d')" by (cases ?run) auto
  have mem: "(h_contract, ?s) \<in> set (get_contracts_with_history_state_by_section h_db ''okx'')" by code_simp
  have n: "hs_newest ?s = Some (hours 40)" by (simp add: h_db_def)
  have src: "forward_source ?A (hours 57) (?f h_contract)"
    by (auto simp: forward_source_def h_point_def)
  have sp: "spaced ?A" "hours 40 \<in> set ?A" by (simp_all add: spaced_def hours_def seconds_def)
  have nf: "\<not> is_fresh h_contract ?s (hours 57)" by code_simp
  have nc: "\<not> (\<lambda>_. False) h_contract" by simp
  have old: "set (times_of h_db 3) = {hours 40}" by code_simp
  have id: "c_id h_contract = 3" by (simp add: h_contract_def)
  from history_update_closes_gap [OF r inv mem n nc src sp] nf old
  have "set (times_of d' 3) = {hours 40} \<union> {t \<in> set ?A. hours 40 < t \<and> t \<le> hours 57}"
    by (simp only: if_False id)
  also have "\<dots> = hours ` {40, 48, 56}" by (auto simp: hours_def)
  finally show ?thesis using r by blast
qed

end
