(* ===== verification/HistoryState.thy ===== *)
theory HistoryState
  imports History Registry
begin

text \<open>
  All writers of the history tables together. Jobs of different exchanges, the tasks of one run
  and the registry interleave at transaction boundaries; \<open>db_step\<close> is one committed
  transaction of any of them, and \<open>reachable\<close> any interleaving from an empty database.
\<close>

inductive db_step :: "db \<Rightarrow> db \<Rightarrow> bool" where
  step_sections: "ensure_sections names d = Inr ((), d') \<Longrightarrow> db_step d d'"
| step_registry: "register_contracts uuids now sec fetched d = Inr (r, d') \<Longrightarrow> db_step d d'"
| step_persist: "persist_historical_funding_batch now cid ps d = Inr (b, d') \<Longrightarrow> db_step d d'"
| step_synced: "mark_history_synced now cid d = Inr ((), d') \<Longrightarrow> db_step d d'"
| step_live: "insert_live_funding_points records d = Inr (n, d') \<Longrightarrow> db_step d d'"

inductive_cases db_stepE: "db_step d d'"

definition empty_db :: db where
  "empty_db = \<lparr>sections = [], assets = [], quotes = [], contracts = [], history_states = [],
     historical_points = [], live_points = []\<rparr>"

inductive reachable :: "db \<Rightarrow> bool" where
  init: "reachable empty_db"
| step: "reachable d \<Longrightarrow> db_step d d' \<Longrightarrow> reachable d'"

section \<open>The invariant\<close>

lemma ensure_sections_inv:
  assumes "ensure_sections names d = Inr ((), d')" "db_ok d" "bounds_tight d"
  shows "db_ok d' \<and> bounds_tight d'"
proof -
  let ?rows = "map (\<lambda>n. \<lparr>s_name = n, s_special = JObj []\<rparr>) names"
  have d': "d' = d\<lparr>sections := fst (insert_ignore s_name (sections d) ?rows)\<rparr>"
    using assms(1) by (auto simp: ensure_sections_def bulk_insert_ignore split: if_splits)
  have k: "s_name ` set (sections d) \<subseteq> s_name ` set (sections d')"
    by (simp add: d' insert_ignore_keys)
  have o: "assets d' = assets d" "quotes d' = quotes d" "contracts d' = contracts d"
    "history_states d' = history_states d" "historical_points d' = historical_points d"
    "live_points d' = live_points d" by (simp_all add: d')
  have "list_all (contract_fk d') (contracts d)"
    using assms(2) k by (auto simp: db_ok_def list_all_iff contract_fk_def o)
  moreover have "distinct (map s_name (sections d'))"
    using assms(2) insert_ignore_distinct [of s_name "sections d" ?rows] by (simp add: d' db_ok_def)
  ultimately have ok: "db_ok d'" using assms(2) fk_contract_cong [of d' d] o by (simp add: db_ok_def)
  have "times_of d' = times_of d" by (rule times_of_cong) (rule o)
  then have "state_tight d' = state_tight d" by (simp add: fun_eq_iff state_tight_def)
  then show ?thesis using ok assms(3) by (simp add: bounds_tight_def o)
qed

lemma live_bounds_tight:
  assumes "insert_live_funding_points xs d = Inr (n, d')" "bounds_tight d" shows "bounds_tight d'"
proof -
  from insert_live_ok [OF assms(1)] obtain new where d': "d' = d\<lparr>live_points := live_points d @ new\<rparr>" by blast
  have o: "history_states d' = history_states d" "historical_points d' = historical_points d"
    by (simp_all add: d')
  have "times_of d' = times_of d" by (rule times_of_cong) (rule o)
  then have "state_tight d' = state_tight d" by (simp add: fun_eq_iff state_tight_def)
  then show ?thesis using assms(2) by (simp add: bounds_tight_def o)
qed

lemma db_step_inv: "db_step d d' \<Longrightarrow> db_ok d \<Longrightarrow> bounds_tight d \<Longrightarrow> db_ok d' \<and> bounds_tight d'"
proof (induction rule: db_step.induct)
  case (step_sections names d d')
  then show ?case using ensure_sections_inv by blast
next
  case (step_registry uuids now sec fetched d r d')
  then show ?case using register_db_ok by blast
next
  case (step_persist now cid ps d b d')
  then show ?case using persist_db_ok persist_bounds_tight by blast
next
  case (step_synced now cid d d')
  then show ?case using mark_synced_db_ok mark_synced_bounds_tight by blast
next
  case (step_live records d n d')
  then show ?case using insert_live_db_ok live_bounds_tight by blast
qed

lemma reachable_inv: "reachable d \<Longrightarrow> db_ok d \<and> bounds_tight d"
proof (induction rule: reachable.induct)
  case init
  show ?case by (simp add: empty_db_def db_ok_def bounds_tight_def)
next
  case (step d d')
  then show ?case using db_step_inv by blast
qed

section \<open>Nothing is lost\<close>

text \<open>\<open>bound_le\<close> orders stored bounds: once set, the oldest one only moves back.\<close>

definition oldest_moves :: "utc option \<Rightarrow> utc option \<Rightarrow> bool" where
  "oldest_moves a b \<longleftrightarrow> (case a of None \<Rightarrow> True | Some t \<Rightarrow> (case b of None \<Rightarrow> False | Some u \<Rightarrow> u \<le> t))"

definition newest_moves :: "utc option \<Rightarrow> utc option \<Rightarrow> bool" where
  "newest_moves a b \<longleftrightarrow> (case a of None \<Rightarrow> True | Some t \<Rightarrow> (case b of None \<Rightarrow> False | Some u \<Rightarrow> t \<le> u))"

definition state_advances :: "history_state \<Rightarrow> history_state \<Rightarrow> bool" where
  "state_advances s s' \<longleftrightarrow> hs_contract s' = hs_contract s \<and> (hs_synced s \<longrightarrow> hs_synced s') \<and>
     oldest_moves (hs_oldest s) (hs_oldest s') \<and> newest_moves (hs_newest s) (hs_newest s')"

definition advances :: "db \<Rightarrow> db \<Rightarrow> bool" where
  "advances d d' \<longleftrightarrow> (\<exists>new. historical_points d' = historical_points d @ new) \<and>
     (\<exists>new. live_points d' = live_points d @ new) \<and>
     (\<forall>s\<in>set (history_states d). \<exists>s'\<in>set (history_states d'). state_advances s s') \<and>
     (\<forall>c\<in>set (contracts d). \<exists>c'\<in>set (contracts d'). c_id c' = c_id c \<and> c_key c' = c_key c)"

lemma state_advances_refl [simp]: "state_advances s s"
  by (simp add: state_advances_def oldest_moves_def newest_moves_def split: option.splits)

lemma state_advances_trans: "state_advances s t \<Longrightarrow> state_advances t u \<Longrightarrow> state_advances s u"
  by (auto simp: state_advances_def oldest_moves_def newest_moves_def split: option.splits)

lemma advancesI:
  assumes "history_states d' = history_states d @ xs" "historical_points d' = historical_points d @ ys"
    and "live_points d' = live_points d @ zs"
    and "\<And>c. c \<in> set (contracts d) \<Longrightarrow> \<exists>c'\<in>set (contracts d'). c_id c' = c_id c \<and> c_key c' = c_key c"
  shows "advances d d'"
  unfolding advances_def
proof (intro conjI ballI)
  fix s assume "s \<in> set (history_states d)"
  then show "\<exists>s'\<in>set (history_states d'). state_advances s s'"
    by (intro bexI [where x = s]) (simp_all add: assms(1))
qed (use assms in auto)

lemma advances_refl [simp]: "advances d d"
  by (rule advancesI [of _ _ "[]" "[]" "[]"]) auto

lemma advances_trans:
  assumes "advances d e" "advances e f" shows "advances d f"
  unfolding advances_def
proof (intro conjI ballI)
  show "\<exists>new. historical_points f = historical_points d @ new" "\<exists>new. live_points f = live_points d @ new"
    using assms by (auto simp: advances_def)
next
  fix s assume "s \<in> set (history_states d)"
  then obtain t where t: "t \<in> set (history_states e)" "state_advances s t"
    using assms(1) unfolding advances_def by blast
  then obtain u where "u \<in> set (history_states f)" "state_advances t u"
    using assms(2) unfolding advances_def by blast
  then show "\<exists>s'\<in>set (history_states f). state_advances s s'" using t state_advances_trans by blast
next
  fix c assume "c \<in> set (contracts d)"
  then obtain x where x: "x \<in> set (contracts e)" "c_id x = c_id c" "c_key x = c_key c"
    using assms(1) unfolding advances_def by blast
  then obtain y where "y \<in> set (contracts f)" "c_id y = c_id x" "c_key y = c_key x"
    using assms(2) unfolding advances_def by blast
  then show "\<exists>c'\<in>set (contracts f). c_id c' = c_id c \<and> c_key c' = c_key c" using x by auto
qed

lemma advances_map_states:
  assumes "history_states d' = map f (history_states d)" "\<And>s. s \<in> set (history_states d) \<Longrightarrow> state_advances s (f s)"
    and "\<exists>new. historical_points d' = historical_points d @ new" "live_points d' = live_points d"
    and "contracts d' = contracts d"
  shows "advances d d'"
  using assms by (auto simp: advances_def)

lemma register_tables:
  assumes "register_contracts uuids now sec fetched d = Inr (r, d')" "db_ok d"
  shows "historical_points d' = historical_points d" "live_points d' = live_points d"
    "\<exists>new. history_states d' = history_states d @ new"
proof -
  from assms(1) obtain feed where f: "fetched = Inr feed" by (auto simp: register_contracts_def res_simps)
  obtain res sigs where rr: "r = (res, sigs)" by force
  from assms(1) have reg: "register_contracts uuids now sec (Inr feed) d = Inr ((res, sigs), d')"
    by (simp only: f rr)
  have "historical_points d' = historical_points d \<and> live_points d' = live_points d \<and>
      (\<exists>new. history_states d' = history_states d @ new)"
  proof (cases "feed = []")
    case False
    obtain d1 p d2 where e: "ensure_quotes_and_assets feed d = Inr ((), d1)"
      and rc: "reconcile (get_by_section d1 sec) feed = Inr p"
      and ap: "apply_plan uuids sec p d1 = Inr ((), d2)"
      and cm: "create_missing_for_section now sec d2 = Inr ((), d')"
      by (rule register_steps [OF reg False])
    note eo = ensure_ok [OF e assms(2)]
    obtain rows where d2: "d2 = d1\<lparr>contracts := map (\<lambda>c. if c_section c = sec then sync_row feed c else c)
        (contracts d1) @ rows\<rparr>"
      by (rule apply_plan_eq [OF rc ap db_ok_contract_ids [OF eo(1)]])
    obtain new where "d' = d2\<lparr>history_states := history_states d2 @ new\<rparr>"
      by (rule create_missing_spec [OF cm])
    then show ?thesis using eo d2 by simp
  qed (use reg in \<open>simp add: register_contracts_def\<close>)
  then show "historical_points d' = historical_points d" "live_points d' = live_points d"
    "\<exists>new. history_states d' = history_states d @ new" by blast+
qed

lemma db_step_advances: "db_step d d' \<Longrightarrow> db_ok d \<Longrightarrow> advances d d'"
proof (induction rule: db_step.induct)
  case (step_sections names d d')
  then obtain ss where "d' = d\<lparr>sections := ss\<rparr>"
    by (cases d) (auto simp: ensure_sections_def bulk_insert_ignore split: if_splits)
  then show ?case by (intro advancesI [of _ _ "[]" "[]" "[]"]) auto
next
  case (step_registry uuids now sec fetched d r d')
  obtain feed res sigs where fr: "fetched = Inr feed" "r = (res, sigs)"
    using step_registry(1) by (cases r) (auto simp: register_contracts_def res_simps)
  obtain new where "history_states d' = history_states d @ new"
    using register_tables(3) [OF step_registry] by blast
  then show ?case
    using register_tables(1,2) [OF step_registry] register_rows_kept [OF step_registry [unfolded fr]]
    by (intro advancesI [of _ _ new "[]" "[]"]) simp_all
next
  case (step_persist now cid ps d b d')
  have "state_advances s (s\<lparr>hs_oldest := least_case (hs_oldest s) (min_time ps),
      hs_newest := greatest_case (hs_newest s) (max_time ps), hs_updated_at := now\<rparr>)" for s
    by (simp add: state_advances_def oldest_moves_def newest_moves_def least_case_def greatest_case_def
        split: option.splits)
  then show ?case
    using persist_points(1,3,4) [OF step_persist(1)]
    by (intro advances_map_states [OF persist_states [OF step_persist(1)]]) auto
next
  case (step_synced now cid d d')
  have "history_states d' = map (\<lambda>s. if hs_contract s = cid
      then s\<lparr>hs_synced := True, hs_updated_at := now\<rparr> else s) (history_states d)"
    by (simp add: mark_synced_ok(1) [OF step_synced(1)])
  then show ?case
    by (rule advances_map_states)
       (auto simp: mark_synced_ok(1) [OF step_synced(1)] state_advances_def oldest_moves_def
         newest_moves_def split: option.splits)
next
  case (step_live records d n d')
  from insert_live_ok [OF step_live(1)] obtain new where "d' = d\<lparr>live_points := live_points d @ new\<rparr>" by blast
  then show ?case by (intro advancesI [of _ _ "[]" "[]" new]) auto
qed

inductive db_steps :: "db \<Rightarrow> db \<Rightarrow> bool" where
  refl: "db_steps d d"
| step: "db_steps d e \<Longrightarrow> db_step e f \<Longrightarrow> db_steps d f"

lemma db_steps_advances: "db_steps d f \<Longrightarrow> db_ok d \<Longrightarrow> bounds_tight d \<Longrightarrow> advances d f \<and> db_ok f \<and> bounds_tight f"
proof (induction rule: db_steps.induct)
  case (step d e f)
  then show ?case using db_step_advances db_step_inv advances_trans by blast
qed simp

lemma reachable_steps: "db_steps d f \<Longrightarrow> reachable d \<Longrightarrow> reachable f"
  by (induction rule: db_steps.induct) (auto intro: reachable.step)

lemma map_of_append_left: "map_of xs k = Some v \<Longrightarrow> map_of (xs @ ys) k = Some v"
  by (simp add: map_add_Some_iff)

section \<open>Properties\<close>

text \<open>C10. In every database the services can reach, from an empty one and under any interleaving
  of their transactions, all schema constraints hold and the history bounds are exact: the
  stored oldest and newest timestamps of a contract are those of its stored points, and a
  contract marked synced has points.\<close>

theorem reachable_history_invariant:
  assumes "reachable d"
  shows "db_ok d \<and> bounds_tight d \<and>
    (\<forall>s\<in>set (history_states d). hs_oldest s = least_of (times_of d (hs_contract s)) \<and>
       hs_newest s = greatest_of (times_of d (hs_contract s)) \<and>
       (hs_synced s \<longrightarrow> times_of d (hs_contract s) \<noteq> []))"
proof -
  note i = reachable_inv [OF assms]
  then have "\<forall>s\<in>set (history_states d). state_tight d s \<and> synced_has_bounds s"
    by (auto simp: bounds_tight_def db_ok_def list_all_iff)
  then have "\<forall>s\<in>set (history_states d). hs_oldest s = least_of (times_of d (hs_contract s)) \<and>
       hs_newest s = greatest_of (times_of d (hs_contract s)) \<and>
       (hs_synced s \<longrightarrow> times_of d (hs_contract s) \<noteq> [])"
    by (auto simp: state_tight_def synced_has_bounds_def least_of_def)
  with i show ?thesis by blast
qed

text \<open>A database reached by seeding a section, registering a contract and storing a batch.\<close>

definition r_ops :: "db res" where
  "r_ops = rbind (ensure_sections [''okx''] empty_db) (\<lambda>(_, d1).
     rbind (register_contracts Suc 0 ''okx'' (Inr w_feed) d1) (\<lambda>(_, d2).
     rbind (persist_historical_funding_batch 5 1 [h_point (hours 8), h_point (hours 4)] d2) (\<lambda>(_, d3).
     rbind (mark_history_synced 9 1 d3) (\<lambda>(_, d4). Inr d4))))"

lemma r_ops_reachable:
  assumes "r_ops = Inr d" shows "reachable d"
proof -
  from assms obtain d1 r d2 b d3 where
    "ensure_sections [''okx''] empty_db = Inr ((), d1)"
    "register_contracts Suc 0 ''okx'' (Inr w_feed) d1 = Inr (r, d2)"
    "persist_historical_funding_batch 5 1 [h_point (hours 8), h_point (hours 4)] d2 = Inr (b, d3)"
    "mark_history_synced 9 1 d3 = Inr ((), d)"
    unfolding r_ops_def by (auto simp: res_simps)
  then show ?thesis
    by (meson reachable.intros db_step.intros)
qed

theorem reachable_history_invariant_witness:
  "\<exists>d. reachable d \<and> (\<forall>s\<in>set (history_states d). hs_oldest s = least_of (times_of d (hs_contract s))) \<and>
     times_of d 1 = [hours 8, hours 4] \<and> synced_now d 1"
proof -
  have "(case r_ops of Inr d \<Rightarrow> times_of d 1 = [hours 8, hours 4] \<and>
      list_ex (\<lambda>s. hs_contract s = 1 \<and> hs_synced s) (history_states d) | Inl _ \<Rightarrow> False)" by code_simp
  then obtain d where d: "r_ops = Inr d" "times_of d 1 = [hours 8, hours 4]" "synced_now d 1"
    by (auto simp: synced_now_def list_ex_iff split: sum.splits)
  from r_ops_reachable [OF d(1)] have "reachable d" .
  with reachable_history_invariant [OF this] d show ?thesis by blast
qed

text \<open>C11. Nothing recorded is ever lost or rewritten: along any further sequence of transactions
  a stored settlement keeps its rate, bounds only widen, the synced flag is never taken back,
  and contracts keep their identifier and key.\<close>

theorem history_never_regresses:
  assumes "reachable d" and "db_steps d f"
  shows "(\<forall>k r. hist.look d k = Some r \<longrightarrow> hist.look f k = Some r) \<and>
    (\<forall>s\<in>set (history_states d). \<exists>s'\<in>set (history_states f). hs_contract s' = hs_contract s \<and>
       (hs_synced s \<longrightarrow> hs_synced s') \<and> oldest_moves (hs_oldest s) (hs_oldest s') \<and>
       newest_moves (hs_newest s) (hs_newest s')) \<and>
    (\<forall>c\<in>set (contracts d). \<exists>c'\<in>set (contracts f). c_id c' = c_id c \<and> c_key c' = c_key c)"
proof -
  note i = reachable_inv [OF assms(1)]
  have a: "advances d f" using db_steps_advances [OF assms(2)] i by blast
  then obtain new where n: "historical_points f = historical_points d @ new" by (auto simp: advances_def)
  have "hist.look f k = Some r" if "hist.look d k = Some r" for k r
    using that unfolding hist.look_def n map_append by (rule map_of_append_left)
  with a show ?thesis unfolding advances_def state_advances_def by blast
qed

theorem history_never_regresses_witness:
  "\<exists>d f. reachable d \<and> hist.look d (1, hours 8) = Some (1 / 10000) \<and>
     persist_historical_funding_batch 20 1 [\<lparr>rate = 7, timestamp = hours 8\<rparr>] d =
       Inr (\<lparr>b_oldest = hours 8, b_newest = hours 8, b_written = 0\<rparr>, f) \<and>
     hist.look f (1, hours 8) = Some (1 / 10000)"
proof -
  let ?op = "persist_historical_funding_batch 20 1 [\<lparr>rate = 7, timestamp = hours 8\<rparr>]"
  have "(case r_ops of Inr d \<Rightarrow> hist.look d (1, hours 8) = Some (1 / 10000) \<and>
      (case ?op d of Inr (b, f) \<Rightarrow> b = \<lparr>b_oldest = hours 8, b_newest = hours 8, b_written = 0\<rparr>
        | Inl _ \<Rightarrow> False) | Inl _ \<Rightarrow> False)"
    unfolding hist.look_def by code_simp
  then obtain d f where d: "r_ops = Inr d" "hist.look d (1, hours 8) = Some (1 / 10000)"
    "?op d = Inr (\<lparr>b_oldest = hours 8, b_newest = hours 8, b_written = 0\<rparr>, f)"
    by (auto split: sum.splits prod.splits)
  have r: "reachable d" by (rule r_ops_reachable [OF d(1)])
  have "db_steps d f" by (rule db_steps.step [OF db_steps.refl step_persist [OF d(3)]])
  from history_never_regresses [OF r this] have "hist.look f (1, hours 8) = Some (1 / 10000)"
    using d(2) by blast
  then show ?thesis using r d by blast
qed

end
