(* ===== verification/Pipeline.thy ===== *)
theory Pipeline
  imports AdaptersBinance HistoryState
begin

text \<open>
  The backfill workflow composed with an adapter: the windows of \<open>BaseExchange.fetch_history_before\<close>,
  the request and the parsing of \<open>BinanceUsdmExchange\<close>, and the conversions of \<open>time.py\<close> between
  the loop's instants and the exchange's milliseconds.
\<close>

section \<open>What the exchange answers\<close>

text \<open>The settlements of a contract, oldest first: time in milliseconds and the text of the rate.\<close>

type_synonym settlement = "int \<times> string"

definition funding_record :: "string \<Rightarrow> settlement \<Rightarrow> json" where
  "funding_record symbol x = JObj [(''symbol'', JStr symbol), (''fundingTime'', JInt (fst x)),
     (''fundingRate'', JStr (snd x))]"

text \<open>Binance documents for \<open>/fapi/v1/fundingRate\<close>: the records from \<open>startTime\<close> to \<open>endTime\<close>, both
  inclusive, in ascending order, and only the first \<open>limit\<close> of them.\<close>

definition asked_for :: "int \<Rightarrow> int \<Rightarrow> settlement \<Rightarrow> bool" where
  "asked_for a b x \<longleftrightarrow> a \<le> fst x \<and> fst x \<le> b"

definition binance_serves :: "api \<Rightarrow> contract_row \<Rightarrow> settlement list \<Rightarrow> bool" where
  "binance_serves api c ss \<longleftrightarrow> (\<forall>a b. api_get api 0 ''https://fapi.binance.com/fapi/v1/fundingRate''
     [(''symbol'', JStr (usdm_format_symbol c)), (''startTime'', JInt a), (''endTime'', JInt b),
      (''limit'', JInt 1000)] = Inr (JArr (map (funding_record (usdm_format_symbol c)) (take 1000 (filter (asked_for a b) ss)))))"

definition ms_per_hour :: int where "ms_per_hour = 3600000"

text \<open>Settlements are at least two seconds and at most 999 hours apart, their rates are numbers.\<close>

definition settlements_ok :: "settlement list \<Rightarrow> bool" where
  "settlements_ok ss \<longleftrightarrow> ss \<noteq> [] \<and>
     successively (\<lambda>x y. fst x + 2000 \<le> fst y \<and> fst y \<le> fst x + 999 * ms_per_hour) ss \<and>
     (\<forall>x\<in>set ss. 1000 \<le> fst x \<and> fst x < 2 ^ 32 * 1000 \<and> parse_float (snd x) \<noteq> None)"

text \<open>No window of the adapter holds more records than one answer.\<close>

definition windows_fit :: "settlement list \<Rightarrow> bool" where
  "windows_fit ss \<longleftrightarrow> (\<forall>b. length (filter (asked_for (b - 1000 * 3600 * 1000) b) ss) \<le> 1000)"

text \<open>The newest settlement is past, and not more than 999 hours.\<close>

definition recent :: "settlement list \<Rightarrow> utc \<Rightarrow> bool" where
  "recent ss now \<longleftrightarrow> float_safe now \<and> (fst (last ss) + 2) * 1000 \<le> now \<and>
     now \<le> (fst (last ss) + 999 * ms_per_hour) * 1000"

definition settled :: "settlement \<Rightarrow> funding_point" where
  "settled x = \<lparr>rate = the (parse_float (snd x)), timestamp = fst x * 1000\<rparr>"

definition instants :: "settlement list \<Rightarrow> utc list" where
  "instants ss = map (\<lambda>x. fst x * 1000) ss"

text \<open>The adapter's \<open>fetch_history_before\<close>; the clock and the answers may change with every call.\<close>

definition usdm_backward :: "(nat \<Rightarrow> api) \<Rightarrow> (nat \<Rightarrow> utc) \<Rightarrow> contract_row \<Rightarrow> backward_fetch" where
  "usdm_backward api now c k before = fetch_history_before 1000 (usdm_fetch_history (api k)) (now k) c before"

section \<open>One window\<close>

lemma to_unix_milliseconds_near:
  assumes "float_safe t"
  shows "1000 * to_unix_milliseconds t \<le> t + 1" "t < 1000 * to_unix_milliseconds t + 1002"
proof -
  let ?x = "timestamp_of t * 1000" and ?r = "of_int t / 1000 :: rat"
  have e: "\<bar>?x - ?r\<bar> < 1000 / 2097152" using timestamp_of_error [OF assms] by linarith
  have nn: "0 \<le> ?x" using assms by (simp add: timestamp_of_nonneg float_safe_def)
  have "(of_int t :: rat) < of_int (2 ^ 32 * us_per_second)"
    using assms by (simp only: of_int_less_iff float_safe_def)
  then have "?r < 4294967296000" by simp
  then have "?x < 4398046511104" using e by linarith
  then have "\<bar>?x\<bar> / 2 ^ 53 < 1 / 2048" using nn by simp
  then have "\<bar>fl ?x - ?x\<bar> < 1 / 2048" using fl_error [of ?x] by linarith
  with e have f: "fl ?x < ?r + 1 / 1000" "?r < fl ?x + 1 / 1000" by linarith+
  have pos: "0 \<le> fl ?x" using nn by (rule fl_nonneg)
  define m where "m = to_unix_milliseconds t"
  have "m = \<lfloor>fl ?x\<rfloor>" using pos by (simp add: m_def to_unix_milliseconds_def py_int_def)
  then have m: "of_int m \<le> fl ?x" "fl ?x < of_int m + 1" by linarith+
  from m(1) f(1) have "1000 * (of_int m :: rat) \<le> of_int t + 1" by linarith
  then have "(of_int (1000 * m) :: rat) \<le> of_int (t + 1)" by simp
  then show "1000 * to_unix_milliseconds t \<le> t + 1" unfolding m_def of_int_le_iff .
  from m(2) f(2) have "(of_int t :: rat) < 1000 * of_int m + 1002" by linarith
  then have "(of_int t :: rat) < of_int (1000 * m + 1002)" by simp
  then show "t < 1000 * to_unix_milliseconds t + 1002" unfolding m_def of_int_less_iff .
qed

lemma history_points_settled:
  assumes "\<forall>x\<in>set xs. 1000 \<le> fst x \<and> fst x < 2 ^ 32 * 1000 \<and> parse_float (snd x) \<noteq> None"
  shows "history_points (float_at ''fundingRate'') (ms_at ''fundingTime'') (map (funding_record symbol) xs) =
    Inr (map settled xs)"
  using assms
proof (induction xs)
  case (Cons x xs)
  have "from_unix_milliseconds (of_int (fst x)) = Inr (fst x * 1000)"
    using Cons.prems by (intro from_unix_milliseconds_of_int) auto
  then show ?case using Cons
    by (auto simp: history_points_def funding_record_def float_at_def ms_at_def jms_def settled_def res_simps)
qed (simp add: history_points_def)

lemma usdm_history:
  assumes "binance_serves api c ss" "settlements_ok ss"
  shows "usdm_fetch_history api c a b = Inr (map settled (take 1000 (filter (asked_for a b) ss)))"
proof -
  let ?xs = "take 1000 (filter (asked_for a b) ss)"
  have "set ?xs \<subseteq> set ss" using set_take_subset [of 1000 "filter (asked_for a b) ss"] by auto
  then have "\<forall>x\<in>set ?xs. 1000 \<le> fst x \<and> fst x < 2 ^ 32 * 1000 \<and> parse_float (snd x) \<noteq> None"
    using assms(2) unfolding settlements_ok_def by blast
  note h = history_points_settled [OF this, of "usdm_format_symbol c"]
  have "api_get api 0 ''https://fapi.binance.com/fapi/v1/fundingRate''
     [(''symbol'', JStr (usdm_format_symbol c)), (''startTime'', JInt a), (''endTime'', JInt b),
      (''limit'', JInt 1000)] = Inr (JArr (map (funding_record (usdm_format_symbol c)) ?xs))"
    using assms(1) unfolding binance_serves_def by blast
  then show ?thesis using h by (simp add: usdm_fetch_history_def)
qed


text \<open>The bounds the loop can hold: none, or a second before some settlement.\<close>

definition held_bound :: "settlement list \<Rightarrow> utc option \<Rightarrow> bool" where
  "held_bound ss before \<longleftrightarrow> before = None \<or> (\<exists>x\<in>set ss. before = Some (fst x * 1000 - seconds 1))"

lemma settlements_sorted:
  assumes "settlements_ok ss"
  shows "sorted_wrt (\<lambda>x y. fst x + 2000 \<le> fst y) ss"
proof -
  have "successively (\<lambda>x y. fst x + 2000 \<le> fst y) ss"
    using assms unfolding settlements_ok_def by (auto intro: successively_mono)
  then show ?thesis by (subst (asm) successively_conv_sorted_wrt) (auto intro: transpI)
qed

lemma sorted_apart:
  fixes x y :: settlement
  shows "sorted_wrt (\<lambda>x y. fst x + 2000 \<le> fst y) ss \<Longrightarrow> x \<in> set ss \<Longrightarrow> y \<in> set ss \<Longrightarrow> fst x < fst y \<Longrightarrow>
    fst x + 2000 \<le> fst y"
  by (induction ss) auto

lemma last_newest:
  fixes x :: settlement
  shows "sorted_wrt (\<lambda>x y. fst x + 2000 \<le> fst y) ss \<Longrightarrow> x \<in> set ss \<Longrightarrow> fst x \<le> fst (last ss)"
  by (induction ss) (auto, smt (verit) last_in_set)

lemma predecessor:
  fixes x y :: settlement
  shows "successively (\<lambda>x y. fst x + 2000 \<le> fst y \<and> fst y \<le> fst x + g) ss \<Longrightarrow> x \<in> set ss \<Longrightarrow> y \<in> set ss \<Longrightarrow>
    fst y < fst x \<Longrightarrow> \<exists>p\<in>set ss. fst p < fst x \<and> fst x \<le> fst p + g"
proof (induction ss arbitrary: y)
  case (Cons z ss)
  show ?case
  proof (cases ss)
    case Nil
    then show ?thesis using Cons.prems by auto
  next
    case (Cons w ws)
    have s: "successively (\<lambda>x y. fst x + 2000 \<le> fst y \<and> fst y \<le> fst x + g) ss"
      and z: "fst z + 2000 \<le> fst w" "fst w \<le> fst z + g"
      using Cons.prems(1) Cons by auto
    have "successively (\<lambda>x y. fst x + 2000 \<le> fst y) (z # ss)"
      using Cons.prems(1) by (rule successively_mono) auto
    then have so: "sorted_wrt (\<lambda>x y. fst x + 2000 \<le> fst y) (z # ss)"
      by (subst (asm) successively_conv_sorted_wrt) (auto intro: transpI)
    have x: "x \<in> set ss" using so Cons.prems(2-4) by auto
    show ?thesis
    proof (cases "x = w")
      case True
      then show ?thesis using z by (intro bexI [of _ z]) auto
    next
      case False
      then have "fst w < fst x" using x so Cons by auto
      then show ?thesis using Cons.IH [OF s x, of w] Cons by auto
    qed
  qed
qed simp

text \<open>The end of the window separates the settlements at or before the bound from the others, and if
  there is one before it, there is one in the window.\<close>

lemma window_end:
  fixes before :: "utc option"
  assumes ok: "settlements_ok ss" and now: "recent ss now" and held: "held_bound ss before"
  defines "e \<equiv> to_unix_milliseconds (case before of None \<Rightarrow> now | Some t \<Rightarrow> t)"
  shows "x \<in> set ss \<Longrightarrow> (case before of None \<Rightarrow> True | Some b \<Rightarrow> fst x * 1000 \<le> b) \<longleftrightarrow> fst x \<le> e"
    "x \<in> set ss \<Longrightarrow> fst x \<le> e \<Longrightarrow> \<exists>p\<in>set ss. e - 1000 * 3600 * 1000 \<le> fst p \<and> fst p \<le> e"
proof -
  note so = settlements_sorted [OF ok]
  show before: "(case before of None \<Rightarrow> True | Some b \<Rightarrow> fst x * 1000 \<le> b) \<longleftrightarrow> fst x \<le> e" if x: "x \<in> set ss" for x
  proof (cases before)
    case None
    then show ?thesis
      using to_unix_milliseconds_near(2) [of now] last_newest [OF so x] now by (simp add: e_def recent_def)
  next
    case (Some t)
    then obtain y where y: "y \<in> set ss" "t = fst y * 1000 - seconds 1" using held by (auto simp: held_bound_def)
    have "1000 \<le> fst y" "fst y < 2 ^ 32 * 1000" using ok y(1) by (auto simp: settlements_ok_def)
    then have "float_safe t" by (simp add: float_safe_def y(2) seconds_def)
    note n = to_unix_milliseconds_near [OF this]
    show ?thesis
      using n sorted_apart [OF so x y(1)] by (auto simp: Some e_def y(2) seconds_def)
  qed
  show "\<exists>p\<in>set ss. e - 1000 * 3600 * 1000 \<le> fst p \<and> fst p \<le> e" if x: "x \<in> set ss" "fst x \<le> e" for x
  proof (cases before)
    case None
    have "last ss \<in> set ss" using ok by (simp add: settlements_ok_def)
    moreover have "1000 * e \<le> now + 1"
      using to_unix_milliseconds_near(1) [of now] now None by (simp add: e_def recent_def)
    ultimately show ?thesis
      using before [of "last ss"] now None by (intro bexI [of _ "last ss"]) (auto simp: recent_def ms_per_hour_def)
  next
    case (Some t)
    then obtain y where y: "y \<in> set ss" "t = fst y * 1000 - seconds 1" using held by (auto simp: held_bound_def)
    have "1000 \<le> fst y" "fst y < 2 ^ 32 * 1000" using ok y(1) by (auto simp: settlements_ok_def)
    then have "float_safe t" by (simp add: float_safe_def y(2) seconds_def)
    then have n: "1000 * e \<le> t + 1" using to_unix_milliseconds_near(1) Some by (simp add: e_def)
    have "fst x < fst y" using before [OF x(1)] x(2) by (simp add: Some y(2) seconds_def)
    from predecessor [OF _ y(1) x(1) this, of "999 * ms_per_hour"] ok obtain p where
      p: "p \<in> set ss" "fst p < fst y" "fst y \<le> fst p + 999 * ms_per_hour"
      unfolding settlements_ok_def by blast
    have "fst p \<le> e"
      using before [OF p(1)] sorted_apart [OF so p(1) y(1) p(2)] by (simp add: Some y(2) seconds_def)
    moreover have "e - 1000 * 3600 * 1000 \<le> fst p"
      using n p(3) by (simp add: y(2) seconds_def ms_per_hour_def)
    ultimately show ?thesis using p(1) by blast
  qed
qed

text \<open>Every answer to a bound the loop can hold is honest.\<close>

lemma window_honest:
  assumes serves: "binance_serves api c ss" and ok: "settlements_ok ss" and fit: "windows_fit ss"
    and now: "recent ss now" and held: "held_bound ss before"
  shows "\<exists>ps. fetch_history_before 1000 (usdm_fetch_history api) now c before = Inr ps \<and>
    honest_batch (instants ss) before ps"
proof -
  define e where "e = to_unix_milliseconds (case before of None \<Rightarrow> now | Some t \<Rightarrow> t)"
  define a where "a = e - 1000 * 3600 * 1000"
  define xs where "xs = filter (asked_for a e) ss"
  have "fetch_history_before 1000 (usdm_fetch_history api) now c before = usdm_fetch_history api c a e"
    by (simp add: fetch_history_before_def e_def a_def Let_def split: option.splits)
  also have "\<dots> = Inr (map settled xs)"
    using usdm_history [OF serves ok, of a e] fit by (simp add: xs_def windows_fit_def a_def)
  finally have f: "fetch_history_before 1000 (usdm_fetch_history api) now c before = Inr (map settled xs)" .
  have ts: "timestamp ` set (map settled xs) = (\<lambda>x. fst x * 1000) ` set xs"
    by (simp add: settled_def image_image)
  note we = window_end [OF ok now held, folded e_def]
  have el: "eligible (instants ss) before = (\<lambda>x. fst x * 1000) ` {x \<in> set ss. fst x \<le> e}"
    using we(1) by (force simp: eligible_def instants_def)
  have near: "\<exists>p\<in>set ss. asked_for a e p" if "x \<in> set ss" "fst x \<le> e" for x
    using we(2) [OF that] by (simp add: a_def asked_for_def)
  have xs: "set xs = {x \<in> set ss. a \<le> fst x \<and> fst x \<le> e}" by (auto simp: xs_def asked_for_def)
  have "t < s" if t: "t \<in> (\<lambda>x. fst x * 1000) ` {x \<in> set ss. fst x \<le> e}" "t \<notin> (\<lambda>x. fst x * 1000) ` set xs"
    and s: "s \<in> (\<lambda>x. fst x * 1000) ` set xs" for s t
  proof -
    obtain x where "x \<in> set ss" "fst x \<le> e" "t = fst x * 1000" using t(1) by blast
    moreover from this t(2) have "\<not> a \<le> fst x" unfolding xs by blast
    ultimately show ?thesis using s unfolding xs by auto
  qed
  moreover have "map settled xs = [] \<longrightarrow> {x \<in> set ss. fst x \<le> e} = {}"
  proof (intro impI equals0I)
    fix x assume "map settled xs = []" "x \<in> {x \<in> set ss. fst x \<le> e}"
    then have "set xs = {}" "x \<in> set ss" "fst x \<le> e" by simp_all
    with near [of x] show False unfolding xs asked_for_def by blast
  qed
  moreover have "set xs \<subseteq> {x \<in> set ss. fst x \<le> e}" using xs by blast
  ultimately have "honest_batch (instants ss) before (map settled xs)"
    unfolding honest_batch_def ts el by (metis (no_types, lifting) image_is_empty image_mono)
  with f show ?thesis by blast
qed


section \<open>The whole backfill\<close>

text \<open>Two sources that agree on the bounds the loop can hold drive it alike.\<close>

lemma backfill_loop_agree:
  assumes agree: "\<And>k b. V b \<Longrightarrow> f k b = g k b"
    and held: "\<And>k b ps. V b \<Longrightarrow> g k b = Inr ps \<Longrightarrow> ps \<noteq> [] \<Longrightarrow> V (Some (min_time ps - seconds 1))"
  shows "V before \<Longrightarrow> backfill_loop n f clock cid k before stored pf pw d =
    backfill_loop n g clock cid k before stored pf pw d"
proof (induction n arbitrary: k before stored pf pw d)
  case (Suc n)
  note eq = agree [OF Suc.prems, of k]
  show ?case
  proof (cases "g k before")
    case (Inr ps)
    have "b_oldest b = min_time ps"
      if "persist_historical_funding_batch (clock k) cid ps d = Inr (b, e)" for b e
      by (rule persist_ok [OF that])
    then show ?thesis
      using Inr eq Suc.IH held [OF Suc.prems Inr] by (auto split: sum.splits)
  qed (simp add: eq)
qed simp

definition every_settlement :: "utc list \<Rightarrow> utc option \<Rightarrow> funding_point list res" where
  "every_settlement archive before = Inr (map (\<lambda>t. \<lparr>rate = 0, timestamp = t\<rparr>)
     (filter (\<lambda>t. case before of None \<Rightarrow> True | Some b \<Rightarrow> t \<le> b) archive))"

lemma every_settlement_honest: "\<exists>ps. every_settlement archive before = Inr ps \<and> honest_batch archive before ps"
  by (auto simp: every_settlement_def honest_batch_def eligible_def image_image filter_empty_conv)

lemma run_backfills_source:
  "run_backfills budget fetch clock css p d = (ok, q, d') \<Longrightarrow>
   pt \<in> set (historical_points d') \<Longrightarrow> pt \<in> set (historical_points d) \<or>
     (\<exists>cs\<in>set css. \<exists>k b ps. fetch (fst cs) k b = Inr ps \<and> pt \<in> record_of (c_id (fst cs)) ` set ps)"
proof (induction css arbitrary: p d ok)
  case (Cons cs css)
  obtain r e where u: "backfill_one_contract (budget (fst cs)) (fetch (fst cs)) clock cs d = (r, e)" by force
  then obtain p' ok' where rest: "run_backfills budget fetch clock css p' e = (ok', q, d')"
    using Cons.prems(1) by (auto split: prod.splits outcome.splits)
  obtain r0 where l: "backfill_loop (budget (fst cs)) (fetch (fst cs)) clock (c_id (fst cs)) 0
      (initial_before_timestamp (snd cs)) (hs_oldest (snd cs) \<noteq> None) 0 0 d = (r0, e)"
    using u by (auto simp: backfill_one_contract_def split: prod.splits outcome.splits)
  show ?case
    using Cons.IH [OF rest Cons.prems(2)] backfill_source_points [OF l] by (meson list.set_intros)
qed simp


lemma usdm_task_agrees:
  assumes ok: "settlements_ok ss" and fit: "windows_fit ss"
    and api: "\<And>k. binance_serves (api k) c ss \<and> recent ss (now k)"
    and held: "held_bound ss (initial_before_timestamp s)"
  defines "f \<equiv> \<lambda>k b. if held_bound ss b then usdm_backward api now c k b else every_settlement (instants ss) b"
  shows "honest_source (instants ss) f"
    "backfill_one_contract n (usdm_backward api now c) clock (c, s) e = backfill_one_contract n f clock (c, s) e"
proof -
  have h: "\<exists>ps. usdm_backward api now c k b = Inr ps \<and> honest_batch (instants ss) b ps" if "held_bound ss b" for k b
    using window_honest [OF _ ok fit _ that] api by (simp add: usdm_backward_def)
  then show src: "honest_source (instants ss) f"
    unfolding honest_source_def f_def using every_settlement_honest by simp
  have "held_bound ss (Some (min_time ps - seconds 1))"
    if "held_bound ss b" "f k b = Inr ps" "ps \<noteq> []" for k b ps
  proof -
    have "honest_batch (instants ss) b ps" using src that(2) unfolding honest_source_def by (metis sum.inject(2))
    then have "timestamp ` set ps \<subseteq> set (instants ss)" by (auto simp: honest_batch_def eligible_def)
    then have "min_time ps \<in> set (instants ss)" using min_time_in [OF that(3)] by blast
    then show ?thesis by (auto simp: held_bound_def instants_def)
  qed
  moreover have "usdm_backward api now c k b = f k b" if "held_bound ss b" for k b
    using that by (simp add: f_def)
  ultimately show "backfill_one_contract n (usdm_backward api now c) clock (c, s) e =
      backfill_one_contract n f clock (c, s) e"
    using backfill_loop_agree [of "held_bound ss" "usdm_backward api now c" f, OF _ _ held]
    by (simp add: backfill_one_contract_def)
qed

lemma spaced_instants: "settlements_ok ss \<Longrightarrow> spaced (instants ss)"
  unfolding spaced_def instants_def using sorted_apart [OF settlements_sorted]
  by (fastforce simp: seconds_def)

text \<open>Whatever a run adds for a contract are records of the exchange, with their times and rates.\<close>

lemma usdm_run_points:
  assumes "run_history_backfill budget (\<lambda>c. usdm_backward (api c) now c) clock sec d = (ok, q, d')"
    and "db_ok d" and "(c, s) \<in> set (get_contracts_pending_history_backfill_by_section d sec)"
    and "settlements_ok ss" and api: "\<And>k. binance_serves (api c k) c ss"
  shows "set (points_of d' (c_id c)) \<subseteq> set (points_of d (c_id c)) \<union> record_of (c_id c) ` settled ` set ss"
proof
  fix p assume p: "p \<in> set (points_of d' (c_id c))"
  let ?css = "get_contracts_pending_history_backfill_by_section d sec"
  have "?css \<noteq> []" using assms(3) by auto
  then have run: "run_backfills budget (\<lambda>c. usdm_backward (api c) now c) clock ?css
      (no_backfill\<lparr>bp_total := length ?css, bp_attempted := length ?css\<rparr>) d = (ok, q, d')"
    using assms(1) by (simp add: run_history_backfill_def Let_def)
  have "distinct (map (c_id \<circ> fst) ?css)"
    unfolding get_contracts_pending_history_backfill_by_section_def
    by (rule distinct_map_filter [OF join_distinct [OF assms(2)]])
  then have inj: "inj_on (c_id \<circ> fst) (set ?css)" by (simp add: distinct_map)
  have pd: "p \<in> set (historical_points d')" "p_contract p = c_id c" using p by (auto simp: points_of_def)
  from run_backfills_source [OF run pd(1)]
  consider "p \<in> set (historical_points d)"
    | cs k b ps x where "cs \<in> set ?css" "usdm_backward (api (fst cs)) now (fst cs) k b = Inr ps"
        "x \<in> set ps" "p = record_of (c_id (fst cs)) x" by blast
  then show "p \<in> set (points_of d (c_id c)) \<union> record_of (c_id c) ` settled ` set ss"
  proof cases
    case 1
    then show ?thesis using pd(2) by (simp add: points_of_def)
  next
    case (2 cs k b ps x)
    have "c_id (fst cs) = c_id c" using 2(4) pd(2) by (simp add: record_of_def)
    then have cs: "fst cs = c" using inj_onD [OF inj _ 2(1) assms(3)] by simp
    from 2(2) obtain a e where "usdm_fetch_history (api c k) c a e = Inr ps"
      unfolding cs by (auto simp: usdm_backward_def fetch_history_before_def Let_def)
    then have "set ps \<subseteq> settled ` set ss"
      using usdm_history [OF api assms(4)] set_take_subset [of 1000] by fastforce
    then show ?thesis using 2(3,4) by (auto simp: cs)
  qed
qed

end
