(* ===== verification/AsterBackfill.thy ===== *)
theory AsterBackfill
  imports Pipeline
begin

text \<open>
  The backfill of an Aster contract. The windows of \<open>AsterExchange\<close> span \<open>_FETCH_STEP = 8000\<close> hours and
  an answer holds at most 1000 records, which is the whole window for an interval of eight hours
  only; the adapter itself detects other intervals.
\<close>

text \<open>Aster documents the same order and the same limit as Binance.\<close>

definition aster_serves :: "api \<Rightarrow> contract_row \<Rightarrow> settlement list \<Rightarrow> bool" where
  "aster_serves api c ss \<longleftrightarrow> (\<forall>a b. api_get api 0 ''https://fapi.asterdex.com/fapi/v1/fundingRate''
     [(''symbol'', JStr (aster_format_symbol c)), (''startTime'', JInt a), (''endTime'', JInt b),
      (''limit'', JInt 1000)] = Inr (JArr (map (funding_record (aster_format_symbol c)) (take 1000 (filter (asked_for a b) ss)))))"

definition ASTER_FETCH_STEP :: int where "ASTER_FETCH_STEP = 8000"

text \<open>The adapter's \<open>fetch_history_before\<close>.\<close>

definition aster_backward :: "(nat \<Rightarrow> api) \<Rightarrow> (nat \<Rightarrow> utc) \<Rightarrow> contract_row \<Rightarrow> backward_fetch" where
  "aster_backward api now c k before = fetch_history_before ASTER_FETCH_STEP (aster_fetch_history (api k)) (now k) c before"

text \<open>The records of the exchange in the window that ends at an instant.\<close>

definition aster_window :: "settlement list \<Rightarrow> utc \<Rightarrow> settlement list" where
  "aster_window ss t = filter (asked_for (to_unix_milliseconds t - ASTER_FETCH_STEP * 3600 * 1000) (to_unix_milliseconds t)) ss"

lemma aster_history:
  assumes "aster_serves api c ss" "settlements_ok ss"
  shows "aster_fetch_history api c a b = Inr (map settled (take 1000 (filter (asked_for a b) ss)))"
proof -
  let ?xs = "take 1000 (filter (asked_for a b) ss)"
  have "set ?xs \<subseteq> set ss" using set_take_subset [of 1000 "filter (asked_for a b) ss"] by auto
  then have "\<forall>x\<in>set ?xs. 1000 \<le> fst x \<and> fst x < 2 ^ 32 * 1000 \<and> parse_float (snd x) \<noteq> None"
    using assms(2) unfolding settlements_ok_def by blast
  note h = history_points_settled [OF this, of "aster_format_symbol c"]
  have "api_get api 0 ''https://fapi.asterdex.com/fapi/v1/fundingRate''
     [(''symbol'', JStr (aster_format_symbol c)), (''startTime'', JInt a), (''endTime'', JInt b),
      (''limit'', JInt 1000)] = Inr (JArr (map (funding_record (aster_format_symbol c)) ?xs))"
    using assms(1) unfolding aster_serves_def by blast
  then show ?thesis using h by (auto simp: aster_fetch_history_def assert_arr_def history_points_def)
qed

lemma aster_call:
  assumes "aster_serves (api k) c ss" "settlements_ok ss"
  shows "aster_backward api now c k (Some t) = Inr (map settled (take 1000 (aster_window ss t)))"
  by (simp add: aster_backward_def fetch_history_before_def aster_history [OF assms] aster_window_def Let_def)

text \<open>The records an answer leaves out are later than those it holds.\<close>

lemma left_out_later:
  assumes "settlements_ok ss" and "x \<in> set (drop 1000 (aster_window ss t))" and "z \<in> set (take 1000 (aster_window ss t))"
  shows "fst z + 2000 \<le> fst x"
proof -
  have "sorted_wrt (\<lambda>x y. fst x + 2000 \<le> fst y) (take 1000 (aster_window ss t) @ drop 1000 (aster_window ss t))"
    unfolding append_take_drop_id aster_window_def by (rule sorted_wrt_filter [OF settlements_sorted [OF assms(1)]])
  then show ?thesis using assms(2,3) unfolding sorted_wrt_append by blast
qed

lemma settlement_safe: "settlements_ok ss \<Longrightarrow> z \<in> set ss \<Longrightarrow> float_safe (fst z * 1000 - seconds 1)"
  by (auto simp: settlements_ok_def float_safe_def seconds_def)

text \<open>The bounds the loop passes once it has passed the one it starts with.\<close>

definition passed :: "utc \<Rightarrow> utc \<Rightarrow> utc option \<Rightarrow> bool" where
  "passed t0 s before \<longleftrightarrow> (\<exists>t. before = Some t \<and> float_safe t \<and> (t = t0 \<or> t \<le> s - seconds 1))"

lemma passed_answer:
  assumes serves: "aster_serves (api k) c ss" and ok: "settlements_ok ss"
    and x: "x \<in> set (drop 1000 (aster_window ss t0))" and b: "passed t0 (fst x * 1000) before"
    and ps: "aster_backward api now c k before = Inr ps" and p: "p \<in> set ps"
  shows "timestamp p < fst x * 1000 \<and> float_safe (timestamp p - seconds 1)"
proof -
  obtain t where t: "before = Some t" "float_safe t" "t = t0 \<or> t \<le> fst x * 1000 - seconds 1" using b by (auto simp: passed_def)
  then obtain z where z: "z \<in> set (take 1000 (aster_window ss t))" "p = settled z"
    using ps p aster_call [of api k c ss now t, OF serves ok] by auto
  have win: "z \<in> set (aster_window ss t)" using z(1) by (rule in_set_takeD)
  then have "z \<in> set ss" "fst z \<le> to_unix_milliseconds t" by (auto simp: aster_window_def asked_for_def)
  moreover have "1000 * to_unix_milliseconds t \<le> t + 1" by (rule to_unix_milliseconds_near(1) [OF t(2)])
  moreover have "fst z + 2000 \<le> fst x" if "t = t0" using left_out_later [OF ok x] z(1) that by simp
  ultimately have "fst z * 1000 < fst x * 1000" "float_safe (fst z * 1000 - seconds 1)"
    using t(3) settlement_safe [OF ok] by (auto simp: seconds_def)
  then show ?thesis by (simp add: z(2) settled_def)
qed

text \<open>C8. The backfill of an Aster contract with more than 1000 settlements in 8000 hours loses some: the answer to
  a window holds its first 1000 records, and as the loop goes on before the oldest of them, a
  record of the window that was left out is never stored, however long the loop runs. (An
  incremental update does not fetch it either when something newer is stored.)\<close>

theorem aster_backfill_skips:
  assumes "\<And>k. aster_serves (api k) c ss" and "settlements_ok ss" and "y \<in> set ss"
    and "x \<in> set (drop 1000 (aster_window ss (fst y * 1000 - seconds 1)))"
    and "backfill_loop n (aster_backward api now c) clock (c_id c) k (Some (fst y * 1000 - seconds 1)) stored pf pw d = (r, d')"
    and "fst x * 1000 \<notin> set (times_of d (c_id c))"
  shows "fst x * 1000 \<notin> set (times_of d' (c_id c))"
proof -
  let ?t0 = "fst y * 1000 - seconds 1" and ?s = "fst x * 1000"
  define g where "g = (\<lambda>k b. if passed ?t0 ?s b then aster_backward api now c k b else Inr [])"
  note ans = passed_answer [OF assms(1,2,4)]
  have held: "passed ?t0 ?s (Some (min_time ps - seconds 1))" if b: "passed ?t0 ?s b" and ps: "g k b = Inr ps" "ps \<noteq> []" for k b ps
  proof -
    obtain p where "p \<in> set ps" "min_time ps = timestamp p" using min_time_in [OF ps(2)] by auto
    moreover from this have "timestamp p < ?s \<and> float_safe (timestamp p - seconds 1)"
      using ans [OF b, where now = now and k = k and ps = ps and p = p] b ps(1) by (simp add: g_def)
    ultimately have "min_time ps < ?s" "float_safe (min_time ps - seconds 1)" by simp_all
    then show ?thesis by (simp add: passed_def)
  qed
  have "passed ?t0 ?s (Some ?t0)" using settlement_safe [OF assms(2,3)] by (simp add: passed_def)
  from backfill_loop_agree [of "passed ?t0 ?s" "aster_backward api now c" g, OF _ held this] assms(5)
  have run: "backfill_loop n g clock (c_id c) k (Some ?t0) stored pf pw d = (r, d')" by (simp add: g_def)
  have new: "p_time p \<noteq> ?s" if "g k b = Inr ps" "p \<in> record_of (c_id c) ` set ps" for k b ps p
  proof (cases "passed ?t0 ?s b")
    case True
    then show ?thesis using ans [OF True, where now = now and k = k and ps = ps] that by (fastforce simp: g_def record_of_def)
  qed (use that in \<open>auto simp: g_def\<close>)
  have "p \<in> set (historical_points d)" if "p \<in> set (historical_points d')" "p_time p = ?s" for p
    using backfill_source_points [OF run that(1)] new that(2) by blast
  then show ?thesis using assms(6) unfolding set_times_of p_key_def by auto
qed

text \<open>An hourly contract with 1002 settlements, of which the newest is stored. The one before it is lost.\<close>

definition hourly :: "settlement list" where
  "hourly = map (\<lambda>i. (int i * ms_per_hour, ''0.0001'')) [1..<1003]"

definition w_aster :: "contract_row \<Rightarrow> settlement list \<Rightarrow> api" where
  "w_aster c ss k r = (case map snd (rq_args r) of
     [_, JInt a, JInt b, _] \<Rightarrow> Inr (JArr (map (funding_record (aster_format_symbol c)) (take 1000 (filter (asked_for a b) ss))))
   | _ \<Rightarrow> Inl HTTPError)"

definition w_aster_db :: db where
  "w_aster_db = h_db\<lparr>history_states := [\<lparr>hs_contract = 3, hs_synced = False, hs_oldest = Some (hours 1002),
     hs_newest = Some (hours 1002), hs_updated_at = hours 1002\<rparr>], historical_points := [record_of 3 (h_point (hours 1002))]\<rparr>"

lemma hourly_ok: "settlements_ok hourly"
proof -
  have f: "parse_float ''0.0001'' \<noteq> None" by code_simp
  have "successively (\<lambda>i j. j = Suc i) [1..<1003]"
    by (auto simp: successively_conv_nth)
  then have "successively (\<lambda>x y. fst x + 2000 \<le> fst y \<and> fst y \<le> fst x + 999 * ms_per_hour) hourly"
    unfolding hourly_def successively_map by (rule successively_mono) (auto simp: ms_per_hour_def)
  then show ?thesis using f by (auto simp: settlements_ok_def hourly_def ms_per_hour_def)
qed

lemma hourly_window: "aster_window hourly (hours 1002 - seconds 1) = map (\<lambda>i. (int i * ms_per_hour, ''0.0001'')) [1..<1002]"
proof -
  have e: "to_unix_milliseconds (hours 1002 - seconds 1) = 1002 * ms_per_hour - 1000" by code_simp
  have "[1..<Suc 1002] = [1..<1002] @ [1002]" by (rule upt_Suc_append) simp
  then have s: "[1..<1003] = [1..<1002] @ [1002::nat]" by simp
  have "filter (asked_for (1002 * ms_per_hour - 1000 - ASTER_FETCH_STEP * 3600 * 1000) (1002 * ms_per_hour - 1000))
      (map (\<lambda>i. (int i * ms_per_hour, ''0.0001'')) [1..<1002]) = map (\<lambda>i. (int i * ms_per_hour, ''0.0001'')) [1..<1002]"
    by (rule filter_True) (auto simp: asked_for_def ms_per_hour_def ASTER_FETCH_STEP_def)
  then show ?thesis unfolding aster_window_def e hourly_def s map_append filter_append
    by (simp add: asked_for_def ms_per_hour_def)
qed

theorem aster_backfill_skips_witness:
  "\<exists>r d'. backfill_loop 5 (aster_backward (\<lambda>_. w_aster h_contract hourly) (\<lambda>_. hours 1003) h_contract) (\<lambda>_. hours 1003)
      (c_id h_contract) 0 (Some (hours 1002 - seconds 1)) True 0 0 w_aster_db = (r, d') \<and> (1001 * ms_per_hour, ''0.0001'') \<in> set hourly \<and>
    hours 1001 \<notin> set (times_of d' 3)"
proof -
  let ?loop = "backfill_loop 5 (aster_backward (\<lambda>_. w_aster h_contract hourly) (\<lambda>_. hours 1003) h_contract) (\<lambda>_. hours 1003)
      (c_id h_contract) 0 (Some (hours 1002 - seconds 1)) True 0 0 w_aster_db"
  obtain r d' where run: "?loop = (r, d')" by fastforce
  have serves: "aster_serves (w_aster h_contract hourly) h_contract hourly"
    by (simp add: aster_serves_def w_aster_def api_get_def)
  have y: "(1002 * ms_per_hour, ''0.0001'') \<in> set hourly" and x': "(1001 * ms_per_hour, ''0.0001'') \<in> set hourly"
    unfolding hourly_def set_map by (rule image_eqI [of _ _ 1002], simp_all) (rule image_eqI [of _ _ 1001], simp_all)
  have h: "fst (1002 * ms_per_hour, ''0.0001'') * 1000 = hours 1002" "fst (1001 * ms_per_hour, ''0.0001'') * 1000 = hours 1001"
    by (simp_all add: ms_per_hour_def hours_def)
  have "drop 1000 (aster_window hourly (hours 1002 - seconds 1)) = [(1001 * ms_per_hour, ''0.0001'')]"
    unfolding hourly_window drop_map drop_upt by simp
  then have x: "(1001 * ms_per_hour, ''0.0001'') \<in> set (drop 1000 (aster_window hourly (hours 1002 - seconds 1)))" by simp
  have old: "hours 1001 \<notin> set (times_of w_aster_db (c_id h_contract))" by code_simp
  from aster_backfill_skips [OF serves hourly_ok y, unfolded h, OF x run, unfolded h, OF old]
  have "hours 1001 \<notin> set (times_of d' 3)" by (simp add: h_contract_def)
  with run x' show ?thesis by blast
qed

end
