(* ===== verification/LiveQueue.thy ===== *)
theory LiveQueue
  imports PyIso Store
begin

text \<open>
  The control plane of live ingestion: the \<open>ingestion_task\<close> table with the statements of
  \<open>ingestion/live/queries.py\<close>, the scheduling tick of \<open>enqueuer.py\<close>, and claiming and
  finishing of \<open>worker.py\<close>. Every function below that changes the table is one committed
  transaction; workers and the scheduler interleave between them.
\<close>

section \<open>The task table\<close>

datatype task_status = Pending | Running | Done_status | Failed_status

record task =
  t_key :: string
  t_pipeline :: string
  t_exchange :: string
  t_scheduled_for :: utc
  t_payload :: json
  t_status :: task_status
  t_created_at :: utc
  t_claimed_at :: "utc option"
  t_finished_at :: "utc option"
  t_worker_id :: "string option"
  t_error_type :: "string option"
  t_error_message :: "string option"

definition LIVE_FUNDING_PIPELINE :: string where "LIVE_FUNDING_PIPELINE = ''live_funding''"
definition LIVE_FUNDING_TASK_KEY_PREFIX :: string where
  "LIVE_FUNDING_TASK_KEY_PREFIX = ''live_funding_snapshot''"
definition STALE_RUNNING_ERROR_TYPE :: string where "STALE_RUNNING_ERROR_TYPE = ''stale_running_task''"
definition STALE_RUNNING_ERROR_MESSAGE :: string where
  "STALE_RUNNING_ERROR_MESSAGE = ''Task was still running past the live worker timeout''"
definition TASK_TIMEOUT_ERROR_TYPE :: string where "TASK_TIMEOUT_ERROR_TYPE = ''task_timeout''"

text \<open>The order in which pending tasks are claimed: by creation time, then by key (in the order
  of character codes).\<close>

datatype claim_rank = Claim_rank (cr_created: utc) (cr_key: string)

instantiation claim_rank :: linorder
begin

definition less_eq_claim_rank :: "claim_rank \<Rightarrow> claim_rank \<Rightarrow> bool" where
  "less_eq_claim_rank a b \<longleftrightarrow> cr_created a < cr_created b \<or> cr_created a = cr_created b \<and> cr_key a \<le> cr_key b"

definition less_claim_rank :: "claim_rank \<Rightarrow> claim_rank \<Rightarrow> bool" where
  "less_claim_rank a b \<longleftrightarrow> cr_created a < cr_created b \<or> cr_created a = cr_created b \<and> cr_key a < cr_key b"

instance
proof
  fix x y z :: claim_rank
  show "(x < y) = (x \<le> y \<and> \<not> y \<le> x)"
    by (auto simp: less_eq_claim_rank_def less_claim_rank_def)
  show "x \<le> x" by (simp add: less_eq_claim_rank_def)
  show "x \<le> z" if "x \<le> y" "y \<le> z" using that by (auto simp: less_eq_claim_rank_def)
  show "x = y" if "x \<le> y" "y \<le> x"
    using that by (auto simp: less_eq_claim_rank_def intro: claim_rank.expand)
  show "x \<le> y \<or> y \<le> x" by (auto simp: less_eq_claim_rank_def)
qed

end

definition rank :: "task \<Rightarrow> claim_rank" where
  "rank t = Claim_rank (t_created_at t) (t_key t)"

section \<open>The scheduling tick\<close>

record enqueuer_config =
  enqueue_timeout :: timedelta
  task_timeout :: timedelta
  stale_running_grace :: timedelta

definition default_enqueuer_config :: enqueuer_config where
  "default_enqueuer_config = \<lparr>enqueue_timeout = seconds 45, task_timeout = seconds 45,
     stale_running_grace = seconds 15\<rparr>"

record tick =
  tk_now :: utc
  tk_scheduled_for :: utc
  tk_stale_before :: utc

definition from_instant :: "utc \<Rightarrow> enqueuer_config \<Rightarrow> tick res" where
  "from_instant now cfg = rbind (from_unix_seconds (timestamp_of now)) (\<lambda>instant.
     Inr \<lparr>tk_now = instant, tk_scheduled_for = start_of_minute now,
          tk_stale_before = instant - task_timeout cfg - stale_running_grace cfg\<rparr>)"

record enqueue_result =
  er_scheduled_for :: utc
  er_selected :: nat
  er_created :: nat
  er_skipped :: nat
  er_duplicate :: nat
  er_stale_failed :: nat

definition is_stale :: "tick \<Rightarrow> task \<Rightarrow> bool" where
  "is_stale tk t \<longleftrightarrow> t_pipeline t = LIVE_FUNDING_PIPELINE \<and> t_status t = Running \<and>
     (case t_claimed_at t of None \<Rightarrow> False | Some c \<Rightarrow> c < tk_stale_before tk)"

definition mark_stale_running_live_tasks_failed :: "tick \<Rightarrow> task list \<Rightarrow> string list \<times> task list" where
  "mark_stale_running_live_tasks_failed tk ts = (map t_key (filter (is_stale tk) ts),
     fst (update_where (is_stale tk) (\<lambda>t. t\<lparr>t_status := Failed_status, t_finished_at := Some (tk_now tk),
       t_error_type := Some STALE_RUNNING_ERROR_TYPE,
       t_error_message := Some STALE_RUNNING_ERROR_MESSAGE\<rparr>) ts))"

definition active :: "task \<Rightarrow> bool" where
  "active t \<longleftrightarrow> t_status t = Pending \<or> t_status t = Running"

definition get_active_live_task_exchanges :: "task list \<Rightarrow> string list \<Rightarrow> string list" where
  "get_active_live_task_exchanges ts exchanges = (if exchanges = [] then [] else
     remdups (map t_exchange (filter (\<lambda>t. t_pipeline t = LIVE_FUNDING_PIPELINE \<and>
       t_exchange t \<in> set exchanges \<and> active t) ts)))"

text \<open>\<open>created_at\<close> is the database's \<open>NOW()\<close>.\<close>

definition pending_task :: "utc \<Rightarrow> string \<Rightarrow> string \<Rightarrow> utc \<Rightarrow> task" where
  "pending_task db_now key exchange scheduled_for = \<lparr>t_key = key, t_pipeline = LIVE_FUNDING_PIPELINE,
     t_exchange = exchange, t_scheduled_for = scheduled_for, t_payload = JObj [], t_status = Pending,
     t_created_at = db_now, t_claimed_at = None, t_finished_at = None, t_worker_id = None,
     t_error_type = None, t_error_message = None\<rparr>"

definition insert_pending_live_task :: "utc \<Rightarrow> string \<Rightarrow> string \<Rightarrow> utc \<Rightarrow> task list \<Rightarrow> bool \<times> task list" where
  "insert_pending_live_task db_now key exchange scheduled_for ts =
     (case insert_ignore t_key ts [pending_task db_now key exchange scheduled_for] of
        (ts', n) \<Rightarrow> (n \<noteq> 0, ts'))"

definition build_live_funding_task_key :: "string \<Rightarrow> utc \<Rightarrow> string" where
  "build_live_funding_task_key exchange scheduled_for =
     LIVE_FUNDING_TASK_KEY_PREFIX @ '':'' @ exchange @ '':'' @ to_iso8601 scheduled_for"

text \<open>The loop over the exchanges: created, skipped, duplicate.\<close>

fun enqueue_loop ::
  "utc \<Rightarrow> utc \<Rightarrow> string list \<Rightarrow> string list \<Rightarrow> nat \<times> nat \<times> nat \<Rightarrow> task list \<Rightarrow> (nat \<times> nat \<times> nat) \<times> task list" where
  "enqueue_loop db_now sched act [] cnt ts = (cnt, ts)"
| "enqueue_loop db_now sched act (x # xs) (c, s, u) ts =
     (if x \<in> set act then enqueue_loop db_now sched act xs (c, Suc s, u) ts
      else case insert_pending_live_task db_now (build_live_funding_task_key x sched) x sched ts of
        (created, ts') \<Rightarrow>
          enqueue_loop db_now sched act xs (if created then (Suc c, s, u) else (c, s, Suc u)) ts')"

definition enqueue_tick :: "utc \<Rightarrow> string list \<Rightarrow> tick \<Rightarrow> task list \<Rightarrow> enqueue_result \<times> task list" where
  "enqueue_tick db_now exchanges tk ts =
     (case mark_stale_running_live_tasks_failed tk ts of (stale, ts1) \<Rightarrow>
        case enqueue_loop db_now (tk_scheduled_for tk) (get_active_live_task_exchanges ts1 exchanges)
               exchanges (0, 0, 0) ts1 of
          ((c, s, u), ts2) \<Rightarrow>
            (\<lparr>er_scheduled_for = tk_scheduled_for tk, er_selected = length exchanges, er_created = c,
              er_skipped = s, er_duplicate = u, er_stale_failed = length stale\<rparr>, ts2))"

text \<open>The scheduled job. \<open>timed_out\<close>: the tick's own timeout rolled the transaction back.\<close>

definition enqueue_live_funding_tick ::
  "bool \<Rightarrow> utc \<Rightarrow> string list \<Rightarrow> utc \<Rightarrow> enqueuer_config \<Rightarrow> task list \<Rightarrow> (enqueue_result \<times> task list) res" where
  "enqueue_live_funding_tick timed_out db_now exchanges now cfg ts =
     rbind (from_instant now cfg) (\<lambda>tk.
       if timed_out then Inl TimeoutError else Inr (enqueue_tick db_now exchanges tk ts))"

section \<open>Claiming and finishing\<close>

record claimed_task =
  ct_key :: string
  ct_exchange :: string
  ct_scheduled_for :: utc
  ct_payload :: json
  ct_created_at :: utc
  ct_claimed_at :: utc
  ct_worker_id :: string

definition claimable :: "(string \<Rightarrow> bool) \<Rightarrow> task \<Rightarrow> bool" where
  "claimable locked t \<longleftrightarrow> t_pipeline t = LIVE_FUNDING_PIPELINE \<and> t_status t = Pending \<and> \<not> locked (t_key t)"

text \<open>\<open>ORDER BY created_at, task_key FOR UPDATE SKIP LOCKED LIMIT 1\<close>: \<open>locked\<close> are the rows other
  transactions hold.\<close>

definition get_next_pending_live_task :: "(string \<Rightarrow> bool) \<Rightarrow> task list \<Rightarrow> task option" where
  "get_next_pending_live_task locked ts =
     (case sort_key rank (filter (claimable locked) ts) of [] \<Rightarrow> None | t # _ \<Rightarrow> Some t)"

definition to_claimed_live_task :: "string \<Rightarrow> task \<Rightarrow> claimed_task res" where
  "to_claimed_live_task worker t = (case t_claimed_at t of None \<Rightarrow> Inl ValueError
     | Some c \<Rightarrow> Inr \<lparr>ct_key = t_key t, ct_exchange = t_exchange t, ct_scheduled_for = t_scheduled_for t,
         ct_payload = t_payload t, ct_created_at = t_created_at t, ct_claimed_at = c,
         ct_worker_id = worker\<rparr>)"

definition claim_fields :: "utc \<Rightarrow> string \<Rightarrow> task \<Rightarrow> task" where
  "claim_fields now worker t = t\<lparr>t_status := Running, t_claimed_at := Some now, t_worker_id := Some worker,
     t_finished_at := None, t_error_type := None, t_error_message := None\<rparr>"

definition claim_next_pending_live_task ::
  "(string \<Rightarrow> bool) \<Rightarrow> utc \<Rightarrow> string \<Rightarrow> task list \<Rightarrow> (claimed_task option \<times> task list) res" where
  "claim_next_pending_live_task locked now worker ts =
     (case get_next_pending_live_task locked ts of
        None \<Rightarrow> Inr (None, ts)
      | Some t \<Rightarrow> rbind (to_claimed_live_task worker (claim_fields now worker t)) (\<lambda>ct.
          Inr (Some ct, map (\<lambda>u. if t_key u = t_key t then claim_fields now worker u else u) ts)))"

definition owned :: "string \<Rightarrow> string \<Rightarrow> task \<Rightarrow> bool" where
  "owned key worker t \<longleftrightarrow> t_key t = key \<and> t_pipeline t = LIVE_FUNDING_PIPELINE \<and>
     t_status t = Running \<and> t_worker_id t = Some worker"

definition mark_live_task_done :: "string \<Rightarrow> string \<Rightarrow> utc \<Rightarrow> task list \<Rightarrow> bool \<times> task list" where
  "mark_live_task_done key worker now ts =
     (case update_where (owned key worker) (\<lambda>t. t\<lparr>t_status := Done_status, t_finished_at := Some now,
         t_error_type := None, t_error_message := None\<rparr>) ts of (ts', n) \<Rightarrow> (n \<noteq> 0, ts'))"

definition mark_live_task_failed ::
  "string \<Rightarrow> string \<Rightarrow> utc \<Rightarrow> string \<Rightarrow> string \<Rightarrow> task list \<Rightarrow> bool \<times> task list" where
  "mark_live_task_failed key worker now etype emsg ts =
     (case update_where (owned key worker) (\<lambda>t. t\<lparr>t_status := Failed_status, t_finished_at := Some now,
         t_error_type := Some etype, t_error_message := Some emsg\<rparr>) ts of (ts', n) \<Rightarrow> (n \<noteq> 0, ts'))"

section \<open>Interleavings of the scheduler and the workers\<close>

inductive task_step :: "task list \<Rightarrow> task list \<Rightarrow> bool" where
  step_tick: "iso_safe now \<Longrightarrow> from_instant now cfg = Inr tk \<Longrightarrow> enqueue_tick db_now exchanges tk ts = (r, ts') \<Longrightarrow>
     task_step ts ts'"
| step_claim: "claim_next_pending_live_task locked now worker ts = Inr (c, ts') \<Longrightarrow> task_step ts ts'"
| step_done: "mark_live_task_done key worker now ts = (b, ts') \<Longrightarrow> task_step ts ts'"
| step_failed: "mark_live_task_failed key worker now etype emsg ts = (b, ts') \<Longrightarrow> task_step ts ts'"

inductive task_steps :: "task list \<Rightarrow> task list \<Rightarrow> bool" where
  steps_refl: "task_steps ts ts"
| steps_step: "task_steps ts us \<Longrightarrow> task_step us vs \<Longrightarrow> task_steps ts vs"

text \<open>The shape of a row in each status.\<close>

definition task_ok :: "task \<Rightarrow> bool" where
  "task_ok t \<longleftrightarrow> t_pipeline t = LIVE_FUNDING_PIPELINE \<and>
     t_key t = build_live_funding_task_key (t_exchange t) (t_scheduled_for t) \<and>
     us_per_minute dvd t_scheduled_for t \<and> iso_safe (t_scheduled_for t) \<and>
     (case t_status t of
        Pending \<Rightarrow> t_claimed_at t = None \<and> t_finished_at t = None \<and> t_worker_id t = None \<and> t_error_type t = None
      | Running \<Rightarrow> t_claimed_at t \<noteq> None \<and> t_finished_at t = None \<and> t_worker_id t \<noteq> None \<and> t_error_type t = None
      | Done_status \<Rightarrow> t_claimed_at t \<noteq> None \<and> t_finished_at t \<noteq> None \<and> t_worker_id t \<noteq> None \<and> t_error_type t = None
      | Failed_status \<Rightarrow> t_claimed_at t \<noteq> None \<and> t_finished_at t \<noteq> None \<and> t_worker_id t \<noteq> None \<and> t_error_type t \<noteq> None)"

definition queue_ok :: "task list \<Rightarrow> bool" where
  "queue_ok ts \<longleftrightarrow> distinct (map t_key ts) \<and> list_all task_ok ts \<and>
     distinct (map t_exchange (filter active ts))"

text \<open>How a row may change: forward only, and not at all once it is finished.\<close>

definition follows :: "task \<Rightarrow> task \<Rightarrow> bool" where
  "follows t u \<longleftrightarrow> t_key u = t_key t \<and> t_exchange u = t_exchange t \<and>
     t_scheduled_for u = t_scheduled_for t \<and> t_created_at u = t_created_at t \<and>
     (t_status t = Running \<longrightarrow> t_status u \<noteq> Pending \<and> t_worker_id u = t_worker_id t \<and>
        t_claimed_at u = t_claimed_at t) \<and>
     (\<not> active t \<longrightarrow> u = t)"

lemma follows_refl [simp]: "follows t t"
  by (auto simp: follows_def active_def)

lemma follows_trans: "follows t u \<Longrightarrow> follows u v \<Longrightarrow> follows t v"
  by (cases "t_status u") (auto simp: follows_def active_def)

lemma distinct_active_map:
  assumes "\<And>t. t \<in> set ts \<Longrightarrow> active (g t) \<Longrightarrow> active t" "\<And>t. t \<in> set ts \<Longrightarrow> t_exchange (g t) = t_exchange t"
    and "distinct (map t_exchange (filter active ts))"
  shows "distinct (map t_exchange (filter active (map g ts)))"
  using assms
proof (induction ts)
  case (Cons t ts)
  have IH: "distinct (map t_exchange (filter active (map g ts)))"
    using Cons by (cases "active t") auto
  show ?case
  proof (cases "active (g t)")
    case True
    then have t: "active t" "t_exchange (g t) = t_exchange t" using Cons.prems(1,2) by simp_all
    have "t_exchange (g u) \<noteq> t_exchange t" if u: "u \<in> set ts" "active (g u)" for u
    proof -
      have "active u" "t_exchange (g u) = t_exchange u" using Cons.prems(1,2) u by simp_all
      moreover have "t_exchange t \<notin> t_exchange ` set (filter active ts)"
        using Cons.prems(3) t(1) by simp
      ultimately show ?thesis using u(1) by (auto simp: image_iff)
    qed
    then have "t_exchange (g t) \<notin> set (map t_exchange (filter active (map g ts)))"
      unfolding t(2) by (simp add: image_iff) metis
    then show ?thesis using True IH by simp
  next
    case False
    then show ?thesis using IH by simp
  qed
qed simp

text \<open>A relation that holds between each row and its image relates the old queue to the new.\<close>

lemma follows_map:
  assumes "\<And>t. t \<in> set ts \<Longrightarrow> follows t (g t)"
  shows "\<forall>t\<in>set ts. \<exists>u\<in>set (map g ts). follows t u"
proof
  fix t assume "t \<in> set ts"
  then show "\<exists>u\<in>set (map g ts). follows t u" by (intro bexI [of _ "g t"] assms) simp_all
qed

text \<open>Updates in place that move rows forward keep the queue in order.\<close>

lemma queue_ok_map:
  assumes q: "queue_ok ts"
    and f: "\<And>t. t \<in> set ts \<Longrightarrow> follows t (g t) \<and> task_ok (g t) \<and> (active (g t) \<longrightarrow> active t)"
  shows "queue_ok (map g ts)"
proof -
  have kx: "\<And>t. t \<in> set ts \<Longrightarrow> t_key (g t) = t_key t" "\<And>t. t \<in> set ts \<Longrightarrow> t_exchange (g t) = t_exchange t"
    "\<And>t. t \<in> set ts \<Longrightarrow> task_ok (g t)"
    using f unfolding follows_def by blast+
  have k: "map t_key (map g ts) = map t_key ts" using kx(1) by simp
  moreover have "list_all task_ok (map g ts)" using kx(3) by (simp add: list_all_iff)
  moreover have "distinct (map t_exchange (filter active (map g ts)))"
  proof (rule distinct_active_map)
    show "active t" if "t \<in> set ts" "active (g t)" for t using f [OF that(1)] that(2) by blast
    show "t_exchange (g t) = t_exchange t" if "t \<in> set ts" for t using kx(2) [OF that] .
    show "distinct (map t_exchange (filter active ts))" using q by (simp add: queue_ok_def)
  qed
  ultimately show ?thesis using q unfolding queue_ok_def k by blast
qed

lemma sort_key_hd:
  assumes "sort_key f xs = x # ys"
  shows "x \<in> set xs" "y \<in> set xs \<Longrightarrow> f x \<le> f y"
proof -
  have s: "set (x # ys) = set xs" using assms by (metis set_sort)
  then show "x \<in> set xs" by auto
  have "sorted (map f (x # ys))" using assms by (metis sorted_sort_key)
  then show "f x \<le> f y" if "y \<in> set xs" using s that by auto
qed

lemma claim_cases:
  assumes "claim_next_pending_live_task locked now worker ts = Inr (c, ts')"
  obtains (none) "c = None" "ts' = ts" "filter (claimable locked) ts = []"
  | (some) t ct where "c = Some ct" "t \<in> set ts" "claimable locked t"
      "\<And>u. u \<in> set ts \<Longrightarrow> claimable locked u \<Longrightarrow> rank t \<le> rank u"
      "ts' = map (\<lambda>u. if t_key u = t_key t then claim_fields now worker u else u) ts"
      "ct_key ct = t_key t" "ct_exchange ct = t_exchange t" "ct_worker_id ct = worker" "ct_claimed_at ct = now"
      "ct_scheduled_for ct = t_scheduled_for t"
proof (cases "sort_key rank (filter (claimable locked) ts)")
  case Nil
  then have "filter (claimable locked) ts = []" by (metis set_empty set_sort)
  then show thesis using none assms by (simp add: claim_next_pending_live_task_def get_next_pending_live_task_def)
next
  case (Cons t rest)
  note hd = sort_key_hd [OF Cons]
  from hd(1) have t: "t \<in> set ts" "claimable locked t" by auto
  have le: "rank t \<le> rank u" if "u \<in> set ts" "claimable locked u" for u using hd(2) that by simp
  show thesis
    using assms by (intro some [OF _ t le])
      (auto simp: claim_next_pending_live_task_def get_next_pending_live_task_def Cons res_simps
        to_claimed_live_task_def claim_fields_def)
qed

lemma claimed_row:
  assumes "distinct (map t_key ts)" "t \<in> set ts" "u \<in> set ts" "t_key u = t_key t" shows "u = t"
  using assms by (auto simp: distinct_map inj_on_def)

lemma claim_keeps:
  assumes "claim_next_pending_live_task locked now worker ts = Inr (c, ts')" "queue_ok ts"
  shows "queue_ok ts' \<and> (\<forall>t\<in>set ts. \<exists>u\<in>set ts'. follows t u)"
  using assms(1)
proof (cases rule: claim_cases)
  case (some t ct)
  let ?g = "\<lambda>u. if t_key u = t_key t then claim_fields now worker u else u"
  have g: "follows u (?g u) \<and> task_ok (?g u) \<and> (active (?g u) \<longrightarrow> active u)" if u: "u \<in> set ts" for u
  proof (cases "t_key u = t_key t")
    case True
    then have "u = t" using claimed_row assms(2) some(2) u unfolding queue_ok_def by blast
    moreover have "task_ok t" using assms(2) some(2) by (auto simp: queue_ok_def list_all_iff)
    ultimately show ?thesis using some(3)
      by (simp add: claimable_def follows_def active_def claim_fields_def task_ok_def)
  next
    case False
    then show ?thesis using u assms(2) by (simp add: queue_ok_def list_all_iff)
  qed
  have "queue_ok ts'" unfolding some(5) by (rule queue_ok_map [OF assms(2) g])
  moreover have "\<forall>t\<in>set ts. \<exists>u\<in>set ts'. follows t u" unfolding some(5) by (rule follows_map) (use g in blast)
  ultimately show ?thesis by blast
next
  case none
  then show ?thesis using assms(2) follows_refl by blast
qed

lemma finish_keeps:
  assumes "queue_ok ts" "ts' = map (\<lambda>t. if owned key worker t then f t else t) ts"
    and f: "\<And>t. owned key worker t \<Longrightarrow> task_ok t \<Longrightarrow> follows t (f t) \<and> task_ok (f t) \<and> \<not> active (f t)"
  shows "queue_ok ts'" "\<forall>t\<in>set ts. \<exists>u\<in>set ts'. follows t u"
proof -
  let ?g = "\<lambda>t. if owned key worker t then f t else t"
  have g: "follows t (?g t) \<and> task_ok (?g t) \<and> (active (?g t) \<longrightarrow> active t)" if "t \<in> set ts" for t
    using f [of t] that assms(1) by (simp add: queue_ok_def list_all_iff)
  show "queue_ok ts'" unfolding assms(2) by (rule queue_ok_map [OF assms(1) g])
  show "\<forall>t\<in>set ts. \<exists>u\<in>set ts'. follows t u" unfolding assms(2) by (rule follows_map) (use g in blast)
qed

lemma done_keeps:
  assumes "mark_live_task_done key worker now ts = (b, ts')" "queue_ok ts"
  shows "queue_ok ts'" "\<forall>t\<in>set ts. \<exists>u\<in>set ts'. follows t u"
proof -
  let ?f = "\<lambda>t. t\<lparr>t_status := Done_status, t_finished_at := Some now, t_error_type := None, t_error_message := None\<rparr>"
  have ts': "ts' = map (\<lambda>t. if owned key worker t then ?f t else t) ts"
    using assms(1) by (auto simp: mark_live_task_done_def update_where_def)
  have f: "follows t (?f t) \<and> task_ok (?f t) \<and> \<not> active (?f t)" if "owned key worker t" "task_ok t" for t
    using that by (simp add: owned_def follows_def task_ok_def active_def)
  show "queue_ok ts'" "\<forall>t\<in>set ts. \<exists>u\<in>set ts'. follows t u"
    by (rule finish_keeps [OF assms(2) ts' f]; assumption)+
qed

lemma failed_keeps:
  assumes "mark_live_task_failed key worker now etype emsg ts = (b, ts')" "queue_ok ts"
  shows "queue_ok ts'" "\<forall>t\<in>set ts. \<exists>u\<in>set ts'. follows t u"
proof -
  let ?f = "\<lambda>t. t\<lparr>t_status := Failed_status, t_finished_at := Some now, t_error_type := Some etype,
    t_error_message := Some emsg\<rparr>"
  have ts': "ts' = map (\<lambda>t. if owned key worker t then ?f t else t) ts"
    using assms(1) by (auto simp: mark_live_task_failed_def update_where_def)
  have f: "follows t (?f t) \<and> task_ok (?f t) \<and> \<not> active (?f t)" if "owned key worker t" "task_ok t" for t
    using that by (simp add: owned_def follows_def task_ok_def active_def)
  show "queue_ok ts'" "\<forall>t\<in>set ts. \<exists>u\<in>set ts'. follows t u"
    by (rule finish_keeps [OF assms(2) ts' f]; assumption)+
qed

section \<open>A tick keeps the queue in order\<close>

lemma stale_keeps:
  assumes "mark_stale_running_live_tasks_failed tk ts = (ks, ts')" "queue_ok ts"
  shows "queue_ok ts' \<and> (\<forall>t\<in>set ts. \<exists>u\<in>set ts'. follows t u)"
proof -
  let ?f = "\<lambda>t. t\<lparr>t_status := Failed_status, t_finished_at := Some (tk_now tk),
    t_error_type := Some STALE_RUNNING_ERROR_TYPE, t_error_message := Some STALE_RUNNING_ERROR_MESSAGE\<rparr>"
  let ?g = "\<lambda>t. if is_stale tk t then ?f t else t"
  have ts': "ts' = map ?g ts"
    using assms(1) by (auto simp: mark_stale_running_live_tasks_failed_def update_where_def)
  have g: "follows t (?g t) \<and> task_ok (?g t) \<and> (active (?g t) \<longrightarrow> active t)" if "t \<in> set ts" for t
  proof (cases "is_stale tk t")
    case True
    moreover have "task_ok t" using assms(2) that by (simp add: queue_ok_def list_all_iff)
    ultimately show ?thesis by (simp add: is_stale_def follows_def task_ok_def active_def)
  next
    case False
    then show ?thesis using assms(2) that by (simp add: queue_ok_def list_all_iff)
  qed
  have "queue_ok ts'" unfolding ts' by (rule queue_ok_map [OF assms(2) g])
  moreover have "\<forall>t\<in>set ts. \<exists>u\<in>set ts'. follows t u" unfolding ts' by (rule follows_map) (use g in blast)
  ultimately show ?thesis by blast
qed

lemma insert_pending_cases:
  assumes "insert_pending_live_task db_now key x sched ts = (b, ts')"
  shows "b \<longleftrightarrow> key \<notin> set (map t_key ts)"
    "ts' = (if b then ts @ [pending_task db_now key x sched] else ts)"
  using assms by (auto simp: insert_pending_live_task_def pending_task_def split: if_splits)

lemma pending_task_sel [simp]:
  "t_key (pending_task db_now key x sched) = key" "t_exchange (pending_task db_now key x sched) = x"
  "t_status (pending_task db_now key x sched) = Pending" "active (pending_task db_now key x sched)"
  "t_scheduled_for (pending_task db_now key x sched) = sched"
  by (simp_all add: pending_task_def active_def)

lemma queue_ok_snoc:
  assumes "queue_ok ts" "task_ok t" "t_key t \<notin> set (map t_key ts)"
    and "\<And>u. u \<in> set ts \<Longrightarrow> active u \<Longrightarrow> t_exchange u \<noteq> t_exchange t"
  shows "queue_ok (ts @ [t])"
proof -
  have "t_exchange t \<notin> set (map t_exchange (filter active ts))" using assms(4) by (simp add: image_iff) metis
  then show ?thesis using assms(1-3) by (simp add: queue_ok_def)
qed

definition loop_inv :: "utc \<Rightarrow> string list \<Rightarrow> string list \<Rightarrow> task list \<Rightarrow> bool" where
  "loop_inv sched act xs ts \<longleftrightarrow> queue_ok ts \<and> us_per_minute dvd sched \<and> iso_safe sched \<and>
     (\<forall>t\<in>set ts. active t \<longrightarrow> t_exchange t \<in> set xs \<longrightarrow> t_exchange t \<in> set act \<or>
        t_key t = build_live_funding_task_key (t_exchange t) sched)"

lemma loop_inv_insert:
  assumes inv: "loop_inv sched act (x # xs) ts" and x: "x \<notin> set act"
    and ins: "insert_pending_live_task db_now (build_live_funding_task_key x sched) x sched ts = (b, ts')"
  shows "loop_inv sched act xs ts'"
proof (cases b)
  case True
  let ?t = "pending_task db_now (build_live_funding_task_key x sched) x sched"
  have new: "build_live_funding_task_key x sched \<notin> set (map t_key ts)" "ts' = ts @ [?t]"
    using insert_pending_cases [OF ins] True by auto
  have none: "t_exchange u \<noteq> t_exchange ?t" if "u \<in> set ts" "active u" for u
  proof
    assume "t_exchange u = t_exchange ?t"
    then have "t_key u = build_live_funding_task_key x sched"
      using inv that x by (auto simp: loop_inv_def)
    then show False using new(1) that(1) by (metis image_eqI set_map)
  qed
  have ok: "task_ok ?t" using inv by (simp add: task_ok_def pending_task_def loop_inv_def)
  have "queue_ok ts'" unfolding new(2)
    by (rule queue_ok_snoc) (use inv ok new(1) none in \<open>auto simp: loop_inv_def\<close>)
  then show ?thesis using inv unfolding loop_inv_def new(2) by auto
next
  case False
  then have "ts' = ts" using insert_pending_cases [OF ins] by simp
  then show ?thesis using inv by (simp add: loop_inv_def)
qed

lemma loop_keeps:
  assumes "enqueue_loop db_now sched act xs cnt ts = (cnt', ts')" "loop_inv sched act xs ts"
  shows "queue_ok ts' \<and> set ts \<subseteq> set ts'"
  using assms
proof (induction db_now sched act xs cnt ts rule: enqueue_loop.induct)
  case (2 db_now sched act x xs c s u ts)
  show ?case
  proof (cases "x \<in> set act")
    case True
    have "loop_inv sched act xs ts" using "2.prems"(2) by (simp add: loop_inv_def)
    then show ?thesis using "2.IH"(1) [OF True] "2.prems"(1) True by simp
  next
    case False
    obtain b ts1 where ins:
      "insert_pending_live_task db_now (build_live_funding_task_key x sched) x sched ts = (b, ts1)" by fastforce
    have inv: "loop_inv sched act xs ts1" by (rule loop_inv_insert [OF "2.prems"(2) False ins])
    have "set ts \<subseteq> set ts1" using insert_pending_cases(2) [OF ins] by auto
    moreover have "enqueue_loop db_now sched act xs (if b then (Suc c, s, u) else (c, s, Suc u)) ts1 = (cnt', ts')"
      using "2.prems"(1) False ins by simp
    ultimately show ?thesis using "2.IH"(2) [OF False ins [symmetric] _ inv] by blast
  qed
qed (simp add: loop_inv_def)

lemma active_exchanges_iff:
  "x \<in> set (get_active_live_task_exchanges ts xs) \<longleftrightarrow>
     x \<in> set xs \<and> (\<exists>t\<in>set ts. t_pipeline t = LIVE_FUNDING_PIPELINE \<and> t_exchange t = x \<and> active t)"
  by (auto simp: get_active_live_task_exchanges_def)

lemma loop_inv_start:
  assumes "queue_ok ts" "us_per_minute dvd sched" "iso_safe sched"
  shows "loop_inv sched (get_active_live_task_exchanges ts xs) xs ts"
proof -
  have pl: "t_pipeline t = LIVE_FUNDING_PIPELINE" if "t \<in> set ts" for t
    using assms(1) that by (auto simp: queue_ok_def list_all_iff task_ok_def)
  show ?thesis unfolding loop_inv_def using assms pl by (auto simp: active_exchanges_iff)
qed

lemma tick_keeps:
  assumes "enqueue_tick db_now xs tk ts = (r, ts')" "queue_ok ts" "us_per_minute dvd tk_scheduled_for tk"
    "iso_safe (tk_scheduled_for tk)"
  shows "queue_ok ts' \<and> (\<forall>t\<in>set ts. \<exists>u\<in>set ts'. follows t u)"
proof -
  obtain ks ts1 where st: "mark_stale_running_live_tasks_failed tk ts = (ks, ts1)" by fastforce
  let ?act = "get_active_live_task_exchanges ts1 xs"
  obtain cnt where lp: "enqueue_loop db_now (tk_scheduled_for tk) ?act xs (0, 0, 0) ts1 = (cnt, ts')"
    using assms(1) by (auto simp: enqueue_tick_def st split: prod.splits)
  note s = stale_keeps [OF st assms(2)]
  have "loop_inv (tk_scheduled_for tk) ?act xs ts1" by (rule loop_inv_start) (use s assms(3,4) in simp_all)
  from loop_keeps [OF lp this] show ?thesis using s by blast
qed

lemma loop_counts:
  assumes "enqueue_loop db_now sched act xs (c, s, u) ts = ((c', s', u'), ts')"
  shows "c' + s' + u' = c + s + u + length xs \<and> length ts' + c = length ts + c' \<and>
    (\<forall>x\<in>set xs. x \<in> set act \<or> build_live_funding_task_key x sched \<in> set (map t_key ts')) \<and>
    set (map t_key ts) \<subseteq> set (map t_key ts')"
  using assms
proof (induction db_now sched act xs "(c, s, u)" ts arbitrary: c s u rule: enqueue_loop.induct)
  case (2 db_now sched act x xs c s u ts)
  show ?case
  proof (cases "x \<in> set act")
    case True
    then show ?thesis using "2.hyps"(1) [OF True] "2.prems" by auto
  next
    case False
    obtain b ts1 where ins:
      "insert_pending_live_task db_now (build_live_funding_task_key x sched) x sched ts = (b, ts1)" by fastforce
    note r = insert_pending_cases [OF ins]
    have keys: "build_live_funding_task_key x sched \<in> set (map t_key ts1)" "set (map t_key ts) \<subseteq> set (map t_key ts1)"
      using r by (cases b; auto)+
    have "length ts1 = (if b then Suc (length ts) else length ts)" using r by simp
    moreover have "enqueue_loop db_now sched act xs (if b then (Suc c, s, u) else (c, s, Suc u)) ts1 =
        ((c', s', u'), ts')" using "2.prems" False ins by simp
    ultimately have "c' + s' + u' = c + s + u + length (x # xs) \<and> length ts' + c = length ts + c' \<and>
        (\<forall>x\<in>set xs. x \<in> set act \<or> build_live_funding_task_key x sched \<in> set (map t_key ts')) \<and>
        set (map t_key ts1) \<subseteq> set (map t_key ts')"
      using "2.hyps"(2) [OF False ins [symmetric], of "if b then Suc c else c" s "if b then u else Suc u"]
      by (cases b) simp_all
    then show ?thesis using keys by (simp only: set_simps) blast
  qed
qed simp

lemma from_instant_cases:
  assumes "from_instant now cfg = Inr tk"
  shows "tk_scheduled_for tk = start_of_minute now"
    "tk_stale_before tk = tk_now tk - task_timeout cfg - stale_running_grace cfg"
  using assms by (auto simp: from_instant_def res_simps)

lemma iso_safe_minute: "iso_safe now \<Longrightarrow> iso_safe (start_of_minute now)"
  using start_of_minute_le(1) [of now] zmod_le_nonneg_dividend [of now us_per_minute]
  by (auto simp: iso_safe_def start_of_minute_def)

lemma from_instant_safe:
  "float_safe now \<Longrightarrow> from_instant now cfg = Inr \<lparr>tk_now = now, tk_scheduled_for = start_of_minute now,
     tk_stale_before = now - task_timeout cfg - stale_running_grace cfg\<rparr>"
  by (simp add: from_instant_def from_unix_seconds_timestamp res_simps)

lemma step_keeps:
  assumes "task_step ts ts'" "queue_ok ts"
  shows "queue_ok ts' \<and> (\<forall>t\<in>set ts. \<exists>u\<in>set ts'. follows t u)"
  using assms
proof cases
  case (step_tick now cfg tk db_now exchanges r)
  then show ?thesis using tick_keeps [OF step_tick(3) assms(2)] from_instant_cases(1) iso_safe_minute by simp
next
  case (step_claim locked now worker c)
  then show ?thesis using claim_keeps assms(2) by blast
next
  case (step_done key worker now b)
  then show ?thesis using done_keeps [OF step_done assms(2)] by blast
next
  case (step_failed key worker now etype emsg b)
  then show ?thesis using failed_keeps [OF step_failed assms(2)] by blast
qed

lemma steps_keep:
  assumes "task_steps ts ts'" "queue_ok ts"
  shows "queue_ok ts' \<and> (\<forall>t\<in>set ts. \<exists>u\<in>set ts'. follows t u)"
  using assms
proof induction
  case (steps_step ts us vs)
  have us: "queue_ok us \<and> (\<forall>t\<in>set ts. \<exists>u\<in>set us. follows t u)" using steps_step by blast
  note vs = step_keeps [OF steps_step.hyps(2) conjunct1 [OF us]]
  show ?case using us vs follows_trans by meson
qed (use follows_refl in blast)

lemma iso_minute_length:
  assumes "us_per_minute dvd t" "iso_safe t" shows "length (to_iso8601 t) = 20"
proof -
  have "us_per_second dvd t mod us_per_day"
    using dvd_trans [of us_per_second us_per_minute t] assms(1) by (intro dvd_mod) simp_all
  then have "t mod us_per_day mod us_per_second = 0" by (rule dvd_imp_mod_0)
  then show ?thesis using parse_date_text(2) [OF assms(2)] pad_digits
    by (simp only: to_iso8601_split clock_text_def length_append list.size if_True) simp
qed

lemma task_key_inj:
  assumes "us_per_minute dvd s" "us_per_minute dvd t" "iso_safe s" "iso_safe t"
    and "build_live_funding_task_key x s = build_live_funding_task_key y t"
  shows "x = y \<and> s = t"
proof -
  have e: "(x @ '':'') @ to_iso8601 s = (y @ '':'') @ to_iso8601 t"
    using assms(5) by (simp add: build_live_funding_task_key_def)
  have l: "length (to_iso8601 s) = length (to_iso8601 t)" using assms by (simp add: iso_minute_length)
  have "x = y" "to_iso8601 s = to_iso8601 t" using e l by (simp_all add: append_eq_append_conv)
  then show ?thesis using assms to_iso8601_inj by blast
qed

section \<open>Properties\<close>

lemmas task_rows = queue_ok_def list_all_iff task_ok_def

text \<open>C12. In every interleaving of scheduler ticks, claims and finalizations that starts from the
  empty table, task keys are unique, an exchange never has two active (pending or running) live
  tasks, every row has the shape of its status, and its key is the one built from its exchange and
  its minute.\<close>

theorem live_queue_invariant:
  assumes "task_steps [] ts"
  shows "distinct (map t_key ts) \<and> distinct (map t_exchange (filter active ts)) \<and> list_all task_ok ts"
  using steps_keep [OF assms] by (simp add: queue_ok_def)

text \<open>A task row is never lost and only moves forward: whatever the scheduler and the workers do,
  the row with its key keeps its exchange, its minute and its creation time; once claimed it never
  becomes pending again and never changes its claim; once finished it never changes at all.\<close>

theorem live_task_moves_forward:
  assumes "task_steps [] ts" and "task_steps ts us" and "t \<in> set ts"
  shows "\<exists>u\<in>set us. t_key u = t_key t \<and> t_exchange u = t_exchange t \<and> t_scheduled_for u = t_scheduled_for t \<and>
     t_created_at u = t_created_at t \<and>
     (t_status t = Running \<longrightarrow> t_status u \<noteq> Pending \<and> t_worker_id u = t_worker_id t \<and> t_claimed_at u = t_claimed_at t) \<and>
     (t_status t = Done_status \<or> t_status t = Failed_status \<longrightarrow> u = t)"
proof -
  have "queue_ok ts" using steps_keep [OF assms(1)] by (simp add: queue_ok_def)
  then obtain u where "u \<in> set us" "follows t u" using steps_keep [OF assms(2)] assms(3) by blast
  then show ?thesis by (intro bexI [of _ u]) (auto simp: follows_def active_def)
qed

lemma tick_run:
  assumes "enqueue_tick db_now xs tk ts = (r, ts')"
  obtains ts1 c s u where "mark_stale_running_live_tasks_failed tk ts = (map t_key (filter (is_stale tk) ts), ts1)"
    "enqueue_loop db_now (tk_scheduled_for tk) (get_active_live_task_exchanges ts1 xs) xs (0, 0, 0) ts1 = ((c, s, u), ts')"
    "r = \<lparr>er_scheduled_for = tk_scheduled_for tk, er_selected = length xs, er_created = c,
              er_skipped = s, er_duplicate = u, er_stale_failed = length (filter (is_stale tk) ts)\<rparr>"
  using assms
  by (auto simp: enqueue_tick_def mark_stale_running_live_tasks_failed_def split: prod.splits)

lemma stale_length:
  "mark_stale_running_live_tasks_failed tk ts = (ks, ts1) \<Longrightarrow> length ts1 = length ts"
  by (auto simp: mark_stale_running_live_tasks_failed_def update_where_def)

lemma tick_covers:
  assumes "enqueue_live_funding_tick False db_now xs now cfg ts = Inr (r, ts')" and "iso_safe now" and "queue_ok ts"
  shows "er_created r + er_skipped r + er_duplicate r = er_selected r \<and> er_selected r = length xs \<and>
     length ts' = length ts + er_created r \<and> er_stale_failed r \<le> length ts \<and>
     (\<forall>x\<in>set xs. \<exists>t\<in>set ts'. t_exchange t = x \<and> (active t \<or> t_scheduled_for t = start_of_minute now))"
proof -
  obtain tk where tk: "from_instant now cfg = Inr tk" "enqueue_tick db_now xs tk ts = (r, ts')"
    using assms(1) by (auto simp: enqueue_live_funding_tick_def res_simps)
  obtain ts1 c s u where t: "mark_stale_running_live_tasks_failed tk ts = (map t_key (filter (is_stale tk) ts), ts1)"
    and lp: "enqueue_loop db_now (tk_scheduled_for tk) (get_active_live_task_exchanges ts1 xs) xs (0, 0, 0) ts1 = ((c, s, u), ts')"
    and r: "r = \<lparr>er_scheduled_for = tk_scheduled_for tk, er_selected = length xs, er_created = c,
              er_skipped = s, er_duplicate = u, er_stale_failed = length (filter (is_stale tk) ts)\<rparr>"
    by (rule tick_run [OF tk(2)])
  note sched = from_instant_cases(1) [OF tk(1)]
  have safe: "us_per_minute dvd tk_scheduled_for tk" "iso_safe (tk_scheduled_for tk)"
    using assms(2) iso_safe_minute sched by simp_all
  have q1: "queue_ok ts1" using stale_keeps [OF t assms(3)] by blast
  note inv = loop_inv_start [OF q1 safe]
  note keep = loop_keeps [OF lp inv]
  note cnt = loop_counts [OF lp]
  have "\<exists>t\<in>set ts'. t_exchange t = x \<and> (active t \<or> t_scheduled_for t = start_of_minute now)" if x: "x \<in> set xs" for x
  proof (cases "x \<in> set (get_active_live_task_exchanges ts1 xs)")
    case True
    then show ?thesis using keep by (auto simp: active_exchanges_iff)
  next
    case False
    then have "build_live_funding_task_key x (tk_scheduled_for tk) \<in> set (map t_key ts')" using cnt x by blast
    then obtain t where t: "t \<in> set ts'" "t_key t = build_live_funding_task_key x (tk_scheduled_for tk)" by auto
    have "task_ok t" using keep t(1) by (simp add: queue_ok_def list_all_iff)
    then have "us_per_minute dvd t_scheduled_for t" "iso_safe (t_scheduled_for t)"
      "build_live_funding_task_key (t_exchange t) (t_scheduled_for t) = build_live_funding_task_key x (tk_scheduled_for tk)"
      using t(2) unfolding task_ok_def by (blast, blast, metis)
    then have "t_exchange t = x \<and> t_scheduled_for t = tk_scheduled_for tk" using task_key_inj safe by blast
    then show ?thesis using t(1) sched by auto
  qed
  then show ?thesis using cnt stale_length [OF t] by (simp add: r)
qed

text \<open>A scheduling tick accounts for every selected exchange (created, skipped because work is
  active, or duplicate), adds exactly the created rows, and afterwards every selected exchange has an
  active task or already has its task of this minute.\<close>

theorem live_tick_covers_exchanges:
  assumes "enqueue_live_funding_tick False db_now xs now cfg ts = Inr (r, ts')" and "iso_safe now" and "queue_ok ts"
  shows "er_created r + er_skipped r + er_duplicate r = er_selected r \<and> er_selected r = length xs \<and>
     length ts' = length ts + er_created r \<and> er_stale_failed r \<le> length ts \<and>
     (\<forall>x\<in>set xs. \<exists>t\<in>set ts'. t_exchange t = x \<and> (active t \<or> t_scheduled_for t = start_of_minute now))"
  by (rule tick_covers [OF assms])

text \<open>A run used by the witnesses: a tick for two exchanges, one of them claimed and completed.\<close>

definition w_tick :: tick where
  "w_tick = \<lparr>tk_now = 1700000000000000, tk_scheduled_for = 1699999980000000, tk_stale_before = 1699999940000000\<rparr>"

definition w_q1 :: "task list" where
  "w_q1 = snd (enqueue_tick 1700000000000000 [''okx'', ''bybit''] w_tick [])"

definition w_q2 :: "task list" where
  "w_q2 = (case claim_next_pending_live_task (\<lambda>_. False) 1700000001000000 ''w1'' w_q1 of
     Inr (_, ts) \<Rightarrow> ts | Inl _ \<Rightarrow> [])"

definition w_q3 :: "task list" where
  "w_q3 = snd (mark_live_task_done ''live_funding_snapshot:bybit:2023-11-14T22:13:00Z'' ''w1'' 1700000002000000 w_q2)"

lemma w_tick: "from_instant 1700000000000000 default_enqueuer_config = Inr w_tick"
  by (subst from_instant_safe)
    (simp_all add: float_safe_def default_enqueuer_config_def seconds_def w_tick_def start_of_minute_def)

lemma w_step1: "task_step [] w_q1"
proof (rule step_tick [OF _ w_tick])
  show "iso_safe 1700000000000000" by (simp add: iso_safe_def datetime_max_def)
  show "enqueue_tick 1700000000000000 [''okx'', ''bybit''] w_tick [] =
      (fst (enqueue_tick 1700000000000000 [''okx'', ''bybit''] w_tick []), w_q1)"
    by (simp add: w_q1_def)
qed

lemma w_step2: "task_step w_q1 w_q2"
proof (rule step_claim)
  have "(case claim_next_pending_live_task (\<lambda>_. False) 1700000001000000 ''w1'' w_q1 of Inr _ \<Rightarrow> True | Inl _ \<Rightarrow> False)"
    by code_simp
  then show "claim_next_pending_live_task (\<lambda>_. False) 1700000001000000 ''w1'' w_q1 =
      Inr (case claim_next_pending_live_task (\<lambda>_. False) 1700000001000000 ''w1'' w_q1 of Inr (c, _) \<Rightarrow> c | Inl _ \<Rightarrow> None, w_q2)"
    by (auto simp: w_q2_def split: sum.splits)
qed

lemma w_step3: "task_step w_q2 w_q3"
proof (rule step_done)
  let ?m = "mark_live_task_done ''live_funding_snapshot:bybit:2023-11-14T22:13:00Z'' ''w1'' 1700000002000000 w_q2"
  show "?m = (fst ?m, w_q3)" by (simp add: w_q3_def)
qed

lemma w_steps: "task_steps [] w_q1" "task_steps w_q1 w_q2" "task_steps [] w_q2" "task_steps w_q2 w_q3"
  using steps_step [OF steps_refl w_step1] steps_step [OF steps_refl w_step2]
    steps_step [OF steps_step [OF steps_refl w_step1] w_step2] steps_step [OF steps_refl w_step3] by blast+

theorem live_queue_invariant_witness:
  "w_q2 \<noteq> [] \<and> distinct (map t_key w_q2) \<and> distinct (map t_exchange (filter active w_q2)) \<and> list_all task_ok w_q2"
proof -
  have "w_q2 \<noteq> []" by code_simp
  then show ?thesis using live_queue_invariant [OF w_steps(3)] by blast
qed

theorem live_task_moves_forward_witness:
  "\<exists>t\<in>set w_q2. t_status t = Running \<and> (\<exists>u\<in>set w_q3. t_key u = t_key t \<and> t_status u \<noteq> Pending \<and>
     t_worker_id u = t_worker_id t)"
proof -
  have "\<exists>t\<in>set w_q2. t_status t = Running" by code_simp
  then show ?thesis using live_task_moves_forward [OF w_steps(3) w_steps(4)] by blast
qed

theorem live_tick_covers_exchanges_witness:
  "er_created (fst (enqueue_tick 1700000000000000 [''okx'', ''bybit''] w_tick [])) = 2 \<and>
   (\<exists>t\<in>set w_q1. t_exchange t = ''bybit'' \<and> (active t \<or> t_scheduled_for t = 1699999980000000))"
proof -
  let ?r = "fst (enqueue_tick 1700000000000000 [''okx'', ''bybit''] w_tick [])"
  have run: "enqueue_live_funding_tick False 1700000000000000 [''okx'', ''bybit''] 1700000000000000
      default_enqueuer_config [] = Inr (?r, w_q1)"
    by (simp add: enqueue_live_funding_tick_def w_tick w_q1_def)
  have "iso_safe 1700000000000000" by (simp add: iso_safe_def datetime_max_def)
  moreover have "queue_ok []" by (simp add: queue_ok_def)
  moreover have "er_created ?r = 2" by code_simp
  moreover have "start_of_minute 1700000000000000 = 1699999980000000" by (simp add: start_of_minute_def)
  ultimately show ?thesis using live_tick_covers_exchanges [OF run] by simp
qed

subsection \<open>Recovery, claiming, finishing\<close>

lemma tick_before:
  assumes "enqueue_tick db_now xs tk ts = (r, ts')" "queue_ok ts" "us_per_minute dvd tk_scheduled_for tk"
    "iso_safe (tk_scheduled_for tk)"
  shows "set (snd (mark_stale_running_live_tasks_failed tk ts)) \<subseteq> set ts'"
proof -
  obtain ts1 c s u where t: "mark_stale_running_live_tasks_failed tk ts = (map t_key (filter (is_stale tk) ts), ts1)"
    and lp: "enqueue_loop db_now (tk_scheduled_for tk) (get_active_live_task_exchanges ts1 xs) xs (0, 0, 0) ts1 = ((c, s, u), ts')"
    by (rule tick_run [OF assms(1)])
  have "queue_ok ts1" using stale_keeps [OF t assms(2)] by blast
  from loop_keeps [OF lp loop_inv_start [OF this assms(3,4)]] show ?thesis by (simp add: t)
qed

text \<open>C14. Stale recovery never takes a task from a worker that is still within its timeout and grace:
  a running task claimed at \<open>c\<close> is failed by a tick at \<open>now\<close> exactly when
  \<open>c + task_timeout + stale_running_grace < now\<close>, and every other row survives the tick unchanged.\<close>

theorem live_stale_recovery_exact:
  assumes "enqueue_live_funding_tick False db_now xs now cfg ts = Inr (r, ts')" and "float_safe now"
    and "queue_ok ts" and "t \<in> set ts"
  shows "if \<exists>c. t_status t = Running \<and> t_claimed_at t = Some c \<and> c + task_timeout cfg + stale_running_grace cfg < now
     then \<exists>u\<in>set ts'. t_key u = t_key t \<and> t_status u = Failed_status \<and> t_finished_at u = Some now \<and>
            t_error_type u = Some STALE_RUNNING_ERROR_TYPE
     else t \<in> set ts'"
proof -
  let ?tk = "\<lparr>tk_now = now, tk_scheduled_for = start_of_minute now,
     tk_stale_before = now - task_timeout cfg - stale_running_grace cfg\<rparr>"
  have run: "enqueue_tick db_now xs ?tk ts = (r, ts')"
    using assms(1) by (simp add: enqueue_live_funding_tick_def from_instant_safe [OF assms(2)])
  have "iso_safe now" using assms(2) float_safe_range [OF assms(2)] by (simp add: float_safe_def iso_safe_def)
  then have sub: "set (snd (mark_stale_running_live_tasks_failed ?tk ts)) \<subseteq> set ts'"
    by (intro tick_before [OF run assms(3)]) (simp_all add: iso_safe_minute)
  let ?f = "\<lambda>t. t\<lparr>t_status := Failed_status, t_finished_at := Some (tk_now ?tk),
    t_error_type := Some STALE_RUNNING_ERROR_TYPE, t_error_message := Some STALE_RUNNING_ERROR_MESSAGE\<rparr>"
  have img: "(if is_stale ?tk t then ?f t else t) \<in> set ts'"
    by (rule subsetD [OF sub]) (use assms(4) in \<open>auto simp: mark_stale_running_live_tasks_failed_def update_where_def\<close>)
  have pl: "t_pipeline t = LIVE_FUNDING_PIPELINE" using assms(3,4) by (auto simp: task_rows)
  have stale: "is_stale ?tk t \<longleftrightarrow> (\<exists>c. t_status t = Running \<and> t_claimed_at t = Some c \<and>
      c + task_timeout cfg + stale_running_grace cfg < now)"
    unfolding is_stale_def using pl by (cases "t_claimed_at t") auto
  show ?thesis
  proof (cases "is_stale ?tk t")
    case True
    then have "?f t \<in> set ts'" using img by simp
    then have "\<exists>u\<in>set ts'. t_key u = t_key t \<and> t_status u = Failed_status \<and> t_finished_at u = Some now \<and>
            t_error_type u = Some STALE_RUNNING_ERROR_TYPE" by (rule bexI [rotated]) simp
    then show ?thesis unfolding stale [symmetric] using True by simp
  next
    case False
    then have "t \<in> set ts'" using img by simp
    then show ?thesis unfolding stale [symmetric] using False by simp
  qed
qed

theorem live_stale_recovery_exact_witness:
  "\<exists>r ts' u. enqueue_live_funding_tick False 1700000061000001 [] 1700000061000001 default_enqueuer_config w_q2 = Inr (r, ts') \<and>
     u \<in> set ts' \<and> t_status u = Failed_status \<and> t_error_type u = Some STALE_RUNNING_ERROR_TYPE"
proof -
  have safe: "float_safe 1700000061000001" by (simp add: float_safe_def)
  let ?o = "enqueue_live_funding_tick False 1700000061000001 [] 1700000061000001 default_enqueuer_config w_q2"
  obtain r ts' where run: "?o = Inr (r, ts')"
    by (auto simp: enqueue_live_funding_tick_def from_instant_safe [OF safe] intro: prod.exhaust)
  have q: "queue_ok w_q2" by code_simp
  have "\<exists>t\<in>set w_q2. t_status t = Running \<and> t_claimed_at t = Some 1700000001000000" by code_simp
  then obtain t where t: "t \<in> set w_q2" "t_status t = Running" "t_claimed_at t = Some 1700000001000000" by blast
  from live_stale_recovery_exact [OF run safe q t(1)] t(2,3) run show ?thesis
    by (auto simp: default_enqueuer_config_def seconds_def)
qed

lemma claim_none:
  "claim_next_pending_live_task locked now worker ts = Inr (None, ts') \<Longrightarrow> u \<in> set ts \<Longrightarrow> \<not> claimable locked u"
  by (erule claim_cases) (auto simp: filter_empty_conv)

text \<open>C13. Claiming is first in, first out and exclusive: the claimed row was pending and not locked,
  the oldest such row by creation time and key; it now runs under the claiming worker with the claim's
  time; no later claim, by any worker and under any locks, returns it again; and a claim comes back
  empty only when no row is claimable.\<close>

theorem live_claim_fifo_exclusive:
  assumes "claim_next_pending_live_task locked now worker ts = Inr (c, ts')" and "queue_ok ts"
  shows "(c = None \<longleftrightarrow> (\<forall>t\<in>set ts. \<not> claimable locked t)) \<and>
    (\<forall>ct. c = Some ct \<longrightarrow>
      (\<exists>t\<in>set ts. t_key t = ct_key ct \<and> claimable locked t \<and> claim_fields now worker t \<in> set ts' \<and>
         (\<forall>u\<in>set ts. claimable locked u \<longrightarrow> rank t \<le> rank u)) \<and>
      (\<forall>locked' now' worker' us d vs. task_steps ts' us \<longrightarrow>
         claim_next_pending_live_task locked' now' worker' us = Inr (Some d, vs) \<longrightarrow> ct_key d \<noteq> ct_key ct))"
  using assms(1)
proof (cases rule: claim_cases)
  case none
  then show ?thesis by (auto simp: filter_empty_conv)
next
  case (some t ct)
  have ran: "claim_fields now worker t \<in> set ts'" using some(2,5) by force
  have q': "queue_ok ts'" using claim_keeps [OF assms] by blast
  have later: "ct_key d \<noteq> ct_key ct"
    if s: "task_steps ts' us" and d: "claim_next_pending_live_task locked' now' worker' us = Inr (Some d, vs)"
    for locked' now' worker' us d vs
  proof -
    note qs = steps_keep [OF s q']
    obtain w where w: "w \<in> set us" "follows (claim_fields now worker t) w" using qs ran by blast
    from d obtain v where v: "v \<in> set us" "claimable locked' v" "ct_key d = t_key v"
      by (rule claim_cases) simp_all
    have "t_status w \<noteq> Pending" "t_key w = t_key t" using w(2) by (simp_all add: follows_def claim_fields_def)
    moreover have "t_status v = Pending" using v(2) by (simp add: claimable_def)
    ultimately have "t_key v \<noteq> t_key t"
      using claimed_row [of us w v] qs w(1) v(1) by (auto simp: queue_ok_def)
    then show ?thesis using v(3) some(6) by simp
  qed
  have "\<exists>t\<in>set ts. t_key t = ct_key ct \<and> claimable locked t \<and> claim_fields now worker t \<in> set ts' \<and>
         (\<forall>u\<in>set ts. claimable locked u \<longrightarrow> rank t \<le> rank u)"
    using some(2,3,4,6) ran by (intro bexI [of _ t]) simp_all
  then show ?thesis using some(1,2,3) later by blast
qed

theorem live_claim_fifo_exclusive_witness:
  "\<exists>ct ts'. claim_next_pending_live_task (\<lambda>_. False) 1700000001000000 ''w1'' w_q1 = Inr (Some ct, ts') \<and>
     ct_exchange ct = ''bybit'' \<and>
     (\<exists>d vs. claim_next_pending_live_task (\<lambda>_. False) 1700000001500000 ''w2'' ts' = Inr (Some d, vs) \<and> ct_key d \<noteq> ct_key ct)"
proof -
  let ?c = "claim_next_pending_live_task (\<lambda>_. False) 1700000001000000 ''w1'' w_q1"
  let ?d = "\<lambda>ts. claim_next_pending_live_task (\<lambda>_. False) 1700000001500000 ''w2'' ts"
  have e: "\<not> isl ?c" "fst (projr ?c) \<noteq> None" "ct_exchange (the (fst (projr ?c))) = ''bybit''"
    "\<not> isl (?d (snd (projr ?c)))" "fst (projr (?d (snd (projr ?c)))) \<noteq> None"
    by code_simp+
  obtain ct ts' where c1: "?c = Inr (Some ct, ts')" using e(1,2) by (cases ?c) auto
  obtain d vs where "?d ts' = Inr (Some d, vs)" using e(4,5) c1 by (cases "?d ts'") auto
  note c = c1 e(3) [unfolded c1] this
  have "queue_ok w_q1" by code_simp
  from live_claim_fifo_exclusive [OF c(1) this]
  have "\<forall>locked' now' worker' us d vs. task_steps ts' us \<longrightarrow>
      claim_next_pending_live_task locked' now' worker' us = Inr (Some d, vs) \<longrightarrow> ct_key d \<noteq> ct_key ct" by simp
  then have "ct_key d \<noteq> ct_key ct" using steps_refl c(3) by blast
  moreover have "ct_exchange ct = ''bybit''" using c(2) by simp
  ultimately show ?thesis using c(1,3) by blast
qed

lemma finish_spec:
  assumes "(b, ts') = (case update_where (owned key worker) f ts of (ts', n) \<Rightarrow> (n \<noteq> 0, ts'))"
    and "distinct (map t_key ts)"
  shows "(b \<longleftrightarrow> (\<exists>t\<in>set ts. owned key worker t)) \<and> (\<not> b \<longrightarrow> ts' = ts) \<and>
    (\<forall>t\<in>set ts. if owned key worker t then f t \<in> set ts' else t \<in> set ts') \<and> length ts' = length ts"
proof -
  have b: "b \<longleftrightarrow> filter (owned key worker) ts \<noteq> []" and ts': "ts' = map (\<lambda>t. if owned key worker t then f t else t) ts"
    using assms(1) by (auto simp: update_where_def)
  have "b \<longleftrightarrow> (\<exists>t\<in>set ts. owned key worker t)" unfolding b by (auto simp: filter_empty_conv)
  moreover have "ts' = ts" if "\<not> b"
    unfolding ts' by (rule map_idI) (use that b in \<open>auto simp: filter_empty_conv\<close>)
  moreover have "\<forall>t\<in>set ts. if owned key worker t then f t \<in> set ts' else t \<in> set ts'"
  proof
    fix t assume "t \<in> set ts"
    then have "(if owned key worker t then f t else t) \<in> set ts'" unfolding ts' by (auto intro: image_eqI)
    then show "if owned key worker t then f t \<in> set ts' else t \<in> set ts'" by (simp split: if_splits)
  qed
  ultimately show ?thesis by (simp add: ts')
qed

text \<open>Finalization needs ownership: marking a task done or failed reports success exactly when the
  row is still running under that worker; then exactly that row gets the final status, and otherwise
  the table is unchanged.\<close>

theorem live_finalization_requires_ownership:
  assumes "queue_ok ts"
  shows "\<forall>b ts'. mark_live_task_done key worker now ts = (b, ts') \<or>
      mark_live_task_failed key worker now etype emsg ts = (b, ts') \<longrightarrow>
    (b \<longleftrightarrow> (\<exists>t\<in>set ts. t_key t = key \<and> t_status t = Running \<and> t_worker_id t = Some worker)) \<and>
    (\<not> b \<longrightarrow> ts' = ts) \<and>
    (\<forall>t\<in>set ts. if t_key t = key \<and> b then \<exists>u\<in>set ts'. t_key u = key \<and> t_finished_at u = Some now \<and>
        t_status u \<in> {Done_status, Failed_status} else t \<in> set ts')"
proof (intro allI impI)
  fix b ts'
  assume "mark_live_task_done key worker now ts = (b, ts') \<or>
      mark_live_task_failed key worker now etype emsg ts = (b, ts')"
  then obtain f where f: "(b, ts') = (case update_where (owned key worker) f ts of (ts', n) \<Rightarrow> (n \<noteq> 0, ts'))"
    "\<And>t. t_key (f t) = t_key t \<and> t_finished_at (f t) = Some now \<and> t_status (f t) \<in> {Done_status, Failed_status}"
  proof
    assume a: "mark_live_task_done key worker now ts = (b, ts')"
    show thesis by (rule that [OF a [symmetric, unfolded mark_live_task_done_def]]) simp
  next
    assume a: "mark_live_task_failed key worker now etype emsg ts = (b, ts')"
    show thesis by (rule that [OF a [symmetric, unfolded mark_live_task_failed_def]]) simp
  qed
  have dk: "distinct (map t_key ts)" using assms by (simp add: queue_ok_def)
  note s = finish_spec [OF f(1) dk]
  have ow: "owned key worker t \<longleftrightarrow> t_key t = key \<and> t_status t = Running \<and> t_worker_id t = Some worker" if "t \<in> set ts" for t
    using assms that by (auto simp: owned_def task_rows)
  have "if t_key t = key \<and> b then \<exists>u\<in>set ts'. t_key u = key \<and> t_finished_at u = Some now \<and>
        t_status u \<in> {Done_status, Failed_status} else t \<in> set ts'" if t: "t \<in> set ts" for t
  proof (cases "t_key t = key \<and> b")
    case True
    then obtain t' where "t' \<in> set ts" "owned key worker t'" using s by blast
    moreover have "t' = t" using claimed_row [OF dk t calculation(1)] True calculation(2) by (simp add: owned_def)
    ultimately have "f t \<in> set ts'" using s by auto
    moreover have "t_key (f t) = key \<and> t_finished_at (f t) = Some now \<and> t_status (f t) \<in> {Done_status, Failed_status}"
      using f(2) True by simp
    ultimately show ?thesis using True by auto
  next
    case False
    then have "\<not> owned key worker t" using s t by (auto simp: owned_def)
    then have "t \<in> set ts'" using s t by auto
    then show ?thesis unfolding if_not_P [OF False] .
  qed
  moreover have "b \<longleftrightarrow> (\<exists>t\<in>set ts. t_key t = key \<and> t_status t = Running \<and> t_worker_id t = Some worker)"
    using s ow by blast
  ultimately show "(b \<longleftrightarrow> (\<exists>t\<in>set ts. t_key t = key \<and> t_status t = Running \<and> t_worker_id t = Some worker)) \<and>
    (\<not> b \<longrightarrow> ts' = ts) \<and>
    (\<forall>t\<in>set ts. if t_key t = key \<and> b then \<exists>u\<in>set ts'. t_key u = key \<and> t_finished_at u = Some now \<and>
        t_status u \<in> {Done_status, Failed_status} else t \<in> set ts')" using s by blast
qed

theorem live_finalization_requires_ownership_witness:
  "fst (mark_live_task_done ''live_funding_snapshot:bybit:2023-11-14T22:13:00Z'' ''w2'' 1700000002000000 w_q2) = False \<and>
   snd (mark_live_task_done ''live_funding_snapshot:bybit:2023-11-14T22:13:00Z'' ''w2'' 1700000002000000 w_q2) = w_q2"
proof -
  let ?m = "mark_live_task_done ''live_funding_snapshot:bybit:2023-11-14T22:13:00Z'' ''w2'' 1700000002000000 w_q2"
  have q: "queue_ok w_q2" by code_simp
  have "fst ?m = False" by code_simp
  then show ?thesis
    using live_finalization_requires_ownership [OF q, of "''live_funding_snapshot:bybit:2023-11-14T22:13:00Z''" "''w2''"
      1700000002000000 "[]" "[]"] by (metis prod.collapse)
qed

end
