(* ===== verification/LiveWorker.thy ===== *)
theory LiveWorker
  imports LiveQueue Adapter
begin

text \<open>
  Live collection: the tracker's \<open>orchestration/live_collector.py\<close>, and the ingestion worker of
  \<open>ingestion/live/collector.py\<close>, \<open>worker.py\<close> and \<open>runtime.py\<close>. An adapter is its \<open>fetch_live\<close>;
  \<open>meanwhile\<close> and \<open>others\<close> are what other processes commit between two transactions of the
  operation. Messages of exceptions are parameters.
\<close>

section \<open>Collectors\<close>

record collection_result =
  cr_expected :: nat
  cr_received :: nat
  cr_written :: nat

definition live_record :: "nat \<times> funding_point \<Rightarrow> point" where
  "live_record ip = \<lparr>p_time = timestamp (snd ip), p_contract = fst ip, p_rate = rate (snd ip)\<rparr>"

text \<open>The tracker's collector reports the counts reached when an exception stops it.\<close>

definition collect_live ::
  "(contract_row list \<Rightarrow> snapshot res) \<Rightarrow> string \<Rightarrow> (db \<Rightarrow> db) \<Rightarrow> db \<Rightarrow> collection_result \<times> db" where
  "collect_live fetch sec meanwhile d =
     (let cs = get_active_by_section d sec in
      if cs = [] then (\<lparr>cr_expected = 0, cr_received = 0, cr_written = 0\<rparr>, d)
      else case fetch cs of
        Inl e \<Rightarrow> (\<lparr>cr_expected = length cs, cr_received = 0, cr_written = 0\<rparr>, meanwhile d)
      | Inr rates \<Rightarrow> (case insert_live_funding_points (map live_record rates) (meanwhile d) of
          Inl e \<Rightarrow> (\<lparr>cr_expected = length cs, cr_received = length rates, cr_written = 0\<rparr>, meanwhile d)
        | Inr (written, d') \<Rightarrow>
            (\<lparr>cr_expected = length cs, cr_received = length rates, cr_written = written\<rparr>, d')))"

definition get_active_contracts_by_section :: "db \<Rightarrow> string \<Rightarrow> contract_row list" where
  "get_active_contracts_by_section d sec = filter (\<lambda>c. c_section c = sec \<and> \<not> c_deprecated c) (contracts d)"

text \<open>The worker's collector lets every exception escape; the database of the caller is then the one
  other processes left.\<close>

definition ing_collect_live ::
  "(contract_row list \<Rightarrow> snapshot res) \<Rightarrow> string \<Rightarrow> (db \<Rightarrow> db) \<Rightarrow> db \<Rightarrow> collection_result res \<times> db" where
  "ing_collect_live fetch exchange meanwhile d =
     (let cs = get_active_contracts_by_section d exchange in
      if cs = [] then (Inr \<lparr>cr_expected = 0, cr_received = 0, cr_written = 0\<rparr>, d)
      else case fetch cs of
        Inl e \<Rightarrow> (Inl e, meanwhile d)
      | Inr rates \<Rightarrow> (case ingestion_insert_live_funding_points (map live_record rates) (meanwhile d) of
          Inl e \<Rightarrow> (Inl e, meanwhile d)
        | Inr (written, d') \<Rightarrow>
            (Inr \<lparr>cr_expected = length cs, cr_received = length rates, cr_written = written\<rparr>, d')))"

section \<open>One task\<close>

record exec_result =
  x_claimed :: bool
  x_key :: "string option"
  x_status :: "task_status option"
  x_error_type :: "string option"
  x_error_message :: "string option"

definition nothing_claimed :: exec_result where
  "nothing_claimed = \<lparr>x_claimed = False, x_key = None, x_status = None, x_error_type = None, x_error_message = None\<rparr>"

type_synonym adapters = "(string, contract_row list \<Rightarrow> snapshot res) dict"

definition resolve_exchange_adapter :: "adapters \<Rightarrow> string \<Rightarrow> (contract_row list \<Rightarrow> snapshot res) res" where
  "resolve_exchange_adapter adapters exchange = (case map_of adapters exchange of
     None \<Rightarrow> Inl UnknownLiveExchangeError | Some f \<Rightarrow> Inr f)"

text \<open>The body of the \<open>try\<close>: \<open>timed_out\<close> tells that the task's timeout cancelled the collection before
  its transaction. The failure carries the error type the task will be marked with.\<close>

definition run_claimed ::
  "adapters \<Rightarrow> bool \<Rightarrow> (db \<Rightarrow> db) \<Rightarrow> claimed_task \<Rightarrow> db \<Rightarrow> (string \<times> pyexc + collection_result) \<times> db" where
  "run_claimed adapters timed_out meanwhile t d =
     (case resolve_exchange_adapter adapters (ct_exchange t) of
        Inl e \<Rightarrow> (Inl (exc_name e, e), d)
      | Inr fetch \<Rightarrow>
          if timed_out then (Inl (TASK_TIMEOUT_ERROR_TYPE, TimeoutError), meanwhile d)
          else (case ing_collect_live fetch (ct_exchange t) meanwhile d of
            (Inl e, d') \<Rightarrow> (Inl (exc_name e, e), d') | (Inr r, d') \<Rightarrow> (Inr r, d')))"

definition fail_task ::
  "claimed_task \<Rightarrow> utc \<Rightarrow> string \<Rightarrow> string \<Rightarrow> task list \<Rightarrow> exec_result res \<times> task list" where
  "fail_task t finished_at error_type error_message ts =
     (case mark_live_task_failed (ct_key t) (ct_worker_id t) finished_at error_type error_message ts of
        (updated, ts') \<Rightarrow>
          (if \<not> updated then Inl RuntimeError
           else Inr \<lparr>x_claimed = True, x_key = Some (ct_key t), x_status = Some Failed_status,
             x_error_type = Some error_type, x_error_message = Some error_message\<rparr>, ts'))"

text \<open>\<open>execute_one_live_task\<close>: claim, run, finalize.\<close>

definition execute_one_live_task ::
  "(string \<Rightarrow> bool) \<Rightarrow> utc \<Rightarrow> string \<Rightarrow> adapters \<Rightarrow> bool \<Rightarrow> (db \<Rightarrow> db) \<Rightarrow> (task list \<Rightarrow> task list) \<Rightarrow> utc \<Rightarrow>
   (pyexc \<Rightarrow> string) \<Rightarrow> task list \<times> db \<Rightarrow> exec_result res \<times> task list \<times> db" where
  "execute_one_live_task locked now worker adapters timed_out meanwhile others finished_at message w =
     (case w of (ts, d) \<Rightarrow>
      case claim_next_pending_live_task locked now worker ts of
        Inl e \<Rightarrow> (Inl e, ts, d)
      | Inr (None, ts1) \<Rightarrow> (Inr nothing_claimed, ts1, d)
      | Inr (Some t, ts1) \<Rightarrow>
          (case run_claimed adapters timed_out meanwhile t d of
             (Inl (error_type, e), d') \<Rightarrow>
               (case fail_task t finished_at error_type (message e) (others ts1) of (r, ts') \<Rightarrow> (r, ts', d'))
           | (Inr _, d') \<Rightarrow>
               (case mark_live_task_done (ct_key t) worker finished_at (others ts1) of (updated, ts') \<Rightarrow>
                 (if \<not> updated then Inl RuntimeError
                  else Inr \<lparr>x_claimed = True, x_key = Some (ct_key t), x_status = Some Done_status,
                    x_error_type = None, x_error_message = None\<rparr>, ts', d'))))"

section \<open>The worker loop\<close>

text \<open>What one iteration of \<open>run_live_worker_loop\<close> does: log a failure or not, sleep or not.\<close>

datatype iteration = Executed exec_result | Slept exec_result | Failed_and_slept pyexc

text \<open>\<open>execute k\<close> is the \<open>k\<close>-th call of \<open>execute_task\<close> on the world, \<open>stop k\<close> the stop event before it.
  \<open>None\<close>: still running after \<open>fuel\<close> iterations.\<close>

fun run_live_worker_loop ::
  "nat \<Rightarrow> (nat \<Rightarrow> bool) \<Rightarrow> (nat \<Rightarrow> 'w \<Rightarrow> exec_result res \<times> 'w) \<Rightarrow> nat \<Rightarrow> 'w \<Rightarrow> iteration list \<Rightarrow> (iteration list \<times> 'w) option" where
  "run_live_worker_loop 0 stop execute k w acc = None"
| "run_live_worker_loop (Suc fuel) stop execute k w acc =
     (if stop k then Some (acc, w)
      else case execute k w of
        (Inl e, w') \<Rightarrow> run_live_worker_loop fuel stop execute (Suc k) w' (acc @ [Failed_and_slept e])
      | (Inr r, w') \<Rightarrow> run_live_worker_loop fuel stop execute (Suc k) w'
          (acc @ [if \<not> x_claimed r then Slept r else Executed r]))"

section \<open>Collectors over any adapter\<close>

lemma insert_ignore_length: "snd (insert_ignore key tbl xs) \<le> length xs"
  by (induction key tbl xs rule: insert_ignore.induct) (auto split: prod.splits)

context live_adapter begin

lemma records_owner:
  assumes "fetch cs = Inr rates" "p \<in> set (map live_record rates)"
  shows "\<exists>c\<in>set cs. c_id c = p_contract p"
proof -
  from assms(2) obtain ip where ip: "ip \<in> set rates" "p = live_record ip" by auto
  have "\<exists>c\<in>set cs. c_id c = fst ip" using snapshot_owner [OF assms(1), of "fst ip" "snd ip"] ip(1) by simp
  then show ?thesis using ip(2) by (simp add: live_record_def)
qed

lemma insert_bounds:
  assumes "insert_live_funding_points (map live_record rates) d = Inr (n, d')"
  shows "n \<le> length rates"
proof -
  show ?thesis using assms insert_ignore_length [of p_key "live_points d" "map live_record rates"]
    by (auto simp: insert_live_funding_points_def split: if_splits prod.splits)
qed

lemma collect_bounds:
  assumes "ing_collect_live fetch sec meanwhile d = (Inr r, d')" and "distinct (map c_id (contracts d))"
  shows "cr_written r \<le> cr_received r \<and> cr_received r \<le> cr_expected r \<and>
    cr_expected r = length (get_active_contracts_by_section d sec) \<and>
    (cr_expected r > 0 \<longrightarrow> (\<exists>new. d' = (meanwhile d)\<lparr>live_points := live_points (meanwhile d) @ new\<rparr> \<and>
       length new = cr_written r \<and>
       (\<forall>p\<in>set new. \<exists>c\<in>set (contracts d). c_id c = p_contract p \<and> c_section c = sec \<and> \<not> c_deprecated c)))"
proof (cases "get_active_contracts_by_section d sec = []")
  case True
  then show ?thesis using assms by (auto simp: ing_collect_live_def Let_def)
next
  case False
  let ?cs = "get_active_contracts_by_section d sec"
  obtain rates n where r: "fetch ?cs = Inr rates"
    "insert_live_funding_points (map live_record rates) (meanwhile d) = Inr (n, d')"
    "r = \<lparr>cr_expected = length ?cs, cr_received = length rates, cr_written = n\<rparr>"
    using assms(1) False by (auto simp: ing_collect_live_def Let_def ingestion_insert_live_eq split: sum.split_asm)
  have "distinct (map c_id ?cs)"
    unfolding get_active_contracts_by_section_def by (rule distinct_map_filter [OF assms(2)])
  then have "length rates \<le> length ?cs" by (rule snapshot_length [OF r(1)])
  moreover have "n \<le> length rates" by (rule insert_bounds [OF r(2)])
  moreover obtain new where n: "d' = (meanwhile d)\<lparr>live_points := live_points (meanwhile d) @ new\<rparr>" "n = length new"
    "set new \<subseteq> set (map live_record rates)" using insert_live_ok [OF r(2)] by blast
  moreover have "\<exists>c\<in>set (contracts d). c_id c = p_contract p \<and> c_section c = sec \<and> \<not> c_deprecated c"
    if "p \<in> set new" for p
    using records_owner [OF r(1), of p] n(3) that by (auto simp: get_active_contracts_by_section_def)
  ultimately show ?thesis using r(3) by auto
qed

end

section \<open>Properties\<close>

text \<open>A live snapshot is bounded and owned: a successful collection writes at most as many points as
  it received and receives at most one per active contract of its exchange; it only appends rows to
  the live table, and each belongs to a contract that was active in that exchange's section.\<close>

theorem live_collection_bounds:
  assumes "ing_collect_live (ing_fetch_live fmt batch) sec meanwhile d = (Inr r, d')" and "db_ok d"
  shows "cr_written r \<le> cr_received r \<and> cr_received r \<le> cr_expected r \<and>
    cr_expected r = length (get_active_contracts_by_section d sec) \<and>
    (cr_expected r > 0 \<longrightarrow> (\<exists>new. d' = (meanwhile d)\<lparr>live_points := live_points (meanwhile d) @ new\<rparr> \<and>
       length new = cr_written r \<and>
       (\<forall>p\<in>set new. \<exists>c\<in>set (contracts d). c_id c = p_contract p \<and> c_section c = sec \<and> \<not> c_deprecated c)))"
  by (rule ing_batch.collect_bounds [OF assms(1)]) (use assms(2) in \<open>simp add: db_ok_def\<close>)

definition w_live_db :: db where
  "w_live_db = \<lparr>sections = [\<lparr>s_name = ''okx'', s_special = JNull\<rparr>], assets = [\<lparr>a_name = ''BTC'', a_rank = None\<rparr>],
     quotes = [''USDT''], contracts = [a_contract 1 ''BTC''], history_states = [], historical_points = [], live_points = []\<rparr>"

theorem live_collection_bounds_witness:
  "\<exists>d'. ing_collect_live (ing_fetch_live c_asset (Inr [(JStr ''BTC'', \<lparr>rate = 1 / 4, timestamp = 5\<rparr>)])) ''okx'' id w_live_db =
     (Inr \<lparr>cr_expected = 1, cr_received = 1, cr_written = 1\<rparr>, d') \<and> length (live_points d') = 1"
proof -
  let ?o = "ing_collect_live (ing_fetch_live c_asset (Inr [(JStr ''BTC'', \<lparr>rate = 1 / 4, timestamp = 5\<rparr>)])) ''okx'' id w_live_db"
  have r: "fst ?o = Inr \<lparr>cr_expected = 1, cr_received = 1, cr_written = 1\<rparr>" by code_simp
  have ok: "db_ok w_live_db" by code_simp
  obtain d' where o: "?o = (Inr \<lparr>cr_expected = 1, cr_received = 1, cr_written = 1\<rparr>, d')"
    using r by (metis prod.collapse)
  from live_collection_bounds [OF o ok] have "length (live_points d') = 1" by (auto simp: w_live_db_def)
  then show ?thesis using o by blast
qed

lemma run_claimed_cases: obtains et e d' where "run_claimed adapters to meanwhile t d = (Inl (et, e), d')"
  | r d' where "run_claimed adapters to meanwhile t d = (Inr r, d')"
  by (metis prod.exhaust sum.exhaust surj_pair)

lemma finished_row:
  assumes "queue_ok ts" "t \<in> set ts" "t_key t = key" "t_status t \<noteq> Pending" "t_worker_id t = Some worker"
    and f: "\<And>t. t_key (f t) = t_key t \<and> t_status (f t) = st" and st: "st = Done_status \<or> st = Failed_status"
    and m: "(b, ts') = (case update_where (owned key worker) f ts of (ts', n) \<Rightarrow> (n \<noteq> 0, ts'))"
  shows "(\<forall>u\<in>set ts'. \<not> owned key worker u) \<and> (\<exists>u\<in>set ts'. t_key u = key \<and> \<not> active u \<and> (b \<longrightarrow> t_status u = st))"
proof
  have ts': "ts' = map (\<lambda>t. if owned key worker t then f t else t) ts" and b: "b \<longleftrightarrow> filter (owned key worker) ts \<noteq> []"
    using m by (auto simp: update_where_def)
  show "\<forall>u\<in>set ts'. \<not> owned key worker u"
  proof
    fix u assume "u \<in> set ts'"
    then have "u \<in> (\<lambda>t. if owned key worker t then f t else t) ` set ts" unfolding ts' by (simp only: set_map)
    then obtain v where "u = (if owned key worker v then f v else v)" by (rule imageE)
    then show "\<not> owned key worker u" using f [of v] st by (auto simp: owned_def)
  qed
  have img: "(if owned key worker t then f t else t) \<in> set ts'" unfolding ts' using assms(2) by auto
  show "\<exists>u\<in>set ts'. t_key u = key \<and> \<not> active u \<and> (b \<longrightarrow> t_status u = st)"
  proof (cases "owned key worker t")
    case True
    then have "f t \<in> set ts'" using img by simp
    then show ?thesis using f [of t] st assms(3) by (intro bexI [of _ "f t"]) (auto simp: active_def)
  next
    case False
    have "t_pipeline t = LIVE_FUNDING_PIPELINE" using assms(1,2) by (auto simp: task_rows)
    then have "t_status t \<noteq> Running" using False assms(3,5) by (auto simp: owned_def)
    moreover have "\<not> b"
    proof
      assume b
      then obtain u where u: "u \<in> set ts" "owned key worker u" using b by (auto simp: filter_empty_conv)
      have "u = t" using claimed_row [of ts t u] assms(1,2,3) u by (simp add: queue_ok_def owned_def)
      then show False using u False by simp
    qed
    ultimately show ?thesis using img False assms(3,4) by (intro bexI [of _ t]) (auto simp: active_def)
  qed
qed

text \<open>C19. A claimed task is always settled: whatever the exchange, the database and the other processes
  do in between, after the execution the worker no longer runs the task, its row is finished, a
  reported status is the row's status, and the only exception is the \<open>RuntimeError\<close> of a row that
  had been taken from the worker in the meantime.\<close>

theorem claimed_task_is_settled:
  assumes "execute_one_live_task locked now worker adapters timed_out meanwhile others finished_at message (ts, d) = (r, ts', d')"
    and "claim_next_pending_live_task locked now worker ts = Inr (Some ct, ts1)"
    and "queue_ok ts" and "task_steps ts1 (others ts1)"
  shows "(\<forall>u\<in>set ts'. \<not> owned (ct_key ct) worker u) \<and>
    (\<exists>u\<in>set ts'. t_key u = ct_key ct \<and> \<not> active u \<and>
       (case r of Inr x \<Rightarrow> x_key x = Some (ct_key ct) \<and> x_status x = Some (t_status u) | Inl e \<Rightarrow> e = RuntimeError))"
proof -
  from assms(2) obtain t where t: "t \<in> set ts" "claimable locked t" "t_key t = ct_key ct" "ct_worker_id ct = worker"
    "ts1 = map (\<lambda>u. if t_key u = t_key t then claim_fields now worker u else u) ts"
    by (cases rule: claim_cases) auto
  have q1: "queue_ok ts1" using claim_keeps [OF assms(2,3)] by blast
  have run: "claim_fields now worker t \<in> set ts1" using t(1,5) by force
  note s = steps_keep [OF assms(4) q1]
  then obtain u where u: "u \<in> set (others ts1)" "follows (claim_fields now worker t) u" using run by blast
  have k: "t_key u = ct_key ct" "t_status u \<noteq> Pending" "t_worker_id u = Some worker"
    using u(2) t(3) by (simp_all add: follows_def claim_fields_def)
  note settled = finished_row [OF conjunct1 [OF s] u(1) k]
  show ?thesis
  proof (rule run_claimed_cases [of adapters timed_out meanwhile ct d])
    fix et e d1 assume c: "run_claimed adapters timed_out meanwhile ct d = (Inl (et, e), d1)"
    obtain b ts2 where m: "mark_live_task_failed (ct_key ct) worker finished_at et (message e) (others ts1) = (b, ts2)"
      by fastforce
    note f = settled [OF _ _ m [symmetric, unfolded mark_live_task_failed_def], of Failed_status, simplified]
    have "r = (if \<not> b then Inl RuntimeError else Inr \<lparr>x_claimed = True, x_key = Some (ct_key ct),
        x_status = Some Failed_status, x_error_type = Some et, x_error_message = Some (message e)\<rparr>)" "ts' = ts2"
      using assms(1) by (simp_all add: execute_one_live_task_def assms(2) c fail_task_def t(4) m split: prod.splits)
    then show ?thesis using f by (cases b) auto
  next
    fix x d1 assume c: "run_claimed adapters timed_out meanwhile ct d = (Inr x, d1)"
    obtain b ts2 where m: "mark_live_task_done (ct_key ct) worker finished_at (others ts1) = (b, ts2)" by fastforce
    note f = settled [OF _ _ m [symmetric, unfolded mark_live_task_done_def], of Done_status, simplified]
    have "r = (if \<not> b then Inl RuntimeError else Inr \<lparr>x_claimed = True, x_key = Some (ct_key ct),
        x_status = Some Done_status, x_error_type = None, x_error_message = None\<rparr>)" "ts' = ts2"
      using assms(1) by (simp_all add: execute_one_live_task_def assms(2) c m split: prod.splits)
    then show ?thesis using f by (cases b) auto
  qed
qed

theorem claimed_task_is_settled_witness:
  "\<exists>r ts' d'. execute_one_live_task (\<lambda>_. False) 1700000001000000 ''w1'' [] False id id 1700000002000000 (\<lambda>_. []) (w_q1, w_live_db) =
     (Inr r, ts', d') \<and> x_error_type r = Some ''UnknownLiveExchangeError'' \<and>
     (\<exists>u\<in>set ts'. t_key u = ''live_funding_snapshot:bybit:2023-11-14T22:13:00Z'' \<and> \<not> active u \<and> x_status r = Some (t_status u))"
proof -
  let ?o = "execute_one_live_task (\<lambda>_. False) 1700000001000000 ''w1'' [] False id id 1700000002000000 (\<lambda>_. []) (w_q1, w_live_db)"
  let ?c = "claim_next_pending_live_task (\<lambda>_. False) 1700000001000000 ''w1'' w_q1"
  have e: "\<not> isl (fst ?o)" "x_error_type (projr (fst ?o)) = Some ''UnknownLiveExchangeError''" "\<not> isl ?c"
    "map_option ct_key (fst (projr ?c)) = Some ''live_funding_snapshot:bybit:2023-11-14T22:13:00Z''" "queue_ok w_q1"
    by code_simp+
  obtain r ts' d' where o: "?o = (Inr r, ts', d')" using e(1) by (metis isl_def prod.collapse sum.collapse(2))
  obtain ct ts1 where c: "?c = Inr (Some ct, ts1)" "ct_key ct = ''live_funding_snapshot:bybit:2023-11-14T22:13:00Z''"
    using e(3,4) by (cases ?c) auto
  have "task_steps ts1 (id ts1)" by (simp add: steps_refl)
  from claimed_task_is_settled [OF o c(1) e(5) this] c(2)
  have "\<exists>u\<in>set ts'. t_key u = ''live_funding_snapshot:bybit:2023-11-14T22:13:00Z'' \<and> \<not> active u \<and> x_status r = Some (t_status u)"
    by auto
  moreover have "x_error_type r = Some ''UnknownLiveExchangeError''" using e(2) o by simp
  ultimately show ?thesis using o by blast
qed

lemma loop_acc:
  "run_live_worker_loop fuel stop execute k w acc =
     map_option (\<lambda>(l, w'). (acc @ l, w')) (run_live_worker_loop fuel stop execute k w [])"
proof (induction fuel arbitrary: k w acc)
  case (Suc fuel)
  obtain r w' where e: "execute k w = (r, w')" by fastforce
  show ?case
  proof (cases r)
    case (Inl x)
    then show ?thesis using e Suc [of "Suc k" w' "acc @ [Failed_and_slept x]"] Suc [of "Suc k" w' "[Failed_and_slept x]"]
      by (auto simp: option.map_comp comp_def split_def)
  next
    case (Inr x)
    let ?i = "if \<not> x_claimed x then Slept x else Executed x"
    show ?thesis using e Inr Suc [of "Suc k" w' "acc @ [?i]"] Suc [of "Suc k" w' "[?i]"]
      by (auto simp: option.map_comp comp_def split_def)
  qed
qed simp

text \<open>The worker loop survives every failure and ends only when stopped: if the stop event is first
  seen before iteration \<open>n\<close>, the loop runs exactly the iterations before it, whatever exceptions
  they raise, and returns; it sleeps in exactly the iterations that failed or claimed nothing. While
  the event is not set it keeps running.\<close>

theorem worker_loop_survives_failures:
  assumes "\<And>j. j < n \<Longrightarrow> \<not> stop (k + j)"
  shows "(stop (k + n) \<longrightarrow> n < fuel \<longrightarrow> (\<exists>done w'. run_live_worker_loop fuel stop execute k w [] = Some (done, w') \<and>
      length done = n \<and> list_all (\<lambda>i. case i of Executed r \<Rightarrow> x_claimed r | Slept r \<Rightarrow> \<not> x_claimed r | Failed_and_slept e \<Rightarrow> True) done)) \<and>
    (fuel \<le> n \<longrightarrow> run_live_worker_loop fuel stop execute k w [] = None)"
  using assms
proof (induction n arbitrary: k w fuel)
  case 0
  then show ?case by (cases fuel) auto
next
  case (Suc n)
  have st: "\<not> stop k" using Suc.prems [of 0] by simp
  have nxt: "\<And>j. j < n \<Longrightarrow> \<not> stop (Suc k + j)" using Suc.prems by (metis Suc_less_eq add_Suc_shift)
  show ?case
  proof (cases fuel)
    case (Suc f)
    obtain r w1 where e: "execute k w = (r, w1)" by fastforce
    define i where "i = (case r of Inl x \<Rightarrow> Failed_and_slept x | Inr x \<Rightarrow> if \<not> x_claimed x then Slept x else Executed x)"
    have ok: "case i of Executed r \<Rightarrow> x_claimed r | Slept r \<Rightarrow> \<not> x_claimed r | Failed_and_slept e \<Rightarrow> True"
      by (cases r) (auto simp: i_def)
    have step: "run_live_worker_loop fuel stop execute k w [] =
        map_option (\<lambda>(l, w'). ([i] @ l, w')) (run_live_worker_loop f stop execute (Suc k) w1 [])"
      using st e Suc loop_acc [of f stop execute "Suc k" w1 "[i]"] by (cases r) (auto simp: i_def)
    note IH = Suc.IH [OF nxt, of f w1]
    show ?thesis
    proof (intro conjI impI)
      assume "stop (k + Suc n)" "Suc n < fuel"
      then obtain l w' where "run_live_worker_loop f stop execute (Suc k) w1 [] = Some (l, w')" "length l = n"
        "list_all (\<lambda>i. case i of Executed r \<Rightarrow> x_claimed r | Slept r \<Rightarrow> \<not> x_claimed r | Failed_and_slept e \<Rightarrow> True) l"
        using IH Suc by auto
      then show "\<exists>done w'. run_live_worker_loop fuel stop execute k w [] = Some (done, w') \<and> length done = Suc n \<and>
          list_all (\<lambda>i. case i of Executed r \<Rightarrow> x_claimed r | Slept r \<Rightarrow> \<not> x_claimed r | Failed_and_slept e \<Rightarrow> True) done"
        using step ok by simp
    next
      assume "fuel \<le> Suc n"
      then show "run_live_worker_loop fuel stop execute k w [] = None" using step IH Suc by simp
    qed
  qed simp
qed

theorem worker_loop_survives_failures_witness:
  "\<exists>done w'. run_live_worker_loop 9 (\<lambda>k. k = 3) (\<lambda>k w. (if k = 1 then Inl RuntimeError else Inr nothing_claimed, w + k)) 0 (0::nat) [] =
     Some (done, w') \<and> length done = 3"
  using worker_loop_survives_failures [of 3 "\<lambda>k. k = 3" 0 9
      "\<lambda>k w. (if k = 1 then Inl RuntimeError else Inr nothing_claimed, w + k)" "0::nat"] by auto

end
