(* ===== verification/LiveRound.thy ===== *)
theory LiveRound
  imports LiveWorker
begin

text \<open>
  Live ingestion from the tick to the live table: the scheduler's tick fills the queue, a worker that
  runs alone empties it with its loop, and every exchange that answers has its rates stored.
\<close>

text \<open>An iteration of a worker that nothing interferes with.\<close>

definition work ::
  "(nat \<Rightarrow> utc) \<Rightarrow> string \<Rightarrow> adapters \<Rightarrow> (pyexc \<Rightarrow> string) \<Rightarrow> nat \<Rightarrow> task list \<times> db \<Rightarrow> exec_result res \<times> task list \<times> db" where
  "work clock worker adapters message k w =
     execute_one_live_task (\<lambda>_. False) (clock k) worker adapters False id id (clock k) message w"

definition pending :: "task \<Rightarrow> bool" where
  "pending t \<longleftrightarrow> t_status t = Pending"

text \<open>What an exchange answers for its active contracts; the rates are for these contracts only, as
  \<open>fetch_live\<close> promises.\<close>

definition answers :: "adapters \<Rightarrow> db \<Rightarrow> string \<Rightarrow> snapshot \<Rightarrow> bool" where
  "answers adapters d x rates \<longleftrightarrow> (\<exists>fetch. map_of adapters x = Some fetch \<and>
     fetch (get_active_contracts_by_section d x) = Inr rates \<and>
     fst ` set rates \<subseteq> c_id ` set (get_active_contracts_by_section d x))"

text \<open>Only live points were added, each of them a rate that an exchange answered for its active contracts.\<close>

definition answered_point :: "adapters \<Rightarrow> db \<Rightarrow> point \<Rightarrow> bool" where
  "answered_point adapters d p \<longleftrightarrow> (\<exists>y fetch rates. map_of adapters y = Some fetch \<and>
     fetch (get_active_contracts_by_section d y) = Inr rates \<and>
     (\<exists>ip\<in>set rates. p = \<lparr>p_time = timestamp (snd ip), p_contract = fst ip, p_rate = rate (snd ip)\<rparr>))"

definition grows :: "adapters \<Rightarrow> db \<Rightarrow> db \<Rightarrow> bool" where
  "grows adapters d d' \<longleftrightarrow> (\<exists>new. d' = d\<lparr>live_points := live_points d @ new\<rparr> \<and> (\<forall>p\<in>set new. answered_point adapters d p))"

lemma grows_refl [simp]: "grows adapters d d"
  by (auto simp: grows_def intro: exI [of _ "[]"])

lemma grows_same_contracts:
  assumes "contracts e = contracts d"
  shows "answers adapters e = answers adapters d" "answered_point adapters e = answered_point adapters d"
  using assms by (simp_all add: answers_def answered_point_def get_active_contracts_by_section_def fun_eq_iff)

lemma grows_facts:
  assumes "grows adapters d e"
  shows "contracts e = contracts d" "answers adapters e = answers adapters d" "set (live_points d) \<subseteq> set (live_points e)"
    "answered_point adapters e = answered_point adapters d"
proof -
  show c: "contracts e = contracts d" and "set (live_points d) \<subseteq> set (live_points e)" using assms by (auto simp: grows_def)
  show "answers adapters e = answers adapters d" "answered_point adapters e = answered_point adapters d"
    by (rule grows_same_contracts [OF c])+
qed

lemma grows_trans: "grows adapters d e \<Longrightarrow> grows adapters e f \<Longrightarrow> grows adapters d f"
proof -
  assume de: "grows adapters d e" and "grows adapters e f"
  then obtain new newa where "e = d\<lparr>live_points := live_points d @ new\<rparr>" "\<forall>p\<in>set new. answered_point adapters d p"
    "f = e\<lparr>live_points := live_points e @ newa\<rparr>" "\<forall>p\<in>set newa. answered_point adapters e p"
    unfolding grows_def by blast
  then show "grows adapters d f"
    unfolding grows_def grows_facts(4) [OF de] by (intro exI [of _ "new @ newa"]) auto
qed

text \<open>The collection of one task.\<close>

lemma collect_answered:
  assumes "answers adapters d x rates" and "resolve_exchange_adapter adapters x = Inr fetch"
  shows "\<exists>r d'. ing_collect_live fetch x id d = (Inr r, d') \<and>
    p_key ` live_record ` set rates \<subseteq> p_key ` set (live_points d')"
proof -
  let ?cs = "get_active_contracts_by_section d x"
  have f: "fetch ?cs = Inr rates" "fst ` set rates \<subseteq> c_id ` set ?cs"
    using assms by (auto simp: answers_def resolve_exchange_adapter_def)
  show ?thesis
  proof (cases "?cs = []")
    case True
    then show ?thesis using f(2) by (auto simp: ing_collect_live_def Let_def)
  next
    case False
    have "list_all (fk_contract d) (map live_record rates)"
      using f(2) by (fastforce simp: list_all_iff fk_contract_def live_record_def get_active_contracts_by_section_def)
    then obtain n d' where i: "insert_live_funding_points (map live_record rates) d = Inr (n, d')"
      by (cases "insert_live_funding_points (map live_record rates) d")
        (auto simp: insert_live_funding_points_def split: if_splits prod.splits)
    from insert_live_ok [OF i] have "p_key ` live_record ` set rates \<subseteq> p_key ` set (live_points d')" by auto
    then show ?thesis using False f(1) i by (auto simp: ing_collect_live_def Let_def ingestion_insert_live_eq)
  qed
qed

lemma collect_grows:
  assumes "ing_collect_live fetch x id d = (r, d')" and "resolve_exchange_adapter adapters x = Inr fetch"
  shows "grows adapters d d'"
proof (cases "d' = d")
  case False
  have f: "map_of adapters x = Some fetch"
    using assms(2) by (simp add: resolve_exchange_adapter_def split: option.split_asm)
  obtain rates n where i: "fetch (get_active_contracts_by_section d x) = Inr rates"
      "insert_live_funding_points (map live_record rates) d = Inr (n, d')"
    using assms(1) False by (auto simp: ing_collect_live_def Let_def ingestion_insert_live_eq split: if_splits sum.split_asm)
  from insert_live_ok [OF i(2)] obtain new where n: "d' = d\<lparr>live_points := live_points d @ new\<rparr>"
    "set new \<subseteq> set (map live_record rates)" by blast
  have "answered_point adapters d p" if "p \<in> set new" for p
    using n(2) that f i(1) unfolding answered_point_def live_record_def by fastforce
  then show ?thesis using n(1) unfolding grows_def by blast
qed simp

text \<open>The body of an execution: it only adds live points, and succeeds if the exchange answers.\<close>

lemma run_claimed_alone:
  assumes "run_claimed adapters False id ct d = (out, d')"
  shows "grows adapters d d' \<and> (answers adapters d (ct_exchange ct) rates \<longrightarrow>
    (\<exists>r. out = Inr r) \<and> p_key ` live_record ` set rates \<subseteq> p_key ` set (live_points d'))"
proof (cases "resolve_exchange_adapter adapters (ct_exchange ct)")
  case (Inl e)
  then show ?thesis using assms by (auto simp: run_claimed_def answers_def resolve_exchange_adapter_def split: option.split_asm)
next
  case (Inr fetch)
  obtain r e where c: "ing_collect_live fetch (ct_exchange ct) id d = (r, e)" by fastforce
  have "d' = e" "\<exists>x. r = Inr x \<Longrightarrow> \<exists>x. out = Inr x" using assms Inr c by (auto simp: run_claimed_def split: sum.split_asm)
  then show ?thesis using collect_grows [OF c Inr] collect_answered [OF _ Inr, of d rates] c by auto
qed

text \<open>Claiming a row and finishing it changes that row only.\<close>

lemma finish_claimed:
  fixes now :: utc and worker :: string
  assumes "queue_ok ts" "t \<in> set ts"
    and f: "\<And>v. t_key (f v) = t_key v"
  defines "ts1 \<equiv> map (\<lambda>u. if t_key u = t_key t then claim_fields now worker u else u) ts"
  shows "\<exists>n. update_where (owned (t_key t) worker) f ts1 =
    (map (\<lambda>u. if t_key u = t_key t then f (claim_fields now worker u) else u) ts, Suc n)"
proof -
  have d: "distinct (map t_key ts)" using assms(1) by (simp add: queue_ok_def)
  have own: "owned (t_key t) worker (claim_fields now worker u)" if "u \<in> set ts" "t_key u = t_key t" for u
  proof -
    have "u = t" by (rule claimed_row [OF d assms(2) that])
    then show ?thesis using assms(1,2) by (auto simp: owned_def claim_fields_def task_rows)
  qed
  have "update_where (owned (t_key t) worker) f ts1 =
    (map (\<lambda>u. if t_key u = t_key t then f (claim_fields now worker u) else u) ts, length (filter (owned (t_key t) worker) ts1))"
    using own by (auto simp: update_where_def ts1_def owned_def)
  moreover have "claim_fields now worker t \<in> set ts1" using assms(2) by (force simp: ts1_def)
  then have "filter (owned (t_key t) worker) ts1 \<noteq> []" using own [OF assms(2)] by (auto simp: filter_empty_conv)
  ultimately show ?thesis by (cases "length (filter (owned (t_key t) worker) ts1)") auto
qed

text \<open>One iteration with work to do: it finishes one pending task and leaves the other rows alone.\<close>

definition finishes :: "adapters \<Rightarrow> db \<Rightarrow> task \<Rightarrow> task \<Rightarrow> db \<Rightarrow> bool" where
  "finishes adapters d t u d' \<longleftrightarrow> t_key u = t_key t \<and> \<not> active u \<and>
     (\<forall>rates. answers adapters d (t_exchange t) rates \<longrightarrow> t_status u = Done_status \<and>
        p_key ` live_record ` set rates \<subseteq> p_key ` set (live_points d'))"

lemma claim_total: "\<exists>c ts1. claim_next_pending_live_task locked now worker ts = Inr (c, ts1)"
  by (cases "get_next_pending_live_task locked ts")
    (simp_all add: claim_next_pending_live_task_def to_claimed_live_task_def claim_fields_def)

lemma work_step:
  assumes "work clock worker adapters message k (ts, d) = (r, ts', d')" and "queue_ok ts" and "filter pending ts \<noteq> []"
  obtains t g where "t \<in> set ts" "pending t" "ts' = map (\<lambda>u. if t_key u = t_key t then g u else u) ts"
    "finishes adapters d t (g t) d'" "queue_ok ts'" "grows adapters d d'"
proof -
  have live: "claimable (\<lambda>_. False) u \<longleftrightarrow> pending u" if "u \<in> set ts" for u
    using assms(2) that by (auto simp: claimable_def pending_def task_rows)
  then have "filter (claimable (\<lambda>_. False)) ts \<noteq> []" using assms(3) by (auto simp: filter_empty_conv)
  moreover obtain c ts1 where claim: "claim_next_pending_live_task (\<lambda>_. False) (clock k) worker ts = Inr (c, ts1)"
    using claim_total by blast
  ultimately obtain t ct where t: "c = Some ct" "t \<in> set ts" "claimable (\<lambda>_. False) t"
    "ts1 = map (\<lambda>u. if t_key u = t_key t then claim_fields (clock k) worker u else u) ts"
    "ct_key ct = t_key t" "ct_exchange ct = t_exchange t" "ct_worker_id ct = worker"
    by (cases rule: claim_cases [OF claim]) auto
  have q1: "queue_ok ts1" using claim_keeps [OF claim assms(2)] by blast
  obtain out e where run: "run_claimed adapters False id ct d = (out, e)" by fastforce
  note alone = run_claimed_alone [OF run, unfolded t(6)]
  show thesis
  proof (cases out)
    case (Inl x)
    obtain et err where x: "x = (et, err)" by (cases x)
    let ?f = "\<lambda>v. v\<lparr>t_status := Failed_status, t_finished_at := Some (clock k), t_error_type := Some et,
      t_error_message := Some (message err)\<rparr>"
    note fin = finish_claimed [OF assms(2) t(2), where f = ?f and now = "clock k" and worker = worker, folded t(4)]
    have m: "mark_live_task_failed (t_key t) worker (clock k) et (message err) ts1 =
        (True, map (\<lambda>u. if t_key u = t_key t then ?f (claim_fields (clock k) worker u) else u) ts)"
      using fin by (auto simp: mark_live_task_failed_def)
    have w: "ts' = map (\<lambda>u. if t_key u = t_key t then ?f (claim_fields (clock k) worker u) else u) ts" "d' = e"
      using assms(1) by (simp_all add: work_def execute_one_live_task_def claim t(1) run Inl x fail_task_def t(5,7) m)
    show thesis
    proof (rule that [OF t(2) _ w(1)])
      show "pending t" using t(2,3) live by blast
      show "queue_ok ts'" using failed_keeps(1) [OF m q1] w(1) by simp
      show "grows adapters d d'" using alone w(2) by blast
      show "finishes adapters d t (?f (claim_fields (clock k) worker t)) d'"
        using alone Inl by (auto simp: finishes_def claim_fields_def active_def)
    qed
  next
    case (Inr x)
    let ?f = "\<lambda>v. v\<lparr>t_status := Done_status, t_finished_at := Some (clock k), t_error_type := None,
      t_error_message := None\<rparr>"
    note fin = finish_claimed [OF assms(2) t(2), where f = ?f and now = "clock k" and worker = worker, folded t(4)]
    have m: "mark_live_task_done (t_key t) worker (clock k) ts1 =
        (True, map (\<lambda>u. if t_key u = t_key t then ?f (claim_fields (clock k) worker u) else u) ts)"
      using fin by (auto simp: mark_live_task_done_def)
    have w: "ts' = map (\<lambda>u. if t_key u = t_key t then ?f (claim_fields (clock k) worker u) else u) ts" "d' = e"
      using assms(1) by (simp_all add: work_def execute_one_live_task_def claim t(1) run Inr t(5) m)
    show thesis
    proof (rule that [OF t(2) _ w(1)])
      show "pending t" using t(2,3) live by blast
      show "queue_ok ts'" using done_keeps(1) [OF m q1] w(1) by simp
      show "grows adapters d d'" using alone w(2) by blast
      show "finishes adapters d t (?f (claim_fields (clock k) worker t)) d'"
        using alone w(2) by (auto simp: finishes_def claim_fields_def active_def)
    qed
  qed
qed

text \<open>The loop as the world it leaves.\<close>

primrec rounds :: "(nat \<Rightarrow> 'w \<Rightarrow> exec_result res \<times> 'w) \<Rightarrow> nat \<Rightarrow> nat \<Rightarrow> 'w \<Rightarrow> 'w" where
  "rounds execute 0 k w = w"
| "rounds execute (Suc n) k w = rounds execute n (Suc k) (snd (execute k w))"

lemma loop_rounds:
  "\<exists>acc'. run_live_worker_loop (Suc n) (\<lambda>j. j = k + n) execute k w acc = Some (acc', rounds execute n k w)"
proof (induction n arbitrary: k w acc)
  case (Suc n)
  obtain r w' where e: "execute k w = (r, w')" by fastforce
  have "(\<lambda>j. j = k + Suc n) = (\<lambda>j. j = Suc k + n)" by auto
  then show ?case using e Suc.IH [of "Suc k" w'] by (cases r) auto
qed simp

lemma work_idle: "queue_ok ts \<Longrightarrow> filter pending ts = [] \<Longrightarrow> snd (work clock worker adapters message k (ts, d)) = (ts, d)"
proof -
  assume "queue_ok ts" "filter pending ts = []"
  then have "filter (claimable (\<lambda>_. False)) ts = []" by (auto simp: filter_empty_conv claimable_def pending_def)
  then have "claim_next_pending_live_task (\<lambda>_. False) (clock k) worker ts = Inr (None, ts)"
    by (simp add: claim_next_pending_live_task_def get_next_pending_live_task_def)
  then show ?thesis by (simp add: work_def execute_one_live_task_def)
qed

lemma finishes_grows:
  assumes "grows adapters d e"
  shows "finishes adapters e t u d2 = finishes adapters d t u d2"
    "finishes adapters a t u d \<Longrightarrow> finishes adapters a t u e"
proof -
  have "p_key ` set (live_points d) \<subseteq> p_key ` set (live_points e)" using grows_facts(3) [OF assms] by (rule image_mono)
  then show "finishes adapters a t u d \<Longrightarrow> finishes adapters a t u e" unfolding finishes_def by (meson order_trans)
qed (simp add: finishes_def grows_facts(2) [OF assms])

lemma rounds_settle:
  "rounds (work clock worker adapters message) n k (ts, d) = (ts2, d2) \<Longrightarrow> queue_ok ts \<Longrightarrow>
   length (filter pending ts) \<le> n \<Longrightarrow> filter pending ts2 = [] \<and> grows adapters d d2 \<and>
    (\<forall>t\<in>set ts. if pending t then \<exists>u\<in>set ts2. finishes adapters d t u d2 else t \<in> set ts2)"
proof (induction n arbitrary: k ts d)
  case (Suc n)
  show ?case
  proof (cases "filter pending ts = []")
    case True
    then show ?thesis using Suc work_idle [OF Suc.prems(2) True, of clock worker adapters message k d] by simp
  next
    case False
    obtain r ts1 d1 where w: "work clock worker adapters message k (ts, d) = (r, ts1, d1)" by (metis surj_pair)
    then have rest: "rounds (work clock worker adapters message) n (Suc k) (ts1, d1) = (ts2, d2)" using Suc.prems(1) by simp
    obtain t g where t: "t \<in> set ts" "pending t" "ts1 = map (\<lambda>u. if t_key u = t_key t then g u else u) ts"
      "finishes adapters d t (g t) d1" "queue_ok ts1" "grows adapters d d1"
      by (rule work_step [OF w Suc.prems(2) False])
    have key: "u = t" if "u \<in> set ts" "t_key u = t_key t" for u
      using claimed_row Suc.prems(2) t(1) that unfolding queue_ok_def by blast
    have gt: "g t \<in> set ts1" "\<not> pending (g t)" using t(1,4) by (force simp: t(3), simp add: finishes_def pending_def active_def)
    have "filter pending ts1 = filter (\<lambda>u. t_key u \<noteq> t_key t) (filter pending ts)"
      unfolding t(3) filter_map comp_def filter_filter using key gt(2)
      by (subst map_idI) (auto intro!: filter_cong split: if_splits)
    then have "length (filter pending ts1) < length (filter pending ts)"
      using length_filter_less [of t "filter pending ts" "\<lambda>u. t_key u \<noteq> t_key t"] t(1,2) by (simp del: filter_filter)
    then have "length (filter pending ts1) \<le> n" using Suc.prems(3) by simp
    note IH = Suc.IH [OF rest t(5) this]
    have "if pending u then \<exists>v\<in>set ts2. finishes adapters d u v d2 else u \<in> set ts2" if u: "u \<in> set ts" for u
    proof (cases "u = t")
      case True
      have "g t \<in> set ts2" "grows adapters d1 d2" using IH gt by auto
      then show ?thesis using True t(2) finishes_grows(2) [OF _ t(4)] by auto
    next
      case False
      then have "u \<in> set ts1" using key u by (force simp: t(3))
      then show ?thesis using IH finishes_grows(1) [OF t(6)] by auto
    qed
    then show ?thesis using IH grows_trans [OF t(6)] by blast
  qed
qed (auto simp: filter_empty_conv)

section \<open>The property\<close>

text \<open>C20. A minute of live ingestion: after a tick that leaves no task running and none of this minute finished,
  a worker that runs alone empties the queue in as many iterations as there are pending tasks, and
  every selected exchange that answers for its active contracts has an active task that ends
  successfully, whatever the other exchanges do. Each of its rates is then in the live table, with the
  contract, the instant and the rate that the exchange answered, unless the table already had a row for
  that contract and instant before. Nothing else is added but what exchanges answered, and no other
  table changes. The adapters answer for contracts they were asked for only, once for each.\<close>

theorem live_minute_collects:
  assumes "enqueue_live_funding_tick False db_now xs now cfg ts = Inr (er, ts1)" and "iso_safe now" and "queue_ok ts"
    and "\<forall>t\<in>set ts1. t_status t \<noteq> Running \<and> (t_scheduled_for t = start_of_minute now \<longrightarrow> active t)"
    and "length (filter pending ts1) \<le> n"
    and "run_live_worker_loop (Suc n) (\<lambda>k. k = n) (work clock worker adapters message) 0 (ts1, d) [] = Some (acc, ts2, d2)"
    and "x \<in> set xs" and "answers adapters d x rates" and "db_ok d"
    and "\<And>y fetch cs rs. map_of adapters y = Some fetch \<Longrightarrow> fetch cs = Inr rs \<Longrightarrow> distinct (map c_id cs) \<Longrightarrow>
      fst ` set rs \<subseteq> c_id ` set cs \<and> distinct (map fst rs)"
  shows "(\<exists>t\<in>set ts1. t_exchange t = x \<and> active t \<and> (\<exists>u\<in>set ts2. t_key u = t_key t \<and> t_status u = Done_status)) \<and>
    (\<forall>(cid, p)\<in>set rates. \<lparr>p_time = timestamp p, p_contract = cid, p_rate = rate p\<rparr> \<in> set (live_points d2) \<or>
      (\<exists>old\<in>set (live_points d). p_contract old = cid \<and> p_time old = timestamp p)) \<and>
    (\<exists>new. d2 = d\<lparr>live_points := live_points d @ new\<rparr> \<and> (\<forall>p\<in>set new. answered_point adapters d p)) \<and>
    filter pending ts2 = []"
proof -
  obtain t where t: "t \<in> set ts1" "t_exchange t = x" "active t"
    using tick_covers [OF assms(1-3)] assms(4,7) by blast
  then have p: "pending t" using assms(4) by (auto simp: active_def pending_def)
  obtain tk where tk: "from_instant now cfg = Inr tk" "enqueue_tick db_now xs tk ts = (er, ts1)"
    using assms(1) by (auto simp: enqueue_live_funding_tick_def res_simps)
  then have "task_step ts ts1" using assms(2) by (intro step_tick)
  then have q: "queue_ok ts1" using step_keeps [OF _ assms(3)] by blast
  have "rounds (work clock worker adapters message) n 0 (ts1, d) = (ts2, d2)"
    using loop_rounds [of n 0 "work clock worker adapters message" "(ts1, d)" "[]"] assms(6) by simp
  note r = rounds_settle [OF this q assms(5)]
  have "if pending t then \<exists>u\<in>set ts2. finishes adapters d t u d2 else t \<in> set ts2" using r t(1) by blast
  then obtain u where u: "u \<in> set ts2" "finishes adapters d t u d2" using p by auto
  then have keys: "t_key u = t_key t" "t_status u = Done_status"
    "p_key ` live_record ` set rates \<subseteq> p_key ` set (live_points d2)"
    using assms(8) t(2) by (auto simp: finishes_def)
  obtain new where new: "d2 = d\<lparr>live_points := live_points d @ new\<rparr>" "\<forall>p\<in>set new. answered_point adapters d p"
    using r by (auto simp: grows_def)
  have "\<lparr>p_time = timestamp p, p_contract = cid, p_rate = rate p\<rparr> \<in> set (live_points d2) \<or>
      (\<exists>old\<in>set (live_points d). p_contract old = cid \<and> p_time old = timestamp p)" if ip: "(cid, p) \<in> set rates" for cid p
  proof -
    have "p_key (live_record (cid, p)) \<in> p_key ` set (live_points d2)" using keys(3) ip by blast
    then obtain row where row: "row \<in> set (live_points d2)" "p_contract row = cid" "p_time row = timestamp p"
      by (auto simp: p_key_def live_record_def)
    show ?thesis
    proof (cases "row \<in> set (live_points d)")
      case False
      then have "answered_point adapters d row" using row(1) new by auto
      then obtain y fetch rs q where y: "map_of adapters y = Some fetch" "fetch (get_active_contracts_by_section d y) = Inr rs"
        "(cid, q) \<in> set rs" "row = \<lparr>p_time = timestamp q, p_contract = cid, p_rate = rate q\<rparr>"
        using row(2) by (auto simp: answered_point_def)
      obtain fx where x: "map_of adapters x = Some fx" "fx (get_active_contracts_by_section d x) = Inr rates"
        using assms(8) by (auto simp: answers_def)
      have dist: "distinct (map c_id (get_active_contracts_by_section d z))" for z
        unfolding get_active_contracts_by_section_def using assms(9) by (intro distinct_map_filter) (simp add: db_ok_def)
      have "cid \<in> c_id ` set (get_active_contracts_by_section d y)" "cid \<in> c_id ` set (get_active_contracts_by_section d x)"
        using assms(10) [OF y(1,2) dist] assms(10) [OF x dist] y(3) ip by force+
      then have "y = x"
        using assms(9) by (auto simp: get_active_contracts_by_section_def db_ok_def distinct_map dest: inj_onD)
      then have "rs = rates" using x y(1,2) by simp
      then have "q = p" using assms(10) [OF x dist] ip y(3) eq_key_imp_eq_value by fastforce
      then show ?thesis using row(1) y(4) by simp
    qed (use row in blast)
  qed
  then show ?thesis using t r u(1) keys(1,2) new by blast
qed

text \<open>Two exchanges, one of which answers.\<close>

definition w_round_adapters :: adapters where
  "w_round_adapters = [(''okx'', \<lambda>cs. Inr (map (\<lambda>c. (c_id c, \<lparr>rate = 1 / 4, timestamp = 5\<rparr>)) cs)), (''bybit'', \<lambda>_. Inl HTTPError)]"

theorem live_minute_collects_witness:
  "\<exists>er ts1 acc ts2 d2. enqueue_live_funding_tick False 9 [''bybit'', ''okx''] 1700000000000000 default_enqueuer_config [] = Inr (er, ts1) \<and>
     run_live_worker_loop 3 (\<lambda>k. k = 2) (work (\<lambda>_. 1700000001000000) ''w1'' w_round_adapters (\<lambda>_. [])) 0 (ts1, w_live_db) [] =
       Some (acc, ts2, d2) \<and> \<lparr>p_time = 5, p_contract = 1, p_rate = 1 / 4\<rparr> \<in> set (live_points d2) \<and> filter pending ts2 = []"
proof -
  let ?tick = "enqueue_live_funding_tick False 9 [''bybit'', ''okx''] 1700000000000000 default_enqueuer_config []"
  let ?work = "work (\<lambda>_. 1700000001000000) ''w1'' w_round_adapters (\<lambda>_. [])"
  define ts1 where "ts1 = snd (projr ?tick)"
  have e: "\<not> isl ?tick" "iso_safe 1700000000000000" "queue_ok []" "length (filter pending (snd (projr ?tick))) \<le> 2"
    "list_all (\<lambda>t. t_status t \<noteq> Running \<and> (t_scheduled_for t = start_of_minute 1700000000000000 \<longrightarrow> active t)) (snd (projr ?tick))"
    "db_ok w_live_db" "live_points w_live_db = []"
    by code_simp+
  obtain er where tick: "?tick = Inr (er, ts1)" using e(1) by (cases ?tick) (auto simp: ts1_def)
  obtain acc w where run: "run_live_worker_loop (Suc 2) (\<lambda>k. k = 2) ?work 0 (ts1, w_live_db) [] = Some (acc, w)"
    using loop_rounds [of 2 0 ?work "(ts1, w_live_db)" "[]"] unfolding add_0 by blast
  obtain ts2 d2 where w: "w = (ts2, d2)" by (cases w)
  have a: "answers w_round_adapters w_live_db ''okx'' [(1, \<lparr>rate = 1 / 4, timestamp = 5\<rparr>)]"
    by (simp add: answers_def w_round_adapters_def w_live_db_def get_active_contracts_by_section_def a_contract_def)
  have ad: "fst ` set rs \<subseteq> c_id ` set cs \<and> distinct (map fst rs)"
    if "map_of w_round_adapters y = Some fetch" "fetch cs = Inr rs" "distinct (map c_id cs)" for y fetch cs rs
    using that by (auto simp: w_round_adapters_def comp_def split: if_splits)
  have "\<forall>t\<in>set ts1. t_status t \<noteq> Running \<and> (t_scheduled_for t = start_of_minute 1700000000000000 \<longrightarrow> active t)"
    "length (filter pending ts1) \<le> 2" using e(4,5) by (simp_all add: ts1_def list_all_iff)
  note m = live_minute_collects [OF tick e(2,3) this run [unfolded w] _ a e(6)]
  have "\<lparr>p_time = 5, p_contract = 1, p_rate = 1 / 4\<rparr> \<in> set (live_points d2) \<and> filter pending ts2 = []"
    using m [OF _ ad] e(7) by auto
  then show ?thesis using tick run [unfolded w] by (auto simp: numeral_3_eq_3)
qed

end
