(* ===== verification/AdaptersCex.thy ===== *)
theory AdaptersCex
  imports Adapter
begin

text \<open>
  The adapters of the centralised exchanges Bybit, OKX, KuCoin and Backpack, of the tracker and of
  live ingestion (prefix \<open>ing\<close>). Loops over pages take a bound on the number of requests; \<open>None\<close> is
  a loop that has not ended within it.
\<close>

section \<open>Bybit\<close>

definition bybit_suffix :: "string \<Rightarrow> string" where
  "bybit_suffix quote = (case map_of [(''USDT'', ''USDT''), (''USDC'', ''PERP'')] quote of
     None \<Rightarrow> quote | Some s \<Rightarrow> s)"

definition bybit_format_symbol :: "contract_row \<Rightarrow> string" where
  "bybit_format_symbol c = c_asset c @ bybit_suffix (c_quote c)"

text \<open>One page: its entries and the cursor of the next page.\<close>

definition bybit_page :: "api \<Rightarrow> nat \<Rightarrow> json \<Rightarrow> (json list \<times> json) res" where
  "bybit_page api k cursor =
     rbind (api_get api k ''https://api.bybit.com/v5/market/instruments-info''
       ((''category'', JStr ''linear'') # (if truthy cursor then [(''cursor'', cursor)] else []))) (\<lambda>response.
     rbind (jkey response ''result'') (\<lambda>result. rbind (jkey result ''list'') (\<lambda>l. rbind (jiter l) (\<lambda>entries.
     rbind (jget result ''nextPageCursor'' JNull) (\<lambda>next. Inr (entries, next))))))"

fun bybit_pages :: "nat \<Rightarrow> api \<Rightarrow> nat \<Rightarrow> json \<Rightarrow> json list \<Rightarrow> json list res option" where
  "bybit_pages 0 api k cursor acc = None"
| "bybit_pages (Suc n) api k cursor acc =
     (case bybit_page api k cursor of
        Inl e \<Rightarrow> Some (Inl e)
      | Inr (entries, next) \<Rightarrow>
          if \<not> truthy next then Some (Inr (acc @ entries))
          else bybit_pages n api (Suc k) next (acc @ entries))"

definition bybit_listing :: "json \<Rightarrow> listing option res" where
  "bybit_listing c = rbind (jkey c ''contractType'') (\<lambda>ty.
     if jeq_str ty ''LinearPerpetual'' then
       rbind (jkey c ''baseCoin'') (\<lambda>a. rbind (jkey c ''quoteCoin'') (\<lambda>q.
       rbind (jkey c ''fundingInterval'') (\<lambda>i. rbind (jnumber i) (\<lambda>minutes.
       rbind (mk_listing ''bybit'' a q (JInt (py_int (fl (minutes / 60))))) (\<lambda>l. Inr (Some l))))))
     else Inr None)"

definition bybit_get_contracts :: "nat \<Rightarrow> api \<Rightarrow> listing list res option" where
  "bybit_get_contracts fuel api =
     map_option (\<lambda>r. rbind r (rcollect bybit_listing)) (bybit_pages fuel api 0 JNull [])"

definition bybit_fetch_history :: "api \<Rightarrow> fetch_history" where
  "bybit_fetch_history api c start_ms end_ms =
     rbind (api_get api 0 ''https://api.bybit.com/v5/market/funding/history''
       [(''symbol'', JStr (bybit_format_symbol c)), (''category'', JStr ''linear''), (''startTime'', JInt start_ms),
        (''endTime'', JInt end_ms)]) (\<lambda>response.
     rbind (jget response ''result'' (JObj [])) (\<lambda>result. rbind (jget result ''list'' (JArr [])) (\<lambda>raw.
     if truthy raw
     then rbind (jiter raw) (history_points (float_at ''fundingRate'') (ms_int_at ''fundingRateTimestamp''))
     else Inr [])))"

definition bybit_item :: "json \<Rightarrow> (json \<times> rat) option res" where
  "bybit_item r = rbind (jget r ''fundingRate'' (JStr [])) (\<lambda>f.
     if \<not> truthy f then Inr None
     else rbind (jkey r ''symbol'') (\<lambda>s. rbind (jfloat f) (\<lambda>x. Inr (Some (s, x)))))"

definition bybit_fetch_live_batch :: "api \<Rightarrow> utc \<Rightarrow> rates res" where
  "bybit_fetch_live_batch api now =
     rbind (api_get api 0 ''https://api.bybit.com/v5/market/tickers'' [(''category'', JStr ''linear'')]) (\<lambda>response.
     rbind (jkey response ''result'') (\<lambda>result. rbind (jkey result ''list'') (\<lambda>l.
     rbind (jiter l) (live_rates now bybit_item))))"

definition ing_bybit_format_symbol :: "contract_row \<Rightarrow> string" where
  "ing_bybit_format_symbol c = c_asset c @ bybit_suffix (c_quote c)"

text \<open>The ingestion adapter converts the rate before it reads the symbol.\<close>

definition ing_bybit_item :: "json \<Rightarrow> (json \<times> rat) option res" where
  "ing_bybit_item r = rbind (jget r ''fundingRate'' (JStr [])) (\<lambda>f.
     if \<not> truthy f then Inr None
     else rbind (jfloat f) (\<lambda>x. rbind (jkey r ''symbol'') (\<lambda>s. Inr (Some (s, x)))))"

definition ing_bybit_fetch_live_batch :: "api \<Rightarrow> utc \<Rightarrow> rates res" where
  "ing_bybit_fetch_live_batch api now =
     rbind (api_get api 0 ''https://api.bybit.com/v5/market/tickers'' [(''category'', JStr ''linear'')]) (\<lambda>response.
     rbind (jkey response ''result'') (\<lambda>result. rbind (jkey result ''list'') (\<lambda>l.
     rbind (jiter l) (live_rates now ing_bybit_item))))"

section \<open>OKX\<close>

definition okx_format_symbol :: "contract_row \<Rightarrow> string" where
  "okx_format_symbol c = c_asset c @ ''-'' @ c_quote c @ ''-SWAP''"

text \<open>\<open>response.get("code") == "0" and response.get("data")\<close>: the data, or \<open>None\<close>.\<close>

definition okx_data :: "json \<Rightarrow> json option res" where
  "okx_data response = rbind (jget response ''code'' JNull) (\<lambda>code.
     if \<not> jeq_str code ''0'' then Inr None
     else rbind (jget response ''data'' JNull) (\<lambda>data. Inr (if truthy data then Some data else None)))"

definition okx_listing :: "json \<Rightarrow> listing option res" where
  "okx_listing i = rbind (jkey i ''state'') (\<lambda>st.
     if jeq_str st ''live'' then
       rbind (jkey i ''instId'') (\<lambda>v. rbind (jtext v) (\<lambda>s. (case py_split (CHR ''-'') s of
         [a, q, _] \<Rightarrow> Inr (Some \<lparr>l_asset = a, l_quote = q, l_interval = 8, l_section = ''okx''\<rparr>)
       | _ \<Rightarrow> Inl ValueError)))
     else Inr None)"

definition okx_get_contracts :: "api \<Rightarrow> listing list res" where
  "okx_get_contracts api =
     rbind (api_get api 0 ''https://www.okx.com/api/v5/public/instruments'' [(''instType'', JStr ''SWAP'')]) (\<lambda>response.
     rbind (okx_data response) (\<lambda>data. case data of None \<Rightarrow> Inr []
       | Some v \<Rightarrow> rbind (jiter v) (rcollect okx_listing)))"

definition okx_fetch_history :: "api \<Rightarrow> fetch_history" where
  "okx_fetch_history api c start_ms end_ms =
     rbind (api_get api 0 ''https://www.okx.com/api/v5/public/funding-rate-history''
       [(''instId'', JStr (okx_format_symbol c)), (''after'', JInt end_ms), (''before'', JInt start_ms),
        (''limit'', JInt 400)]) (\<lambda>response.
     rbind (okx_data response) (\<lambda>data. case data of None \<Rightarrow> Inr []
       | Some v \<Rightarrow> rbind (jiter v) (history_points (float_at ''fundingRate'') (ms_int_at ''fundingTime''))))"

definition okx_fetch_live_single :: "(contract_row \<Rightarrow> request \<Rightarrow> json res) \<Rightarrow> utc \<Rightarrow> contract_row \<Rightarrow> funding_point res" where
  "okx_fetch_live_single api now c =
     rbind (api c \<lparr>rq_method = GET, rq_url = ''https://www.okx.com/api/v5/public/funding-rate'',
       rq_args = [(''instId'', JStr (okx_format_symbol c))], rq_headers = []\<rparr>) (\<lambda>response.
     rbind (jget response ''data'' JNull) (\<lambda>data.
     if \<not> truthy data then Inl ValueError
     else rbind (jidx data 0) (\<lambda>record. rbind (float_at ''fundingRate'' record) (\<lambda>x.
       Inr \<lparr>rate = x, timestamp = now\<rparr>))))"

definition ing_okx_format_symbol :: "contract_row \<Rightarrow> string" where
  "ing_okx_format_symbol c = c_asset c @ ''-'' @ c_quote c @ ''-SWAP''"

definition ing_okx_fetch_live_single :: "(contract_row \<Rightarrow> request \<Rightarrow> json res) \<Rightarrow> utc \<Rightarrow> contract_row \<Rightarrow> funding_point res" where
  "ing_okx_fetch_live_single api now c =
     rbind (api c \<lparr>rq_method = GET, rq_url = ''https://www.okx.com/api/v5/public/funding-rate'',
       rq_args = [(''instId'', JStr (ing_okx_format_symbol c))], rq_headers = []\<rparr>) (\<lambda>response.
     rbind (jget response ''data'' JNull) (\<lambda>data.
     if \<not> truthy data then Inl ValueError
     else rbind (jidx data 0) (\<lambda>record. rbind (float_at ''fundingRate'' record) (\<lambda>x.
       Inr \<lparr>rate = x, timestamp = now\<rparr>))))"

section \<open>KuCoin\<close>

definition kucoin_format_symbol :: "contract_row \<Rightarrow> string" where
  "kucoin_format_symbol c = c_asset c @ c_quote c @ ''M''"

text \<open>\<open>assert isinstance(response, dict)\<close> and the check of the API's status code.\<close>

definition kucoin_checked :: "json \<Rightarrow> unit res" where
  "kucoin_checked response = rbind (assert_obj response) (\<lambda>_. rbind (jget response ''code'' JNull) (\<lambda>code.
     rguard (jeq_str code ''200000'') RuntimeError))"

definition kucoin_listing :: "json \<Rightarrow> listing option res" where
  "kucoin_listing c = rbind (jkey c ''status'') (\<lambda>st. if \<not> jeq_str st ''Open'' then Inr None else
     rbind (jget c ''fundingRateGranularity'' JNull) (\<lambda>g. if \<not> truthy g then Inr None else
     rbind (jkey c ''baseCurrency'') (\<lambda>a. rbind (jkey c ''quoteCurrency'') (\<lambda>q. rbind (jnumber g) (\<lambda>ms.
     rbind (mk_listing ''kucoin'' a q (JInt (py_int (fl (fl (ms / 1000) / 3600))))) (\<lambda>l. Inr (Some l)))))))"

definition kucoin_get_contracts :: "api \<Rightarrow> listing list res" where
  "kucoin_get_contracts api =
     rbind (api_get api 0 ''https://api-futures.kucoin.com/api/v1/contracts/active'' []) (\<lambda>response.
     rbind (kucoin_checked response) (\<lambda>_. rbind (jget response ''data'' (JArr [])) (\<lambda>data.
     rbind (jiter data) (rcollect kucoin_listing))))"

definition kucoin_fetch_history :: "api \<Rightarrow> fetch_history" where
  "kucoin_fetch_history api c start_ms end_ms =
     rbind (api_get api 0 ''https://api-futures.kucoin.com/api/v1/contract/funding-rates''
       [(''symbol'', JStr (kucoin_format_symbol c)), (''from'', JInt start_ms), (''to'', JInt end_ms)]) (\<lambda>response.
     rbind (kucoin_checked response) (\<lambda>_. rbind (jget response ''data'' JNull) (\<lambda>data.
     rbind (jiter (if truthy data then data else JArr []))
       (history_points (float_at ''fundingRate'') (ms_int_at ''timepoint'')))))"

definition kucoin_item :: "json \<Rightarrow> (json \<times> rat) option res" where
  "kucoin_item c = rbind (jkey c ''status'') (\<lambda>st. if \<not> jeq_str st ''Open'' then Inr None else
     rbind (jget c ''fundingRateGranularity'' JNull) (\<lambda>g. if \<not> truthy g then Inr None else
     rbind (jkey c ''symbol'') (\<lambda>s. rbind (jget c ''fundingFeeRate'' JNull) (\<lambda>f.
     if f = JNull then Inr None else rbind (jfloat f) (\<lambda>x. Inr (Some (s, x)))))))"

definition kucoin_fetch_live_batch :: "api \<Rightarrow> utc \<Rightarrow> rates res" where
  "kucoin_fetch_live_batch api now =
     rbind (api_get api 0 ''https://api-futures.kucoin.com/api/v1/contracts/active'' []) (\<lambda>response.
     rbind (kucoin_checked response) (\<lambda>_. rbind (jget response ''data'' (JArr [])) (\<lambda>data.
     rbind (jiter data) (live_rates now kucoin_item))))"

definition ing_kucoin_format_symbol :: "contract_row \<Rightarrow> string" where
  "ing_kucoin_format_symbol c = c_asset c @ c_quote c @ ''M''"

definition ing_kucoin_item :: "json \<Rightarrow> (json \<times> rat) option res" where
  "ing_kucoin_item c = rbind (jkey c ''status'') (\<lambda>st. if \<not> jeq_str st ''Open'' then Inr None else
     rbind (jget c ''fundingRateGranularity'' JNull) (\<lambda>g. if \<not> truthy g then Inr None else
     rbind (jget c ''fundingFeeRate'' JNull) (\<lambda>f. if f = JNull then Inr None else
     rbind (jfloat f) (\<lambda>x. rbind (jkey c ''symbol'') (\<lambda>s. Inr (Some (s, x)))))))"

definition ing_kucoin_fetch_live_batch :: "api \<Rightarrow> utc \<Rightarrow> rates res" where
  "ing_kucoin_fetch_live_batch api now =
     rbind (api_get api 0 ''https://api-futures.kucoin.com/api/v1/contracts/active'' []) (\<lambda>response.
     rbind (kucoin_checked response) (\<lambda>_. rbind (jget response ''data'' (JArr [])) (\<lambda>data.
     rbind (jiter data) (live_rates now ing_kucoin_item))))"

section \<open>Backpack\<close>

definition backpack_format_symbol :: "contract_row \<Rightarrow> string" where
  "backpack_format_symbol c = c_asset c @ ''_'' @ c_quote c @ ''_PERP_'' @ py_str_int (c_interval c)"

definition backpack_api_symbol :: "contract_row \<Rightarrow> string" where
  "backpack_api_symbol c = rsplit_head (CHR ''_'') (backpack_format_symbol c)"

definition backpack_listing :: "json \<Rightarrow> listing option res" where
  "backpack_listing m = rbind (jkey m ''marketType'') (\<lambda>ty.
     if jeq_str ty ''PERP'' then
       rbind (jkey m ''symbol'') (\<lambda>v. rbind (jtext v) (\<lambda>s. (case py_split (CHR ''_'') s of
         [a, q, _] \<Rightarrow> rbind (jkey m ''fundingInterval'') (\<lambda>i. rbind (jnumber i) (\<lambda>ms.
           rbind (mk_listing ''backpack'' (JStr a) (JStr q) (JFloat (fl (ms / 3600000)))) (\<lambda>l. Inr (Some l))))
       | _ \<Rightarrow> Inl ValueError)))
     else Inr None)"

definition backpack_get_contracts :: "api \<Rightarrow> listing list res" where
  "backpack_get_contracts api =
     rbind (api_get api 0 ''https://api.backpack.exchange/api/v1/markets'' []) (\<lambda>response.
     rbind (assert_arr response) (\<lambda>_. rbind (jiter response) (rcollect backpack_listing)))"

text \<open>\<open>int(delta.total_seconds() / (interval * 3600))\<close> and the same with \<open>//\<close>.\<close>

definition total_seconds :: "timedelta \<Rightarrow> rat" where
  "total_seconds d = fl (of_int d / 1000000)"

definition intervals_between :: "timedelta \<Rightarrow> int \<Rightarrow> int res" where
  "intervals_between d interval = (if interval = 0 then Inl ZeroDivisionError
     else Inr (py_int (fl (total_seconds d / of_int (interval * 3600)))))"

definition intervals_floor :: "timedelta \<Rightarrow> int \<Rightarrow> int res" where
  "intervals_floor d interval = (if interval = 0 then Inl ZeroDivisionError
     else Inr \<lfloor>total_seconds d / of_int (interval * 3600)\<rfloor>)"

definition backpack_request :: "api \<Rightarrow> contract_row \<Rightarrow> int \<Rightarrow> int \<Rightarrow> json list res" where
  "backpack_request api c limit offset_end =
     rbind (api_get api 0 ''https://api.backpack.exchange/api/v1/fundingRates''
       [(''symbol'', JStr (backpack_api_symbol c)), (''limit'', JInt limit), (''offset'', JInt offset_end)]) (\<lambda>response.
     rbind (assert_arr response) (\<lambda>_. jiter response))"

text \<open>\<open>now0\<close> and \<open>now\<close> are the two readings of the clock.\<close>

definition backpack_fetch_history_before ::
  "api \<Rightarrow> utc \<Rightarrow> utc \<Rightarrow> contract_row \<Rightarrow> utc option \<Rightarrow> funding_point list res" where
  "backpack_fetch_history_before api now0 now c before =
     (let end_time = (case before of Some t \<Rightarrow> t | None \<Rightarrow> now0) in
      rbind (intervals_between (now - end_time) (c_interval c)) (\<lambda>n.
      let offset_end = 1 + n; offset_start = offset_end + 1000 div c_interval c; limit = offset_start - offset_end in
      if limit < 1 then Inr []
      else rbind (backpack_request api c limit offset_end)
        (history_points (float_at ''fundingRate'') (iso_at ''intervalEndTimestamp''))))"

definition backpack_fetch_history_after ::
  "api \<Rightarrow> utc \<Rightarrow> contract_row \<Rightarrow> utc \<Rightarrow> funding_point list res" where
  "backpack_fetch_history_after api now c after_timestamp =
     rbind (intervals_floor (now - after_timestamp) (c_interval c)) (\<lambda>n.
     let offset_end = 1; offset_start = 1 + n; limit = offset_start - offset_end in
     if limit < 1 then Inr []
     else rbind (backpack_request api c limit offset_end) (rcollect (\<lambda>r.
       rbind (iso_at ''intervalEndTimestamp'' r) (\<lambda>t.
         if t \<le> after_timestamp then Inr None
         else rbind (float_at ''fundingRate'' r) (\<lambda>x. Inr (Some \<lparr>rate = x, timestamp = t\<rparr>))))))"

definition backpack_fetch_history :: "api \<Rightarrow> utc \<Rightarrow> fetch_history" where
  "backpack_fetch_history api now c start_ms end_ms =
     rbind (from_unix_milliseconds (of_int start_ms)) (\<lambda>start_time.
     rbind (from_unix_milliseconds (of_int end_ms)) (\<lambda>end_time.
     rbind (intervals_between (now - end_time) (c_interval c)) (\<lambda>n.
     rbind (intervals_floor (now - start_time) (c_interval c)) (\<lambda>m.
     let offset_end = 1 + n; offset_start = 1 + m; limit = offset_start - offset_end in
     if limit < 1 then Inr []
     else rbind (backpack_request api c limit offset_end)
       (history_points (float_at ''fundingRate'') (iso_at ''intervalEndTimestamp''))))))"

definition backpack_fetch_live_single :: "(contract_row \<Rightarrow> request \<Rightarrow> json res) \<Rightarrow> utc \<Rightarrow> contract_row \<Rightarrow> funding_point res" where
  "backpack_fetch_live_single api now c =
     rbind (api c \<lparr>rq_method = GET, rq_url = ''https://api.backpack.exchange/api/v1/fundingRates'',
       rq_args = [(''symbol'', JStr (backpack_api_symbol c)), (''limit'', JInt 1)], rq_headers = []\<rparr>) (\<lambda>response.
     rbind (assert_arr response) (\<lambda>_.
     if \<not> truthy response then Inl ValueError
     else rbind (jidx response 0) (\<lambda>record. rbind (float_at ''fundingRate'' record) (\<lambda>x.
       Inr \<lparr>rate = x, timestamp = now\<rparr>))))"

definition ing_backpack_format_symbol :: "contract_row \<Rightarrow> string" where
  "ing_backpack_format_symbol c = c_asset c @ ''_'' @ c_quote c @ ''_PERP_'' @ py_str_int (c_interval c)"

definition ing_backpack_fetch_live_single :: "(contract_row \<Rightarrow> request \<Rightarrow> json res) \<Rightarrow> utc \<Rightarrow> contract_row \<Rightarrow> funding_point res" where
  "ing_backpack_fetch_live_single api now c =
     rbind (api c \<lparr>rq_method = GET, rq_url = ''https://api.backpack.exchange/api/v1/fundingRates'',
       rq_args = [(''symbol'', JStr (rsplit_head (CHR ''_'') (ing_backpack_format_symbol c))), (''limit'', JInt 1)],
       rq_headers = []\<rparr>) (\<lambda>response.
     rbind (assert_arr response) (\<lambda>_.
     if \<not> truthy response then Inl ValueError
     else rbind (jidx response 0) (\<lambda>record. rbind (float_at ''fundingRate'' record) (\<lambda>x.
       Inr \<lparr>rate = x, timestamp = now\<rparr>))))"

section \<open>Properties\<close>

definition bybit_step :: "api \<Rightarrow> nat \<Rightarrow> json \<Rightarrow> json list \<Rightarrow> (json list \<times> json option) res" where
  "bybit_step api k cursor acc = rbind (bybit_page api k cursor) (\<lambda>(entries, next).
     Inr (entries, if truthy next then Some next else None))"

interpretation bybit_walk: page_walk "\<lambda>n. bybit_pages n api" "bybit_step api" for api
proof
  fix k c acc e n xs c'
  show "bybit_pages 0 api k c acc = None" by simp
  show "bybit_step api k c acc = Inl e \<Longrightarrow> bybit_pages (Suc n) api k c acc = Some (Inl e)"
    by (auto simp: bybit_step_def res_simps)
  show "bybit_step api k c acc = Inr (xs, None) \<Longrightarrow> bybit_pages (Suc n) api k c acc = Some (Inr (acc @ xs))"
    by (auto simp: bybit_step_def res_simps split: if_splits)
  show "bybit_step api k c acc = Inr (xs, Some c') \<Longrightarrow>
      bybit_pages (Suc n) api k c acc = bybit_pages n api (Suc k) c' (acc @ xs)"
    by (auto simp: bybit_step_def res_simps split: if_splits)
qed

text \<open>An exchange that serves the pages \<open>0..n\<close> by cursor, at any time and in any order: the first page to a request
  without a cursor, page \<open>j\<close> to a request with the cursor \<open>cur j\<close>. Each page names the cursor of the next, and
  the last one an empty cursor or none.\<close>

definition bybit_serves :: "api \<Rightarrow> (nat \<Rightarrow> json) \<Rightarrow> (nat \<Rightarrow> json list) \<Rightarrow> nat \<Rightarrow> bool" where
  "bybit_serves api cur entries n \<longleftrightarrow> (\<forall>k. \<forall>j\<le>n. \<exists>response result.
     api k \<lparr>rq_method = GET, rq_url = ''https://api.bybit.com/v5/market/instruments-info'',
       rq_args = (if j = 0 then [(''category'', JStr ''linear'')] else [(''category'', JStr ''linear''), (''cursor'', cur j)]),
       rq_headers = []\<rparr> = Inr response \<and>
     jkey response ''result'' = Inr result \<and> jkey result ''list'' = Inr (JArr (entries j)) \<and>
     (if j < n then jget result ''nextPageCursor'' JNull = Inr (cur (Suc j)) \<and> truthy (cur (Suc j))
      else jget result ''nextPageCursor'' JNull \<in> {Inr JNull, Inr (JStr [])}))"

lemma bybit_serves_page:
  assumes "bybit_serves api cur entries n" and "j \<le> n"
  shows "\<exists>next. bybit_page api k (if j = 0 then JNull else cur j) = Inr (entries j, next) \<and>
    (if j < n then next = cur (Suc j) \<and> truthy next else \<not> truthy next)"
proof -
  have cur: "truthy (cur j)" if "j \<noteq> 0"
    using assms that unfolding bybit_serves_def by (cases j) (auto dest!: spec [of _ 0] spec [of _ "j - 1"])
  from assms obtain response result where
    r: "api k \<lparr>rq_method = GET, rq_url = ''https://api.bybit.com/v5/market/instruments-info'',
       rq_args = (if j = 0 then [(''category'', JStr ''linear'')] else [(''category'', JStr ''linear''), (''cursor'', cur j)]),
       rq_headers = []\<rparr> = Inr response" "jkey response ''result'' = Inr result" "jkey result ''list'' = Inr (JArr (entries j))"
     "if j < n then jget result ''nextPageCursor'' JNull = Inr (cur (Suc j)) \<and> truthy (cur (Suc j))
      else jget result ''nextPageCursor'' JNull \<in> {Inr JNull, Inr (JStr [])}"
    unfolding bybit_serves_def by blast
  then show ?thesis using cur
    by (cases "j = 0"; cases "j < n") (auto simp: bybit_page_def api_get_def)
qed

text \<open>C18. Bybit's listing is complete and its loop ends: against an exchange that serves the pages \<open>0..n\<close>
  by the cursors it names, with any bound above \<open>n\<close> the contracts are built from the entries of all
  pages, each page once and in order.\<close>

theorem bybit_collects_all_pages:
  assumes "bybit_serves api cur entries n" and "n < fuel"
  shows "bybit_get_contracts fuel api = Some (rcollect bybit_listing (concat (map entries [0..<Suc n])))"
proof -
  let ?cur = "\<lambda>j. if j = 0 then JNull else cur j"
  have "bybit_step api (0 + j) (?cur j) acc = Inr (entries j, Some (?cur (Suc j)))" if "j < n" for j acc
    using bybit_serves_page [OF assms(1), of j j] that by (auto simp: bybit_step_def)
  moreover have "bybit_step api (0 + n) (?cur n) acc = Inr (entries n, None)" for acc
    using bybit_serves_page [OF assms(1), of n n] by (auto simp: bybit_step_def)
  ultimately have "bybit_pages fuel api 0 (?cur 0) [] = Some (Inr ([] @ concat (map entries [0..<Suc n])))"
    using assms(2) by (rule bybit_walk.walk_complete)
  then show ?thesis by (simp add: bybit_get_contracts_def)
qed

definition w_bybit_entry :: "string \<Rightarrow> json" where
  "w_bybit_entry s = JObj [(''contractType'', JStr ''LinearPerpetual''), (''baseCoin'', JStr s), (''quoteCoin'', JStr ''USDT''),
     (''fundingInterval'', JInt 480)]"

text \<open>Two pages; the answer depends on the cursor of the request only.\<close>

definition w_bybit_api :: api where
  "w_bybit_api k r = Inr (JObj [(''result'', JObj
     (if map_of (rq_args r) ''cursor'' = Some (JStr ''p2'')
      then [(''list'', JArr [w_bybit_entry ''ETH'']), (''nextPageCursor'', JStr [])]
      else [(''list'', JArr [w_bybit_entry ''BTC'']), (''nextPageCursor'', JStr ''p2'')]))])"

theorem bybit_collects_all_pages_witness:
  "bybit_get_contracts 2 w_bybit_api = Some (Inr
     [\<lparr>l_asset = ''BTC'', l_quote = ''USDT'', l_interval = 8, l_section = ''bybit''\<rparr>,
      \<lparr>l_asset = ''ETH'', l_quote = ''USDT'', l_interval = 8, l_section = ''bybit''\<rparr>])"
proof -
  let ?e = "\<lambda>j::nat. [w_bybit_entry (if j = 0 then ''BTC'' else ''ETH'')]"
  have "bybit_serves w_bybit_api (\<lambda>_. JStr ''p2'') ?e 1"
    unfolding bybit_serves_def
  proof (intro allI impI)
    fix k and j :: nat assume "j \<le> 1"
    then have "j = 0 \<or> j = 1" by linarith
    then show "\<exists>response result.
     w_bybit_api k \<lparr>rq_method = GET, rq_url = ''https://api.bybit.com/v5/market/instruments-info'',
       rq_args = (if j = 0 then [(''category'', JStr ''linear'')] else [(''category'', JStr ''linear''), (''cursor'', JStr ''p2'')]),
       rq_headers = []\<rparr> = Inr response \<and>
     jkey response ''result'' = Inr result \<and> jkey result ''list'' = Inr (JArr (?e j)) \<and>
     (if j < 1 then jget result ''nextPageCursor'' JNull = Inr (JStr ''p2'') \<and> truthy (JStr ''p2'')
      else jget result ''nextPageCursor'' JNull \<in> {Inr JNull, Inr (JStr [])})"
      by (elim disjE) (simp_all add: w_bybit_api_def)
  qed
  then have "bybit_get_contracts 2 w_bybit_api = Some (rcollect bybit_listing (concat (map ?e [0..<Suc 1])))"
    by (rule bybit_collects_all_pages) simp
  also have "rcollect bybit_listing (concat (map ?e [0..<Suc 1])) = Inr
     [\<lparr>l_asset = ''BTC'', l_quote = ''USDT'', l_interval = 8, l_section = ''bybit''\<rparr>,
      \<lparr>l_asset = ''ETH'', l_quote = ''USDT'', l_interval = 8, l_section = ''bybit''\<rparr>]" by code_simp
  finally show ?thesis .
qed

lemma py_split_parts:
  "py_split c s = [a, b, d] \<Longrightarrow> s = a @ c # b @ c # d"
proof -
  have "py_split c s = ws \<Longrightarrow> s = concat (separate ws)" if "separate = (\<lambda>ws. case ws of [] \<Rightarrow> [] | w # r \<Rightarrow> w # map (\<lambda>x. c # x) r)"
    for separate :: "string list \<Rightarrow> string list" and ws
    unfolding that by (induction s arbitrary: ws) (auto split: if_splits list.splits)
  then show "py_split c s = [a, b, d] \<Longrightarrow> s = a @ c # b @ c # d" by fastforce
qed

text \<open>OKX symbols survive the way through the database: a contract listed from a live instrument
  whose id ends in \<open>-SWAP\<close> is asked for under exactly that id, and an id that does not have three
  parts raises \<open>ValueError\<close>.\<close>

theorem okx_symbol_round_trip:
  assumes "okx_listing (JObj [(''state'', JStr ''live''), (''instId'', JStr inst)]) = r"
  shows "(\<forall>l c. r = Inr (Some l) \<and> c_asset c = l_asset l \<and> c_quote c = l_quote l \<and> ends_with ''-SWAP'' inst \<longrightarrow>
      okx_format_symbol c = inst) \<and>
    (r = Inl ValueError \<longleftrightarrow> length (py_split (CHR ''-'') inst) \<noteq> 3)"
proof -
  have r: "r = (case py_split (CHR ''-'') inst of
      [a, q, _] \<Rightarrow> Inr (Some \<lparr>l_asset = a, l_quote = q, l_interval = 8, l_section = ''okx''\<rparr>) | _ \<Rightarrow> Inl ValueError)"
    using assms by (simp add: okx_listing_def jeq_str_def)
  have three: "length ws = 3 \<longleftrightarrow> (\<exists>a b d. ws = [a, b, d])" for ws :: "string list"
    by (auto simp: length_Suc_conv eval_nat_numeral)
  show ?thesis
  proof (cases "length (py_split (CHR ''-'') inst) = 3")
    case True
    then obtain a b d where s: "py_split (CHR ''-'') inst = [a, b, d]" using three by blast
    note i = py_split_parts [OF s]
    have "okx_format_symbol c = inst" if h: "c_asset c = a" "c_quote c = b" "ends_with ''-SWAP'' inst" for c
    proof -
      obtain p where p: "inst = p @ CHR ''-'' # ''SWAP''" using h(3) by (auto simp: ends_with_append)
      have "py_split (CHR ''-'') inst = py_split (CHR ''-'') p @ [''SWAP'']"
        unfolding p by (rule py_split_snoc) simp
      then have "d = ''SWAP''" using s by (metis append1_eq_conv append_Cons append_Nil)
      then show ?thesis using h i by (simp add: okx_format_symbol_def)
    qed
    then show ?thesis using s r by auto
  next
    case False
    then have "r = Inl ValueError" using r by (auto split: list.splits)
    then show ?thesis using False by simp
  qed
qed

theorem okx_symbol_round_trip_witness:
  "\<exists>l. okx_listing (JObj [(''state'', JStr ''live''), (''instId'', JStr ''BTC-USDT-SWAP'')]) = Inr (Some l) \<and>
     okx_format_symbol \<lparr>c_id = 1, c_asset = l_asset l, c_section = ''okx'', c_interval = 8, c_quote = l_quote l,
       c_special = JNull, c_deprecated = False\<rparr> = ''BTC-USDT-SWAP''"
proof -
  have "okx_listing (JObj [(''state'', JStr ''live''), (''instId'', JStr ''BTC-USDT-SWAP'')]) =
      Inr (Some \<lparr>l_asset = ''BTC'', l_quote = ''USDT'', l_interval = 8, l_section = ''okx''\<rparr>)" by code_simp
  moreover have "ends_with ''-SWAP'' ''BTC-USDT-SWAP''" by code_simp
  ultimately show ?thesis using okx_symbol_round_trip [OF refl, of "''BTC-USDT-SWAP''"] by simp
qed

end
