(* ===== verification/AdaptersDex.thy ===== *)
theory AdaptersDex
  imports Adapter
begin

text \<open>
  The adapters of the decentralised exchanges dYdX, Hyperliquid, Hyperliquid XYZ, Extended, Pacifica
  and Derive, of the tracker and of live ingestion (prefix \<open>ing\<close>).
\<close>

section \<open>dYdX\<close>

definition dydx_format_symbol :: "contract_row \<Rightarrow> string" where
  "dydx_format_symbol c = c_asset c @ ''-USD''"

definition dydx_markets :: "api \<Rightarrow> (string \<times> json) list res" where
  "dydx_markets api =
     rbind (api_get_json api 0 ''https://indexer.dydx.trade/v4/perpetualMarkets'' []) (\<lambda>response.
     rbind (assert_obj response) (\<lambda>_. rbind (jget response ''markets'' (JObj [])) jitems))"

definition dydx_get_contracts :: "api \<Rightarrow> listing list res" where
  "dydx_get_contracts api = rbind (dydx_markets api) (\<lambda>markets.
     Inr (List.map_filter (\<lambda>(ticker, _).
       if CHR ''-'' \<in> set ticker \<and> ends_with ''-USD'' ticker
       then Some \<lparr>l_asset = removesuffix ''-USD'' ticker, l_quote = ''USD'', l_interval = 1, l_section = ''dydx''\<rparr>
       else None) markets))"

definition dydx_fetch_history :: "api \<Rightarrow> fetch_history" where
  "dydx_fetch_history api c start_ms end_ms =
     rbind (from_unix_milliseconds (of_int end_ms)) (\<lambda>end_time.
     rbind (api_get_json api 0 (''https://indexer.dydx.trade/v4/historicalFunding/'' @ dydx_format_symbol c)
       [(''effectiveBeforeOrAt'', JStr (to_iso8601 end_time))]) (\<lambda>response.
     rbind (assert_obj response) (\<lambda>_. rbind (jget response ''historicalFunding'' (JArr [])) (\<lambda>raw.
     if truthy raw then rbind (jiter raw) (history_points (float_at ''rate'') (iso_at ''effectiveAt''))
     else Inr []))))"

definition dydx_item :: "string \<times> json \<Rightarrow> (json \<times> rat) option res" where
  "dydx_item tm = (case tm of (ticker, market) \<Rightarrow>
     if CHR ''-'' \<notin> set ticker then Inr None
     else rbind (jcontains market ''nextFundingRate'') (\<lambda>b.
       if \<not> b then Inr None
       else rbind (float_at ''nextFundingRate'' market) (\<lambda>x. Inr (Some (JStr ticker, x)))))"

definition dydx_fetch_live_batch :: "api \<Rightarrow> utc \<Rightarrow> rates res" where
  "dydx_fetch_live_batch api now = rbind (dydx_markets api) (live_rates now dydx_item)"

definition ing_dydx_format_symbol :: "contract_row \<Rightarrow> string" where
  "ing_dydx_format_symbol c = c_asset c @ ''-USD''"

definition ing_dydx_fetch_live_batch :: "api \<Rightarrow> utc \<Rightarrow> rates res" where
  "ing_dydx_fetch_live_batch api now =
     rbind (api_get_json api 0 ''https://indexer.dydx.trade/v4/perpetualMarkets'' []) (\<lambda>response.
     rbind (assert_obj response) (\<lambda>_. rbind (jget response ''markets'' (JObj [])) (\<lambda>markets.
     rbind (jitems markets) (live_rates now dydx_item))))"

section \<open>Hyperliquid and Hyperliquid XYZ\<close>

text \<open>\<open>dex\<close> is the class attribute \<open>_DEX\<close>.\<close>

definition hyperliquid_payload :: "string \<Rightarrow> string option \<Rightarrow> (string \<times> json) list" where
  "hyperliquid_payload ty dex = (''type'', JStr ty) #
     (case dex of None \<Rightarrow> [] | Some d \<Rightarrow> if d = [] then [] else [(''dex'', JStr d)])"

definition hyperliquid_format_symbol :: "contract_row \<Rightarrow> string" where
  "hyperliquid_format_symbol c = c_asset c"

definition hyperliquid_get_contracts :: "string \<Rightarrow> string option \<Rightarrow> api \<Rightarrow> listing list res" where
  "hyperliquid_get_contracts exchange_id dex api =
     rbind (api_post api 0 ''https://api.hyperliquid.xyz/info'' (hyperliquid_payload ''meta'' dex)) (\<lambda>response.
     rbind (assert_obj response) (\<lambda>_. rbind (jkey response ''universe'') (\<lambda>u. rbind (jiter u)
       (rmap (\<lambda>l. rbind (jkey l ''name'') (\<lambda>n. mk_listing exchange_id n (JStr ''USD'') (JInt 1)))))))"

definition hyperliquid_fetch_history :: "(contract_row \<Rightarrow> string) \<Rightarrow> api \<Rightarrow> fetch_history" where
  "hyperliquid_fetch_history fmt api c start_ms end_ms =
     rbind (api_post api 0 ''https://api.hyperliquid.xyz/info''
       [(''type'', JStr ''fundingHistory''), (''coin'', JStr (fmt c)), (''startTime'', JInt start_ms),
        (''endTime'', JInt end_ms)]) (\<lambda>response.
     if truthy response
     then rbind (assert_arr response) (\<lambda>_. rbind (jiter response)
       (history_points (float_at ''fundingRate'') (ms_at ''time'')))
     else Inr [])"

definition hyperliquid_item :: "string list \<Rightarrow> nat \<times> json \<Rightarrow> (json \<times> rat) option res" where
  "hyperliquid_item names ic = (case ic of (i, ctx) \<Rightarrow>
     rbind (jcontains ctx ''funding'') (\<lambda>b. if \<not> b then Inr None
     else if length names \<le> i then Inl KeyError
     else rbind (float_at ''funding'' ctx) (\<lambda>x. Inr (Some (JStr (names ! i), x)))))"

definition hyperliquid_fetch_live_batch :: "string option \<Rightarrow> api \<Rightarrow> utc \<Rightarrow> rates res" where
  "hyperliquid_fetch_live_batch dex api now =
     rbind (api_post api 0 ''https://api.hyperliquid.xyz/info'' (hyperliquid_payload ''metaAndAssetCtxs'' dex)) (\<lambda>response.
     rbind (assert_arr response) (\<lambda>_. rbind (jidx response 0) (\<lambda>meta. rbind (jkey meta ''universe'') (\<lambda>meta_data.
     rbind (jidx response 1) (\<lambda>asset_contexts. rbind (jiter meta_data) (\<lambda>assets.
     rbind (rmap (\<lambda>a. rbind (jkey a ''name'') (\<lambda>n. rbind (jtext n) (\<lambda>full_name.
       Inr (split_last (CHR '':'') full_name)))) assets) (\<lambda>asset_names.
     rbind (jiter asset_contexts) (\<lambda>ctxs. live_rates now (hyperliquid_item asset_names) (enumerate 0 ctxs)))))))))"

definition ing_hyperliquid_format_symbol :: "contract_row \<Rightarrow> string" where
  "ing_hyperliquid_format_symbol c = c_asset c"

text \<open>The ingestion adapter converts the rate before it looks the name up.\<close>

definition ing_hyperliquid_item :: "string list \<Rightarrow> nat \<times> json \<Rightarrow> (json \<times> rat) option res" where
  "ing_hyperliquid_item names ic = (case ic of (i, ctx) \<Rightarrow>
     rbind (jcontains ctx ''funding'') (\<lambda>b. if \<not> b then Inr None
     else rbind (float_at ''funding'' ctx) (\<lambda>x.
       if length names \<le> i then Inl KeyError else Inr (Some (JStr (names ! i), x)))))"

definition ing_hyperliquid_fetch_live_batch :: "string option \<Rightarrow> api \<Rightarrow> utc \<Rightarrow> rates res" where
  "ing_hyperliquid_fetch_live_batch dex api now =
     rbind (api_post api 0 ''https://api.hyperliquid.xyz/info'' (hyperliquid_payload ''metaAndAssetCtxs'' dex)) (\<lambda>response.
     rbind (assert_arr response) (\<lambda>_. rbind (jidx response 0) (\<lambda>meta. rbind (jkey meta ''universe'') (\<lambda>meta_data.
     rbind (jidx response 1) (\<lambda>asset_contexts. rbind (jiter meta_data) (\<lambda>assets.
     rbind (rmap (\<lambda>a. rbind (jkey a ''name'') (\<lambda>n. rbind (jtext n) (\<lambda>name.
       Inr (split_last (CHR '':'') name)))) assets) (\<lambda>asset_names.
     rbind (jiter asset_contexts) (\<lambda>ctxs. live_rates now (ing_hyperliquid_item asset_names) (enumerate 0 ctxs)))))))))"

definition SYMBOL_MAP :: "(string, string) dict" where
  "SYMBOL_MAP = [(''GOLD'', ''XAU''), (''SILVER'', ''XAG''), (''PLATINUM'', ''XPT''), (''COPPER'', ''XCU''),
     (''ALUMINIUM'', ''XAL'')]"

definition REVERSE_MAP :: "(string, string) dict" where
  "REVERSE_MAP = dict_of (map (\<lambda>(k, v). (v, k)) SYMBOL_MAP)"

definition dict_get :: "(string, string) dict \<Rightarrow> string \<Rightarrow> string" where
  "dict_get d s = (case map_of d s of None \<Rightarrow> s | Some t \<Rightarrow> t)"

definition xyz_format_symbol :: "contract_row \<Rightarrow> string" where
  "xyz_format_symbol c = ''xyz:'' @ dict_get REVERSE_MAP (c_asset c)"

definition xyz_get_contracts :: "api \<Rightarrow> listing list res" where
  "xyz_get_contracts api = rbind (hyperliquid_get_contracts ''hyperliquid-xyz'' (Some ''xyz'') api) (\<lambda>raw.
     Inr (map (\<lambda>l. \<lparr>l_asset = dict_get SYMBOL_MAP (split_last (CHR '':'') (l_asset l)), l_quote = l_quote l,
       l_interval = l_interval l, l_section = ''hyperliquid-xyz''\<rparr>) raw))"

definition map_symbol_key :: "json \<times> funding_point \<Rightarrow> json \<times> funding_point" where
  "map_symbol_key kp = (case kp of (JStr s, p) \<Rightarrow> (JStr (dict_get SYMBOL_MAP s), p) | _ \<Rightarrow> kp)"

definition xyz_fetch_live_batch :: "api \<Rightarrow> utc \<Rightarrow> rates res" where
  "xyz_fetch_live_batch api now = rbind (hyperliquid_fetch_live_batch (Some ''xyz'') api now) (\<lambda>raw_rates.
     Inr (dict_of (map map_symbol_key raw_rates)))"

text \<open>\<open>fetch_live\<close> matches on the database symbol.\<close>

definition xyz_fetch_live :: "api \<Rightarrow> utc \<Rightarrow> contract_row list \<Rightarrow> snapshot res" where
  "xyz_fetch_live api now cs =
     (let symbol_to_contract = symbol_table c_asset cs in
      rbind (xyz_fetch_live_batch api now) (\<lambda>all_rates. Inr (match_symbols symbol_to_contract all_rates)))"

definition ing_xyz_format_symbol :: "contract_row \<Rightarrow> string" where
  "ing_xyz_format_symbol c = ''xyz:'' @ dict_get REVERSE_MAP (c_asset c)"

definition ing_xyz_fetch_live_batch :: "api \<Rightarrow> utc \<Rightarrow> rates res" where
  "ing_xyz_fetch_live_batch api now = rbind (ing_hyperliquid_fetch_live_batch (Some ''xyz'') api now) (\<lambda>raw_rates.
     Inr (dict_of (map map_symbol_key raw_rates)))"

definition ing_xyz_fetch_live :: "api \<Rightarrow> utc \<Rightarrow> contract_row list \<Rightarrow> snapshot res" where
  "ing_xyz_fetch_live api now cs =
     (let symbol_to_contract = symbol_table c_asset cs in
      rbind (ing_xyz_fetch_live_batch api now) (\<lambda>all_rates. Inr (match_symbols symbol_to_contract all_rates)))"

section \<open>Extended\<close>

definition extended_format_symbol :: "contract_row \<Rightarrow> string" where
  "extended_format_symbol c = c_asset c @ ''-'' @ c_quote c"

text \<open>The envelope: \<open>assert isinstance(response, dict)\<close>, the status, the data.\<close>

definition extended_data :: "json \<Rightarrow> json list res" where
  "extended_data response = rbind (assert_obj response) (\<lambda>_. rbind (jget response ''status'' JNull) (\<lambda>st.
     rbind (rguard (jeq_str st ''OK'') RuntimeError) (\<lambda>_. rbind (jget response ''data'' (JArr [])) jiter)))"

definition extended_listing :: "json \<Rightarrow> listing option res" where
  "extended_listing m = rbind (jget m ''status'' JNull) (\<lambda>st. if \<not> jeq_str st ''ACTIVE'' then Inr None else
     rbind (jget m ''assetName'' (JStr [])) (\<lambda>a. rbind (jget m ''collateralAssetName'' (JStr [])) (\<lambda>q.
     rbind (mk_listing ''extended'' a q (JInt 1)) (\<lambda>l. Inr (Some l)))))"

definition extended_get_contracts :: "api \<Rightarrow> listing list res" where
  "extended_get_contracts api =
     rbind (api_get api 0 ''https://api.starknet.extended.exchange/api/v1/info/markets'' []) (\<lambda>response.
     rbind (extended_data response) (rcollect extended_listing))"

definition extended_fetch_history :: "api \<Rightarrow> fetch_history" where
  "extended_fetch_history api c start_ms end_ms =
     rbind (api_get api 0 (''https://api.starknet.extended.exchange/api/v1/info/'' @ extended_format_symbol c @ ''/funding'')
       [(''startTime'', JInt start_ms), (''endTime'', JInt end_ms)]) (\<lambda>response.
     rbind (extended_data response) (history_points (float_at ''f'') (ms_at ''T'')))"

definition extended_item :: "json \<Rightarrow> (json \<times> rat) option res" where
  "extended_item m = rbind (jget m ''status'' JNull) (\<lambda>st. if \<not> jeq_str st ''ACTIVE'' then Inr None else
     rbind (jget m ''name'' (JStr [])) (\<lambda>s. rbind (jget m ''marketStats'' (JObj [])) (\<lambda>stats.
     rbind (jget stats ''fundingRate'' JNull) (\<lambda>f. if f = JNull then Inr None
     else rbind (jfloat f) (\<lambda>x. Inr (Some (s, x)))))))"

definition extended_fetch_live_batch :: "api \<Rightarrow> utc \<Rightarrow> rates res" where
  "extended_fetch_live_batch api now =
     rbind (api_get api 0 ''https://api.starknet.extended.exchange/api/v1/info/markets'' []) (\<lambda>response.
     rbind (extended_data response) (live_rates now extended_item))"

definition ing_extended_format_symbol :: "contract_row \<Rightarrow> string" where
  "ing_extended_format_symbol c = c_asset c @ ''-'' @ c_quote c"

definition ing_extended_item :: "json \<Rightarrow> (json \<times> rat) option res" where
  "ing_extended_item m = rbind (jget m ''status'' JNull) (\<lambda>st. if \<not> jeq_str st ''ACTIVE'' then Inr None else
     rbind (jget m ''marketStats'' (JObj [])) (\<lambda>stats. rbind (jget stats ''fundingRate'' JNull) (\<lambda>f.
     if f = JNull then Inr None
     else rbind (jfloat f) (\<lambda>x. rbind (jget m ''name'' (JStr [])) (\<lambda>s. Inr (Some (s, x)))))))"

definition ing_extended_fetch_live_batch :: "api \<Rightarrow> utc \<Rightarrow> rates res" where
  "ing_extended_fetch_live_batch api now =
     rbind (api_get api 0 ''https://api.starknet.extended.exchange/api/v1/info/markets'' []) (\<lambda>response.
     rbind (extended_data response) (live_rates now ing_extended_item))"

section \<open>Properties\<close>

interpretation xyz: live_adapter "xyz_fetch_live api now" for api now
proof
  fix cs m assume "xyz_fetch_live api now cs = Inr m"
  then obtain r where m: "m = match_symbols (symbol_table c_asset cs) r"
    by (auto simp: xyz_fetch_live_def Let_def res_simps)
  show "fst ` set m \<subseteq> c_id ` set cs" unfolding m by (rule match_symbols_ids)
  show "distinct (map fst m)" unfolding m by simp
qed

interpretation ing_xyz: live_adapter "ing_xyz_fetch_live api now" for api now
proof
  fix cs m assume "ing_xyz_fetch_live api now cs = Inr m"
  then obtain r where m: "m = match_symbols (symbol_table c_asset cs) r"
    by (auto simp: ing_xyz_fetch_live_def Let_def res_simps)
  show "fst ` set m \<subseteq> c_id ` set cs" unfolding m by (rule match_symbols_ids)
  show "distinct (map fst m)" unfolding m by simp
qed

lemma symbol_maps_inverse:
  assumes "x \<notin> snd ` set SYMBOL_MAP" shows "dict_get REVERSE_MAP (dict_get SYMBOL_MAP x) = x"
proof -
  have r: "REVERSE_MAP = [(''XAU'', ''GOLD''), (''XAG'', ''SILVER''), (''XPT'', ''PLATINUM''), (''XCU'', ''COPPER''),
      (''XAL'', ''ALUMINIUM'')]" by code_simp
  show ?thesis
  proof (cases "x \<in> fst ` set SYMBOL_MAP")
    case True
    then show ?thesis unfolding r by (auto simp: SYMBOL_MAP_def dict_get_def)
  next
    case False
    then show ?thesis using assms unfolding r by (auto simp: SYMBOL_MAP_def dict_get_def)
  qed
qed

lemma split_last_prefix: "c \<notin> set s \<Longrightarrow> split_last c (p @ c # s) = s"
  by (simp add: split_last_def py_split_snoc)

text \<open>The symbol mapping of the XYZ sub-dex loses nothing: a market \<open>xyz:X\<close> is listed under its
  database name, a contract with that name is asked for again under exactly \<open>xyz:X\<close>, and the live
  rate of the market is keyed by that name; the one condition is that the exchange does not itself
  use a database name such as \<open>XAU\<close>.\<close>

theorem xyz_symbol_round_trip:
  assumes "hyperliquid_get_contracts ''hyperliquid-xyz'' (Some ''xyz'') api = Inr raw" and "l \<in> set raw"
    and "l_asset l = ''xyz:'' @ x" and "CHR '':'' \<notin> set x" and "x \<notin> snd ` set SYMBOL_MAP"
  shows "\<exists>ls l'. xyz_get_contracts api = Inr ls \<and> l' \<in> set ls \<and> l_section l' = ''hyperliquid-xyz'' \<and>
     (\<forall>c p. c_asset c = l_asset l' \<longrightarrow> xyz_format_symbol c = ''xyz:'' @ x \<and>
        map_symbol_key (JStr (split_last (CHR '':'') (''xyz:'' @ x)), p) = (JStr (c_asset c), p))"
proof -
  have sl: "split_last (CHR '':'') (''xyz:'' @ x) = x" using split_last_prefix [OF assms(4), of "''xyz''"] by simp
  let ?f = "\<lambda>l. \<lparr>l_asset = dict_get SYMBOL_MAP (split_last (CHR '':'') (l_asset l)), l_quote = l_quote l,
       l_interval = l_interval l, l_section = ''hyperliquid-xyz''\<rparr>"
  have "xyz_get_contracts api = Inr (map ?f raw)" by (simp add: xyz_get_contracts_def assms(1))
  moreover have "?f l \<in> set (map ?f raw)" using assms(2) by simp
  moreover have "xyz_format_symbol c = ''xyz:'' @ x \<and>
        map_symbol_key (JStr (split_last (CHR '':'') (''xyz:'' @ x)), p) = (JStr (c_asset c), p)"
    if "c_asset c = l_asset (?f l)" for c p
  proof -
    have a: "c_asset c = dict_get SYMBOL_MAP x" using that sl by (simp add: assms(3))
    show ?thesis unfolding sl using symbol_maps_inverse [OF assms(5)] by (simp add: xyz_format_symbol_def map_symbol_key_def a)
  qed
  ultimately show ?thesis by (intro exI [of _ "map ?f raw"] exI [of _ "?f l"]) simp
qed

definition w_xyz_api :: api where
  "w_xyz_api k r = Inr (JObj [(''universe'', JArr [JObj [(''name'', JStr ''xyz:GOLD'')]])])"

theorem xyz_symbol_round_trip_witness:
  "\<exists>ls l'. xyz_get_contracts w_xyz_api = Inr ls \<and> l' \<in> set ls \<and>
     xyz_format_symbol \<lparr>c_id = 1, c_asset = l_asset l', c_section = ''hyperliquid-xyz'', c_interval = 1,
       c_quote = ''USD'', c_special = JNull, c_deprecated = False\<rparr> = ''xyz:GOLD''"
proof -
  let ?l = "\<lparr>l_asset = ''xyz:GOLD'', l_quote = ''USD'', l_interval = 1, l_section = ''hyperliquid-xyz''\<rparr>"
  have "hyperliquid_get_contracts ''hyperliquid-xyz'' (Some ''xyz'') w_xyz_api = Inr [?l]" by code_simp
  moreover have "''GOLD'' \<notin> snd ` set SYMBOL_MAP" by code_simp
  ultimately show ?thesis using xyz_symbol_round_trip [of w_xyz_api "[?l]" ?l "''GOLD''"] by fastforce
qed

end
