(* ===== verification/AdaptersPaged.thy ===== *)
theory AdaptersPaged
  imports Adapter
begin

text \<open>
  The adapters of Pacifica and Derive, whose listings or histories come in pages, of the tracker and of
  live ingestion (prefix \<open>ing\<close>). The page loops take a bound on the number of requests; \<open>None\<close> is
  a loop that has not ended within it.
\<close>

section \<open>Pacifica\<close>

definition pacifica_format_symbol :: "contract_row \<Rightarrow> string" where
  "pacifica_format_symbol c = c_asset c"

text \<open>\<open>not response.get("success") or not response.get("data")\<close>, then the asserted list.\<close>

definition pacifica_data :: "json \<Rightarrow> json list option res" where
  "pacifica_data response = rbind (assert_obj response) (\<lambda>_. rbind (jget response ''success'' JNull) (\<lambda>s.
     if \<not> truthy s then Inr None
     else rbind (jget response ''data'' JNull) (\<lambda>data. if \<not> truthy data then Inr None
       else rbind (assert_arr data) (\<lambda>_. rbind (jiter data) (\<lambda>rs. Inr (Some rs))))))"

definition pacifica_get_contracts :: "api \<Rightarrow> listing list res" where
  "pacifica_get_contracts api =
     rbind (api_get api 0 ''https://api.pacifica.fi/api/v1/info'' []) (\<lambda>response.
     rbind (pacifica_data response) (\<lambda>data. case data of None \<Rightarrow> Inr []
       | Some rs \<Rightarrow> rmap (\<lambda>r. rbind (jkey r ''symbol'') (\<lambda>s. mk_listing ''pacifica'' s (JStr ''USD'') (JInt 1))) rs))"

text \<open>One page of history, newest first: later records are skipped, the first earlier one ends it.\<close>

fun pacifica_records :: "int \<Rightarrow> int \<Rightarrow> json list \<Rightarrow> funding_point list res" where
  "pacifica_records start_ms end_ms [] = Inr []"
| "pacifica_records start_ms end_ms (r # rs) =
     rbind (jkey r ''created_at'') (\<lambda>v. rbind (jnumber v) (\<lambda>ms.
       if ms > of_int end_ms then pacifica_records start_ms end_ms rs
       else if ms < of_int start_ms then Inr []
       else rbind (float_at ''funding_rate'' r) (\<lambda>x. rbind (from_unix_milliseconds ms) (\<lambda>t.
         rbind (pacifica_records start_ms end_ms rs) (\<lambda>ps. Inr (\<lparr>rate = x, timestamp = t\<rparr> # ps))))))"

text \<open>The body of the page loop after its request: the points of the page, and the next cursor unless
  the loop ends.\<close>

definition pacifica_body :: "int \<Rightarrow> int \<Rightarrow> json \<Rightarrow> funding_point list \<Rightarrow> (funding_point list \<times> json option) res" where
  "pacifica_body start_ms end_ms response points = rbind (pacifica_data response) (\<lambda>data. case data of
     None \<Rightarrow> Inr ([], None)
   | Some records \<Rightarrow> rbind (pacifica_records start_ms end_ms records) (\<lambda>batch_points.
       rbind (jget response ''has_more'' (JBool False)) (\<lambda>has_more.
       rbind (jget response ''next_cursor'' JNull) (\<lambda>next_cursor.
       Inr (batch_points, if \<not> truthy has_more \<or> \<not> truthy next_cursor then None
         else if length (points @ batch_points) \<ge> 4000 then None else Some next_cursor)))))"

definition pacifica_request :: "api \<Rightarrow> string \<Rightarrow> nat \<Rightarrow> json \<Rightarrow> json res" where
  "pacifica_request api symbol k cursor = api_get api k ''https://api.pacifica.fi/api/v1/funding_rate/history''
     ([(''symbol'', JStr symbol), (''limit'', JInt 1000)] @ (if truthy cursor then [(''cursor'', cursor)] else []))"

definition pacifica_step ::
  "api \<Rightarrow> string \<Rightarrow> int \<Rightarrow> int \<Rightarrow> nat \<Rightarrow> json \<Rightarrow> funding_point list \<Rightarrow> (funding_point list \<times> json option) res" where
  "pacifica_step api symbol start_ms end_ms k cursor points =
     rbind (pacifica_request api symbol k cursor) (\<lambda>response. pacifica_body start_ms end_ms response points)"

fun pacifica_pages ::
  "nat \<Rightarrow> api \<Rightarrow> string \<Rightarrow> int \<Rightarrow> int \<Rightarrow> nat \<Rightarrow> json \<Rightarrow> funding_point list \<Rightarrow> funding_point list res option" where
  "pacifica_pages 0 api symbol start_ms end_ms k cursor points = None"
| "pacifica_pages (Suc n) api symbol start_ms end_ms k cursor points =
     (case pacifica_step api symbol start_ms end_ms k cursor points of
        Inl e \<Rightarrow> Some (Inl e)
      | Inr (batch_points, None) \<Rightarrow> Some (Inr (points @ batch_points))
      | Inr (batch_points, Some next) \<Rightarrow>
          pacifica_pages n api symbol start_ms end_ms (Suc k) next (points @ batch_points))"

definition pacifica_fetch_history :: "nat \<Rightarrow> api \<Rightarrow> contract_row \<Rightarrow> int \<Rightarrow> int \<Rightarrow> funding_point list res option" where
  "pacifica_fetch_history fuel api c start_ms end_ms =
     pacifica_pages fuel api (pacifica_format_symbol c) start_ms end_ms 0 JNull []"

definition pacifica_item :: "json \<Rightarrow> (json \<times> rat) option res" where
  "pacifica_item r = rbind (jkey r ''symbol'') (\<lambda>s. rbind (jget r ''funding'' JNull) (\<lambda>f.
     if f = JNull then Inr None else rbind (jfloat f) (\<lambda>x. Inr (Some (s, x)))))"

definition pacifica_fetch_live_batch :: "api \<Rightarrow> utc \<Rightarrow> rates res" where
  "pacifica_fetch_live_batch api now =
     rbind (api_get api 0 ''https://api.pacifica.fi/api/v1/info/prices'' []) (\<lambda>response.
     rbind (pacifica_data response) (\<lambda>data. case data of None \<Rightarrow> Inr []
       | Some rs \<Rightarrow> live_rates now pacifica_item rs))"

definition ing_pacifica_format_symbol :: "contract_row \<Rightarrow> string" where
  "ing_pacifica_format_symbol c = c_asset c"

text \<open>The ingestion adapter reads the symbol last, so an item without a rate needs none.\<close>

definition ing_pacifica_item :: "json \<Rightarrow> (json \<times> rat) option res" where
  "ing_pacifica_item r = rbind (jget r ''funding'' JNull) (\<lambda>f. if f = JNull then Inr None
     else rbind (jfloat f) (\<lambda>x. rbind (jkey r ''symbol'') (\<lambda>s. Inr (Some (s, x)))))"

definition ing_pacifica_fetch_live_batch :: "api \<Rightarrow> utc \<Rightarrow> rates res" where
  "ing_pacifica_fetch_live_batch api now =
     rbind (api_get api 0 ''https://api.pacifica.fi/api/v1/info/prices'' []) (\<lambda>response.
     rbind (pacifica_data response) (\<lambda>data. case data of None \<Rightarrow> Inr []
       | Some rs \<Rightarrow> live_rates now ing_pacifica_item rs))"

section \<open>Derive\<close>

definition derive_format_symbol :: "contract_row \<Rightarrow> string" where
  "derive_format_symbol c = c_asset c @ ''-PERP''"

definition derive_instruments_request :: "api \<Rightarrow> nat \<Rightarrow> int \<Rightarrow> json res" where
  "derive_instruments_request api k page =
     rbind (api_post api k ''https://api.lyra.finance/public/get_all_instruments''
       [(''currency'', JNull), (''expired'', JBool True), (''instrument_type'', JStr ''perp''), (''page'', JInt page),
        (''page_size'', JInt 100)]) (\<lambda>response. rbind (assert_obj response) (\<lambda>_. Inr response))"

definition derive_instruments :: "json \<Rightarrow> json list res" where
  "derive_instruments response = rbind (jget response ''result'' (JObj [])) (\<lambda>r.
     rbind (jget r ''instruments'' (JArr [])) jiter)"

definition derive_page :: "api \<Rightarrow> nat \<Rightarrow> int \<Rightarrow> (json list \<times> rat) res" where
  "derive_page api k page = rbind (derive_instruments_request api k page) (\<lambda>response.
     rbind (derive_instruments response) (\<lambda>instruments.
     rbind (jget response ''result'' (JObj [])) (\<lambda>r. rbind (jget r ''pagination'' (JObj [])) (\<lambda>pagination.
     rbind (jget pagination ''num_pages'' (JInt 1)) (\<lambda>v. rbind (jnumber v) (\<lambda>num_pages.
       Inr (instruments, num_pages)))))))"

fun derive_pages :: "nat \<Rightarrow> api \<Rightarrow> nat \<Rightarrow> int \<Rightarrow> json list \<Rightarrow> json list res option" where
  "derive_pages 0 api k page acc = None"
| "derive_pages (Suc n) api k page acc =
     (case derive_page api k page of
        Inl e \<Rightarrow> Some (Inl e)
      | Inr (instruments, num_pages) \<Rightarrow>
          if of_int page \<ge> num_pages then Some (Inr (acc @ instruments))
          else derive_pages n api (Suc k) (page + 1) (acc @ instruments))"

definition derive_listing :: "json \<Rightarrow> listing option res" where
  "derive_listing i = rbind (jget i ''is_active'' JNull) (\<lambda>a. if \<not> truthy a then Inr None else
     rbind (jkey i ''instrument_name'') (\<lambda>v. rbind (jtext v) (\<lambda>instrument_name.
       Inr (Some \<lparr>l_asset = remove_all ''-PERP'' instrument_name, l_quote = ''USD'', l_interval = 1,
         l_section = ''derive''\<rparr>))))"

definition derive_get_contracts :: "nat \<Rightarrow> api \<Rightarrow> listing list res option" where
  "derive_get_contracts fuel api =
     map_option (\<lambda>r. rbind r (rcollect derive_listing)) (derive_pages fuel api 0 1 [])"

definition derive_fetch_history :: "api \<Rightarrow> fetch_history" where
  "derive_fetch_history api c start_ms end_ms =
     rbind (api_post api 0 ''https://api.lyra.finance/public/get_funding_rate_history''
       [(''instrument_name'', JStr (derive_format_symbol c)), (''period'', JInt 3600), (''end_timestamp'', JInt end_ms)]) (\<lambda>response.
     rbind (assert_obj response) (\<lambda>_. rbind (jget response ''result'' JNull) (\<lambda>result.
     if \<not> truthy result then Inr []
     else rbind (jcontains result ''funding_rate_history'') (\<lambda>b. if \<not> b then Inr []
       else rbind (jkey result ''funding_rate_history'') (\<lambda>h. rbind (jiter h)
         (history_points (float_at ''funding_rate'') (ms_at ''timestamp'')))))))"

text \<open>\<open>is_active and "perp_details" in i and i["perp_details"] and "funding_rate" in i["perp_details"]\<close>.\<close>

definition derive_item :: "json \<Rightarrow> (json \<times> rat) option res" where
  "derive_item i = rbind (jget i ''is_active'' JNull) (\<lambda>a. if \<not> truthy a then Inr None else
     rbind (jcontains i ''perp_details'') (\<lambda>b. if \<not> b then Inr None else
     rbind (jkey i ''perp_details'') (\<lambda>d. if \<not> truthy d then Inr None else
     rbind (jcontains d ''funding_rate'') (\<lambda>f. if \<not> f then Inr None else
     rbind (jkey i ''instrument_name'') (\<lambda>s. rbind (float_at ''funding_rate'' d) (\<lambda>x. Inr (Some (s, x))))))))"

definition derive_fetch_live_batch :: "api \<Rightarrow> utc \<Rightarrow> rates res" where
  "derive_fetch_live_batch api now = rbind (derive_instruments_request api 0 1) (\<lambda>response.
     rbind (derive_instruments response) (live_rates now derive_item))"

definition ing_derive_format_symbol :: "contract_row \<Rightarrow> string" where
  "ing_derive_format_symbol c = c_asset c @ ''-PERP''"

definition ing_derive_item :: "json \<Rightarrow> (json \<times> rat) option res" where
  "ing_derive_item i = rbind (jget i ''perp_details'' JNull) (\<lambda>d. rbind (jget i ''is_active'' JNull) (\<lambda>a.
     if \<not> truthy a \<or> \<not> truthy d then Inr None else
     rbind (jcontains d ''funding_rate'') (\<lambda>f. if \<not> f then Inr None else
     rbind (float_at ''funding_rate'' d) (\<lambda>x. rbind (jkey i ''instrument_name'') (\<lambda>s. Inr (Some (s, x)))))))"

definition ing_derive_fetch_live_batch :: "api \<Rightarrow> utc \<Rightarrow> rates res" where
  "ing_derive_fetch_live_batch api now = rbind (derive_instruments_request api 0 1) (\<lambda>response.
     rbind (derive_instruments response) (live_rates now ing_derive_item))"

section \<open>Properties\<close>

definition derive_step :: "api \<Rightarrow> nat \<Rightarrow> int \<Rightarrow> json list \<Rightarrow> (json list \<times> int option) res" where
  "derive_step api k page acc = rbind (derive_page api k page) (\<lambda>(instruments, num_pages).
     Inr (instruments, if of_int page \<ge> num_pages then None else Some (page + 1)))"

interpretation derive_walk: page_walk "\<lambda>n. derive_pages n api" "derive_step api" for api
proof
  fix k c acc e n xs c'
  show "derive_pages 0 api k c acc = None" by simp
  show "derive_step api k c acc = Inl e \<Longrightarrow> derive_pages (Suc n) api k c acc = Some (Inl e)"
    by (auto simp: derive_step_def res_simps)
  show "derive_step api k c acc = Inr (xs, None) \<Longrightarrow> derive_pages (Suc n) api k c acc = Some (Inr (acc @ xs))"
    by (auto simp: derive_step_def res_simps split: if_splits)
  show "derive_step api k c acc = Inr (xs, Some c') \<Longrightarrow>
      derive_pages (Suc n) api k c acc = derive_pages n api (Suc k) c' (acc @ xs)"
    by (auto simp: derive_step_def res_simps split: if_splits)
qed

interpretation pacifica_walk:
  page_walk "\<lambda>n. pacifica_pages n api symbol start_ms end_ms" "pacifica_step api symbol start_ms end_ms"
  for api symbol start_ms end_ms
  by unfold_locales simp_all

text \<open>Derive's listing is complete and its loop ends: if the exchange has \<open>n + 1\<close> pages, the loop
  asks for the pages \<open>1..n + 1\<close>, each once and in order, and builds the contracts from all of them.\<close>

theorem derive_collects_all_pages:
  assumes "\<And>j. j \<le> n \<Longrightarrow> derive_page api j (int j + 1) = Inr (instruments j, of_nat (Suc n))" and "n < fuel"
  shows "derive_get_contracts fuel api = Some (rcollect derive_listing (concat (map instruments [0..<Suc n])))"
proof -
  have "derive_pages fuel api 0 (int 0 + 1) [] = Some (Inr ([] @ concat (map instruments [0..<Suc n])))"
  proof (rule derive_walk.walk_complete [where cur = "\<lambda>j. int j + 1"])
    show "derive_step api (0 + j) (int j + 1) ([] @ concat (map instruments [0..<j])) =
        Inr (instruments j, Some (int (Suc j) + 1))" if "j < n" for j
      using assms(1) [of j] that by (simp add: derive_step_def)
    show "derive_step api (0 + n) (int n + 1) ([] @ concat (map instruments [0..<n])) = Inr (instruments n, None)"
      using assms(1) [of n] by (simp add: derive_step_def)
  qed (rule assms(2))
  then show ?thesis by (simp add: derive_get_contracts_def)
qed

definition w_derive_api :: api where
  "w_derive_api k r = Inr (JObj [(''result'', JObj
     [(''instruments'', JArr [JObj [(''is_active'', JBool True), (''instrument_name'', JStr (if k = 0 then ''BTC-PERP'' else ''ETH-PERP''))]]),
      (''pagination'', JObj [(''num_pages'', JInt 2)])])])"

theorem derive_collects_all_pages_witness:
  "derive_get_contracts 5 w_derive_api = Some (Inr
     [\<lparr>l_asset = ''BTC'', l_quote = ''USD'', l_interval = 1, l_section = ''derive''\<rparr>,
      \<lparr>l_asset = ''ETH'', l_quote = ''USD'', l_interval = 1, l_section = ''derive''\<rparr>])"
proof -
  let ?i = "\<lambda>j::nat. [JObj [(''is_active'', JBool True), (''instrument_name'', JStr (if j = 0 then ''BTC-PERP'' else ''ETH-PERP''))]]"
  have "derive_get_contracts 5 w_derive_api = Some (rcollect derive_listing (concat (map ?i [0..<Suc 1])))"
    by (rule derive_collects_all_pages)
      (simp_all add: derive_page_def derive_instruments_request_def derive_instruments_def api_post_def w_derive_api_def assert_obj_def)
  also have "rcollect derive_listing (concat (map ?i [0..<Suc 1])) = Inr
     [\<lparr>l_asset = ''BTC'', l_quote = ''USD'', l_interval = 1, l_section = ''derive''\<rparr>,
      \<lparr>l_asset = ''ETH'', l_quote = ''USD'', l_interval = 1, l_section = ''derive''\<rparr>]" by code_simp
  finally show ?thesis .
qed

text \<open>A record of Pacifica's history: its time in milliseconds and the point it stands for.\<close>

definition pacifica_reads :: "json \<Rightarrow> int \<times> funding_point \<Rightarrow> bool" where
  "pacifica_reads r mp \<longleftrightarrow> jkey r ''created_at'' = Inr (JInt (fst mp)) \<and>
     float_at ''funding_rate'' r = Inr (rate (snd mp)) \<and>
     from_unix_milliseconds (of_int (fst mp)) = Inr (timestamp (snd mp))"

definition in_window :: "int \<Rightarrow> int \<Rightarrow> (int \<times> funding_point) list \<Rightarrow> funding_point list" where
  "in_window start_ms end_ms ps = map snd (filter (\<lambda>p. start_ms \<le> fst p \<and> fst p \<le> end_ms) ps)"

lemma in_window_append [simp]: "in_window s e (xs @ ys) = in_window s e xs @ in_window s e ys"
  by (simp add: in_window_def)

lemma in_window_concat: "in_window s e (concat xss) = concat (map (in_window s e) xss)"
  by (induction xss) (simp_all add: in_window_def)

lemma pacifica_records_window:
  assumes "list_all2 pacifica_reads rs ps" "sorted_wrt (\<lambda>a b. fst b \<le> fst a) ps"
  shows "pacifica_records start_ms end_ms rs = Inr (in_window start_ms end_ms ps)"
  using assms
proof (induction rs ps rule: list_all2_induct)
  case (Cons r rs p ps)
  have "in_window start_ms end_ms ps = []" if "fst p < start_ms"
    using Cons.prems that by (auto simp: in_window_def filter_empty_conv)
  then show ?case using Cons by (auto simp: pacifica_reads_def in_window_def)
qed (simp add: in_window_def)

text \<open>Pacifica's history answers the window exactly: if the exchange serves its records newest
  first over the pages \<open>0..n\<close> and fewer than 4000 of the earlier pages' records lie in the window,
  the result is the points of exactly the records between \<open>start_ms\<close> and \<open>end_ms\<close>, in the order of
  the pages; the loop ends with any bound above \<open>n\<close>.\<close>

theorem pacifica_history_window:
  assumes "cur 0 = JNull"
    and "\<And>j. j \<le> n \<Longrightarrow> pacifica_request api (c_asset c) j (cur j) = Inr (response j) \<and>
      pacifica_data (response j) = Inr (Some (records j)) \<and> list_all2 pacifica_reads (records j) (content j) \<and>
      sorted_wrt (\<lambda>a b. fst b \<le> fst a) (content j) \<and> jget (response j) ''next_cursor'' JNull = Inr (cur (Suc j)) \<and>
      jget (response j) ''has_more'' (JBool False) = Inr (JBool (j < n)) \<and> truthy (cur (Suc j))"
    and "length (in_window start_ms end_ms (concat (map content [0..<n]))) < 4000" and "n < fuel"
  shows "pacifica_fetch_history fuel api c start_ms end_ms =
    Some (Inr (in_window start_ms end_ms (concat (map content [0..<Suc n]))))"
proof -
  let ?pts = "\<lambda>j. in_window start_ms end_ms (content j)"
  have len: "length (concat (map ?pts [0..<Suc j])) < 4000" if "j < n" for j
  proof -
    have "[0..<n] = [0..<Suc j] @ [Suc j..<n]" using upt_add_eq_append [of 0 "Suc j" "n - Suc j"] that by simp
    then have "length (concat (map ?pts [0..<Suc j])) \<le> length (concat (map ?pts [0..<n]))" by simp
    also have "\<dots> < 4000" using assms(3) by (simp add: in_window_concat comp_def)
    finally show ?thesis .
  qed
  have "pacifica_pages fuel api (c_asset c) start_ms end_ms 0 (cur 0) [] =
      Some (Inr ([] @ concat (map ?pts [0..<Suc n])))"
  proof (rule pacifica_walk.walk_complete)
    fix j assume j: "j < n"
    have "pacifica_records start_ms end_ms (records j) = Inr (?pts j)"
      using assms(2) [of j] j by (intro pacifica_records_window) auto
    then show "pacifica_step api (c_asset c) start_ms end_ms (0 + j) (cur j) ([] @ concat (map ?pts [0..<j])) =
        Inr (?pts j, Some (cur (Suc j)))"
      using assms(2) [of j] len [OF j] j by (simp add: pacifica_step_def pacifica_body_def)
  next
    have "pacifica_records start_ms end_ms (records n) = Inr (?pts n)"
      using assms(2) [of n] by (intro pacifica_records_window) auto
    then show "pacifica_step api (c_asset c) start_ms end_ms (0 + n) (cur n) ([] @ concat (map ?pts [0..<n])) =
        Inr (?pts n, None)"
      using assms(2) [of n] by (simp add: pacifica_step_def pacifica_body_def)
  qed (rule assms(4))
  then show ?thesis by (simp add: pacifica_fetch_history_def pacifica_format_symbol_def assms(1) in_window_concat comp_def)
qed

definition w_pacifica_record :: "int \<Rightarrow> json" where
  "w_pacifica_record ms = JObj [(''created_at'', JInt ms), (''funding_rate'', JFloat (1 / 8))]"

definition w_pacifica_response :: "nat \<Rightarrow> json" where
  "w_pacifica_response k = JObj [(''success'', JBool True),
     (''data'', JArr (map w_pacifica_record (if k = 0 then [9000000, 5000000] else [4000000, 1000000]))),
     (''has_more'', JBool (k < 1)), (''next_cursor'', JStr ''n'')]"

theorem pacifica_history_window_witness:
  "pacifica_fetch_history 2 (\<lambda>k r. Inr (w_pacifica_response k)) (a_contract 1 ''BTC'') 2000000 6000000 =
     Some (Inr [\<lparr>rate = 1 / 8, timestamp = 5000000000\<rparr>, \<lparr>rate = 1 / 8, timestamp = 4000000000\<rparr>])"
proof -
  let ?cur = "\<lambda>j. if j = 0 then JNull else JStr ''n''" and ?api = "\<lambda>k r. Inr (w_pacifica_response k)"
  let ?ms = "\<lambda>j::nat. if j = 0 then [9000000, 5000000] else [4000000, 1000000] :: int list"
  let ?content = "\<lambda>j. map (\<lambda>ms. (ms, \<lparr>rate = 1 / 8, timestamp = ms * 1000\<rparr>)) (?ms j)"
  have t: "from_unix_milliseconds 9000000 = Inr 9000000000" "from_unix_milliseconds 5000000 = Inr 5000000000"
    "from_unix_milliseconds 4000000 = Inr 4000000000" "from_unix_milliseconds 1000000 = Inr 1000000000"
    by code_simp+
  have rd: "pacifica_reads (w_pacifica_record ms) (ms, \<lparr>rate = 1 / 8, timestamp = ms * 1000\<rparr>)"
    if "ms \<in> {9000000, 5000000, 4000000, 1000000}" for ms
    using that t by (auto simp: pacifica_reads_def w_pacifica_record_def float_at_def)
  have page: "pacifica_request ?api (c_asset (a_contract 1 ''BTC'')) j (?cur j) = Inr (w_pacifica_response j) \<and>
      pacifica_data (w_pacifica_response j) = Inr (Some (map w_pacifica_record (?ms j))) \<and>
      list_all2 pacifica_reads (map w_pacifica_record (?ms j)) (?content j) \<and>
      sorted_wrt (\<lambda>a b. fst b \<le> fst a) (?content j) \<and>
      jget (w_pacifica_response j) ''next_cursor'' JNull = Inr (?cur (Suc j)) \<and>
      jget (w_pacifica_response j) ''has_more'' (JBool False) = Inr (JBool (j < 1)) \<and> truthy (?cur (Suc j))"
    for j
  proof -
    have "list_all2 pacifica_reads (map w_pacifica_record (?ms j)) (?content j)"
      using rd [of 9000000] rd [of 5000000] rd [of 4000000] rd [of 1000000] by (cases "j = 0") simp_all
    moreover have "sorted_wrt (\<lambda>a b. fst b \<le> fst a) (?content j)" by simp
    moreover have "pacifica_request ?api (c_asset (a_contract 1 ''BTC'')) j (?cur j) = Inr (w_pacifica_response j)"
      by (simp add: pacifica_request_def api_get_def)
    moreover have "pacifica_data (w_pacifica_response j) = Inr (Some (map w_pacifica_record (?ms j)))"
      by (simp add: w_pacifica_response_def pacifica_data_def assert_obj_def assert_arr_def)
    moreover have "jget (w_pacifica_response j) ''next_cursor'' JNull = Inr (?cur (Suc j))"
      "jget (w_pacifica_response j) ''has_more'' (JBool False) = Inr (JBool (j < 1))" "truthy (?cur (Suc j))"
      by (simp_all add: w_pacifica_response_def)
    ultimately show ?thesis by blast
  qed
  have win: "in_window 2000000 6000000 (concat (map ?content [0..<Suc 1])) =
      [\<lparr>rate = 1 / 8, timestamp = 5000000000\<rparr>, \<lparr>rate = 1 / 8, timestamp = 4000000000\<rparr>]"
    by (simp add: in_window_def)
  show ?thesis
    unfolding win [symmetric] by (rule pacifica_history_window [of ?cur, OF _ page]) (simp_all add: in_window_def)
qed

end
