(* ===== verification/AdaptersStateful.thy ===== *)
theory AdaptersStateful
  imports Adapter
begin

text \<open>
  The adapters that keep state between calls: Lighter, with its map from assets to market ids, and
  Paradex, with its cache of live rates per contract and hour. Operations take the state and return
  the new one beside their result, also when they raise.
\<close>

section \<open>Lighter\<close>

type_synonym asset_ids = "(string, int) dict"

definition lighter_format_symbol :: "asset_ids \<Rightarrow> contract_row \<Rightarrow> string res" where
  "lighter_format_symbol ids c = (case map_of ids (c_asset c) of None \<Rightarrow> Inl KeyError
     | Some i \<Rightarrow> Inr (py_str_int i))"

definition lighter_fetch_order_books :: "api \<Rightarrow> nat \<Rightarrow> json list res" where
  "lighter_fetch_order_books api k =
     rbind (api_get api k ''https://mainnet.zklighter.elliot.ai/api/v1/orderBooks'' []) (\<lambda>response.
     rbind (assert_obj response) (\<lambda>_. rbind (jget response ''order_books'' (JArr [])) (\<lambda>l. rbind (jiter l)
       (rcollect (\<lambda>m. rbind (jget m ''market_type'' JNull) (\<lambda>ty.
          Inr (if jeq_str ty ''perp'' then Some m else None)))))))"

definition lighter_market_id :: "json \<Rightarrow> (string \<times> int) res" where
  "lighter_market_id m = rbind (jkey m ''symbol'') (\<lambda>v. rbind (jstr v) (\<lambda>s.
     rbind (jkey m ''market_id'') (\<lambda>v. rbind (jint v) (\<lambda>i. Inr (s, i)))))"

definition lighter_refresh_asset_to_id :: "api \<Rightarrow> nat \<Rightarrow> asset_ids res" where
  "lighter_refresh_asset_to_id api k = rbind (lighter_fetch_order_books api k) (\<lambda>markets.
     rbind (rmap lighter_market_id markets) (\<lambda>ps. Inr (dict_of ps)))"

definition lighter_ensure_asset_to_id :: "api \<Rightarrow> nat \<Rightarrow> asset_ids \<Rightarrow> contract_row list \<Rightarrow> asset_ids res" where
  "lighter_ensure_asset_to_id api k ids cs =
     (if list_ex (\<lambda>c. map_of ids (c_asset c) = None) cs then lighter_refresh_asset_to_id api k else Inr ids)"

definition lighter_has_unknown_market_ids :: "asset_ids \<Rightarrow> rates \<Rightarrow> bool" where
  "lighter_has_unknown_market_ids ids rates =
     (let known_market_ids = map (\<lambda>p. JStr (py_str_int (snd p))) ids in
      list_ex (\<lambda>p. fst p \<notin> set known_market_ids) rates)"

definition lighter_get_contracts :: "api \<Rightarrow> asset_ids \<Rightarrow> listing list res \<times> asset_ids" where
  "lighter_get_contracts api ids =
     (case rbind (lighter_fetch_order_books api 0) (rmap lighter_market_id) of
        Inl e \<Rightarrow> (Inl e, ids)
      | Inr ps \<Rightarrow> (Inr (map (\<lambda>(s, _). \<lparr>l_asset = s, l_quote = ''USD'', l_interval = 1, l_section = ''lighter''\<rparr>) ps),
          dict_of ps))"

definition lighter_rate :: "json \<Rightarrow> rat res" where
  "lighter_rate r = rbind (float_at ''rate'' r) (\<lambda>x. rbind (jkey r ''direction'') (\<lambda>d.
     Inr (if jeq_str d ''short'' then - fl (x / 100) else fl (x / 100))))"

definition lighter_time :: "json \<Rightarrow> utc res" where
  "lighter_time r = rbind (jkey r ''timestamp'') (\<lambda>v. rbind (jnumber v) from_unix_seconds)"

text \<open>\<open>int(symbol)\<close> reads back the market id that \<open>str\<close> has printed.\<close>

definition lighter_fetch_history ::
  "api \<Rightarrow> asset_ids \<Rightarrow> contract_row \<Rightarrow> int \<Rightarrow> int \<Rightarrow> funding_point list res \<times> asset_ids" where
  "lighter_fetch_history api ids c start_ms end_ms =
     (case lighter_ensure_asset_to_id api 0 ids [c] of
        Inl e \<Rightarrow> (Inl e, ids)
      | Inr ids' \<Rightarrow> (rbind (lighter_format_symbol ids' c) (\<lambda>symbol. rbind (jint (JStr symbol)) (\<lambda>market_id.
          rbind (api_get api 1 ''https://mainnet.zklighter.elliot.ai/api/v1/fundings''
            [(''market_id'', JInt market_id), (''resolution'', JStr ''1h''), (''start_timestamp'', JInt (start_ms div 1000)),
             (''end_timestamp'', JInt (end_ms div 1000)), (''count_back'', JInt 500)]) (\<lambda>response.
          rbind (assert_obj response) (\<lambda>_. rbind (jget response ''fundings'' (JArr [])) (\<lambda>l.
          rbind (jiter l) (history_points lighter_rate lighter_time)))))), ids'))"

text \<open>\<open>ws\<close> is the second message of the WebSocket subscription, decoded, or the exception of the
  connection or of its 30 second timeout.\<close>

definition lighter_item :: "string \<times> json \<Rightarrow> (json \<times> rat) option res" where
  "lighter_item mp = (case mp of (market_id, payload) \<Rightarrow>
     rbind (jget payload ''current_funding_rate'' JNull) (\<lambda>v. if v = JNull then Inr None
       else rbind (float_at ''current_funding_rate'' payload) (\<lambda>x. Inr (Some (JStr market_id, fl (x / 100))))))"

definition lighter_fetch_live_batch :: "json res \<Rightarrow> utc \<Rightarrow> rates res" where
  "lighter_fetch_live_batch ws now = rbind ws (\<lambda>data. rbind (jget data ''market_stats'' (JObj [])) (\<lambda>stats.
     rbind (jitems stats) (live_rates now lighter_item)))"

definition lighter_symbol_table :: "asset_ids \<Rightarrow> contract_row list \<Rightarrow> (string, nat) dict" where
  "lighter_symbol_table ids cs = dict_of (List.map_filter (\<lambda>c.
     map_option (\<lambda>i. (py_str_int i, c_id c)) (map_of ids (c_asset c))) cs)"

definition lighter_fetch_live ::
  "json res \<Rightarrow> api \<Rightarrow> utc \<Rightarrow> asset_ids \<Rightarrow> contract_row list \<Rightarrow> snapshot res \<times> asset_ids" where
  "lighter_fetch_live ws api now ids cs =
     (case lighter_fetch_live_batch ws now of
        Inl e \<Rightarrow> (Inl e, ids)
      | Inr all_rates \<Rightarrow>
          (case (if lighter_has_unknown_market_ids ids all_rates then lighter_refresh_asset_to_id api 0
                 else lighter_ensure_asset_to_id api 0 ids cs) of
             Inl e \<Rightarrow> (Inl e, ids)
           | Inr ids' \<Rightarrow> (Inr (match_symbols (lighter_symbol_table ids' cs) all_rates), ids')))"

text \<open>The live ingestion adapter refreshes its map only when the stream has an unknown market.\<close>

definition ing_lighter_format_symbol :: "asset_ids \<Rightarrow> contract_row \<Rightarrow> string res" where
  "ing_lighter_format_symbol ids c = (case map_of ids (c_asset c) of None \<Rightarrow> Inl KeyError
     | Some i \<Rightarrow> Inr (py_str_int i))"

definition ing_lighter_refresh_asset_to_id :: "api \<Rightarrow> nat \<Rightarrow> asset_ids res" where
  "ing_lighter_refresh_asset_to_id api k =
     rbind (api_get api k ''https://mainnet.zklighter.elliot.ai/api/v1/orderBooks'' []) (\<lambda>response.
     rbind (assert_obj response) (\<lambda>_. rbind (jget response ''order_books'' (JArr [])) (\<lambda>l. rbind (jiter l) (\<lambda>ms.
     rbind (rcollect (\<lambda>m. rbind (jget m ''market_type'' JNull) (\<lambda>ty.
       if jeq_str ty ''perp'' then rbind (lighter_market_id m) (\<lambda>p. Inr (Some p)) else Inr None)) ms) (\<lambda>ps.
     Inr (dict_of ps))))))"

definition ing_lighter_has_unknown_market_ids :: "asset_ids \<Rightarrow> rates \<Rightarrow> bool" where
  "ing_lighter_has_unknown_market_ids ids rates =
     (let known_market_ids = map (\<lambda>p. JStr (py_str_int (snd p))) ids in
      list_ex (\<lambda>p. fst p \<notin> set known_market_ids) rates)"

definition ing_lighter_fetch_live_batch :: "json res \<Rightarrow> utc \<Rightarrow> rates res" where
  "ing_lighter_fetch_live_batch ws now = rbind ws (\<lambda>data. rbind (jget data ''market_stats'' (JObj [])) (\<lambda>stats.
     rbind (jitems stats) (live_rates now lighter_item)))"

definition ing_lighter_fetch_live ::
  "json res \<Rightarrow> api \<Rightarrow> utc \<Rightarrow> asset_ids \<Rightarrow> contract_row list \<Rightarrow> snapshot res \<times> asset_ids" where
  "ing_lighter_fetch_live ws api now ids cs =
     (case ing_lighter_fetch_live_batch ws now of
        Inl e \<Rightarrow> (Inl e, ids)
      | Inr all_rates \<Rightarrow>
          (case (if ing_lighter_has_unknown_market_ids ids all_rates then ing_lighter_refresh_asset_to_id api 0
                 else Inr ids) of
             Inl e \<Rightarrow> (Inl e, ids)
           | Inr ids' \<Rightarrow> (Inr (match_symbols (lighter_symbol_table ids' cs) all_rates), ids')))"

section \<open>Paradex\<close>

definition PARADEX_FETCH_STEP :: int where "PARADEX_FETCH_STEP = 6"

type_synonym hour_cache = "(int, rat list) dict"
type_synonym live_cache = "(nat, hour_cache) dict"

definition paradex_format_symbol :: "contract_row \<Rightarrow> string" where
  "paradex_format_symbol c = c_asset c @ ''-USD-PERP''"

definition paradex_listing :: "json \<Rightarrow> listing option res" where
  "paradex_listing m = rbind (jkey m ''asset_kind'') (\<lambda>kind. if \<not> jeq_str kind ''PERP'' then Inr None else
     rbind (jkey m ''symbol'') (\<lambda>v. rbind (jtext v) (\<lambda>symbol. if \<not> ends_with ''-USD-PERP'' symbol then Inr None else
     rbind (jkey m ''base_currency'') (\<lambda>a. rbind (mk_listing ''paradex'' a (JStr ''USD'') (JInt 1)) (\<lambda>l. Inr (Some l))))))"

definition paradex_get_contracts :: "api \<Rightarrow> listing list res" where
  "paradex_get_contracts api =
     rbind (api_get api 0 ''https://api.prod.paradex.trade/v1/markets'' []) (\<lambda>response.
     rbind (assert_obj response) (\<lambda>_. rbind (jkey response ''results'') (\<lambda>l.
     rbind (jiter l) (rcollect paradex_listing))))"

text \<open>\<open>_aggregate_to_hourly\<close>: group by the end of the hour, average, divide by 8.\<close>

definition paradex_record :: "json \<Rightarrow> (int \<times> rat) res" where
  "paradex_record r = rbind (jkey r ''created_at'') (\<lambda>v. rbind (float_at ''funding_rate'' r) (\<lambda>x.
     rbind (jms v) (\<lambda>t. Inr (to_unix_milliseconds (start_of_hour t + hours 1), x))))"

definition group_rate :: "hour_cache \<Rightarrow> int \<times> rat \<Rightarrow> hour_cache" where
  "group_rate g hx = (case hx of (h, x) \<Rightarrow>
     AList.update h ((case map_of g h of None \<Rightarrow> [] | Some xs \<Rightarrow> xs) @ [x]) g)"

definition hourly_rate :: "rat list \<Rightarrow> rat" where
  "hourly_rate rates = fl (fl (py_sum rates / of_nat (length rates)) / 8)"

definition paradex_aggregate_to_hourly :: "json list \<Rightarrow> funding_point list res" where
  "paradex_aggregate_to_hourly raw_records = rbind (rmap paradex_record raw_records) (\<lambda>ps.
     let hourly_groups = foldl group_rate [] ps in
     rmap (\<lambda>h. rbind (from_unix_milliseconds (of_int h)) (\<lambda>t.
       Inr \<lparr>rate = hourly_rate (case map_of hourly_groups h of None \<Rightarrow> [] | Some xs \<Rightarrow> xs), timestamp = t\<rparr>))
       (sort (map fst hourly_groups)))"

definition paradex_request :: "api \<Rightarrow> nat \<Rightarrow> contract_row \<Rightarrow> int \<Rightarrow> int \<Rightarrow> int \<Rightarrow> json res" where
  "paradex_request api k c start_ms end_ms page_size =
     rbind (api_get api k ''https://api.prod.paradex.trade/v1/funding/data''
       [(''market'', JStr (paradex_format_symbol c)), (''start_at'', JInt start_ms), (''end_at'', JInt end_ms),
        (''page_size'', JInt page_size)]) (\<lambda>response.
     rbind (assert_obj response) (\<lambda>_. jkey response ''results''))"

definition paradex_fetch_history_before ::
  "api \<Rightarrow> utc \<Rightarrow> contract_row \<Rightarrow> utc option \<Rightarrow> funding_point list res" where
  "paradex_fetch_history_before api now c before =
     (let end_time = start_of_hour (case before of Some t \<Rightarrow> t | None \<Rightarrow> now);
          start_time = end_time - hours PARADEX_FETCH_STEP in
      rbind (paradex_request api 0 c (to_unix_milliseconds start_time) (to_unix_milliseconds end_time) 5000) (\<lambda>raw.
      if \<not> truthy raw then Inr [] else rbind (jiter raw) paradex_aggregate_to_hourly))"

text \<open>\<open>while current <= now\<close>.\<close>

function hours_from :: "utc \<Rightarrow> utc \<Rightarrow> utc list" where
  "hours_from current now = (if current \<le> now then current # hours_from (current + hours 1) now else [])"
  by pat_completeness auto

termination hours_from
  by (relation "measure (\<lambda>(current, now). nat (now + 1 - current))") (auto simp: hours_def)

declare hours_from.simps [simp del]

text \<open>\<open>self._live_cache.get(contract_id, {}).pop(hour_start_ms, None)\<close>.\<close>

definition pop_cache :: "nat \<Rightarrow> int \<Rightarrow> live_cache \<Rightarrow> rat list option \<times> live_cache" where
  "pop_cache cid h cache = (case map_of cache cid of
     None \<Rightarrow> (None, cache)
   | Some hs \<Rightarrow> (map_of hs h, AList.update cid (AList.delete h hs) cache))"

text \<open>The points of one hour; \<open>k\<close> numbers the requests.\<close>

definition paradex_hour ::
  "api \<Rightarrow> nat \<Rightarrow> contract_row \<Rightarrow> utc \<Rightarrow> rat list option \<Rightarrow> (funding_point list \<times> nat) res" where
  "paradex_hour api k c hour_end cached_rates =
     (let request = rbind (paradex_request api k c (to_unix_milliseconds (hour_end - hours 1))
            (to_unix_milliseconds hour_end) 1000) (\<lambda>raw.
            if \<not> truthy raw then Inr ([], Suc k)
            else rbind (jiter raw) (\<lambda>rs. rbind (paradex_aggregate_to_hourly rs) (\<lambda>ps. Inr (ps, Suc k))))
      in case cached_rates of
        None \<Rightarrow> request
      | Some rates \<Rightarrow> if 50 \<le> length rates then Inr ([\<lparr>rate = hourly_rate rates, timestamp = hour_end\<rparr>], k)
          else request)"

fun paradex_hours ::
  "api \<Rightarrow> nat \<Rightarrow> contract_row \<Rightarrow> utc list \<Rightarrow> funding_point list \<Rightarrow> live_cache \<Rightarrow>
   funding_point list res \<times> live_cache" where
  "paradex_hours api k c [] acc cache = (Inr acc, cache)"
| "paradex_hours api k c (hour_end # hs) acc cache =
     (case pop_cache (c_id c) (to_unix_milliseconds (hour_end - hours 1)) cache of
        (cached_rates, cache') \<Rightarrow>
          (case paradex_hour api k c hour_end cached_rates of
             Inl e \<Rightarrow> (Inl e, cache')
           | Inr (ps, k') \<Rightarrow> paradex_hours api k' c hs (acc @ ps) cache'))"

definition paradex_fetch_history_after ::
  "api \<Rightarrow> utc \<Rightarrow> live_cache \<Rightarrow> contract_row \<Rightarrow> utc \<Rightarrow> funding_point list res \<times> live_cache" where
  "paradex_fetch_history_after api now cache c after_timestamp =
     (let start = start_of_hour after_timestamp;
          hours_to_fetch = hours_from (start + hours 1) (start_of_hour now) in
      if hours_to_fetch = [] then (Inr [], cache)
      else paradex_hours api 0 c hours_to_fetch [] cache)"

definition paradex_fetch_history :: fetch_history where
  "paradex_fetch_history c start_ms end_ms = Inl NotImplementedError"

text \<open>\<open>_fetch_live_single\<close>: the raw rate goes to the bucket of the current hour.\<close>

definition push_cache :: "nat \<Rightarrow> int \<Rightarrow> rat \<Rightarrow> live_cache \<Rightarrow> live_cache" where
  "push_cache cid h x cache =
     (let hs = (case map_of cache cid of None \<Rightarrow> [] | Some hs \<Rightarrow> hs);
          xs = (case map_of hs h of None \<Rightarrow> [] | Some xs \<Rightarrow> xs)
      in AList.update cid (AList.update h (xs @ [x]) hs) cache)"

definition paradex_raw_rate :: "(contract_row \<Rightarrow> request \<Rightarrow> json res) \<Rightarrow> contract_row \<Rightarrow> rat res" where
  "paradex_raw_rate api c =
     rbind (api c \<lparr>rq_method = GET, rq_url = ''https://api.prod.paradex.trade/v1/funding/data'',
       rq_args = [(''market'', JStr (paradex_format_symbol c)), (''page_size'', JInt 1)], rq_headers = []\<rparr>) (\<lambda>response.
     rbind (assert_obj response) (\<lambda>_. rbind (jkey response ''results'') (\<lambda>data.
     if \<not> truthy data then Inl ValueError
     else rbind (jidx data 0) (float_at ''funding_rate''))))"

definition paradex_fetch_live_single ::
  "(contract_row \<Rightarrow> request \<Rightarrow> json res) \<Rightarrow> (contract_row \<Rightarrow> utc) \<Rightarrow> live_cache \<Rightarrow> contract_row \<Rightarrow>
   funding_point res \<times> live_cache" where
  "paradex_fetch_live_single api now cache c = (case paradex_raw_rate api c of
     Inl e \<Rightarrow> (Inl e, cache)
   | Inr raw_rate \<Rightarrow> (Inr \<lparr>rate = fl (raw_rate / 8), timestamp = now c\<rparr>,
       push_cache (c_id c) (to_unix_milliseconds (start_of_hour (now c))) raw_rate cache))"

text \<open>\<open>fetch_live\<close>: the cache after all requests; the result is that of the base class.\<close>

definition paradex_fetch_live ::
  "(contract_row \<Rightarrow> request \<Rightarrow> json res) \<Rightarrow> (contract_row \<Rightarrow> utc) \<Rightarrow> live_cache \<Rightarrow> contract_row list \<Rightarrow>
   snapshot res \<times> live_cache" where
  "paradex_fetch_live api now cache cs =
     (fetch_live_parallel (\<lambda>c. fst (paradex_fetch_live_single api now [] c)) cs,
      foldl (\<lambda>cache c. snd (paradex_fetch_live_single api now cache c)) cache cs)"

definition ing_paradex_format_symbol :: "contract_row \<Rightarrow> string" where
  "ing_paradex_format_symbol c = c_asset c @ ''-USD-PERP''"

definition ing_paradex_fetch_live_single ::
  "(contract_row \<Rightarrow> request \<Rightarrow> json res) \<Rightarrow> utc \<Rightarrow> contract_row \<Rightarrow> funding_point res" where
  "ing_paradex_fetch_live_single api now c =
     rbind (api c \<lparr>rq_method = GET, rq_url = ''https://api.prod.paradex.trade/v1/funding/data'',
       rq_args = [(''market'', JStr (ing_paradex_format_symbol c)), (''page_size'', JInt 1)], rq_headers = []\<rparr>) (\<lambda>response.
     rbind (assert_obj response) (\<lambda>_. rbind (jkey response ''results'') (\<lambda>data.
     if \<not> truthy data then Inl ValueError
     else rbind (jidx data 0) (\<lambda>r. rbind (float_at ''funding_rate'' r) (\<lambda>raw_rate.
       Inr \<lparr>rate = fl (raw_rate / 8), timestamp = now\<rparr>)))))"

section \<open>Adapters as providers of snapshots\<close>

lemma lighter_table_ids:
  "fst ` set (match_symbols (lighter_symbol_table ids cs) rates) \<subseteq> c_id ` set cs"
proof
  fix i assume "i \<in> fst ` set (match_symbols (lighter_symbol_table ids cs) rates)"
  then obtain p where "(i, p) \<in> set (match_symbols (lighter_symbol_table ids cs) rates)" by force
  then obtain s where "map_of (lighter_symbol_table ids cs) s = Some i" by (rule match_symbols_in)
  then have "(s, i) \<in> set (List.map_filter (\<lambda>c. map_option (\<lambda>i. (py_str_int i, c_id c)) (map_of ids (c_asset c))) cs)"
    unfolding lighter_symbol_table_def using map_of_SomeD set_dict_of_subset by fastforce
  then show "i \<in> c_id ` set cs" by (auto simp: set_map_filter)
qed

interpretation lighter: live_adapter "\<lambda>cs. fst (lighter_fetch_live ws api now ids cs)" for ws api now ids
proof
  fix cs m assume "fst (lighter_fetch_live ws api now ids cs) = Inr m"
  then obtain ids' r where m: "m = match_symbols (lighter_symbol_table ids' cs) r"
    by (auto simp: lighter_fetch_live_def split: sum.split_asm)
  show "fst ` set m \<subseteq> c_id ` set cs" unfolding m by (rule lighter_table_ids)
  show "distinct (map fst m)" unfolding m by simp
qed

interpretation ing_lighter: live_adapter "\<lambda>cs. fst (ing_lighter_fetch_live ws api now ids cs)" for ws api now ids
proof
  fix cs m assume "fst (ing_lighter_fetch_live ws api now ids cs) = Inr m"
  then obtain ids' r where m: "m = match_symbols (lighter_symbol_table ids' cs) r"
    by (auto simp: ing_lighter_fetch_live_def split: sum.split_asm)
  show "fst ` set m \<subseteq> c_id ` set cs" unfolding m by (rule lighter_table_ids)
  show "distinct (map fst m)" unfolding m by simp
qed

interpretation paradex: live_adapter "\<lambda>cs. fst (paradex_fetch_live api now cache cs)" for api now cache
  unfolding paradex_fetch_live_def fst_conv by (rule parallel.live_adapter_axioms)

section \<open>Paradex: hourly aggregation\<close>

lemma group_rates:
  "map_of (foldl group_rate g ps) h = (case map_of g h of
     None \<Rightarrow> (if h \<in> fst ` set ps then Some (map snd (filter (\<lambda>p. fst p = h) ps)) else None)
   | Some xs \<Rightarrow> Some (xs @ map snd (filter (\<lambda>p. fst p = h) ps)))"
proof (induction ps arbitrary: g)
  case (Cons p ps)
  obtain a x where p: "p = (a, x)" by (cases p)
  have "map_of (group_rate g p) = (map_of g)(a \<mapsto> (case map_of g a of None \<Rightarrow> [] | Some xs \<Rightarrow> xs) @ [x])"
    by (simp add: p group_rate_def update_conv')
  then show ?case by (cases "a = h") (auto simp: Cons.IH p split: option.splits)
qed (simp split: option.splits)

lemma group_keys:
  "distinct (map fst g) \<Longrightarrow> distinct (map fst (foldl group_rate g ps)) \<and>
   set (map fst (foldl group_rate g ps)) = fst ` set g \<union> fst ` set ps"
proof (induction ps arbitrary: g)
  case (Cons p ps)
  obtain h x where p: "p = (h, x)" by (cases p)
  have "distinct (map fst (group_rate g p))"
    using Cons.prems by (simp add: group_rate_def p distinct_update)
  moreover have "fst ` set (group_rate g p) = insert h (fst ` set g)"
    by (simp add: group_rate_def p update_conv' flip: dom_map_of_conv_image_fst)
  ultimately show ?case using Cons.IH [of "group_rate g p"] by (simp add: p)
qed simp

text \<open>The end of the hour of a time in milliseconds.\<close>

definition hour_end_ms :: "int \<Rightarrow> int" where
  "hour_end_ms ms = (ms div 3600000 + 1) * 3600000"

lemma hour_end_ms_range:
  "0 \<le> ms \<Longrightarrow> ms < 2 ^ 31 * 1000 \<Longrightarrow> 0 \<le> hour_end_ms ms \<and> hour_end_ms ms < 2 ^ 32 * 1000"
  using div_mult_mod_eq [of ms 3600000] pos_mod_sign [of 3600000 ms] by (simp add: hour_end_ms_def algebra_simps)

lemma hour_end_time:
  assumes "0 \<le> ms" "ms < 2 ^ 31 * 1000"
  shows "to_unix_milliseconds (start_of_hour (ms * 1000) + hours 1) = hour_end_ms ms"
proof -
  have "start_of_hour (ms * 1000) + hours 1 = (hour_end_ms ms div 1000) * us_per_second"
  proof -
    have "ms * 1000 div us_per_hour = ms div 3600000" by simp
    then have "start_of_hour (ms * 1000) = ms div 3600000 * us_per_hour"
      by (simp add: start_of_hour_def minus_mod_eq_div_mult)
    moreover have "hour_end_ms ms div 1000 = (ms div 3600000 + 1) * 3600"
      by (simp add: hour_end_ms_def)
    ultimately show ?thesis by (simp add: hours_def algebra_simps)
  qed
  moreover have "hour_end_ms ms div 1000 * 1000 = hour_end_ms ms"
    by (simp add: hour_end_ms_def)
  moreover have "\<bar>hour_end_ms ms div 1000\<bar> < 2 ^ 43"
  proof -
    define k where "k = (ms div 3600000 + 1) * 3600"
    have "hour_end_ms ms = k * 1000" by (simp add: hour_end_ms_def k_def)
    then show ?thesis using hour_end_ms_range [OF assms] by simp
  qed
  ultimately show ?thesis by (simp add: to_unix_milliseconds_whole)
qed

lemma paradex_records:
  assumes "list_all2 (\<lambda>r p. jkey r ''created_at'' = Inr (JInt (fst p)) \<and> float_at ''funding_rate'' r = Inr (snd p) \<and>
      0 \<le> fst p \<and> fst p < 2 ^ 31 * 1000) raw ps"
  shows "rmap paradex_record raw = Inr (map (\<lambda>p. (hour_end_ms (fst p), snd p)) ps)"
  using assms
proof (induction rule: list_all2_induct)
  case (Cons r rs p ps)
  then have "paradex_record r = Inr (hour_end_ms (fst p), snd p)"
    using from_unix_milliseconds_of_int [of "fst p"] hour_end_time [of "fst p"]
    by (simp add: paradex_record_def jms_def)
  then show ?case using Cons by simp
qed simp

text \<open>Paradex' aggregation agrees with its specification: for records at millisecond times the
  result has one point per hour that has a record, in ascending order, stamped with the end of the
  hour, and its rate is the average of exactly that hour's rates, in the order received, divided by 8.\<close>

theorem paradex_hourly_reference:
  assumes "list_all2 (\<lambda>r p. jkey r ''created_at'' = Inr (JInt (fst p)) \<and> float_at ''funding_rate'' r = Inr (snd p) \<and>
      0 \<le> fst p \<and> fst p < 2 ^ 31 * 1000) raw ps"
  shows "paradex_aggregate_to_hourly raw = Inr (map (\<lambda>h.
      \<lparr>rate = hourly_rate (map snd (filter (\<lambda>p. hour_end_ms (fst p) = h) ps)), timestamp = h * 1000\<rparr>)
      (sorted_list_of_set ((\<lambda>p. hour_end_ms (fst p)) ` set ps)))"
proof -
  let ?qs = "map (\<lambda>p. (hour_end_ms (fst p), snd p)) ps"
  let ?g = "foldl group_rate [] ?qs" and ?S = "(\<lambda>p. hour_end_ms (fst p)) ` set ps"
  have k: "distinct (map fst ?g)" "set (map fst ?g) = ?S"
    using group_keys [of "[]" ?qs] by (simp_all add: image_image)
  have s: "sort (map fst ?g) = sorted_list_of_set ?S"
    using sorted_list_of_set_sort_remdups [of "map fst ?g"] k by (simp add: distinct_remdups_id)
  have pt: "rbind (from_unix_milliseconds (of_int h)) (\<lambda>t.
       Inr \<lparr>rate = hourly_rate (case map_of ?g h of None \<Rightarrow> [] | Some xs \<Rightarrow> xs), timestamp = t\<rparr>) =
     Inr \<lparr>rate = hourly_rate (map snd (filter (\<lambda>p. hour_end_ms (fst p) = h) ps)), timestamp = h * 1000\<rparr>"
    if h: "h \<in> ?S" for h
  proof -
    obtain p where p: "p \<in> set ps" "h = hour_end_ms (fst p)" using h by blast
    obtain i where "i < length ps" "p = ps ! i" using p(1) by (metis in_set_conv_nth)
    then have "0 \<le> fst p \<and> fst p < 2 ^ 31 * 1000" using list_all2_nthD2 [OF assms] by blast
    then have "from_unix_milliseconds (of_int h) = Inr (h * 1000)"
      using hour_end_ms_range [of "fst p"] unfolding p(2) by (intro from_unix_milliseconds_of_int) simp_all
    moreover have "map_of ?g h = Some (map snd (filter (\<lambda>p. hour_end_ms (fst p) = h) ps))"
      using p by (auto simp: group_rates image_image filter_map comp_def)
    ultimately show ?thesis by simp
  qed
  have "rmap f (sorted_list_of_set ?S) = Inr (map g (sorted_list_of_set ?S))" if "\<And>h. h \<in> ?S \<Longrightarrow> f h = Inr (g h)"
    for f :: "int \<Rightarrow> funding_point res" and g
    using that by (subst rmap_Inr_iff) (simp add: list_all2_map2 list_all2_same)
  from this [OF pt] show ?thesis
    by (simp add: paradex_aggregate_to_hourly_def paradex_records [OF assms] Let_def s)
qed

theorem paradex_hourly_reference_witness:
  "paradex_aggregate_to_hourly (map (\<lambda>(ms, x). JObj [(''created_at'', JInt ms), (''funding_rate'', JFloat x)])
      [(7200000, 1), (3600001, 1 / 2), (3700000, 1 / 4)]) =
     Inr [\<lparr>rate = 3 / 64, timestamp = 7200000000\<rparr>, \<lparr>rate = 1 / 8, timestamp = 10800000000\<rparr>]"
proof -
  let ?ps = "[(7200000, 1), (3600001, 1 / 2), (3700000, 1 / 4)] :: (int \<times> rat) list"
  have "list_all2 (\<lambda>r p. jkey r ''created_at'' = Inr (JInt (fst p)) \<and> float_at ''funding_rate'' r = Inr (snd p) \<and>
      0 \<le> fst p \<and> fst p < 2 ^ 31 * 1000) (map (\<lambda>(ms, x). JObj [(''created_at'', JInt ms), (''funding_rate'', JFloat x)]) ?ps) ?ps"
    by (simp add: float_at_def)
  note r = paradex_hourly_reference [OF this]
  have s: "sorted_list_of_set ((\<lambda>p. hour_end_ms (fst p)) ` set ?ps) = [7200000, 10800000]"
    by (simp add: hour_end_ms_def)
  have "hourly_rate [1 / 2, 1 / 4] = 3 / 64" "hourly_rate [1] = 1 / 8" by code_simp+
  then show ?thesis unfolding r s by (simp add: hour_end_ms_def)
qed

section \<open>Paradex: the live cache\<close>

definition bucket :: "live_cache \<Rightarrow> nat \<Rightarrow> int \<Rightarrow> rat list option" where
  "bucket cache cid h = (case map_of cache cid of None \<Rightarrow> None | Some hs \<Rightarrow> map_of hs h)"

lemma bucket_push: "bucket (push_cache cid h x cache) cid' h' =
    (if cid' = cid \<and> h' = h then Some ((case bucket cache cid h of None \<Rightarrow> [] | Some xs \<Rightarrow> xs) @ [x])
     else bucket cache cid' h')"
  by (auto simp: bucket_def push_cache_def Let_def update_conv' split: option.splits)

lemma bucket_pop: "fst (pop_cache cid h cache) = bucket cache cid h \<and>
    bucket (snd (pop_cache cid h cache)) cid' h' =
    (if cid' = cid \<and> h' = h then None else bucket cache cid' h')"
  by (auto simp: bucket_def pop_cache_def update_conv' delete_conv' split: option.splits)

definition sample_live :: "contract_row \<Rightarrow> live_cache \<Rightarrow> (contract_row \<Rightarrow> request \<Rightarrow> json res) \<times> utc \<Rightarrow> live_cache" where
  "sample_live c cache s = snd (paradex_fetch_live_single (fst s) (\<lambda>_. snd s) cache c)"

lemma samples_bucket:
  assumes "\<forall>s\<in>set samples. start_of_hour (snd s) = H \<and> (\<exists>x. paradex_raw_rate (fst s) c = Inr x)"
  shows "bucket (foldl (sample_live c) cache samples) (c_id c) (to_unix_milliseconds H) =
    (if samples = [] then bucket cache (c_id c) (to_unix_milliseconds H)
     else Some ((case bucket cache (c_id c) (to_unix_milliseconds H) of None \<Rightarrow> [] | Some xs \<Rightarrow> xs) @
       map (\<lambda>s. projr (paradex_raw_rate (fst s) c)) samples))"
  using assms
proof (induction samples arbitrary: cache)
  case (Cons s ss)
  then obtain x where x: "paradex_raw_rate (fst s) c = Inr x" by auto
  have "sample_live c cache s = push_cache (c_id c) (to_unix_milliseconds H) x cache"
    using Cons.prems x by (simp add: sample_live_def paradex_fetch_live_single_def)
  then show ?case using Cons x by (auto simp: bucket_push split: option.splits)
qed simp

lemma hours_from_one: "hours_from (H + hours 1) (H + hours 1) = [H + hours 1]"
  by (subst hours_from.simps, subst hours_from.simps) (simp add: hours_def)

text \<open>Live sampling feeds history: once at least 50 live samples of a contract fell into one hour,
  the history update of that hour sends no request, whatever the exchange would answer; it records the
  average of exactly those samples divided by 8 at the end of the hour, and empties the bucket, so the
  samples are used once.\<close>

theorem paradex_cache_serves_hour:
  assumes "\<forall>s\<in>set samples. start_of_hour (snd s) = H \<and> (\<exists>x. paradex_raw_rate (fst s) c = Inr x)"
    and "50 \<le> length samples" and "bucket cache (c_id c) (to_unix_milliseconds H) = None"
    and "start_of_hour after_timestamp = H" and "start_of_hour now = H + hours 1"
    and "paradex_fetch_history_after api now (foldl (sample_live c) cache samples) c after_timestamp = (r, cache')"
  shows "r = Inr [\<lparr>rate = hourly_rate (map (\<lambda>s. projr (paradex_raw_rate (fst s) c)) samples), timestamp = H + hours 1\<rparr>] \<and>
     bucket cache' (c_id c) (to_unix_milliseconds H) = None"
proof -
  let ?cache = "foldl (sample_live c) cache samples"
  let ?xs = "map (\<lambda>s. projr (paradex_raw_rate (fst s) c)) samples"
  have b: "bucket ?cache (c_id c) (to_unix_milliseconds H) = Some ?xs"
    using samples_bucket [OF assms(1), of cache] assms(2,3) by auto
  obtain r1 c1 where p: "pop_cache (c_id c) (to_unix_milliseconds H) ?cache = (r1, c1)" by fastforce
  then have c1: "r1 = Some ?xs" "bucket c1 (c_id c) (to_unix_milliseconds H) = None"
    using bucket_pop [of "c_id c" "to_unix_milliseconds H" ?cache "c_id c" "to_unix_milliseconds H"] b by simp_all
  have "paradex_fetch_history_after api now ?cache c after_timestamp =
      (Inr [\<lparr>rate = hourly_rate ?xs, timestamp = H + hours 1\<rparr>], c1)"
    using assms(2) by (simp add: paradex_fetch_history_after_def assms(4,5) hours_from_one p c1(1) paradex_hour_def)
  then show ?thesis using assms(6) c1(2) by simp
qed

definition w_paradex_api :: "contract_row \<Rightarrow> request \<Rightarrow> json res" where
  "w_paradex_api c r = Inr (JObj [(''results'', JArr [JObj [(''funding_rate'', JFloat 0)]])])"

theorem paradex_cache_serves_hour_witness:
  "\<exists>cache'. paradex_fetch_history_after (\<lambda>_ _. Inl HTTPError) (hours 5 + 7)
       (foldl (sample_live (a_contract 3 ''BTC'')) [] (replicate 50 (w_paradex_api, hours 4 + 9))) (a_contract 3 ''BTC'') (hours 4) =
     (Inr [\<lparr>rate = 0, timestamp = hours 5\<rparr>], cache')"
proof -
  let ?c = "a_contract 3 ''BTC''" and ?ss = "replicate 50 (w_paradex_api, hours 4 + 9)"
  obtain r cache' where o: "paradex_fetch_history_after (\<lambda>_ _. Inl HTTPError) (hours 5 + 7)
       (foldl (sample_live ?c) [] ?ss) ?c (hours 4) = (r, cache')" by fastforce
  have raw: "paradex_raw_rate w_paradex_api ?c = Inr 0"
    by (simp add: paradex_raw_rate_def w_paradex_api_def assert_obj_def float_at_def)
  have h: "start_of_hour (hours 4 + 9) = hours 4" "start_of_hour (hours 4) = hours 4" "start_of_hour (hours 5 + 7) = hours 4 + hours 1"
    "hours 4 + hours 1 = hours 5"
    by code_simp+
  have "foldl neumaier (0, 0) (replicate n 0) = (0, 0)" for n by (induction n) (simp_all add: neumaier_def)
  then have "py_sum (replicate n 0) = 0" for n by (cases n) (simp_all add: py_sum_def)
  then have one: "hourly_rate (replicate 50 0) = 0" by (simp only: hourly_rate_def) simp
  have "\<forall>s\<in>set ?ss. start_of_hour (snd s) = hours 4 \<and> (\<exists>x. paradex_raw_rate (fst s) ?c = Inr x)"
    using raw h(1) by (simp only: set_replicate_conv_if) simp
  moreover have "50 \<le> length ?ss" by (simp only: length_replicate)
  moreover have "bucket [] (c_id ?c) (to_unix_milliseconds (hours 4)) = None" by (simp add: bucket_def)
  ultimately have "r = Inr [\<lparr>rate = hourly_rate (map (\<lambda>s. projr (paradex_raw_rate (fst s) ?c)) ?ss), timestamp = hours 4 + hours 1\<rparr>]"
    by (rule conjunct1 [OF paradex_cache_serves_hour [OF _ _ _ h(2,3) o]])
  then have "r = Inr [\<lparr>rate = 0, timestamp = hours 5\<rparr>]"
    unfolding map_replicate fst_conv raw sum.sel one h(4) .
  then show ?thesis using o by blast
qed

end
