(* ===== verification/AdaptersAgree.thy ===== *)
theory AdaptersAgree
  imports AdaptersBinance AdaptersCex AdaptersDex AdaptersPaged AdaptersStateful
begin

text \<open>
  The tracker and the ingestion worker have separate adapters for the same exchanges. Here the live
  halves are compared: on equal answers of the exchange they give equal rates.
\<close>

lemma rcollect_refines:
  assumes "\<And>x w. f x = Inr w \<Longrightarrow> g x = Inr w" and "rcollect f xs = Inr ys"
  shows "rcollect g xs = Inr ys"
  using assms(2)
proof (induction xs arbitrary: ys)
  case (Cons x xs)
  then show ?case using assms(1) by (auto simp: res_simps)
qed simp

lemma live_rates_refines:
  assumes "live_rates now f xs = Inr m" and "\<And>x w. f x = Inr w \<Longrightarrow> g x = Inr w"
  shows "live_rates now g xs = Inr m"
proof -
  let ?h = "\<lambda>item r. rbind (item r) (\<lambda>w. case w of None \<Rightarrow> Inr None
        | Some (k, x) \<Rightarrow> rbind (jhash k) (\<lambda>k. Inr (Some (k, \<lparr>rate = x, timestamp = now\<rparr>))))"
  obtain ps where ps: "rcollect (?h f) xs = Inr ps" "m = dict_of ps"
    using assms(1) by (auto simp: live_rates_def res_simps)
  have "rcollect (?h g) xs = Inr ps"
  proof (rule rcollect_refines [OF _ ps(1)])
    fix x w assume "?h f x = Inr w"
    then obtain v where v: "f x = Inr v" "?h f x = Inr w" by (auto simp: res_simps)
    then show "?h g x = Inr w" using assms(2) [OF v(1)] by simp
  qed
  then show ?thesis using ps(2) by (simp add: live_rates_def)
qed

lemma bybit_item_refines: "bybit_item r = Inr w \<Longrightarrow> ing_bybit_item r = Inr w"
  by (auto simp: bybit_item_def ing_bybit_item_def rbind_def split: sum.split_asm if_split_asm prod.splits)

lemma kucoin_item_refines: "kucoin_item r = Inr w \<Longrightarrow> ing_kucoin_item r = Inr w"
  by (auto simp: kucoin_item_def ing_kucoin_item_def rbind_def split: sum.split_asm if_split_asm prod.splits)

lemma hyperliquid_item_refines: "hyperliquid_item ns r = Inr w \<Longrightarrow> ing_hyperliquid_item ns r = Inr w"
  by (auto simp: hyperliquid_item_def ing_hyperliquid_item_def rbind_def split: sum.split_asm if_split_asm prod.splits)

lemma extended_item_refines: "extended_item r = Inr w \<Longrightarrow> ing_extended_item r = Inr w"
  by (auto simp: extended_item_def ing_extended_item_def rbind_def split: sum.split_asm if_split_asm prod.splits)

lemma pacifica_item_refines: "pacifica_item r = Inr w \<Longrightarrow> ing_pacifica_item r = Inr w"
  by (auto simp: pacifica_item_def ing_pacifica_item_def rbind_def split: sum.split_asm if_split_asm prod.splits)

lemma derive_item_refines: "derive_item r = Inr w \<Longrightarrow> ing_derive_item r = Inr w"
  by (cases r) (auto simp: derive_item_def ing_derive_item_def rbind_def split: sum.split_asm if_split_asm option.splits)

lemma rbind_refines:
  "rbind m f = Inr y \<Longrightarrow> (\<And>x. f x = Inr y \<Longrightarrow> g x = Inr y) \<Longrightarrow> rbind m g = Inr y"
  by (cases m) auto

lemmas batch_refines = rbind_refines live_rates_refines

lemma bybit_refines:
  "bybit_fetch_live_batch api now = Inr m \<Longrightarrow> ing_bybit_fetch_live_batch api now = Inr m"
  unfolding bybit_fetch_live_batch_def ing_bybit_fetch_live_batch_def
  by (elim batch_refines) (rule bybit_item_refines)

lemma kucoin_refines:
  "kucoin_fetch_live_batch api now = Inr m \<Longrightarrow> ing_kucoin_fetch_live_batch api now = Inr m"
  unfolding kucoin_fetch_live_batch_def ing_kucoin_fetch_live_batch_def
  by (elim batch_refines) (rule kucoin_item_refines)

lemma hyperliquid_refines:
  "hyperliquid_fetch_live_batch dex api now = Inr m \<Longrightarrow> ing_hyperliquid_fetch_live_batch dex api now = Inr m"
  unfolding hyperliquid_fetch_live_batch_def ing_hyperliquid_fetch_live_batch_def
  by (elim batch_refines) (rule hyperliquid_item_refines)

lemma extended_refines:
  "extended_fetch_live_batch api now = Inr m \<Longrightarrow> ing_extended_fetch_live_batch api now = Inr m"
  unfolding extended_fetch_live_batch_def ing_extended_fetch_live_batch_def
  by (elim batch_refines) (rule extended_item_refines)

lemma pacifica_refines:
  "pacifica_fetch_live_batch api now = Inr m \<Longrightarrow> ing_pacifica_fetch_live_batch api now = Inr m"
  unfolding pacifica_fetch_live_batch_def ing_pacifica_fetch_live_batch_def
  by (elim rbind_refines) (auto split: option.splits elim!: live_rates_refines intro: pacifica_item_refines)

lemma derive_refines:
  "derive_fetch_live_batch api now = Inr m \<Longrightarrow> ing_derive_fetch_live_batch api now = Inr m"
  unfolding derive_fetch_live_batch_def ing_derive_fetch_live_batch_def
  by (elim batch_refines) (rule derive_item_refines)

lemma lighter_refresh_refines:
  "lighter_refresh_asset_to_id api k = Inr ids \<Longrightarrow> ing_lighter_refresh_asset_to_id api k = Inr ids"
proof -
  let ?perp = "\<lambda>m. rbind (jget m ''market_type'' JNull) (\<lambda>ty. Inr (if jeq_str ty ''perp'' then Some m else None))"
  let ?both = "\<lambda>m. rbind (jget m ''market_type'' JNull) (\<lambda>ty.
    if jeq_str ty ''perp'' then rbind (lighter_market_id m) (\<lambda>p. Inr (Some p)) else Inr None)"
  have "rcollect ?perp ms = Inr ns \<Longrightarrow> rmap lighter_market_id ns = Inr ps \<Longrightarrow> rcollect ?both ms = Inr ps" for ms ns ps
  proof (induction ms arbitrary: ns ps)
    case (Cons m ms)
    then show ?case by (fastforce simp: res_simps split: if_splits)
  qed simp
  then show "lighter_refresh_asset_to_id api k = Inr ids \<Longrightarrow> ing_lighter_refresh_asset_to_id api k = Inr ids"
    by (fastforce simp: lighter_refresh_asset_to_id_def lighter_fetch_order_books_def ing_lighter_refresh_asset_to_id_def res_simps)
qed

lemma lighter_refines:
  assumes "fst (lighter_fetch_live ws api now ids cs) = Inr m" and "ids = [] \<or> (\<forall>c\<in>set cs. map_of ids (c_asset c) \<noteq> None)"
  shows "fst (ing_lighter_fetch_live ws api now ids cs) = Inr m"
proof -
  have unknown: "ing_lighter_has_unknown_market_ids ids r = lighter_has_unknown_market_ids ids r" for r
    by (simp add: ing_lighter_has_unknown_market_ids_def lighter_has_unknown_market_ids_def)
  obtain all_rates where b: "lighter_fetch_live_batch ws now = Inr all_rates"
    using assms(1) by (cases "lighter_fetch_live_batch ws now") (auto simp: lighter_fetch_live_def)
  then have i: "ing_lighter_fetch_live_batch ws now = Inr all_rates"
    by (simp add: lighter_fetch_live_batch_def ing_lighter_fetch_live_batch_def)
  show ?thesis
  proof (cases "lighter_has_unknown_market_ids ids all_rates")
    case True
    then obtain ids' where "lighter_refresh_asset_to_id api 0 = Inr ids'" "m = match_symbols (lighter_symbol_table ids' cs) all_rates"
      using assms(1) b by (auto simp: lighter_fetch_live_def split: sum.splits)
    then show ?thesis using True i lighter_refresh_refines by (simp add: ing_lighter_fetch_live_def unknown)
  next
    case False
    have "m = match_symbols (lighter_symbol_table ids cs) all_rates"
    proof (cases "ids = []")
      case True
      then have "all_rates = []" using False by (cases all_rates) (auto simp: lighter_has_unknown_market_ids_def)
      then show ?thesis using assms(1) b False by (auto simp: lighter_fetch_live_def match_symbols_def split: sum.splits)
    next
      case known: False
      then have "lighter_ensure_asset_to_id api 0 ids cs = Inr ids"
        using assms(2) by (auto simp: lighter_ensure_asset_to_id_def list_ex_iff)
      then show ?thesis using assms(1) b False by (simp add: lighter_fetch_live_def)
    qed
    then show ?thesis using False i by (simp add: ing_lighter_fetch_live_def unknown)
  qed
qed

text \<open>C17. The live halves of the two sets of adapters are equivalent: for Binance, Aster, dYdX, OKX,
  Backpack and Paradex the ingestion adapter computes the same result or exception as the tracker's;
  for Bybit, KuCoin, Hyperliquid, the XYZ sub-dex, Extended, Pacifica and Derive it computes the same
  rates whenever the tracker's adapter succeeds (on malformed items the order of the checks differs). For
  Lighter too, if its map of markets is still empty, as in a fresh process, or has the assets of all the
  contracts asked for; otherwise only the tracker's adapter is sure to read the markets again.\<close>

theorem live_adapters_agree:
  "ing_usdm_fetch_live_batch api now = usdm_fetch_live_batch api now \<and>
   ing_coinm_fetch_live_batch api now = coinm_fetch_live_batch api now \<and>
   ing_aster_fetch_live_batch api now = aster_fetch_live_batch api now \<and>
   ing_dydx_fetch_live_batch api now = dydx_fetch_live_batch api now \<and>
   ing_okx_fetch_live_single single now c = okx_fetch_live_single single now c \<and>
   ing_backpack_fetch_live_single single now c = backpack_fetch_live_single single now c \<and>
   ing_paradex_fetch_live_single single now c = fst (paradex_fetch_live_single single (\<lambda>_. now) cache c) \<and>
   (\<forall>m. bybit_fetch_live_batch api now = Inr m \<longrightarrow> ing_bybit_fetch_live_batch api now = Inr m) \<and>
   (\<forall>m. kucoin_fetch_live_batch api now = Inr m \<longrightarrow> ing_kucoin_fetch_live_batch api now = Inr m) \<and>
   (\<forall>m. hyperliquid_fetch_live_batch dex api now = Inr m \<longrightarrow> ing_hyperliquid_fetch_live_batch dex api now = Inr m) \<and>
   (\<forall>m. xyz_fetch_live api now cs = Inr m \<longrightarrow> ing_xyz_fetch_live api now cs = Inr m) \<and>
   (\<forall>m. extended_fetch_live_batch api now = Inr m \<longrightarrow> ing_extended_fetch_live_batch api now = Inr m) \<and>
   (\<forall>m. pacifica_fetch_live_batch api now = Inr m \<longrightarrow> ing_pacifica_fetch_live_batch api now = Inr m) \<and>
   (\<forall>m. derive_fetch_live_batch api now = Inr m \<longrightarrow> ing_derive_fetch_live_batch api now = Inr m) \<and>
   (\<forall>m. (ids = [] \<or> (\<forall>c\<in>set cs. map_of ids (c_asset c) \<noteq> None)) \<and> fst (lighter_fetch_live ws api now ids cs) = Inr m \<longrightarrow>
      fst (ing_lighter_fetch_live ws api now ids cs) = Inr m)"
proof (intro conjI allI impI)
  show "ing_usdm_fetch_live_batch api now = usdm_fetch_live_batch api now"
    by (simp add: ing_usdm_fetch_live_batch_def usdm_fetch_live_batch_def)
  show "ing_coinm_fetch_live_batch api now = coinm_fetch_live_batch api now"
    by (simp add: ing_coinm_fetch_live_batch_def coinm_fetch_live_batch_def)
  show "ing_aster_fetch_live_batch api now = aster_fetch_live_batch api now"
    by (simp add: ing_aster_fetch_live_batch_def aster_fetch_live_batch_def)
  show "ing_dydx_fetch_live_batch api now = dydx_fetch_live_batch api now"
    unfolding ing_dydx_fetch_live_batch_def dydx_fetch_live_batch_def dydx_markets_def
    by (cases "api_get_json api 0 ''https://indexer.dydx.trade/v4/perpetualMarkets'' []") (auto simp: rbind_def split: sum.splits)
  show "ing_okx_fetch_live_single single now c = okx_fetch_live_single single now c"
    by (simp add: ing_okx_fetch_live_single_def okx_fetch_live_single_def ing_okx_format_symbol_def okx_format_symbol_def)
  show "ing_backpack_fetch_live_single single now c = backpack_fetch_live_single single now c"
    by (simp add: ing_backpack_fetch_live_single_def backpack_fetch_live_single_def ing_backpack_format_symbol_def
        backpack_format_symbol_def backpack_api_symbol_def)
  show "ing_paradex_fetch_live_single single now c = fst (paradex_fetch_live_single single (\<lambda>_. now) cache c)"
    unfolding ing_paradex_fetch_live_single_def paradex_fetch_live_single_def paradex_raw_rate_def
      ing_paradex_format_symbol_def paradex_format_symbol_def
    by (auto simp: rbind_def split: sum.splits)
next
  fix m
  show "ing_bybit_fetch_live_batch api now = Inr m" if "bybit_fetch_live_batch api now = Inr m"
    using that by (rule bybit_refines)
  show "ing_kucoin_fetch_live_batch api now = Inr m" if "kucoin_fetch_live_batch api now = Inr m"
    using that by (rule kucoin_refines)
  show "ing_hyperliquid_fetch_live_batch dex api now = Inr m" if "hyperliquid_fetch_live_batch dex api now = Inr m"
    using that by (rule hyperliquid_refines)
  show "ing_extended_fetch_live_batch api now = Inr m" if "extended_fetch_live_batch api now = Inr m"
    using that by (rule extended_refines)
  show "ing_pacifica_fetch_live_batch api now = Inr m" if "pacifica_fetch_live_batch api now = Inr m"
    using that by (rule pacifica_refines)
  show "ing_derive_fetch_live_batch api now = Inr m" if "derive_fetch_live_batch api now = Inr m"
    using that by (rule derive_refines)
next
  fix m
  show "fst (ing_lighter_fetch_live ws api now ids cs) = Inr m"
    if "(ids = [] \<or> (\<forall>c\<in>set cs. map_of ids (c_asset c) \<noteq> None)) \<and> fst (lighter_fetch_live ws api now ids cs) = Inr m"
    using that by (intro lighter_refines) simp_all
next
  fix m assume "xyz_fetch_live api now cs = Inr m"
  then obtain r where "hyperliquid_fetch_live_batch (Some ''xyz'') api now = Inr r"
    "m = match_symbols (symbol_table c_asset cs) (dict_of (map map_symbol_key r))"
    by (auto simp: xyz_fetch_live_def xyz_fetch_live_batch_def Let_def res_simps)
  then show "ing_xyz_fetch_live api now cs = Inr m"
    using hyperliquid_refines by (simp add: ing_xyz_fetch_live_def ing_xyz_fetch_live_batch_def)
qed


definition w_tickers_api :: api where
  "w_tickers_api k r = Inr (JObj [(''result'', JObj [(''list'', JArr
     [JObj [(''symbol'', JStr ''BTCUSDT''), (''fundingRate'', JStr ''0.25'')],
      JObj [(''symbol'', JStr ''ETHUSDT''), (''fundingRate'', JStr '''')]])])])"

theorem live_adapters_agree_witness:
  "ing_bybit_fetch_live_batch w_tickers_api 5 = Inr [(JStr ''BTCUSDT'', \<lparr>rate = 1 / 4, timestamp = 5\<rparr>)]"
proof -
  have "bybit_fetch_live_batch w_tickers_api 5 = Inr [(JStr ''BTCUSDT'', \<lparr>rate = 1 / 4, timestamp = 5\<rparr>)]" by code_simp
  then show ?thesis using live_adapters_agree [of w_tickers_api 5] by blast
qed

text \<open>A market that keeps its number under a new name: the tracker reads the markets again and stores the rate, the
  ingestion adapter has no unknown number in the stream and finds no contract for it.\<close>

definition w_renamed_api :: api where
  "w_renamed_api k r = Inr (JObj [(''order_books'', JArr [JObj [(''symbol'', JStr ''NEW''), (''market_id'', JInt 1),
     (''market_type'', JStr ''perp'')]])])"

definition w_renamed_stream :: json where
  "w_renamed_stream = JObj [(''market_stats'', JObj [(''1'', JObj [(''current_funding_rate'', JStr ''0.5'')])])]"

definition w_renamed_contract :: contract_row where
  "w_renamed_contract = \<lparr>c_id = 7, c_asset = ''NEW'', c_section = ''lighter'', c_interval = 1, c_quote = ''USD'',
     c_special = JObj [], c_deprecated = False\<rparr>"

lemma lighter_renamed_market:
  "case fst (lighter_fetch_live (Inr w_renamed_stream) w_renamed_api 5 [(''OLD'', 1)] [w_renamed_contract]) of
     Inr m \<Rightarrow> map fst m = [7] | Inl _ \<Rightarrow> False"
  "fst (ing_lighter_fetch_live (Inr w_renamed_stream) w_renamed_api 5 [(''OLD'', 1)] [w_renamed_contract]) = Inr []"
  by code_simp+

end
