(* ===== verification/ContractSearch.thy ===== *)
theory ContractSearch
  imports Api
begin

text \<open>
  The contract search: \<open>api/queries/contract_search.py\<close>, the SQL function \<open>match_quality\<close> of
  \<open>migrations/versions/006_contract_search_migration.py\<close>, and the endpoint of \<open>api/api/v0/meta.py\<close>.

  The trigram similarity of \<open>pg_trgm\<close> and the regular expressions of PostgreSQL are parameters; the
  second may reject a pattern, which is an error of the statement. \<open>LIKE\<close> is modelled. Text is ASCII
  for \<open>lower\<close>. A similarity is a single-precision number; it is a double when multiplied or compared
  with a decimal. \<open>OR\<close> is evaluated from left to right; \<open>plan\<close> ranks rows of equal relevance.
\<close>

record pg_text =
  pt_similarity :: "string \<Rightarrow> string \<Rightarrow> rat"
  pt_regex :: "string \<Rightarrow> string \<Rightarrow> bool res"

section \<open>Text functions\<close>

definition lower_char :: "char \<Rightarrow> char" where
  "lower_char c = (let n = of_char c :: nat in if 65 \<le> n \<and> n \<le> 90 then char_of (n + 32) else c)"

definition pg_lower :: "string \<Rightarrow> string" where
  "pg_lower = map lower_char"

text \<open>\<open>trim\<close> removes spaces only.\<close>

definition pg_trim :: "string \<Rightarrow> string" where
  "pg_trim s = rev (dropWhile (\<lambda>c. c = CHR '' '') (rev (dropWhile (\<lambda>c. c = CHR '' '') s)))"

text \<open>\<open>text LIKE pattern\<close>. A pattern that ends in the escape character is an error when the matcher
  gets there.\<close>

fun like :: "string \<Rightarrow> string \<Rightarrow> bool res" where
  "like p [] = Inr (list_all (\<lambda>x. x = CHR ''%'') p)"
| "like [] (c # t) = Inr False"
| "like (x # p) (c # t) =
     (if x = CHR 0x5C then (case p of [] \<Rightarrow> Inl DBAPIError | y # q \<Rightarrow> if y = c then like q t else Inr False)
      else if x = CHR ''%'' then rbind (like p (c # t)) (\<lambda>b. if b then Inr True else like (x # p) t)
      else if x = CHR ''_'' \<or> x = c then like p t
      else Inr False)"

text \<open>\<open>regexp_split_to_array\<close> at the maximal runs of a class of characters.\<close>

function split_runs :: "(char \<Rightarrow> bool) \<Rightarrow> string \<Rightarrow> string list" where
  "split_runs P [] = [[]]"
| "split_runs P (x # xs) = (if P x then [] # split_runs P (dropWhile P xs)
     else case split_runs P xs of [] \<Rightarrow> [[x]] | w # ws \<Rightarrow> (x # w) # ws)"
  by pat_completeness auto

termination split_runs
  by (relation "measure (length \<circ> snd)") (auto simp: le_imp_less_Suc length_dropWhile_le)

text \<open>The pattern of the query is written \<open>E'[-/\s]+'\<close>. In an escape string PostgreSQL drops the backslash
  before a character it does not know, so the class is a hyphen, a slash and the letter s.\<close>

definition token_separator :: "char \<Rightarrow> bool" where
  "token_separator c \<longleftrightarrow> c \<in> {CHR ''-'', CHR ''/'', CHR ''s''}"

definition tokens :: "string \<Rightarrow> string list" where
  "tokens query = (if pg_trim query = [] then [] else split_runs token_separator (pg_lower (pg_trim query)))"

section \<open>Scores\<close>

text \<open>\<open>'(^|[^a-z0-9])' || token\<close> and, for short tokens, \<open>|| '([^a-z0-9]|$)'\<close>.\<close>

definition word_start :: "string \<Rightarrow> string" where
  "word_start t = ''(^|[^a-z0-9])'' @ t"

definition whole_word :: "string \<Rightarrow> string" where
  "whole_word t = ''(^|[^a-z0-9])'' @ t @ ''([^a-z0-9]|$)''"

definition match_quality :: "pg_text \<Rightarrow> string \<Rightarrow> string \<Rightarrow> int res" where
  "match_quality pt field_value search_token =
     (let f = pg_lower (pg_trim field_value); t = pg_lower (pg_trim search_token);
          token_len = int (length t); field_len = int (length f) in
      if f = [] \<or> t = [] then Inr 0
      else if token_len \<le> 2 then
        if f = t then Inr 10000
        else rbind (like (t @ ''%'') f) (\<lambda>prefix. if prefix then Inr (8000 + 2000 * token_len div field_len)
        else rbind (pt_regex pt (whole_word t) f) (\<lambda>word. if word then Inr 5000
        else rbind (like (''%'' @ t @ ''%'') f) (\<lambda>inside. if inside then Inr 300 else Inr 0)))
      else
        if f = t then Inr 10000
        else rbind (like (t @ ''%'') f) (\<lambda>prefix. if prefix then Inr (5000 + 5000 * token_len div field_len)
        else rbind (pt_regex pt (word_start t) f) (\<lambda>word. if word then Inr 2000
        else rbind (like (''%'' @ t @ ''%'') f) (\<lambda>inside. if inside then Inr 500
        else let sim_score = pt_similarity pt f t in
          if sim_score > fl (1 / 5) then Inr (round_half_even (fl (sim_score * 300))) else Inr 0))))"

definition token_score :: "pg_text \<Rightarrow> string list \<Rightarrow> string \<Rightarrow> int res" where
  "token_score pt ts field = rbind (rmap (match_quality pt field) ts) (\<lambda>qs. Inr (sum_list qs))"

section \<open>The query\<close>

text \<open>The thresholds; the first is compared as a single-precision number.\<close>

definition DEFAULT_LIMIT :: int where "DEFAULT_LIMIT = 20"
definition MAX_LIMIT :: int where "MAX_LIMIT = 100"
definition SIMILARITY_THRESHOLD :: rat where "SIMILARITY_THRESHOLD = 13421773 / 134217728"
definition FUZZY_MIN_SCORE :: rat where "FUZZY_MIN_SCORE = 200"

definition ror :: "bool res \<Rightarrow> bool res \<Rightarrow> bool res" where
  "ror a b = rbind a (\<lambda>x. if x then Inr True else b)"

definition name_fields :: "contract_row \<Rightarrow> string list" where
  "name_fields c = map pg_lower [c_asset c, c_section c, c_quote c]"

definition haystack :: "contract_row \<Rightarrow> string" where
  "haystack c = pg_lower (c_asset c) @ '' '' @ pg_lower (c_section c) @ '' '' @ pg_lower (c_quote c)"

definition any_like :: "string \<Rightarrow> contract_row \<Rightarrow> bool res" where
  "any_like pat c = foldr (\<lambda>f r. ror (like pat f) r) (name_fields c) (Inr False)"

definition token_matches :: "contract_row \<Rightarrow> string \<Rightarrow> bool res" where
  "token_matches c t = (if t \<in> set (name_fields c) then Inr True
     else ror (any_like (t @ ''%'') c)
       (if length t \<ge> 3 then any_like (''%'' @ t @ ''%'') c else Inr False))"

definition is_candidate :: "pg_text \<Rightarrow> string \<Rightarrow> contract_row \<Rightarrow> bool res" where
  "is_candidate pt query c =
     (if length (pg_trim query) \<ge> 3 \<and> pt_similarity pt (haystack c) (pg_lower query) \<ge> SIMILARITY_THRESHOLD then Inr True
      else foldr (\<lambda>t r. ror (token_matches c t) r) (tokens query) (Inr False))"

record search_row =
  sr_contract :: contract_row
  sr_relevance :: int
  sr_asset :: int
  sr_section :: int
  sr_quote :: int
  sr_fuzzy :: rat

definition scored_row :: "pg_text \<Rightarrow> string \<Rightarrow> contract_row \<Rightarrow> search_row res" where
  "scored_row pt query c =
     rbind (token_score pt (tokens query) (c_asset c)) (\<lambda>asset_score.
     rbind (token_score pt (tokens query) (c_section c)) (\<lambda>section_score.
     rbind (token_score pt (tokens query) (c_quote c)) (\<lambda>quote_score.
       let fuzzy_score = fl (pt_similarity pt (haystack c) (pg_lower query) * 1000) in
       Inr \<lparr>sr_contract = c,
         sr_relevance = round_half_even (fl (of_int (asset_score * 3 + section_score * 2 + quote_score * 1) + fuzzy_score)),
         sr_asset = asset_score, sr_section = section_score, sr_quote = quote_score, sr_fuzzy = fuzzy_score\<rparr>)))"

definition relevant :: "search_row \<Rightarrow> bool" where
  "relevant r \<longleftrightarrow> sr_asset r > 0 \<or> sr_section r > 0 \<or> sr_quote r > 0 \<or> sr_fuzzy r > FUZZY_MIN_SCORE"

definition search_rows :: "pg_text \<Rightarrow> (search_row \<Rightarrow> nat) \<Rightarrow> db \<Rightarrow> string \<Rightarrow> nat \<Rightarrow> search_row list res" where
  "search_rows pt plan d query limit =
     rbind (rcollect (\<lambda>c. if c_deprecated c then Inr None else rbind (is_candidate pt query c) (\<lambda>b.
        if b then rbind (scored_row pt query c) (\<lambda>r. Inr (Some r)) else Inr None)) (contracts d)) (\<lambda>rows.
     Inr (take limit (sort_key (\<lambda>r. - sr_relevance r) (sort_key plan (filter relevant rows)))))"

record search_result =
  res_id :: nat
  res_asset :: string
  res_section :: string
  res_quote :: string
  res_interval :: int
  res_relevance :: int
  res_scores :: "(int \<times> int \<times> int \<times> int) option"

definition search_result_of :: "bool \<Rightarrow> search_row \<Rightarrow> search_result" where
  "search_result_of debug r = (let c = sr_contract r in
     \<lparr>res_id = c_id c, res_asset = c_asset c, res_section = c_section c, res_quote = c_quote c, res_interval = c_interval c,
      res_relevance = sr_relevance r,
      res_scores = (if debug then Some (sr_asset r, sr_section r, sr_quote r, round_half_even (sr_fuzzy r)) else None)\<rparr>)"

definition search_contracts ::
  "pg_text \<Rightarrow> (search_row \<Rightarrow> nat) \<Rightarrow> db \<Rightarrow> string \<Rightarrow> nat \<Rightarrow> bool \<Rightarrow> search_result list res" where
  "search_contracts pt plan d query limit debug = (let cleaned_query = py_strip query in
     if cleaned_query = [] then Inr []
     else rbind (search_rows pt plan d cleaned_query limit) (\<lambda>rows. Inr (map (search_result_of debug) rows)))"

definition search_contracts_endpoint ::
  "pg_text \<Rightarrow> (search_row \<Rightarrow> nat) \<Rightarrow> db \<Rightarrow> string \<Rightarrow> int \<Rightarrow> bool \<Rightarrow> search_result list response" where
  "search_contracts_endpoint pt plan d query limit debug =
     (if length query < 1 \<or> 200 < length query \<or> limit < 1 \<or> MAX_LIMIT < limit then Inl (Http 422 ''validation'')
      else respond (search_contracts pt plan d query (nat limit) debug))"


section \<open>Lemmas\<close>

lemma split_runs_nonempty [simp]: "split_runs P s \<noteq> []"
  by (induction P s rule: split_runs.induct) (auto split: list.splits)

lemma token_chars: "w \<in> set (split_runs P s) \<Longrightarrow> x \<in> set w \<Longrightarrow> \<not> P x"
proof (induction P s arbitrary: w rule: split_runs.induct)
  case (2 P y ys)
  show ?case
  proof (cases "P y")
    case False
    obtain v vs where v: "split_runs P ys = v # vs" by (cases "split_runs P ys") auto
    then have "w = y # v \<or> w \<in> set vs" using False "2.prems"(1) by simp
    then show ?thesis using "2.IH"(2) [OF False, of v] "2.IH"(2) [OF False, of w] "2.prems"(2) False v by auto
  qed (use "2.IH"(1) "2.prems" in auto)
qed auto

lemma lower_char_idem [simp]: "lower_char (lower_char c) = lower_char c"
  by (auto simp: lower_char_def Let_def)

lemma pg_lower_idem [simp]: "pg_lower (pg_lower s) = pg_lower s"
  by (simp add: pg_lower_def comp_def)

lemma lower_char_space: "lower_char c = CHR '' '' \<longleftrightarrow> c = CHR '' ''"
proof
  assume "lower_char c = CHR '' ''"
  then have n: "of_char (lower_char c) = (32 :: nat)" by simp
  show "c = CHR '' ''"
  proof (cases "65 \<le> (of_char c :: nat) \<and> of_char c \<le> (90 :: nat)")
    case True
    then have "lower_char c = char_of (of_char c + 32 :: nat)" by (simp add: lower_char_def)
    then have "of_char (lower_char c) = (of_char c + 32 :: nat) mod 256" by simp
    then show ?thesis using n True by simp
  qed (use \<open>lower_char c = CHR '' ''\<close> in \<open>auto simp: lower_char_def Let_def\<close>)
qed (simp add: lower_char_def Let_def)

lemma pg_lower_trim: "pg_trim (pg_lower s) = pg_lower (pg_trim s)"
  by (simp only: pg_trim_def pg_lower_def dropWhile_map rev_map comp_def lower_char_space)

lemma match_quality_nonneg:
  assumes "match_quality pt f t = Inr n" shows "0 \<le> n"
proof -
  have "0 \<le> round_half_even (fl (x * 300))" if "fl (1 / 5) < x" for x
  proof -
    have "0 \<le> fl (1 / 5 :: rat)" by (rule fl_nonneg) simp
    then have "0 \<le> fl (x * 300)" using that by (intro fl_nonneg) simp
    then show ?thesis by (auto simp: round_half_even_def Let_def)
  qed
  moreover have "0 \<le> k * int a div int b" if "0 \<le> k" for k a b
    using that by (cases "b = 0") (auto simp: pos_imp_zdiv_nonneg_iff)
  then have "0 \<le> 8000 + 2000 * int a div int b" "0 \<le> 5000 + 5000 * int a div int b" for a b
    by (simp_all add: add_nonneg_nonneg)
  ultimately show ?thesis using assms
    by (auto simp: match_quality_def Let_def res_simps split: if_split_asm)
qed

lemma match_quality_exact:
  assumes "pg_trim f = f" "f \<noteq> []" shows "match_quality pt f (pg_lower f) = Inr 10000"
  using assms by (simp add: match_quality_def Let_def pg_lower_trim) (simp add: pg_lower_def)

lemma token_score_pos:
  assumes "token_score pt ts f = Inr n" and "t \<in> set ts" and "match_quality pt f t = Inr m" "0 < m"
  shows "0 < n"
proof -
  obtain qs where qs: "rmap (match_quality pt f) ts = Inr qs" "n = sum_list qs"
    using assms(1) by (auto simp: token_score_def res_simps)
  have "list_all2 (\<lambda>t q. match_quality pt f t = Inr q) ts qs" using qs(1) by (simp add: rmap_Inr_iff)
  then obtain "\<forall>q\<in>set qs. 0 \<le> q" "m \<in> set qs" using assms(2,3) match_quality_nonneg
    by (fastforce simp: list_all2_conv_all_nth in_set_conv_nth)
  then have "m \<le> sum_list qs" by (intro member_le_sum_list) auto
  then show ?thesis using assms(4) qs(2) by simp
qed


lemma candidate_by_name:
  assumes "is_candidate pt query c = Inr b" and "t \<in> set (tokens query)" and "t \<in> set (name_fields c)"
  shows b
proof -
  have "foldr (\<lambda>t r. ror (token_matches c t) r) ts (Inr False) = Inr b \<Longrightarrow> t \<in> set ts \<Longrightarrow> b" for ts b
    using assms(3) by (induction ts arbitrary: b) (auto simp: ror_def res_simps token_matches_def split: if_split_asm)
  then show ?thesis using assms(1,2) by (auto simp: is_candidate_def split: if_split_asm)
qed

lemma search_rows_facts:
  assumes "search_rows pt plan d query limit = Inr rows"
  shows "length rows \<le> limit" "sorted_wrt (\<lambda>r s. sr_relevance s \<le> sr_relevance r) rows"
    "\<forall>r\<in>set rows. sr_contract r \<in> set (contracts d) \<and> \<not> c_deprecated (sr_contract r)"
proof -
  obtain rs where rs: "rcollect (\<lambda>c. if c_deprecated c then Inr None else rbind (is_candidate pt query c) (\<lambda>b.
        if b then rbind (scored_row pt query c) (\<lambda>r. Inr (Some r)) else Inr None)) (contracts d) = Inr rs"
    and rows: "rows = take limit (sort_key (\<lambda>r. - sr_relevance r) (sort_key plan (filter relevant rs)))"
    using assms by (auto simp: search_rows_def res_simps)
  show "length rows \<le> limit" by (simp add: rows)
  have "sorted (map (\<lambda>r. - sr_relevance r) rows)"
    by (simp add: rows take_map [symmetric] sorted_wrt_take)
  then show "sorted_wrt (\<lambda>r s. sr_relevance s \<le> sr_relevance r) rows"
    by (simp add: sorted_wrt_map)
  have "sr_contract r \<in> set (contracts d) \<and> \<not> c_deprecated (sr_contract r)" if "r \<in> set rs" for r
    using that rcollect_set [OF rs, of r]
    by (auto simp: res_simps scored_row_def Let_def split: if_split_asm)
  then show "\<forall>r\<in>set rows. sr_contract r \<in> set (contracts d) \<and> \<not> c_deprecated (sr_contract r)"
    unfolding rows by (auto dest!: in_set_takeD)
qed

lemma rcollect_defined: "rcollect f xs = Inr ys \<Longrightarrow> x \<in> set xs \<Longrightarrow> \<exists>w. f x = Inr w"
  by (induction xs arbitrary: ys) (auto simp: res_simps)

text \<open>A contract with a name among the tokens is relevant, and a relevant row is left out only when the limit is used
  up by rows that are at least as relevant.\<close>

lemma search_rows_complete:
  assumes "search_rows pt plan d query limit = Inr rows"
    and "c \<in> set (contracts d)" "\<not> c_deprecated c" and "pg_lower f \<in> set (tokens query)"
    and "f \<in> {c_asset c, c_section c, c_quote c}" "f \<noteq> []" "pg_trim f = f"
  shows "\<exists>r. scored_row pt query c = Inr r \<and> sr_contract r = c \<and>
    (r \<in> set rows \<or> length rows = limit \<and> (\<forall>s\<in>set rows. sr_relevance r \<le> sr_relevance s))"
proof -
  let ?f = "\<lambda>c. if c_deprecated c then Inr None else rbind (is_candidate pt query c) (\<lambda>b.
        if b then rbind (scored_row pt query c) (\<lambda>r. Inr (Some r)) else Inr None)"
  obtain rs where rs: "rcollect ?f (contracts d) = Inr rs"
    and rows: "rows = take limit (sort_key (\<lambda>r. - sr_relevance r) (sort_key plan (filter relevant rs)))"
    using assms(1) by (auto simp: search_rows_def res_simps)
  define xs where "xs = sort_key (\<lambda>r. - sr_relevance r) (sort_key plan (filter relevant rs))"
  have "\<exists>w. ?f c = Inr w" using rcollect_defined [OF rs assms(2)] .
  then obtain b where b: "is_candidate pt query c = Inr b" using assms(3) by (auto simp: res_simps)
  have "pg_lower f \<in> set (name_fields c)" using assms(5) by (auto simp: name_fields_def)
  then have b using b by (rule candidate_by_name [OF _ assms(4), rotated])
  with b \<open>\<exists>w. ?f c = Inr w\<close> assms(3) obtain r where r: "?f c = Inr (Some r)" "scored_row pt query c = Inr r"
    by (auto simp: res_simps)
  have "r \<in> set rs" using rcollect_set [OF rs] assms(2) r(1) by blast
  moreover have sc: "sr_contract r = c" "token_score pt (tokens query) (c_asset c) = Inr (sr_asset r)"
      "token_score pt (tokens query) (c_section c) = Inr (sr_section r)"
      "token_score pt (tokens query) (c_quote c) = Inr (sr_quote r)"
    using r(2) by (auto simp: scored_row_def res_simps Let_def)
  moreover have "0 < n" if "token_score pt (tokens query) f = Inr n" for n
    by (rule token_score_pos [OF that assms(4) match_quality_exact [OF assms(7,6)]]) simp
  then have "relevant r" using assms(5) sc(2-4) by (auto simp: relevant_def)
  ultimately have "r \<in> set xs" by (simp add: xs_def)
  then have "r \<in> set (take limit xs) \<or> r \<in> set (drop limit xs)" by (metis Un_iff append_take_drop_id set_append)
  then have "r \<in> set rows \<or> length rows = limit \<and> (\<forall>s\<in>set rows. sr_relevance r \<le> sr_relevance s)"
  proof
    assume left: "r \<in> set (drop limit xs)"
    then have "limit < length xs" by (cases "limit < length xs") auto
    moreover have "sorted (map (\<lambda>r. - sr_relevance r) xs)" unfolding xs_def by (rule sorted_sort_key)
    then have "sorted_wrt (\<lambda>r s. sr_relevance s \<le> sr_relevance r) (take limit xs @ drop limit xs)"
      by (simp add: sorted_wrt_map)
    then have "\<forall>s\<in>set (take limit xs). sr_relevance r \<le> sr_relevance s" using left by (simp only: sorted_wrt_append) blast
    ultimately show ?thesis by (simp add: rows xs_def)
  qed (simp add: rows xs_def)
  then show ?thesis using r(2) sc(1) by blast
qed

section \<open>Tokens\<close>

lemma split_runs_concat: "concat (split_runs P s) = filter (\<lambda>x. \<not> P x) s"
proof (induction P s rule: split_runs.induct)
  case (2 P x xs)
  have "filter (\<lambda>x. \<not> P x) (dropWhile P xs) = filter (\<lambda>x. \<not> P x) xs" for xs :: string
    by (induction xs) auto
  then show ?case using 2 by (auto split: list.splits)
qed simp

lemma split_runs_none: "(\<And>x. x \<in> set s \<Longrightarrow> \<not> P x) \<Longrightarrow> split_runs P s = [s]"
  by (induction s) auto

lemma strip_trimmed: "pg_trim (py_strip s) = py_strip s"
proof -
  have d: "dropWhile (\<lambda>c. c = CHR '' '') t = t" if "t = [] \<or> \<not> is_space (hd t)" for t
    using that by (cases t) (auto simp: is_space_def)
  define u where "u = dropWhile is_space (rev (dropWhile is_space s))"
  have u: "u = [] \<or> \<not> is_space (hd u)" unfolding u_def by (metis hd_dropWhile)
  have r: "rev u = [] \<or> \<not> is_space (hd (rev u))"
  proof (cases "u = []")
    case False
    obtain w where w: "rev (dropWhile is_space s) = w @ u" unfolding u_def by (metis takeWhile_dropWhile_id)
    then have "dropWhile is_space s = rev u @ rev w" by (metis rev_append rev_rev_ident)
    then have "hd (rev u) = hd (dropWhile is_space s)" "dropWhile is_space s \<noteq> []" using False by simp_all
    then show ?thesis by (metis hd_dropWhile)
  qed simp
  have "py_strip s = rev u" by (simp add: py_strip_def u_def)
  then show ?thesis by (simp add: pg_trim_def d [OF u] d [OF r])
qed

section \<open>Properties\<close>

text \<open>C28. A successful search returns at most \<open>limit\<close> contracts, all active, in falling order of relevance. An active
  contract one of whose names (asset, section, quote, without spaces at the ends) is a token of the query in any
  case is among them, unless the limit is used up by contracts that are at least as relevant. The tokens
  are what remains of the query in lower case between hyphens, slashes and letters s: these are the only
  characters that are lost, and a query without them is one token, with the spaces in it. So the escape in the
  pattern is lost, spaces do not separate words, and a name such as USDT is cut into pieces and never
  is a token.\<close>

theorem search_exact:
  assumes "search_contracts pt plan d query limit debug = Inr rs"
  shows "length rs \<le> limit \<and> sorted_wrt (\<lambda>r s. res_relevance s \<le> res_relevance r) rs \<and>
    (\<forall>r\<in>set rs. \<exists>c\<in>set (contracts d). \<not> c_deprecated c \<and> res_id r = c_id c \<and> res_asset r = c_asset c \<and>
      res_section r = c_section c \<and> res_quote r = c_quote c) \<and>
    (\<forall>c\<in>set (contracts d). \<forall>f\<in>{c_asset c, c_section c, c_quote c}.
      \<not> c_deprecated c \<and> f \<noteq> [] \<and> pg_trim f = f \<and> pg_lower f \<in> set (tokens (py_strip query)) \<longrightarrow>
      (\<exists>r. scored_row pt (py_strip query) c = Inr r \<and>
        (c_id c \<in> res_id ` set rs \<or> length rs = limit \<and> (\<forall>s\<in>set rs. sr_relevance r \<le> res_relevance s)))) \<and>
    (\<forall>t\<in>set (tokens (py_strip query)). CHR ''-'' \<notin> set t \<and> CHR ''/'' \<notin> set t \<and> CHR ''s'' \<notin> set t) \<and>
    concat (tokens (py_strip query)) = filter (\<lambda>x. x \<notin> {CHR ''-'', CHR ''/'', CHR ''s''}) (pg_lower (py_strip query)) \<and>
    (py_strip query \<noteq> [] \<and> {CHR ''-'', CHR ''/'', CHR ''s''} \<inter> set (pg_lower (py_strip query)) = {} \<longrightarrow>
      tokens (py_strip query) = [pg_lower (py_strip query)])"
proof -
  let ?q = "py_strip query"
  have tok: "tokens ?q = (if ?q = [] then [] else split_runs token_separator (pg_lower ?q))"
    by (simp add: tokens_def strip_trimmed)
  have "\<not> token_separator x" if "t \<in> set (tokens ?q)" "x \<in> set t" for t x
    using that token_chars by (auto simp: tok split: if_split_asm)
  then have "\<forall>t\<in>set (tokens ?q). CHR ''-'' \<notin> set t \<and> CHR ''/'' \<notin> set t \<and> CHR ''s'' \<notin> set t"
    by (auto simp: token_separator_def)
  moreover have "concat (tokens ?q) = filter (\<lambda>x. x \<notin> {CHR ''-'', CHR ''/'', CHR ''s''}) (pg_lower ?q)"
    by (auto simp: tok split_runs_concat token_separator_def pg_lower_def)
  moreover have "tokens ?q = [pg_lower ?q]" if "?q \<noteq> []" "{CHR ''-'', CHR ''/'', CHR ''s''} \<inter> set (pg_lower ?q) = {}"
    unfolding tok using that by (auto simp: token_separator_def intro!: split_runs_none)
  moreover have "length rs \<le> limit \<and> sorted_wrt (\<lambda>r s. res_relevance s \<le> res_relevance r) rs \<and>
    (\<forall>r\<in>set rs. \<exists>c\<in>set (contracts d). \<not> c_deprecated c \<and> res_id r = c_id c \<and> res_asset r = c_asset c \<and>
      res_section r = c_section c \<and> res_quote r = c_quote c) \<and>
    (\<forall>c\<in>set (contracts d). \<forall>f\<in>{c_asset c, c_section c, c_quote c}.
      \<not> c_deprecated c \<and> f \<noteq> [] \<and> pg_trim f = f \<and> pg_lower f \<in> set (tokens ?q) \<longrightarrow>
      (\<exists>r. scored_row pt ?q c = Inr r \<and>
        (c_id c \<in> res_id ` set rs \<or> length rs = limit \<and> (\<forall>s\<in>set rs. sr_relevance r \<le> res_relevance s))))"
  proof (cases "?q = []")
    case True
    have "tokens [] = []" by (simp add: tokens_def pg_trim_def)
    then show ?thesis using assms True by (simp add: search_contracts_def)
  next
    case False
    obtain rows where rows: "search_rows pt plan d ?q limit = Inr rows" and rs: "rs = map (search_result_of debug) rows"
      using assms False by (auto simp: search_contracts_def res_simps)
    note f = search_rows_facts [OF rows]
    have res: "res_relevance (search_result_of debug r) = sr_relevance r" "res_id (search_result_of debug r) = c_id (sr_contract r)" for r
      by (simp_all add: search_result_of_def Let_def)
    have "\<exists>r. scored_row pt ?q c = Inr r \<and>
        (c_id c \<in> res_id ` set rs \<or> length rs = limit \<and> (\<forall>s\<in>set rs. sr_relevance r \<le> res_relevance s))"
      if h: "c \<in> set (contracts d)" "x \<in> {c_asset c, c_section c, c_quote c}" "\<not> c_deprecated c" "x \<noteq> []" "pg_trim x = x"
        "pg_lower x \<in> set (tokens ?q)" for c x
    proof -
      obtain r where r: "scored_row pt ?q c = Inr r" "sr_contract r = c"
        "r \<in> set rows \<or> length rows = limit \<and> (\<forall>s\<in>set rows. sr_relevance r \<le> sr_relevance s)"
        using search_rows_complete [OF rows h(1,3,6,2,4,5)] by blast
      then have "c_id c \<in> res_id ` set rs \<or> length rs = limit \<and> (\<forall>s\<in>set rs. sr_relevance r \<le> res_relevance s)"
        unfolding rs by (auto simp: res image_image)
      then show ?thesis using r(1) by blast
    qed
    moreover have "\<forall>r\<in>set rs. \<exists>c\<in>set (contracts d). \<not> c_deprecated c \<and> res_id r = c_id c \<and> res_asset r = c_asset c \<and>
        res_section r = c_section c \<and> res_quote r = c_quote c"
      using f(3) by (auto simp: rs search_result_of_def Let_def)
    moreover have "sorted_wrt (\<lambda>r s. res_relevance s \<le> res_relevance r) rs" "length rs \<le> limit"
      using f(1,2) by (simp_all add: rs sorted_wrt_map search_result_of_def Let_def)
    ultimately show ?thesis by blast
  qed
  ultimately show ?thesis by blast
qed

definition w_text :: pg_text where
  "w_text = \<lparr>pt_similarity = (\<lambda>a b. if a = b then 1 else 0), pt_regex = (\<lambda>p t. Inr False)\<rparr>"

definition w_search_db :: db where
  "w_search_db = \<lparr>sections = [], assets = [], quotes = [], contracts = map (\<lambda>(i, a, s, q, dep). \<lparr>c_id = i, c_asset = a,
       c_section = s, c_interval = 8, c_quote = q, c_special = JObj [], c_deprecated = dep\<rparr>)
       [(1, ''ETH'', ''okx'', ''USDC'', False), (2, ''BTC'', ''okx'', ''USDT'', True), (3, ''BTC'', ''bybit'', ''USDT'', False)],
     history_states = [], historical_points = [], live_points = []\<rparr>"

text \<open>\<open>OKX\<close> finds the active contract of the section; \<open>btc usdt\<close> is cut at the letter s, not at the space.\<close>

theorem search_exact_witness:
  "(\<exists>rs. search_contracts w_text (\<lambda>_. 0) w_search_db '' OKX '' 20 False = Inr rs \<and> 1 \<in> res_id ` set rs \<and> 2 \<notin> res_id ` set rs) \<and>
   tokens ''btc usdt'' = [''btc u'', ''dt'']"
proof -
  let ?r = "search_contracts w_text (\<lambda>_. 0) w_search_db '' OKX '' 20 False"
  let ?c = "contracts w_search_db ! 0"
  have "isl ?r = False" by code_simp
  then obtain rs where rs: "?r = Inr rs" by (cases ?r) auto
  note h = search_exact [OF rs, THEN conjunct2, THEN conjunct2]
  have len: "length (case ?r of Inr rs \<Rightarrow> rs) < 20" by code_simp
  then have len: "length rs \<noteq> 20" unfolding rs by simp
  have c: "?c \<in> set (contracts w_search_db)" "c_section ?c \<in> {c_asset ?c, c_section ?c, c_quote ?c}"
    "\<not> c_deprecated ?c" "c_section ?c \<noteq> []" "pg_trim (c_section ?c) = c_section ?c"
    "pg_lower (c_section ?c) \<in> set (tokens (py_strip '' OKX ''))" "c_id ?c = 1" by code_simp+
  from bspec [OF bspec [OF h [THEN conjunct2, THEN conjunct1] c(1)] c(2)] c(3-6) len
  have "c_id ?c \<in> res_id ` set rs" by blast
  then have "1 \<in> res_id ` set rs" by (simp only: c(7))
  moreover have dep: "\<forall>c\<in>set (contracts w_search_db). c_id c = 2 \<longrightarrow> c_deprecated c" by code_simp
  have "2 \<notin> res_id ` set rs"
  proof
    assume "2 \<in> res_id ` set rs"
    then obtain r where r: "r \<in> set rs" "2 = res_id r" by (rule imageE)
    from bspec [OF h [THEN conjunct1] r(1)] obtain x where
      x: "x \<in> set (contracts w_search_db)" "\<not> c_deprecated x" "res_id r = c_id x" by blast
    have "c_deprecated x" using bspec [OF dep x(1)] x(3) r(2) by simp
    then show False using x(2) by blast
  qed
  moreover have "tokens ''btc usdt'' = [''btc u'', ''dt'']" by code_simp
  ultimately show ?thesis using rs by blast
qed

end
