(* ===== verification/Services.thy ===== *)
theory Services
  imports Registry Adapter
begin

text \<open>
  The process-wide services of the tracker: the debounced refresher of the materialized view
  (\<open>tracker/materialized_view_refresher.py\<close>), the ranking update of
  \<open>tracker/services/asset_ranking.py\<close>, and the lifecycle and the retries of the shared HTTP client
  (\<open>tracker/infrastructure/http_client.py\<close>; \<open>infrastructure/http_client.py\<close> is its copy for
  ingestion). \<open>time.time()\<close> is a double.
\<close>

section \<open>The materialized view refresher\<close>

record refresher =
  debounce_seconds :: int
  last_signal_time :: "rat option"
  pending_refresh :: bool

definition new_refresher :: "int \<Rightarrow> refresher" where
  "new_refresher debounce = \<lparr>debounce_seconds = debounce, last_signal_time = None, pending_refresh = False\<rparr>"

definition signal_contracts_changed :: "rat \<Rightarrow> refresher \<Rightarrow> refresher" where
  "signal_contracts_changed now r = r\<lparr>last_signal_time := Some now, pending_refresh := True\<rparr>"

definition refresh_due :: "rat \<Rightarrow> refresher \<Rightarrow> bool" where
  "refresh_due now r = (if \<not> pending_refresh r then False else case last_signal_time r of
     None \<Rightarrow> False | Some t \<Rightarrow> fl (now - t) \<ge> of_int (debounce_seconds r))"

text \<open>\<open>refreshed\<close> is the outcome of \<open>REFRESH MATERIALIZED VIEW\<close>, and \<open>meanwhile\<close> what the other
  coroutines do to the refresher while the statement is awaited. The flag tells whether the
  statement was run.\<close>

definition check_and_refresh_if_needed ::
  "rat \<Rightarrow> unit res \<Rightarrow> (refresher \<Rightarrow> refresher) \<Rightarrow> refresher \<Rightarrow> bool \<times> refresher" where
  "check_and_refresh_if_needed now refreshed meanwhile r =
     (if \<not> refresh_due now r then (False, r)
      else let r' = meanwhile r in
        (True, case refreshed of Inl e \<Rightarrow> r'
           | Inr _ \<Rightarrow> r'\<lparr>pending_refresh := False, last_signal_time := None\<rparr>))"

text \<open>The refresher among registry runs that commit changes and then signal them. The view shows the
  contracts of a version of the database; a refresh reads the version at its start.\<close>

record mv_world =
  mv_refresher :: refresher
  db_version :: nat
  view_version :: nat
  unsignalled :: nat

datatype mv_event = Committed | Signalled rat

fun apply_mv_event :: "mv_event \<Rightarrow> mv_world \<Rightarrow> mv_world" where
  "apply_mv_event Committed w = w\<lparr>db_version := Suc (db_version w), unsignalled := Suc (unsignalled w)\<rparr>"
| "apply_mv_event (Signalled now) w = w\<lparr>unsignalled := unsignalled w - 1,
     mv_refresher := signal_contracts_changed now (mv_refresher w)\<rparr>"

definition mv_check :: "rat \<Rightarrow> unit res \<Rightarrow> mv_event list \<Rightarrow> mv_world \<Rightarrow> mv_world" where
  "mv_check now refreshed evs w =
     (let w' = fold apply_mv_event evs w in
      case check_and_refresh_if_needed now refreshed (\<lambda>_. mv_refresher w') (mv_refresher w) of
        (False, r) \<Rightarrow> w
      | (True, r) \<Rightarrow> w'\<lparr>mv_refresher := r,
          view_version := (case refreshed of Inl e \<Rightarrow> view_version w' | Inr _ \<Rightarrow> db_version w)\<rparr>)"

text \<open>\<open>quiet\<close>: no signal arrives while a refresh is awaited.\<close>

inductive mv_reach :: "bool \<Rightarrow> int \<Rightarrow> mv_world \<Rightarrow> bool" where
  mv_init: "mv_reach quiet debounce \<lparr>mv_refresher = new_refresher debounce, db_version = v, view_version = v, unsignalled = 0\<rparr>"
| mv_event: "mv_reach quiet debounce w \<Longrightarrow> mv_reach quiet debounce (apply_mv_event e w)"
| mv_check: "mv_reach quiet debounce w \<Longrightarrow> (quiet \<Longrightarrow> list_all (\<lambda>e. e = Committed) evs) \<Longrightarrow>
     mv_reach quiet debounce (mv_check now refreshed evs w)"

section \<open>Asset ranking\<close>

text \<open>\<open>s.upper()\<close> on ASCII.\<close>

definition char_upper :: "char \<Rightarrow> char" where
  "char_upper c = (let n = of_char c :: nat in if 97 \<le> n \<and> n \<le> 122 then char_of (n - 32) else c)"

definition str_upper :: "string \<Rightarrow> string" where
  "str_upper s = map char_upper s"

definition coingecko_top250 :: "api \<Rightarrow> json list res" where
  "coingecko_top250 api = rbind (api_get api 0 ''https://api.coingecko.com/api/v3/coins/markets''
     [(''vs_currency'', JStr ''usd''), (''order'', JStr ''market_cap_desc''), (''per_page'', JStr ''250''),
      (''page'', JStr ''1''), (''sparkline'', JStr ''false'')])
     (\<lambda>data. if is_arr data then jiter data else Inr [])"

definition coin_rank :: "json \<Rightarrow> (string \<times> json) option res" where
  "coin_rank coin = rbind (jget coin ''symbol'' JNull) (\<lambda>s. if \<not> truthy s then Inr None else
     rbind (jget coin ''market_cap_rank'' JNull) (\<lambda>r. if \<not> truthy r then Inr None else
     rbind (jtext s) (\<lambda>s. Inr (Some (str_upper s, r)))))"

text \<open>A rank that is no integer is rejected by the column.\<close>

definition update_asset_rank :: "(string, json) dict \<Rightarrow> asset_row \<Rightarrow> asset_row res" where
  "update_asset_rank symbol_to_rank a = (case map_of symbol_to_rank (str_upper (a_name a)) of
     None \<Rightarrow> Inr (if a_rank a \<noteq> None then a\<lparr>a_rank := None\<rparr> else a)
   | Some v \<Rightarrow> rbind (jinteger v) (\<lambda>rank.
       Inr (if Some rank \<noteq> a_rank a then a\<lparr>a_rank := Some rank\<rparr> else a)))"

definition update_rankings :: "api \<Rightarrow> unit tx" where
  "update_rankings api d = rbind (coingecko_top250 api) (\<lambda>coin_data.
     if coin_data = [] then Inr ((), d)
     else rbind (rcollect coin_rank coin_data) (\<lambda>ps.
       rbind (rmap (update_asset_rank (dict_of ps)) (assets d)) (\<lambda>as. Inr ((), d\<lparr>assets := as\<rparr>))))"

section \<open>The HTTP client\<close>

text \<open>The module-level container: the connection limit of the open client, if any.\<close>

type_synonym http_client = "nat option"

definition http_startup :: "int \<Rightarrow> http_client \<Rightarrow> unit res \<times> http_client" where
  "http_startup max_connections c =
     (if c \<noteq> None then (Inl RuntimeError, c)
      else if max_connections < 1 then (Inl ValueError, c)
      else (Inr (), Some (nat max_connections)))"

definition http_shutdown :: "http_client \<Rightarrow> unit res \<times> http_client" where
  "http_shutdown c = (Inr (), None)"

definition http_client_property :: "http_client \<Rightarrow> nat res" where
  "http_client_property c = (case c of None \<Rightarrow> Inl RuntimeError | Some n \<Rightarrow> Inr n)"

text \<open>\<open>@retry(...)\<close>: attempt \<open>k\<close> returns \<open>attempt k\<close>; \<open>elapsed k\<close> is the time since the first attempt
  began, in seconds, when it fails. Only HTTP errors are retried, and the last one is re-raised.\<close>

fun http_retry :: "nat \<Rightarrow> (nat \<Rightarrow> json res) \<Rightarrow> (nat \<Rightarrow> rat) \<Rightarrow> nat \<Rightarrow> json res option" where
  "http_retry 0 attempt elapsed k = None"
| "http_retry (Suc fuel) attempt elapsed k = (case attempt k of
     Inl e \<Rightarrow> if e = HTTPError \<and> elapsed k < 60 then http_retry fuel attempt elapsed (Suc k) else Some (Inl e)
   | Inr v \<Rightarrow> Some (Inr v))"

definition http_get :: "nat \<Rightarrow> http_client \<Rightarrow> (nat \<Rightarrow> json res) \<Rightarrow> (nat \<Rightarrow> rat) \<Rightarrow> json res option" where
  "http_get fuel c send elapsed =
     http_retry fuel (\<lambda>k. rbind (http_client_property c) (\<lambda>_. send k)) elapsed 0"

definition http_post :: "nat \<Rightarrow> http_client \<Rightarrow> (nat \<Rightarrow> json res) \<Rightarrow> (nat \<Rightarrow> rat) \<Rightarrow> json res option" where
  "http_post fuel c send elapsed =
     http_retry fuel (\<lambda>k. rbind (http_client_property c) (\<lambda>_. send k)) elapsed 0"

text \<open>The client of live ingestion, a module of its own.\<close>

definition ing_http_startup :: "int \<Rightarrow> http_client \<Rightarrow> unit res \<times> http_client" where
  "ing_http_startup max_connections c =
     (if c \<noteq> None then (Inl RuntimeError, c)
      else if max_connections < 1 then (Inl ValueError, c)
      else (Inr (), Some (nat max_connections)))"

definition ing_http_shutdown :: "http_client \<Rightarrow> unit res \<times> http_client" where
  "ing_http_shutdown c = (Inr (), None)"

definition ing_http_client_property :: "http_client \<Rightarrow> nat res" where
  "ing_http_client_property c = (case c of None \<Rightarrow> Inl RuntimeError | Some n \<Rightarrow> Inr n)"

definition ing_http_get :: "nat \<Rightarrow> http_client \<Rightarrow> (nat \<Rightarrow> json res) \<Rightarrow> (nat \<Rightarrow> rat) \<Rightarrow> json res option" where
  "ing_http_get fuel c send elapsed =
     http_retry fuel (\<lambda>k. rbind (ing_http_client_property c) (\<lambda>_. send k)) elapsed 0"

definition ing_http_post :: "nat \<Rightarrow> http_client \<Rightarrow> (nat \<Rightarrow> json res) \<Rightarrow> (nat \<Rightarrow> rat) \<Rightarrow> json res option" where
  "ing_http_post fuel c send elapsed =
     http_retry fuel (\<lambda>k. rbind (ing_http_client_property c) (\<lambda>_. send k)) elapsed 0"

lemma ing_http_same: "ing_http_startup = http_startup" "ing_http_shutdown = http_shutdown" "ing_http_get = http_get"
    "ing_http_post = http_post"
  by (intro ext; simp add: ing_http_startup_def http_startup_def ing_http_shutdown_def http_shutdown_def ing_http_get_def
      ing_http_post_def http_get_def http_post_def ing_http_client_property_def http_client_property_def)+


section \<open>Lemmas\<close>

lemma commits_only:
  assumes "list_all (\<lambda>e. e = Committed) evs"
  shows "fold apply_mv_event evs w = w\<lparr>db_version := db_version w + length evs, unsignalled := unsignalled w + length evs\<rparr>"
  using assms by (induction evs arbitrary: w) auto

lemma not_due_check: "\<not> refresh_due now (mv_refresher w) \<Longrightarrow> mv_check now refreshed evs w = w"
  by (simp add: mv_check_def check_and_refresh_if_needed_def Let_def)

text \<open>The last pair of a key wins.\<close>

lemma map_of_rev_None: "map_of (rev ps) k = None \<longleftrightarrow> k \<notin> fst ` set ps"
  by (metis dom_map_of_conv_image_fst domIff set_rev)

lemma update_asset_rank_Inr:
  "update_asset_rank t a = Inr b \<longleftrightarrow> (\<exists>r. b = a\<lparr>a_rank := r\<rparr> \<and>
     (case map_of t (str_upper (a_name a)) of None \<Rightarrow> r = None | Some v \<Rightarrow> \<exists>n. jinteger v = Inr n \<and> r = Some n))"
proof (cases "map_of t (str_upper (a_name a))")
  case None
  then show ?thesis by (auto simp: update_asset_rank_def)
next
  case (Some v)
  then show ?thesis by (auto simp: update_asset_rank_def res_simps)
qed

section \<open>Properties\<close>

text \<open>C22. The refresher never forgets a change: as long as no signal arrives while a refresh is awaited,
  in every reachable state in which the view is out of date, a refresh is pending or a registry run
  has yet to signal its change; and a due check whose refresh succeeds brings the view up to date
  and clears the pending flag, while a failed one keeps it for a retry.\<close>

theorem view_refresh_invariant:
  assumes "mv_reach True debounce w"
  shows "view_version w \<le> db_version w \<and>
    (view_version w = db_version w \<or> pending_refresh (mv_refresher w) \<or> 0 < unsignalled w) \<and>
    (pending_refresh (mv_refresher w) \<longleftrightarrow> last_signal_time (mv_refresher w) \<noteq> None) \<and>
    (refresh_due now (mv_refresher w) \<longrightarrow>
       view_version (mv_check now (Inr ()) [] w) = db_version w \<and>
       \<not> pending_refresh (mv_refresher (mv_check now (Inr ()) [] w)) \<and> mv_check now (Inl e) [] w = w)"
proof -
  have "view_version w \<le> db_version w \<and>
      (pending_refresh (mv_refresher w) \<or> db_version w - view_version w \<le> unsignalled w) \<and>
      (pending_refresh (mv_refresher w) \<longleftrightarrow> last_signal_time (mv_refresher w) \<noteq> None)"
    using assms
  proof (induction True debounce w rule: mv_reach.induct)
    case (mv_init debounce v)
    show ?case by (simp add: new_refresher_def)
  next
    case (mv_event debounce w e)
    then show ?case by (cases e) (auto simp: signal_contracts_changed_def)
  next
    case (mv_check debounce w evs now refreshed)
    show ?case
    proof (cases "refresh_due now (mv_refresher w)")
      case False
      have "mv_check now refreshed evs w = w" by (rule not_due_check [OF False])
      show ?thesis unfolding \<open>mv_check now refreshed evs w = w\<close> by (rule mv_check(2))
    next
      case True
      then have "pending_refresh (mv_refresher w)" by (auto simp: refresh_due_def split: if_splits)
      then show ?thesis using mv_check True
        by (cases refreshed) (simp_all add: mv_check_def check_and_refresh_if_needed_def Let_def commits_only)
    qed
  qed
  then show ?thesis
    by (auto simp: mv_check_def check_and_refresh_if_needed_def Let_def)
qed

theorem view_refresh_invariant_witness:
  "\<exists>w. view_version w < db_version w \<and> pending_refresh (mv_refresher w) \<and>
     view_version (mv_check 1000 (Inr ()) [] w) = db_version w"
proof -
  let ?i = "\<lparr>mv_refresher = new_refresher 10, db_version = 0, view_version = 0, unsignalled = 0\<rparr>"
  let ?w = "apply_mv_event (Signalled 5) (apply_mv_event Committed ?i)"
  have r: "mv_reach True 10 ?w" by (intro mv_reach.intros)
  have "refresh_due 1000 (mv_refresher ?w)" by code_simp
  then have "view_version (mv_check 1000 (Inr ()) [] ?w) = db_version ?w"
    using view_refresh_invariant [OF r] by blast
  moreover have "view_version ?w < db_version ?w" "pending_refresh (mv_refresher ?w)" by code_simp+
  ultimately show ?thesis by blast
qed

text \<open>A signal can be lost: a change that is committed and signalled while a refresh of an earlier
  change is awaited is erased by the completion of that refresh. The refresher then reaches a state
  in which the view is out of date, every change has been signalled, and no check, whenever it runs
  and whatever happens, refreshes the view.\<close>

theorem signal_during_refresh_is_lost:
  "\<exists>w. mv_reach False 10 w \<and> view_version w < db_version w \<and> unsignalled w = 0 \<and>
     (\<forall>now refreshed evs. mv_check now refreshed evs w = w)"
proof -
  let ?i = "\<lparr>mv_refresher = new_refresher 10, db_version = 0, view_version = 0, unsignalled = 0\<rparr>"
  let ?p = "apply_mv_event (Signalled 5) (apply_mv_event Committed ?i)"
  let ?w = "mv_check 1000 (Inr ()) [Committed, Signalled 1000] ?p"
  have "mv_reach False 10 ?w" by (intro mv_reach.intros) simp
  moreover have "view_version ?w < db_version ?w" "unsignalled ?w = 0" "\<not> pending_refresh (mv_refresher ?w)"
    by code_simp+
  moreover from this have "mv_check now refreshed evs ?w = ?w" for now refreshed evs
    by (intro not_due_check) (simp add: refresh_due_def)
  ultimately show ?thesis by blast
qed

text \<open>The ranking update is a function of CoinGecko's answer alone: a successful update with a
  non-empty answer gives every asset the rank of the last listed coin with its symbol, upper-cased,
  or none when no ranked coin has it; it touches no other column and no other table, and repeating
  it with the same answer changes nothing. So of two coins with one symbol the later one, which has
  the lower market capitalization, decides.\<close>

theorem ranking_follows_coingecko:
  assumes "update_rankings api d = Inr ((), d')" and "coingecko_top250 api = Inr coins" and "coins \<noteq> []"
    and "rcollect coin_rank coins = Inr ranked"
  shows "(\<exists>as. d' = d\<lparr>assets := as\<rparr> \<and> list_all2 (\<lambda>a b. b = a\<lparr>a_rank := a_rank b\<rparr> \<and>
      (case map_of (rev ranked) (str_upper (a_name a)) of None \<Rightarrow> a_rank b = None
       | Some v \<Rightarrow> \<exists>n. jinteger v = Inr n \<and> a_rank b = Some n)) (assets d) as) \<and>
    update_rankings api d' = Inr ((), d')"
proof -
  let ?t = "dict_of ranked"
  from assms obtain as where as: "rmap (update_asset_rank ?t) (assets d) = Inr as" "d' = d\<lparr>assets := as\<rparr>"
    by (auto simp: update_rankings_def res_simps)
  then have l: "list_all2 (\<lambda>a b. update_asset_rank ?t a = Inr b) (assets d) as" by (simp add: rmap_Inr_iff)
  have stable: "update_asset_rank ?t b = Inr b" if "update_asset_rank ?t a = Inr b" for a b
    using that by (auto simp: update_asset_rank_Inr intro: exI [of _ "a_rank b"])
  have "list_all2 (\<lambda>a b. update_asset_rank ?t a = Inr b) as as"
    using l stable by (auto simp: list_all2_conv_all_nth)
  then have "rmap (update_asset_rank ?t) as = Inr as" by (simp add: rmap_Inr_iff)
  then have "update_rankings api d' = Inr ((), d')" using assms(2-4) as(2) by (simp add: update_rankings_def)
  moreover have "list_all2 (\<lambda>a b. b = a\<lparr>a_rank := a_rank b\<rparr> \<and>
      (case map_of (rev ranked) (str_upper (a_name a)) of None \<Rightarrow> a_rank b = None
       | Some v \<Rightarrow> \<exists>n. jinteger v = Inr n \<and> a_rank b = Some n)) (assets d) as"
    using l by (rule list_all2_mono) (auto simp: update_asset_rank_Inr dict_simps split: option.splits)
  ultimately show ?thesis using as(2) by blast
qed

definition w_coins_api :: api where
  "w_coins_api k r = Inr (JArr
     [JObj [(''symbol'', JStr ''btc''), (''market_cap_rank'', JInt 1)],
      JObj [(''symbol'', JStr ''eth''), (''market_cap_rank'', JInt 2)],
      JObj [(''symbol'', JStr ''btc''), (''market_cap_rank'', JInt 240)]])"

definition w_ranked_db :: db where
  "w_ranked_db = \<lparr>sections = [], assets = [\<lparr>a_name = ''BTC'', a_rank = Some 1\<rparr>, \<lparr>a_name = ''XYZ'', a_rank = Some 7\<rparr>],
     quotes = [], contracts = [], history_states = [], historical_points = [], live_points = []\<rparr>"

theorem ranking_follows_coingecko_witness:
  "\<exists>d'. update_rankings w_coins_api w_ranked_db = Inr ((), d') \<and>
     assets d' = [\<lparr>a_name = ''BTC'', a_rank = Some 240\<rparr>, \<lparr>a_name = ''XYZ'', a_rank = None\<rparr>] \<and>
     update_rankings w_coins_api d' = Inr ((), d')"
proof -
  let ?d = "w_ranked_db\<lparr>assets := [\<lparr>a_name = ''BTC'', a_rank = Some 240\<rparr>, \<lparr>a_name = ''XYZ'', a_rank = None\<rparr>]\<rparr>"
  let ?coins = "[JObj [(''symbol'', JStr ''btc''), (''market_cap_rank'', JInt 1)],
      JObj [(''symbol'', JStr ''eth''), (''market_cap_rank'', JInt 2)],
      JObj [(''symbol'', JStr ''btc''), (''market_cap_rank'', JInt 240)]]"
  have c: "coingecko_top250 w_coins_api = Inr ?coins" by code_simp
  have k: "rcollect coin_rank ?coins = Inr [(''BTC'', JInt 1), (''ETH'', JInt 2), (''BTC'', JInt 240)]" by code_simp
  have u: "update_rankings w_coins_api w_ranked_db = Inr ((), ?d)" by code_simp
  have "update_rankings w_coins_api ?d = Inr ((), ?d)"
    using ranking_follows_coingecko [OF u c _ k] by blast
  then show ?thesis using u by (intro exI [of _ ?d]) simp
qed


section \<open>Retries end\<close>

lemma http_retry_result:
  assumes "k \<le> n" and "n < k + fuel" and "\<And>j. k \<le> j \<Longrightarrow> j < n \<Longrightarrow> attempt j = Inl HTTPError \<and> elapsed j < 60"
    and "attempt n = Inl HTTPError \<Longrightarrow> 60 \<le> elapsed n"
  shows "http_retry fuel attempt elapsed k = Some (attempt n)"
  using assms
proof (induction fuel arbitrary: k)
  case (Suc fuel)
  show ?case
  proof (cases "k = n")
    case True
    then show ?thesis using Suc.prems(4) by (auto split: sum.splits)
  next
    case False
    then have "attempt k = Inl HTTPError" "elapsed k < 60" using Suc.prems(1,3) by auto
    then show ?thesis using Suc.IH [of "Suc k"] Suc.prems False by simp
  qed
qed simp

text \<open>The waits of \<open>wait_exponential(multiplier=1, max=10)\<close> add up to more than 60 seconds after nine failures.\<close>

definition backoff :: "(nat \<Rightarrow> rat) \<Rightarrow> bool" where
  "backoff elapsed \<longleftrightarrow> 0 \<le> elapsed 0 \<and> (\<forall>k. elapsed k + min 10 (2 ^ k) \<le> elapsed (Suc k))"

lemma backoff_late: "backoff elapsed \<Longrightarrow> 60 \<le> elapsed 9"
proof -
  assume b: "backoff elapsed"
  have s: "elapsed k + min 10 (2 ^ k) \<le> elapsed (Suc k)" for k using b by (simp add: backoff_def)
  have "0 \<le> elapsed 0" using b by (simp add: backoff_def)
  then show ?thesis using s [of 0] s [of 1] s [of 2] s [of 3] s [of 4] s [of 5] s [of 6] s [of 7] s [of 8]
    by (simp add: eval_nat_numeral min_def)
qed

text \<open>C40. A request ends: with the waits of the retry policy at most ten attempts are made, the result is that of
  the last one, every earlier attempt failed with an HTTP error, and an HTTP error is passed on only after 60
  seconds. More fuel changes nothing, and all four functions of the two clients behave alike.\<close>

theorem request_attempts_bounded:
  assumes "backoff elapsed" and "10 \<le> fuel"
  shows "\<exists>n<10. http_get fuel (Some m) send elapsed = Some (send n) \<and> http_post fuel (Some m) send elapsed = Some (send n) \<and>
    ing_http_get fuel (Some m) send elapsed = Some (send n) \<and> ing_http_post fuel (Some m) send elapsed = Some (send n) \<and>
    (\<forall>k<n. send k = Inl HTTPError) \<and> (send n = Inl HTTPError \<longrightarrow> 60 \<le> elapsed n)"
proof -
  let ?stops = "\<lambda>n. send n = Inl HTTPError \<longrightarrow> 60 \<le> elapsed n"
  define n where "n = (LEAST n. ?stops n)"
  have l: "?stops 9" using backoff_late [OF assms(1)] by simp
  then have n: "?stops n" "n \<le> 9" unfolding n_def by (rule LeastI, rule Least_le)
  have b: "send k = Inl HTTPError \<and> elapsed k < 60" if "k < n" for k
    using not_less_Least [OF that [unfolded n_def]] by auto
  have "http_retry fuel send elapsed 0 = Some (send n)"
    using n b assms(2) by (intro http_retry_result) auto
  then have "http_get fuel (Some m) send elapsed = Some (send n)" "http_post fuel (Some m) send elapsed = Some (send n)"
    by (simp_all add: http_get_def http_post_def http_client_property_def)
  then show ?thesis using n b by (intro exI [of _ n]) (auto simp: ing_http_same)
qed

theorem request_attempts_bounded_witness:
  "backoff (\<lambda>k. 10 * of_nat k) \<and> (\<exists>n<(10::nat). http_get 12 (Some 5) (\<lambda>_. Inl HTTPError) (\<lambda>k. 10 * of_nat k) = Some (Inl HTTPError) \<and> 6 \<le> n)"
proof -
  have b: "backoff (\<lambda>k. 10 * of_nat k)" by (simp add: backoff_def)
  obtain n where n: "n < 10" "http_get 12 (Some 5) (\<lambda>_. Inl HTTPError) (\<lambda>k. 10 * of_nat k) = Some (Inl HTTPError)" "(60 :: rat) \<le> 10 * of_nat n"
    using request_attempts_bounded [OF b, of 12 5 "\<lambda>_. Inl HTTPError"] by auto
  have "6 \<le> n" using n(3) by linarith
  then show ?thesis using b n by blast
qed

end
