(* ===== verification/VerifyTool.thy ===== *)
theory VerifyTool
  imports Services
begin

text \<open>
  \<open>tracker/tools/verify_exchange.py\<close>: the operator's tool that runs an adapter against the real
  exchange. What it prints is a list of lines; a line keeps the values that the source interpolates,
  not the markup. Whether a deadline strikes is a parameter. Text is ASCII for \<open>upper()\<close>.
\<close>

section \<open>Data\<close>

record tool_adapter =
  ta_contracts :: "listing list res"
  ta_history_after :: "contract_row \<Rightarrow> utc \<Rightarrow> funding_point list res"
  ta_live :: "contract_row list \<Rightarrow> snapshot res"

text \<open>\<open>EXCHANGES[exchange_id]()\<close> is a parameter, defined for the registered identifiers.\<close>

type_synonym adapters = "string \<Rightarrow> tool_adapter"

text \<open>The messages of \<open>_find_contract_index\<close> and the details of a summary.\<close>

datatype lookup_error = Bad_spec | Not_found string string "(string \<times> string) list"

datatype detail =
    Unknown_exchange "string list" | Contracts_failed pyexc | Contracts_empty | Contracts_fetched
  | Bad_contract lookup_error | Bad_index int int | History_failed pyexc | Live_failed pyexc
  | All_passed | Timed_out rat

record verify_summary =
  vs_exchange :: string
  vs_success :: bool
  vs_detail :: detail
  vs_contracts :: "nat option"
  vs_selected :: "(string \<times> string) option"
  vs_history :: "nat option"
  vs_live :: "nat option"
  vs_round :: bool

definition ROUND_CONTRACT_COUNT_WARNINGS :: "nat set" where
  "ROUND_CONTRACT_COUNT_WARNINGS = {50, 100, 200, 500, 1000}"

text \<open>\<open>VerifySummary(exchange_id, success, detail)\<close> with the defaults of the class.\<close>

definition VerifySummary :: "string \<Rightarrow> bool \<Rightarrow> detail \<Rightarrow> verify_summary" where
  "VerifySummary e success detail = \<lparr>vs_exchange = e, vs_success = success, vs_detail = detail,
     vs_contracts = None, vs_selected = None, vs_history = None, vs_live = None, vs_round = False\<rparr>"

section \<open>Choosing the contract\<close>

text \<open>\<open>s.partition("/")\<close>.\<close>

definition py_partition :: "char \<Rightarrow> string \<Rightarrow> string \<times> string \<times> string" where
  "py_partition c s = (let head = takeWhile (\<lambda>x. x \<noteq> c) s in
     if c \<in> set s then (head, [c], drop (Suc (length head)) s) else (s, [], []))"

definition build_contract_for_checks :: "nat \<Rightarrow> string \<Rightarrow> listing \<Rightarrow> contract_row" where
  "build_contract_for_checks uuid exchange_id l = \<lparr>c_id = uuid, c_asset = l_asset l, c_section = exchange_id,
     c_interval = l_interval l, c_quote = l_quote l, c_special = JObj [], c_deprecated = False\<rparr>"

fun index_of :: "('a \<Rightarrow> bool) \<Rightarrow> 'a list \<Rightarrow> nat option" where
  "index_of P [] = None"
| "index_of P (x # xs) = (if P x then Some 0 else map_option Suc (index_of P xs))"

definition find_contract_index :: "listing list \<Rightarrow> string option \<Rightarrow> lookup_error + int option" where
  "find_contract_index ls spec = (case spec of None \<Rightarrow> Inr None | Some s \<Rightarrow>
     (case py_partition (CHR ''/'') s of (asset_name, sep, quote) \<Rightarrow>
       if sep \<noteq> ''/'' \<or> asset_name = [] \<or> quote = [] then Inl Bad_spec
       else let a = py_upper (py_strip asset_name); q = py_upper (py_strip quote) in
         (case index_of (\<lambda>l. py_upper (l_asset l) = a \<and> py_upper (l_quote l) = q) ls of
            Some i \<Rightarrow> Inr (Some (int i))
          | None \<Rightarrow> Inl (Not_found a q (map (\<lambda>l. (l_asset l, l_quote l)) (take 10 ls))))))"

text \<open>\<open>utc_now() - timedelta(days=n)\<close>: both operations may overflow.\<close>

definition days_ago :: "utc \<Rightarrow> int \<Rightarrow> utc res" where
  "days_ago now n = (if \<bar>n\<bar> > 999999999 \<or> now - days n < datetime_min \<or> now - days n > datetime_max
     then Inl OverflowError else Inr (now - days n))"

section \<open>The summary of one exchange\<close>

definition verify_exchange_summary ::
  "adapters \<Rightarrow> nat \<Rightarrow> utc \<Rightarrow> string \<Rightarrow> int \<Rightarrow> string option \<Rightarrow> int \<Rightarrow> bool \<Rightarrow> verify_summary" where
  "verify_exchange_summary adapters uuid now exchange_id history_days contract_spec contract_index contracts_only =
     (if exchange_id \<notin> set EXCHANGES then VerifySummary exchange_id False (Unknown_exchange (sort EXCHANGES))
      else let adapter = adapters exchange_id in (case ta_contracts adapter of
          Inl exc \<Rightarrow> VerifySummary exchange_id False (Contracts_failed exc)
        | Inr cs \<Rightarrow>
            if cs = [] then VerifySummary exchange_id False Contracts_empty
            else let counted = (\<lambda>s. s\<lparr>vs_contracts := Some (length cs),
                       vs_round := length cs \<in> ROUND_CONTRACT_COUNT_WARNINGS\<rparr>) in
              if contracts_only then counted (VerifySummary exchange_id True Contracts_fetched)
              else (case find_contract_index cs contract_spec of
                Inl e \<Rightarrow> counted (VerifySummary exchange_id False (Bad_contract e))
              | Inr selected \<Rightarrow>
                  let i = (case selected of None \<Rightarrow> contract_index | Some i \<Rightarrow> i) in
                  if i < 0 \<or> i \<ge> int (length cs)
                  then counted (VerifySummary exchange_id False (Bad_index i (int (length cs) - 1)))
                  else let contract = build_contract_for_checks uuid exchange_id (cs ! nat i);
                           chosen = (\<lambda>s. (counted s)\<lparr>vs_selected := Some (c_asset contract, c_quote contract)\<rparr>) in
                    (case rbind (days_ago now history_days) (ta_history_after adapter contract) of
                       Inl exc \<Rightarrow> chosen (VerifySummary exchange_id False (History_failed exc))
                     | Inr history \<Rightarrow> (case ta_live adapter [contract] of
                         Inl exc \<Rightarrow> (chosen (VerifySummary exchange_id False (Live_failed exc)))
                           \<lparr>vs_history := Some (length history)\<rparr>
                       | Inr rates \<Rightarrow> (chosen (VerifySummary exchange_id True All_passed))
                           \<lparr>vs_history := Some (length history), vs_live := Some (length rates)\<rparr>)))))"

section \<open>The report on one exchange\<close>

text \<open>The printed lines; \<open>Say\<close> is a constant message.\<close>

datatype line =
    Say string | Verifying string | Unregistered string "string list" | Exchange_id string
  | Retrieved_contracts nat | Contracts_error pyexc | Round_number nat | Contract_table "string list list"
  | Lookup_message lookup_error | Index_range int int | Chosen string string int | History_step string string
  | Retrieved_points nat | Date_range utc utc | Sample_rate rat rat | History_error pyexc
  | Retrieved_rates nat | Live_sample string string rat rat | Live_error pyexc | Passed string
  | Summary_table "(string \<times> string \<times> nat option \<times> (string \<times> string) option \<times> nat option \<times> nat option \<times> detail) list"
  | Summary_counts nat nat nat | Timed_out_message rat | Available string

definition contract_line :: "nat \<times> listing \<Rightarrow> string list" where
  "contract_line il = [py_str_int (int (fst il)), l_asset (snd il), l_quote (snd il), py_str_int (l_interval (snd il)) @ ''h'']"

text \<open>\<open>xs[:n]\<close>.\<close>

definition py_take :: "int \<Rightarrow> 'a list \<Rightarrow> 'a list" where
  "py_take n xs = (if 0 \<le> n then take (nat n) xs else take (length xs - nat (- n)) xs)"

definition render_contracts :: "listing list \<Rightarrow> int \<Rightarrow> bool \<Rightarrow> line list" where
  "render_contracts cs preview_limit show_all =
     (let shown = (if show_all then cs else py_take preview_limit cs) in
      [Contract_table (map contract_line (enumerate 0 shown) @
         (if \<not> show_all \<and> int (length cs) > preview_limit then [[''...'', ''...'', ''...'', ''...'']] else []))])"

definition warn_if_contract_count_looks_truncated :: "listing list \<Rightarrow> line list" where
  "warn_if_contract_count_looks_truncated cs =
     (if length cs \<in> ROUND_CONTRACT_COUNT_WARNINGS then [Round_number (length cs)] else [])"

definition history_report :: "utc \<Rightarrow> funding_point list \<Rightarrow> line list" where
  "history_report after_ts history = Retrieved_points (length history) #
     (if history = [] then [Say ''No history points returned.'']
      else [Date_range (min_time history) (max_time history), Sample_rate (rate (hd history)) (fl (rate (hd history) * 100))] @
        (if min_time history < after_ts then [Say ''History includes points before requested lower bound''] else []))"

definition live_report :: "contract_row \<Rightarrow> snapshot \<Rightarrow> line list" where
  "live_report contract rates = Retrieved_rates (length rates) #
     (case rates of [] \<Rightarrow> [Say ''fetch_live() returned empty dict for selected contract'']
      | (_, p) # _ \<Rightarrow> [Live_sample (c_asset contract) (c_quote contract) (rate p) (fl (rate p * 100))])"

definition verify_selected ::
  "tool_adapter \<Rightarrow> string \<Rightarrow> utc \<Rightarrow> int \<Rightarrow> contract_row \<Rightarrow> line list \<times> bool" where
  "verify_selected adapter exchange_id now history_days contract =
     (case rbind (days_ago now history_days) (\<lambda>after_ts. rbind (ta_history_after adapter contract after_ts)
             (\<lambda>history. Inr (after_ts, history))) of
        Inl exc \<Rightarrow> ([History_error exc], False)
      | Inr (after_ts, history) \<Rightarrow>
          (let said = history_report after_ts history @ [Say ''Step 4: API - fetch_live''] in
           case ta_live adapter [contract] of
             Inl exc \<Rightarrow> (said @ [Live_error exc], False)
           | Inr rates \<Rightarrow> (said @ live_report contract rates @ [Passed exchange_id], True)))"

definition verify_exchange ::
  "adapters \<Rightarrow> nat \<Rightarrow> utc \<Rightarrow> string \<Rightarrow> int \<Rightarrow> string option \<Rightarrow> int \<Rightarrow> int \<Rightarrow> bool \<Rightarrow> bool \<Rightarrow> line list \<times> bool" where
  "verify_exchange adapters uuid now exchange_id history_days contract_spec contract_index preview_limit
     show_all_contracts contracts_only =
     (if exchange_id \<notin> set EXCHANGES then ([Verifying exchange_id, Unregistered exchange_id (sort EXCHANGES)], False)
      else let adapter = adapters exchange_id;
               begun = [Verifying exchange_id, Say ''Step 1: Protocol Validation'', Exchange_id exchange_id,
                 Say ''Required methods: get_contracts, fetch_history_before, fetch_history_after'',
                 Say ''Live method: fetch_live(list[Contract])'', Say ''Step 2: API - get_contracts()''] in
        (case ta_contracts adapter of
           Inl exc \<Rightarrow> (begun @ [Contracts_error exc], False)
         | Inr cs \<Rightarrow>
             if cs = []
             then (begun @ [Retrieved_contracts 0, Say ''get_contracts() returned empty list''], False)
             else let listed = begun @ [Retrieved_contracts (length cs)] @
                        warn_if_contract_count_looks_truncated cs @
                        render_contracts cs preview_limit show_all_contracts in
               if contracts_only
               then (listed @ [Say ''Contract fetch completed without history/live checks''], True)
               else (case find_contract_index cs contract_spec of
                 Inl e \<Rightarrow> (listed @ [Lookup_message e], False)
               | Inr selected \<Rightarrow>
                   let i = (case selected of None \<Rightarrow> contract_index | Some i \<Rightarrow> i) in
                   if i < 0 \<or> i \<ge> int (length cs)
                   then (listed @ [Index_range i (int (length cs) - 1)], False)
                   else let contract = build_contract_for_checks uuid exchange_id (cs ! nat i);
                            (said, success) = verify_selected adapter exchange_id now history_days contract in
                     (listed @ [Chosen (c_asset contract) (c_quote contract) i,
                        History_step (c_asset contract) (c_quote contract)] @ said, success))))"

section \<open>All exchanges\<close>

definition run_with_timeout :: "rat option \<Rightarrow> bool \<Rightarrow> 'a \<Rightarrow> 'a option" where
  "run_with_timeout timeout_seconds struck r = (if timeout_seconds \<noteq> None \<and> struck then None else Some r)"

definition summary_row ::
  "verify_summary \<Rightarrow> string \<times> string \<times> nat option \<times> (string \<times> string) option \<times> nat option \<times> nat option \<times> detail" where
  "summary_row r = (vs_exchange r,
     if vs_success r then (if vs_round r then ''WARN'' else ''OK'') else ''FAIL'',
     vs_contracts r, vs_selected r, vs_history r, vs_live r, vs_detail r)"

definition render_batch_summary :: "verify_summary list \<Rightarrow> line list" where
  "render_batch_summary results = (let success_count = length (filter vs_success results);
       warning_count = length (filter (\<lambda>r. vs_success r \<and> vs_round r) results);
       failure_count = length results - success_count in
     [Summary_table (map summary_row results), Summary_counts success_count warning_count failure_count])"

text \<open>\<open>struck e\<close>: the deadline of exchange \<open>e\<close> strikes; \<open>uuid\<close> and \<open>now\<close> may differ between exchanges.\<close>

definition verify_all_exchanges ::
  "adapters \<Rightarrow> (string \<Rightarrow> nat) \<Rightarrow> (string \<Rightarrow> utc) \<Rightarrow> (string \<Rightarrow> bool) \<Rightarrow> int \<Rightarrow> string option \<Rightarrow> int \<Rightarrow> bool \<Rightarrow> rat \<Rightarrow>
   line list \<times> bool" where
  "verify_all_exchanges adapters uuid now struck history_days contract_spec contract_index contracts_only timeout_seconds =
     (let results = map (\<lambda>e. case run_with_timeout (Some timeout_seconds) (struck e)
              (verify_exchange_summary adapters (uuid e) (now e) e history_days contract_spec contract_index contracts_only) of
            None \<Rightarrow> VerifySummary e False (Timed_out timeout_seconds) | Some r \<Rightarrow> r) (sort EXCHANGES)
      in (Say ''Verifying all exchange adapters'' # render_batch_summary results, list_all vs_success results))"

section \<open>The command\<close>

record verify_args =
  va_exchange :: "string option"
  va_list :: bool
  va_all :: bool
  va_history_days :: int
  va_contract :: "string option"
  va_contract_index :: int
  va_preview_limit :: int
  va_show_all :: bool
  va_contracts_only :: bool
  va_timeout :: "rat option"

text \<open>The defaults of \<open>_build_parser\<close>.\<close>

definition default_args :: verify_args where
  "default_args = \<lparr>va_exchange = None, va_list = False, va_all = False, va_history_days = 7, va_contract = None,
     va_contract_index = 0, va_preview_limit = 5, va_show_all = False, va_contracts_only = False, va_timeout = None\<rparr>"

text \<open>\<open>try: ... finally: await http_client.shutdown()\<close> after \<open>startup()\<close>.\<close>

definition with_http_client :: "http_client \<Rightarrow> line list \<times> int \<Rightarrow> line list \<times> int res \<times> http_client" where
  "with_http_client client body = (case http_startup 100 client of
     (Inl e, client') \<Rightarrow> ([], Inl e, client')
   | (Inr _, client') \<Rightarrow> (fst body, Inr (snd body), snd (http_shutdown client')))"

text \<open>\<open>printed\<close>: the number of lines out before a deadline strikes the report on a single exchange.\<close>

definition amain ::
  "adapters \<Rightarrow> (string \<Rightarrow> nat) \<Rightarrow> (string \<Rightarrow> utc) \<Rightarrow> (string \<Rightarrow> bool) \<Rightarrow> nat \<Rightarrow> verify_args \<Rightarrow> http_client \<Rightarrow>
   line list \<times> int res \<times> http_client" where
  "amain adapters uuid now struck printed args client =
     (if va_list args then (Say ''Available exchange IDs:'' # map Available (sort EXCHANGES), Inr 0, client)
      else if (case va_timeout args of None \<Rightarrow> False | Some t \<Rightarrow> t \<le> 0)
        then ([Say ''--timeout-seconds must be > 0''], Inr 1, client)
      else if va_all args \<and> va_exchange args \<noteq> None
        then ([Say ''exchange_id cannot be used together with --all''], Inr 1, client)
      else if va_all args \<and> va_show_all args
        then ([Say ''--show-all-contracts is only supported for a single exchange''], Inr 1, client)
      else if va_all args then
        (let timeout_seconds = (case va_timeout args of None \<Rightarrow> 45 | Some t \<Rightarrow> t) in
         with_http_client client
           (case verify_all_exchanges adapters uuid now struck (va_history_days args) (va_contract args)
                   (va_contract_index args) (va_contracts_only args) timeout_seconds of
              (said, success) \<Rightarrow> (said, if success then 0 else 1)))
      else (case va_exchange args of
        None \<Rightarrow> ([Say ''usage'', Say ''Example: verify hyperliquid''], Inr 1, client)
      | Some exchange_id \<Rightarrow>
          if va_history_days args < 1 then ([Say ''--history-days must be >= 1''], Inr 1, client)
          else if va_preview_limit args < 1 then ([Say ''--preview-limit must be >= 1''], Inr 1, client)
          else with_http_client client
            (case verify_exchange adapters (uuid exchange_id) (now exchange_id) exchange_id (va_history_days args)
                    (va_contract args) (va_contract_index args) (va_preview_limit args) (va_show_all args)
                    (va_contracts_only args) of
               (said, success) \<Rightarrow>
                 (case run_with_timeout (va_timeout args) (struck exchange_id) success of
                    None \<Rightarrow> (take printed said @ [Timed_out_message (the (va_timeout args))], 1)
                  | Some success \<Rightarrow> (said, if success then 0 else 1)))))"

section \<open>Properties\<close>

text \<open>The summary and the report are two copies of the same checks.\<close>

lemma report_agrees_with_summary:
  "snd (verify_exchange adapters uuid now e n spec i limit show_all only) =
   vs_success (verify_exchange_summary adapters uuid now e n spec i only)"
  by (simp add: verify_exchange_def verify_exchange_summary_def verify_selected_def VerifySummary_def Let_def rbind_def
      split: sum.splits option.splits prod.splits)

definition exit_code :: "line list \<times> int res \<times> http_client \<Rightarrow> int res" where
  "exit_code r = fst (snd r)"

lemma with_http_client_closed:
  "exit_code (with_http_client None body) = Inr (snd body)" "snd (snd (with_http_client None body)) = None"
  by (simp_all add: exit_code_def with_http_client_def http_startup_def http_shutdown_def)

lemma amain_closes: "snd (snd (amain adapters uuid now struck printed args None)) = None"
  by (simp add: amain_def Let_def with_http_client_closed split: option.splits)

text \<open>C27. The batch and the single mode of the tool, which are separate copies of the checks, agree, up to two
  differences of their options: the single mode refuses a number of history days or a preview limit
  below 1, which the batch mode does not look at, and without \<open>--timeout-seconds\<close> the batch mode has a deadline of
  45 seconds for an exchange, and the single mode none. So \<open>--all\<close> exits with 0 and both numbers are at least 1 if and
  only if the tool exits with 0 for each registered exchange on its own and, where no timeout is given, no
  exchange exceeds the deadline; against the same exchanges, with the other options of a batch that
  the tool accepts. And whatever the options and answers, the tool leaves no open HTTP client behind.\<close>

theorem verify_modes_agree:
  assumes "\<not> va_list args" and "va_all args" and "va_exchange args = None" and "\<not> va_show_all args"
    and "\<forall>t. va_timeout args = Some t \<longrightarrow> 0 < t"
  shows "(exit_code (amain adapters uuid now struck printed args None) = Inr 0 \<and>
        1 \<le> va_history_days args \<and> 1 \<le> va_preview_limit args \<longleftrightarrow>
      list_all (\<lambda>e. exit_code (amain adapters uuid now struck printed
        (args\<lparr>va_all := False, va_exchange := Some e\<rparr>) None) = Inr 0 \<and> (va_timeout args = None \<longrightarrow> \<not> struck e)) EXCHANGES) \<and>
    snd (snd (amain adapters uuid now struck printed any_args None)) = None"
proof -
  define passes where "passes e = vs_success (verify_exchange_summary adapters (uuid e) (now e) e (va_history_days args)
        (va_contract args) (va_contract_index args) (va_contracts_only args))" for e
  have timeout: "\<not> (case va_timeout args of None \<Rightarrow> False | Some t \<Rightarrow> t \<le> 0)"
    using assms(5) by (auto split: option.splits)
  have single: "exit_code (amain adapters uuid now struck printed (args\<lparr>va_all := False, va_exchange := Some e\<rparr>) None) = Inr 0
      \<longleftrightarrow> 1 \<le> va_history_days args \<and> 1 \<le> va_preview_limit args \<and> (va_timeout args \<noteq> None \<longrightarrow> \<not> struck e) \<and> passes e" for e
    unfolding passes_def using assms timeout
    by (simp add: amain_def with_http_client_closed run_with_timeout_def exit_code_def [of "(_, _, _)"] split: prod.splits option.splits
        flip: report_agrees_with_summary [of _ _ _ _ _ _ _ "va_preview_limit args" "va_show_all args"])
  have batch: "exit_code (amain adapters uuid now struck printed args None) = Inr 0 \<longleftrightarrow> (\<forall>e\<in>set EXCHANGES. \<not> struck e \<and> passes e)"
    unfolding passes_def using assms timeout
    by (auto simp: amain_def with_http_client_closed verify_all_exchanges_def run_with_timeout_def
        VerifySummary_def Let_def list_all_iff split: if_splits)
  have "EXCHANGES \<noteq> []" by (simp add: EXCHANGES_def)
  then obtain e where "e \<in> set EXCHANGES" by (rule hd_in_set [THEN that])
  then show ?thesis unfolding batch by (auto simp: single list_all_iff amain_closes)
qed


definition w_tool :: adapters where
  "w_tool e = \<lparr>ta_contracts = Inr [\<lparr>l_asset = ''BTC'', l_quote = ''USDT'', l_interval = 8, l_section = e\<rparr>],
     ta_history_after = (\<lambda>c t. Inr [\<lparr>rate = 1 / 10000, timestamp = t\<rparr>]),
     ta_live = (\<lambda>cs. if e = ''okx'' then Inl HTTPError else Inr [])\<rparr>"

definition w_tool_args :: verify_args where
  "w_tool_args = default_args\<lparr>va_all := True, va_contract := Some ''btc/usdt''\<rparr>"

text \<open>OKX fails, so the batch does.\<close>

theorem verify_modes_agree_witness:
  "exit_code (amain w_tool (\<lambda>_. 1) (\<lambda>_. days 20000) (\<lambda>_. False) 0 w_tool_args None) \<noteq> Inr 0 \<and>
   exit_code (amain w_tool (\<lambda>_. 1) (\<lambda>_. days 20000) (\<lambda>_. False) 0
     (w_tool_args\<lparr>va_all := False, va_exchange := Some ''bybit''\<rparr>) None) = Inr 0"
proof -
  let ?go = "\<lambda>args. exit_code (amain w_tool (\<lambda>_. 1) (\<lambda>_. days 20000) (\<lambda>_. False) 0 args None)"
  have "?go (w_tool_args\<lparr>va_all := False, va_exchange := Some ''okx''\<rparr>) = Inr 1"
    and bybit: "?go (w_tool_args\<lparr>va_all := False, va_exchange := Some ''bybit''\<rparr>) = Inr 0"
    by code_simp+
  moreover have "''okx'' \<in> set EXCHANGES" by (simp add: EXCHANGES_def)
  ultimately have "\<not> list_all (\<lambda>e. ?go (w_tool_args\<lparr>va_all := False, va_exchange := Some e\<rparr>) = Inr 0) EXCHANGES"
    unfolding list_all_iff by force
  with verify_modes_agree [of w_tool_args w_tool "\<lambda>_. 1" "\<lambda>_. days 20000" "\<lambda>_. False" 0]
  have "?go w_tool_args \<noteq> Inr 0" by (simp add: w_tool_args_def default_args_def)
  with bybit show ?thesis by blast
qed

end
