(* ===== verification/Served.thy ===== *)
theory Served
  imports Registry Schema Api
begin

text \<open>
  From the registry to the API: what a registry run commits, the materialized view shows after its
  refresh, and the queries of the API return.
\<close>

text \<open>The active contracts of a section after a run are the listings of the feed.\<close>

definition listing_triple :: "listing \<Rightarrow> string \<times> string \<times> int" where
  "listing_triple l = (l_asset l, l_quote l, l_interval l)"

definition contract_triple :: "contract_row \<Rightarrow> string \<times> string \<times> int" where
  "contract_triple c = (c_asset c, c_quote c, c_interval c)"

definition latest_triple :: "latest_point \<Rightarrow> string \<times> string \<times> int" where
  "latest_triple p = (lp_asset p, lp_quote p, lp_interval p)"

lemma registered_active:
  assumes reg: "register_contracts uuids now sec (Inr feed) d = Inr ((r, sigs), d')"
    and ne: "feed \<noteq> []" and ok: "db_ok d" "bounds_tight d"
  shows "contract_triple ` {c \<in> set (contracts d'). c_section c = sec \<and> \<not> c_deprecated c} = listing_triple ` set feed"
proof -
  have ok': "db_ok d'" using register_db_ok [OF reg ok] by blast
  note view = register_refines(1) [OF reg ne ok(1)]
  have dist: "distinct (map ck (get_by_section d' sec))"
    using ok' by (intro get_by_section_distinct) (simp_all add: db_ok_def)
  have df: "distinct (map l_key feed)"
  proof -
    obtain d1 p where "reconcile (get_by_section d1 sec) feed = Inr p" by (rule register_steps [OF reg ne])
    then show ?thesis using reconcile_dup [of feed "get_by_section d1 sec"] by (cases "distinct (map l_key feed)") auto
  qed
  have sec: "c \<in> set (get_by_section d' sec) \<longleftrightarrow> c \<in> set (contracts d') \<and> c_section c = sec" for c
    by (auto simp: get_by_section_def)
  show ?thesis
  proof (intro equalityI subsetI)
    fix t assume "t \<in> contract_triple ` {c \<in> set (contracts d'). c_section c = sec \<and> \<not> c_deprecated c}"
    then obtain c where c: "c \<in> set (get_by_section d' sec)" "\<not> c_deprecated c" "t = contract_triple c"
      by (auto simp: sec)
    then have "sync_spec feed (section_view d sec) (ck c) = Some (False, c_interval c)"
      using view_lookup [OF dist c(1)] view by simp
    then obtain l where "feed_map feed (ck c) = Some l" "l_interval l = c_interval c"
      by (auto simp: sync_spec_def split: option.splits)
    then show "t \<in> listing_triple ` set feed"
      using c(3) feed_map_Some [OF df, of "ck c" l]
      by (intro image_eqI [of _ _ l]) (auto simp: contract_triple_def listing_triple_def l_key_def ck_def)
  next
    fix t assume "t \<in> listing_triple ` set feed"
    then obtain l where l: "l \<in> set feed" "t = listing_triple l" by blast
    then have v: "section_view d' sec (l_key l) = Some (False, l_interval l)"
      using feed_map_Some [OF df, of "l_key l" l] by (simp add: view sync_spec_def)
    then have "l_key l \<in> ck ` set (get_by_section d' sec)" using view_None [of d' sec "l_key l"] by auto
    then obtain c where c: "c \<in> set (get_by_section d' sec)" "ck c = l_key l" by auto
    then have "\<not> c_deprecated c" "c_interval c = l_interval l" using view_lookup [OF dist c(1)] v by auto
    then show "t \<in> contract_triple ` {c \<in> set (contracts d'). c_section c = sec \<and> \<not> c_deprecated c}"
      using c l(2) by (intro image_eqI [of _ _ c]) (auto simp: sec contract_triple_def listing_triple_def l_key_def ck_def)
  qed
qed


text \<open>The latest rates of one section, from a view that has just been refreshed.\<close>

lemma latest_of_section:
  assumes "db_ok d" and "contract_enriched div_numeric d = Inr rows" and "sec \<noteq> ''all''"
  shows "map latest_triple (get_live_latest now (map er_contract rows) d None (Some [sec]) None n) =
    map contract_triple (sort_key c_id (filter (\<lambda>c. c_section c = sec \<and> \<not> c_deprecated c) (contracts d)))"
proof -
  have "filtered_contracts (slice_params None (Some [sec]) None) (map er_contract rows) =
      filter (\<lambda>c. c_section c = sec \<and> \<not> c_deprecated c) (contracts d)"
    unfolding enriched_contracts [OF assms(1,2)] filtered_contracts_def slice_params_def any_name_def
    using assms(3) by (auto simp: Let_def intro!: filter_cong)
  then show ?thesis
    by (simp add: get_live_latest_def get_latest_def latest_of_def Let_def latest_triple_def contract_triple_def comp_def)
qed

lemma triples_distinct:
  assumes "db_ok d"
  shows "distinct (map contract_triple (sort_key c_id (filter (\<lambda>c. c_section c = sec \<and> \<not> c_deprecated c) (contracts d))))"
proof -
  have "distinct (contracts d)" "inj_on c_key (set (contracts d))" using assms by (simp_all add: db_ok_def distinct_map)
  then show ?thesis by (auto simp: distinct_map inj_on_def contract_triple_def c_key_def)
qed

end
