(* ===== verification/Jobs.thy ===== *)
theory Jobs
  imports Adapter LiveQueue
begin

text \<open>
  What runs where: the jobs \<open>tracker/bootstrap.py\<close> registers with the scheduler, the single job of
  \<open>ingestion/scheduler.py\<close>, and the settings of \<open>ingestion/settings.py\<close>. The scheduler itself
  (APScheduler) is not modelled; a job is its name, the callable it runs and the triggers it was
  registered with. \<open>now\<close> is \<open>utc_now()\<close> at registration.
\<close>

section \<open>Jobs\<close>

datatype cron_field = Num int | Expr string

record cron =
  cron_hour :: "cron_field option"
  cron_minute :: "cron_field option"
  cron_second :: "cron_field option"
  cron_start :: "utc option"

datatype trigger = Date_trigger utc | Cron_trigger cron

text \<open>The callables, with the exchange they are bound to.\<close>

datatype work = Update_history string | Backfill_history string | Update_live string
  | Contract_registry string | Refresh_views | Update_rankings | Enqueue_live_tick "string list"

record job =
  job_name :: string
  job_work :: work
  job_triggers :: "trigger list"

definition history_update_job :: "utc \<Rightarrow> string \<Rightarrow> job" where
  "history_update_job now exchange = \<lparr>job_name = exchange @ ''_history_update'', job_work = Update_history exchange,
     job_triggers = [Date_trigger now,
       Cron_trigger \<lparr>cron_hour = Some (Expr ''*''), cron_minute = Some (Num 0), cron_second = Some (Num 5),
         cron_start = None\<rparr>]\<rparr>"

definition history_backfill_job :: "utc \<Rightarrow> string \<Rightarrow> job" where
  "history_backfill_job now exchange = (let delayed_start = now + 5 * us_per_minute in
     \<lparr>job_name = exchange @ ''_history_backfill'', job_work = Backfill_history exchange,
      job_triggers = [Date_trigger delayed_start,
        Cron_trigger \<lparr>cron_hour = Some (Expr ''*''), cron_minute = Some (Num 5), cron_second = Some (Num 0),
          cron_start = Some delayed_start\<rparr>]\<rparr>)"

definition live_job :: "string \<Rightarrow> int \<Rightarrow> job" where
  "live_job exchange second = \<lparr>job_name = exchange @ ''_live'', job_work = Update_live exchange,
     job_triggers = [Cron_trigger \<lparr>cron_hour = None, cron_minute = None, cron_second = Some (Num second),
       cron_start = None\<rparr>]\<rparr>"

definition exchange_jobs :: "utc \<Rightarrow> string list \<Rightarrow> job list" where
  "exchange_jobs now exchange_names =
     (if exchange_names = [] then []
      else let seconds_per_exchange = 60 div length exchange_names in
        concat (map (\<lambda>(index, exchange). [history_backfill_job now exchange, history_update_job now exchange,
          live_job exchange (int (index * seconds_per_exchange))]) (enumerate 0 exchange_names)))"

definition contract_registry_jobs :: "utc \<Rightarrow> string list \<Rightarrow> job list" where
  "contract_registry_jobs now exchange_names = map (\<lambda>exchange.
     \<lparr>job_name = exchange @ ''_contract_registry'', job_work = Contract_registry exchange,
      job_triggers = [Date_trigger now,
        Cron_trigger \<lparr>cron_hour = None, cron_minute = Some (Expr ''4-59/5''), cron_second = Some (Num 0),
          cron_start = None\<rparr>]\<rparr>) exchange_names"

definition service_jobs :: "utc \<Rightarrow> job list" where
  "service_jobs now =
     [\<lparr>job_name = ''materialized_views_refresher'', job_work = Refresh_views,
       job_triggers = [Cron_trigger \<lparr>cron_hour = None, cron_minute = None, cron_second = Some (Expr ''*''),
         cron_start = None\<rparr>]\<rparr>,
      \<lparr>job_name = ''asset_ranking_update'', job_work = Update_rankings,
       job_triggers = [Date_trigger now, Cron_trigger \<lparr>cron_hour = Some (Num 14), cron_minute = Some (Num 30),
         cron_second = None, cron_start = None\<rparr>]\<rparr>]"

text \<open>\<open>bootstrap\<close>: resolve the exchanges, seed their sections, register the jobs.\<close>

definition bootstrap ::
  "utc \<Rightarrow> string list option \<Rightarrow> string list option \<Rightarrow> bool \<Rightarrow> job list tx" where
  "bootstrap now exchanges registry_exchanges owns_singleton_jobs d =
     rbind (bootstrap_exchanges exchanges registry_exchanges owns_singleton_jobs) (\<lambda>(resolved, registry).
     rbind (ensure_sections (sorted_set (resolved @ registry)) d) (\<lambda>(_, d').
     Inr (exchange_jobs now resolved @ contract_registry_jobs now registry @
       (if owns_singleton_jobs then service_jobs now else []), d')))"

section \<open>The ingestion scheduler\<close>

definition bootstrap_scheduler :: "string list \<Rightarrow> job list" where
  "bootstrap_scheduler exchanges = [\<lparr>job_name = ''live_funding_enqueue'', job_work = Enqueue_live_tick exchanges,
     job_triggers = [Cron_trigger \<lparr>cron_hour = None, cron_minute = None, cron_second = Some (Num 0),
       cron_start = None\<rparr>]\<rparr>]"

record live_settings =
  enqueue_timeout_seconds :: rat
  task_timeout_seconds :: rat
  stale_running_grace_seconds :: rat
  worker_poll_interval_seconds :: rat

text \<open>Construction validates every field.\<close>

definition mk_live_settings :: "live_settings \<Rightarrow> live_settings res" where
  "mk_live_settings s =
     (if enqueue_timeout_seconds s \<le> 0 \<or> task_timeout_seconds s \<le> 0 \<or> stale_running_grace_seconds s \<le> 0
         \<or> worker_poll_interval_seconds s \<le> 0 then Inl ValueError else Inr s)"

text \<open>\<open>timedelta(seconds=x)\<close>: the microseconds nearest to \<open>x\<close>.\<close>

definition timedelta_seconds :: "rat \<Rightarrow> timedelta" where
  "timedelta_seconds x = (let i = py_int x; f = fl (x - of_int i) in
     i * us_per_second + round_half_even (fl (f * 1000000)))"

definition to_enqueuer_config :: "live_settings \<Rightarrow> enqueuer_config" where
  "to_enqueuer_config s = \<lparr>enqueue_timeout = timedelta_seconds (enqueue_timeout_seconds s),
     task_timeout = timedelta_seconds (task_timeout_seconds s),
     stale_running_grace = timedelta_seconds (stale_running_grace_seconds s)\<rparr>"

record worker_config =
  w_task_timeout :: timedelta
  w_poll_interval :: timedelta

definition to_worker_config :: "live_settings \<Rightarrow> worker_config" where
  "to_worker_config s = \<lparr>w_task_timeout = timedelta_seconds (task_timeout_seconds s),
     w_poll_interval = timedelta_seconds (worker_poll_interval_seconds s)\<rparr>"

text \<open>The worker's identity: \<open>worker_id or f"{hostname}:{pid}"\<close>.\<close>

definition resolved_worker_id :: "string option \<Rightarrow> string \<Rightarrow> int \<Rightarrow> string" where
  "resolved_worker_id worker_id hostname pid = (case worker_id of
     Some (c # cs) \<Rightarrow> c # cs | _ \<Rightarrow> hostname @ '':'' @ py_str_int pid)"


section \<open>What an instance registers\<close>

definition exchange_works :: "string list \<Rightarrow> work list" where
  "exchange_works xs = concat (map (\<lambda>x. [Backfill_history x, Update_history x, Update_live x]) xs)"

definition live_second :: "job \<Rightarrow> int list" where
  "live_second j = (case (job_work j, job_triggers j) of
     (Update_live x, [Cron_trigger c]) \<Rightarrow> (case cron_second c of Some (Num s) \<Rightarrow> [s] | _ \<Rightarrow> []) | _ \<Rightarrow> [])"

definition live_seconds :: "job list \<Rightarrow> int list" where
  "live_seconds js = concat (map live_second js)"

lemma exchange_jobs_works: "map job_work (exchange_jobs now xs) = exchange_works xs"
proof -
  have "map job_work (concat (map (\<lambda>(k, x). [history_backfill_job now x, history_update_job now x, live_job x (f k)])
      (enumerate n xs))) = exchange_works xs" for f n
    by (induction xs arbitrary: n)
      (simp_all add: exchange_works_def history_backfill_job_def history_update_job_def live_job_def Let_def)
  then show ?thesis by (simp add: exchange_jobs_def Let_def exchange_works_def)
qed

lemma exchange_jobs_seconds:
  "live_seconds (exchange_jobs now xs) = map (\<lambda>k. int (k * (60 div length xs))) [0..<length xs]"
proof -
  have "live_seconds (concat (map (\<lambda>(k, x). [history_backfill_job now x, history_update_job now x, live_job x (f k)])
      (enumerate n xs))) = map f [n..<n + length xs]" for f n
  proof (induction xs arbitrary: n)
    case (Cons x xs)
    have "[n..<n + length (x # xs)] = n # [Suc n..<Suc n + length xs]" by (subst upt_rec) simp
    then show ?case using Cons.IH [of "Suc n"]
      by (simp add: live_seconds_def live_second_def history_backfill_job_def history_update_job_def live_job_def Let_def)
  qed (simp add: live_seconds_def)
  from this [of "\<lambda>k. int (k * (60 div length xs))" 0] show ?thesis
    by (auto simp: exchange_jobs_def Let_def live_seconds_def)
qed

lemma other_jobs_seconds: "live_seconds (contract_registry_jobs now ys @ (if b then service_jobs now else [])) = []"
proof -
  have "live_seconds (contract_registry_jobs now ys) = []"
    by (induction ys) (simp_all add: live_seconds_def live_second_def contract_registry_jobs_def)
  moreover have "live_seconds (service_jobs now) = []"
    by (simp add: live_seconds_def live_second_def service_jobs_def)
  ultimately show ?thesis by (cases b) (simp_all add: live_seconds_def)
qed

lemma live_slots:
  assumes "n \<le> 60"
  shows "distinct (map (\<lambda>k. int (k * (60 div n))) [0..<n]) \<and> set (map (\<lambda>k. int (k * (60 div n))) [0..<n]) \<subseteq> {0..<60}"
proof (cases "n = 0")
  case False
  have pos: "0 < 60 div n" using assms False by (simp add: div_greater_zero_iff)
  have "int k * int (60 div n) < 60" if "k < n" for k
  proof -
    have "k * (60 div n) < n * (60 div n)" using that pos by simp
    also have "\<dots> \<le> 60" by simp
    finally have "int (k * (60 div n)) < int 60" by (simp only: of_nat_less_iff)
    then show ?thesis by simp
  qed
  moreover have "inj_on (\<lambda>k. int (k * (60 div n))) (set [0..<n])" using pos by (auto simp: inj_on_def)
  ultimately show ?thesis by (auto simp: distinct_map)
qed simp

lemma count_distinct: "distinct xs \<Longrightarrow> count_list xs x = of_bool (x \<in> set xs)"
  by (induction xs) auto

lemma count_exchange_works:
  "count_list (exchange_works xs) w = (case w of Backfill_history x \<Rightarrow> count_list xs x
     | Update_history x \<Rightarrow> count_list xs x | Update_live x \<Rightarrow> count_list xs x | _ \<Rightarrow> 0)"
  by (induction xs) (auto simp: exchange_works_def split: work.splits)

lemma count_registry_works:
  "count_list (map job_work (contract_registry_jobs now ys)) w =
     (case w of Contract_registry x \<Rightarrow> count_list ys x | _ \<Rightarrow> 0)"
  by (induction ys) (auto simp: contract_registry_jobs_def split: work.splits)

lemma count_service_works:
  "count_list (map job_work (service_jobs now)) w = of_bool (w = Refresh_views \<or> w = Update_rankings)"
  by (simp add: service_jobs_def)

lemma ensure_sections_ok: "\<exists>d'. ensure_sections names d = Inr ((), d')"
  by (simp add: ensure_sections_def bulk_insert_ignore)

definition instance_bootstrap :: "cli_args \<Rightarrow> settings \<Rightarrow> int \<Rightarrow> int \<Rightarrow> utc \<Rightarrow> job list tx" where
  "instance_bootstrap args st i n now d =
     rbind (build_runtime_config (args\<lparr>arg_instance_id := Some i, arg_total_instances := Some n\<rparr>) st EXCHANGES)
       (\<lambda>c. bootstrap now (rc_exchanges c) (Some (rc_registry_exchanges c)) (rc_owns_singleton_jobs c) d)"

lemma instance_jobs:
  assumes sel: "resolve_enabled_exchanges (requested_exchanges args st) EXCHANGES = Inr sel" and i: "0 \<le> i" "i < n"
  obtains d' where "instance_bootstrap args st i n now d =
    Inr (exchange_jobs now (step_slice (nat i) (nat n) sel) @ contract_registry_jobs now (if i = 0 then sel else []) @
      (if i = 0 then service_jobs now else []), d')"
proof -
  have whole: "step_slice 0 1 sel = sel" by (rule nth_equalityI) (simp_all add: step_slice_def)
  obtain c where c: "build_runtime_config (args\<lparr>arg_instance_id := Some i, arg_total_instances := Some n\<rparr>) st EXCHANGES = Inr c"
    "rc_owns_singleton_jobs c \<longleftrightarrow> i = 0"
    using sel i by (auto simp: build_runtime_config_def requested_exchanges_def or_env_def Let_def cong: if_cong)
  have "bootstrap_exchanges (rc_exchanges c) (Some (rc_registry_exchanges c)) (rc_owns_singleton_jobs c) =
      Inr (if 1 < n then step_slice (nat i) (nat n) sel else sel, if i = 0 then sel else [])"
    using instance_exchanges_eq [OF sel i] c(1) by (simp add: instance_exchanges_def)
  moreover have "(if 1 < n then step_slice (nat i) (nat n) sel else sel) = step_slice (nat i) (nat n) sel"
  proof (cases "1 < n")
    case False
    then have "n = 1" "i = 0" using i by auto
    then show ?thesis using whole by simp
  qed simp
  ultimately have b: "bootstrap_exchanges (rc_exchanges c) (Some (rc_registry_exchanges c)) (rc_owns_singleton_jobs c) =
      Inr (step_slice (nat i) (nat n) sel, if i = 0 then sel else [])" by simp
  obtain d' where e: "ensure_sections (sorted_set (step_slice (nat i) (nat n) sel @ (if i = 0 then sel else []))) d = Inr ((), d')"
    using ensure_sections_ok by blast
  show thesis
    by (rule that) (simp only: instance_bootstrap_def c(1) bootstrap_def b [unfolded c(2)] rbind_simps prod.case e c(2))
qed

lemma sum_of_unique:
  assumes "finite A" "\<exists>!i. i \<in> A \<and> P i" shows "(\<Sum>i\<in>A. of_bool (P i)) = (1::nat)"
proof -
  obtain j where j: "j \<in> A" "P j" "\<And>i. i \<in> A \<Longrightarrow> P i \<Longrightarrow> i = j" using assms(2) by blast
  have "(\<Sum>i\<in>A. of_bool (P i)) = (\<Sum>i\<in>A. if i = j then 1 else 0 :: nat)"
  proof (rule sum.cong [OF refl])
    fix i assume i: "i \<in> A"
    show "of_bool (P i) = (if i = j then 1 else 0 :: nat)"
    proof (cases "P i")
      case True
      then have "i = j" using j(3) i by blast
      then show ?thesis using j(2) by simp
    next
      case False
      then have "i \<noteq> j" using j(2) by blast
      then show ?thesis using False by simp
    qed
  qed
  then show ?thesis using assms(1) j(1) by simp
qed

lemma slices_count:
  fixes n :: int
  assumes "0 < n" "distinct sel"
  shows "(\<Sum>i\<in>{0..<n}. count_list (step_slice (nat i) (nat n) sel) x) = of_bool (x \<in> set sel)"
proof (cases "x \<in> set sel")
  case True
  obtain j where j: "j < nat n" "x \<in> set (step_slice j (nat n) sel)"
    and u: "\<And>k. k < nat n \<Longrightarrow> x \<in> set (step_slice k (nat n) sel) \<Longrightarrow> k = j"
    using step_slice_owner [of "nat n", OF _ assms(2) True] assms(1) by auto
  have "\<exists>!i. i \<in> {0..<n} \<and> x \<in> set (step_slice (nat i) (nat n) sel)"
  proof (rule ex1I [of _ "int j"])
    show "int j \<in> {0..<n} \<and> x \<in> set (step_slice (nat (int j)) (nat n) sel)" using j by auto
  next
    fix i assume "i \<in> {0..<n} \<and> x \<in> set (step_slice (nat i) (nat n) sel)"
    then have "nat i = j" "0 \<le> i" using u [of "nat i"] by auto
    then show "i = int j" by simp
  qed
  from sum_of_unique [OF _ this] show ?thesis using True
    by (simp add: count_distinct distinct_step_slice [OF assms(2)])
next
  case False
  then have "x \<notin> set (step_slice i m sel)" for i m by (auto simp: step_slice_def)
  then show ?thesis using False by (simp add: count_notin)
qed

lemma only_instance_zero:
  fixes n :: int
  assumes "0 < n" "f False = (0::nat)"
  shows "(\<Sum>i\<in>{0..<n}. f (i = 0)) = f True"
proof -
  have "(\<Sum>i\<in>{0..<n}. f (i = 0)) = (\<Sum>i\<in>{0..<n}. if i = 0 then f True else 0)"
    by (rule sum.cong) (use assms(2) in auto)
  then show ?thesis using assms(1) by simp
qed

section \<open>Properties\<close>

text \<open>C21. Across a fleet every job runs exactly once: \<open>n\<close> instances started with the same settings all
  boot, and of the history update, the backfill, the live collection and the contract registry of
  each selected exchange, and of the view refresher and the ranking update, exactly one instance
  registers exactly one job; nothing else is registered. Within an instance the live collections
  start at different seconds of the minute.\<close>

theorem fleet_jobs_run_once:
  assumes "resolve_enabled_exchanges (requested_exchanges args st) EXCHANGES = Inr sel" and "0 < n"
  shows "\<exists>jobs. (\<forall>i\<in>{0..<n}. \<exists>d'. instance_bootstrap args st i n (clock i) (dbs i) = Inr (jobs i, d')) \<and>
    (\<forall>w. (\<Sum>i\<in>{0..<n}. count_list (map job_work (jobs i)) w) =
       (case w of Backfill_history x \<Rightarrow> of_bool (x \<in> set sel) | Update_history x \<Rightarrow> of_bool (x \<in> set sel)
        | Update_live x \<Rightarrow> of_bool (x \<in> set sel) | Contract_registry x \<Rightarrow> of_bool (x \<in> set sel)
        | Refresh_views \<Rightarrow> 1 | Update_rankings \<Rightarrow> 1 | Enqueue_live_tick xs \<Rightarrow> 0)) \<and>
    (\<forall>i\<in>{0..<n}. distinct (live_seconds (jobs i)) \<and> set (live_seconds (jobs i)) \<subseteq> {0..<60})"
proof -
  note r = resolve_ok [OF assms(1)]
  let ?sl = "\<lambda>i. step_slice (nat i) (nat n) sel"
  define jobs where "jobs = (\<lambda>i. exchange_jobs (clock i) (?sl i) @
    contract_registry_jobs (clock i) (if i = 0 then sel else []) @ (if i = 0 then service_jobs (clock i) else []))"
  have boot: "\<exists>d'. instance_bootstrap args st i n (clock i) (dbs i) = Inr (jobs i, d')" if "i \<in> {0..<n}" for i
    using instance_jobs [OF assms(1), of i n "clock i" "dbs i"] that unfolding jobs_def by (metis atLeastLessThan_iff)
  have len: "length (?sl i) \<le> 60" for i
  proof -
    have "length (?sl i) = card (set (?sl i))" using distinct_card [OF distinct_step_slice [OF r(2)]] by simp
    also have "\<dots> \<le> card (set EXCHANGES)"
      using r(3) by (intro card_mono) (auto simp: step_slice_def)
    also have "\<dots> \<le> length EXCHANGES" by (rule card_length)
    also have "\<dots> \<le> 60" by (simp add: EXCHANGES_def)
    finally show ?thesis .
  qed
  have sec: "distinct (live_seconds (jobs i)) \<and> set (live_seconds (jobs i)) \<subseteq> {0..<60}" for i
  proof -
    have "live_seconds (jobs i) = live_seconds (exchange_jobs (clock i) (?sl i))"
      using other_jobs_seconds [of "clock i" "if i = 0 then sel else []" "i = 0"]
      unfolding jobs_def live_seconds_def by (simp only: map_append concat_append append_Nil2)
    then show ?thesis using live_slots [OF len] by (simp only: exchange_jobs_seconds)
  qed
  have own: "(\<Sum>i\<in>{0..<n}. count_list (?sl i) x) = of_bool (x \<in> set sel)" for x
    by (rule slices_count [OF assms(2) r(2)])
  have one: "(\<Sum>i\<in>{0..<n}. f (i = 0)) = f True" if "f False = (0::nat)" for f
    by (rule only_instance_zero [of n f, OF assms(2) that])
  have cnt: "count_list (map job_work (jobs i)) w = count_list (exchange_works (?sl i)) w +
      ((\<lambda>b. (case w of Contract_registry x \<Rightarrow> if b then of_bool (x \<in> set sel) else 0 | _ \<Rightarrow> 0) +
        (if b then of_bool (w = Refresh_views \<or> w = Update_rankings) else 0)) (i = 0))" for i w
    unfolding jobs_def by (cases w) (simp_all add: count_registry_works count_service_works exchange_jobs_works
        count_distinct [OF r(2)])
  have "(\<Sum>i\<in>{0..<n}. count_list (map job_work (jobs i)) w) =
       (case w of Backfill_history x \<Rightarrow> of_bool (x \<in> set sel) | Update_history x \<Rightarrow> of_bool (x \<in> set sel)
        | Update_live x \<Rightarrow> of_bool (x \<in> set sel) | Contract_registry x \<Rightarrow> of_bool (x \<in> set sel)
        | Refresh_views \<Rightarrow> 1 | Update_rankings \<Rightarrow> 1 | Enqueue_live_tick xs \<Rightarrow> 0)" for w
  proof -
    have "(\<Sum>i\<in>{0..<n}. count_list (map job_work (jobs i)) w) = (\<Sum>i\<in>{0..<n}. count_list (exchange_works (?sl i)) w) +
        ((case w of Contract_registry x \<Rightarrow> of_bool (x \<in> set sel) | _ \<Rightarrow> 0) + of_bool (w = Refresh_views \<or> w = Update_rankings))"
      unfolding cnt sum.distrib by (subst one) (use assms(2) in \<open>simp_all split: work.splits\<close>)
    then show ?thesis by (cases w) (simp_all add: count_exchange_works own)
  qed
  then show ?thesis using boot sec by (intro exI [of _ jobs]) blast
qed

text \<open>Two instances of a fleet for two exchanges.\<close>

definition w_args :: cli_args where
  "w_args = \<lparr>arg_exchanges = Some ''okx,bybit'', arg_debug_exchanges = None,
    arg_debug_exchanges_live = None, arg_instance_id = None, arg_total_instances = None\<rparr>"

definition w_settings :: settings where
  "w_settings = \<lparr>connection_url = [], tuning = \<lparr>engine_kwargs = [], session_kwargs = []\<rparr>, enabled_exchanges = None,
    app = \<lparr>env_debug_exchanges = None, env_debug_exchanges_live = None, env_instance_id = 0, env_total_instances = 1\<rparr>\<rparr>"

definition w_fresh_db :: db where
  "w_fresh_db = \<lparr>sections = [], assets = [], quotes = [], contracts = [], history_states = [],
     historical_points = [], live_points = []\<rparr>"

theorem fleet_jobs_run_once_witness:
  "\<exists>jobs. (\<exists>d0. instance_bootstrap w_args w_settings 0 2 7 w_fresh_db = Inr (jobs 0, d0)) \<and>
     (\<exists>d1. instance_bootstrap w_args w_settings 1 2 7 w_fresh_db = Inr (jobs 1, d1)) \<and>
     (\<Sum>i\<in>{0..<2::int}. count_list (map job_work (jobs i)) (Update_live ''okx'')) = 1"
proof -
  have sel: "resolve_enabled_exchanges (requested_exchanges w_args w_settings) EXCHANGES = Inr [''bybit'', ''okx'']" by code_simp
  have n: "(0::int) < 2" by simp
  note t = fleet_jobs_run_once [OF sel n, where clock = "\<lambda>_. 7" and dbs = "\<lambda>_. w_fresh_db"]
  show ?thesis
    apply (rule exE [OF t])
    subgoal for jobs
      apply (elim conjE)
      apply (rule exI [of _ jobs])
      apply (drule spec [of _ "Update_live ''okx''"])
      apply simp
      done
    done
qed

end
