(* ===== verification/Logging.thy ===== *)
theory Logging
  imports Selection
begin

text \<open>
  Logging: the levels that \<open>tracker/logging_setup.py\<close>, \<open>ingestion/logging_setup.py\<close> and
  \<open>observability/logging.py\<close> give to the loggers of a process, the names of the adapters' loggers
  (both \<open>exchanges/base.py\<close>, \<open>section_logger.py\<close>), and the fields that the processors of
  \<open>observability/logging.py\<close> add to a record (with the vocabulary of \<open>tracker/observability.py\<close>).
  A module's logger is \<open>logging.getLogger(__name__)\<close>, whose name begins with \<open>fundingpulse.\<close>.
  Rendering and output of the records are not modelled.
\<close>

section \<open>Levels\<close>

type_synonym log_levels = "string \<rightharpoonup> int"

definition DEBUG :: int where "DEBUG = 10"
definition INFO :: int where "INFO = 20"
definition WARNING :: int where "WARNING = 30"

text \<open>\<open>getEffectiveLevel\<close>: the level of the logger, or of its nearest ancestor that has one; the root
  logger has the empty name and the level \<open>WARNING\<close> at first.\<close>

definition log_ancestors :: "string \<Rightarrow> string list" where
  "log_ancestors name = name # rev [take i name. i \<leftarrow> [1..<length name], name ! i = CHR ''.''] @ ['''']"

definition effective_level :: "log_levels \<Rightarrow> string \<Rightarrow> int" where
  "effective_level levels name = (case List.map_filter levels (log_ancestors name) of [] \<Rightarrow> WARNING | l # _ \<Rightarrow> l)"

definition set_levels :: "string list \<Rightarrow> int \<Rightarrow> log_levels \<Rightarrow> log_levels" where
  "set_levels names level levels = foldl (\<lambda>ls name. ls(name \<mapsto> level)) levels names"

definition parse_csv :: "string option \<Rightarrow> string list" where
  "parse_csv value = (case value of None \<Rightarrow> []
     | Some s \<Rightarrow> map py_strip (filter (\<lambda>item. py_strip item \<noteq> []) (py_split (CHR '','') s)))"

definition configure_json_logging :: "int \<Rightarrow> log_levels \<Rightarrow> log_levels" where
  "configure_json_logging level levels = levels('''' \<mapsto> level)"

definition configure_logging :: "log_levels \<Rightarrow> log_levels" where
  "configure_logging levels = set_levels [''httpx'', ''apscheduler'', ''httpcore''] WARNING
     (configure_json_logging INFO levels)"

definition ing_configure_logging :: "log_levels \<Rightarrow> log_levels" where
  "ing_configure_logging levels = set_levels [''apscheduler'', ''httpx'', ''httpcore''] WARNING
     (configure_json_logging INFO levels)"

text \<open>The properties \<open>logger\<close> and \<open>logger_live\<close> of an adapter.\<close>

definition exchange_logger :: "string \<Rightarrow> string" where
  "exchange_logger exchange = ''funding_tracker.exchanges.'' @ exchange"

definition logger_live :: "string \<Rightarrow> string" where
  "logger_live exchange = ''funding_tracker.exchanges.'' @ exchange @ ''.live''"

definition ing_logger_live :: "string \<Rightarrow> string" where
  "ing_logger_live exchange = ''fundingpulse.ingestion.exchanges.'' @ exchange @ ''.live''"

definition configure_exchange_debug_logging :: "string option \<Rightarrow> log_levels \<Rightarrow> log_levels" where
  "configure_exchange_debug_logging exchanges_spec levels =
     set_levels (map (\<lambda>name. ''funding_tracker.exchanges.'' @ name) (parse_csv exchanges_spec)) DEBUG levels"

definition configure_live_debug_logging :: "string option \<Rightarrow> log_levels \<Rightarrow> log_levels" where
  "configure_live_debug_logging exchanges_spec levels =
     set_levels (map (\<lambda>name. ''funding_tracker.exchanges.'' @ name @ ''.live'') (parse_csv exchanges_spec)) DEBUG levels"

text \<open>The three calls of the tracker's \<open>main\<close>.\<close>

definition tracker_levels :: "string option \<Rightarrow> string option \<Rightarrow> log_levels" where
  "tracker_levels debug_exchanges debug_exchanges_live =
     configure_live_debug_logging debug_exchanges_live
       (configure_exchange_debug_logging debug_exchanges (configure_logging Map.empty))"

section \<open>Fields of a record\<close>

type_synonym event_dict = "(string, json) dict"

definition dict_update :: "event_dict \<Rightarrow> event_dict \<Rightarrow> event_dict" where
  "dict_update d fs = foldl (\<lambda>d (k, v). AList.update k v d) d fs"

definition runtime_fields :: "int \<Rightarrow> int \<Rightarrow> event_dict" where
  "runtime_fields instance_id total_instances = (if total_instances > 1
     then [(''instance_id'', JInt instance_id), (''total_instances'', JInt total_instances)] else [])"

definition add_runtime_context :: "string \<Rightarrow> string \<Rightarrow> event_dict \<Rightarrow> event_dict \<Rightarrow> event_dict" where
  "add_runtime_context service component extra_fields event_dict =
     AList.update ''component'' (JStr component)
       (AList.update ''service'' (JStr service) (dict_update event_dict extra_fields))"

definition add_domain_event :: "string list \<Rightarrow> event_dict \<Rightarrow> event_dict" where
  "add_domain_event allowed_events event_dict = (let event_dict = AList.delete ''domain_event'' event_dict in
     if map_of event_dict ''workflow'' = None then event_dict
     else (case map_of event_dict ''event'' of
       Some (JStr event) \<Rightarrow>
         if event \<in> set allowed_events then AList.update ''domain_event'' (JStr event) event_dict else event_dict
     | _ \<Rightarrow> event_dict))"

definition TRACKER_DOMAIN_EVENTS :: "string list" where
  "TRACKER_DOMAIN_EVENTS = [''contract_registry_started'', ''contract_registry_completed'',
     ''contract_registry_failed'', ''history_backfill_started'', ''history_backfill_completed'',
     ''history_backfill_failed'', ''history_backfill_contract_failed'', ''history_update_started'',
     ''history_update_completed'', ''history_update_failed'', ''history_update_contract_failed'',
     ''live_collection_started'', ''live_collection_completed'', ''live_collection_failed'',
     ''live_fetch_started'', ''live_fetch_completed'', ''live_persist_completed'']"

text \<open>The two processors of the tracker's formatter, in their order.\<close>

definition tracker_record :: "int \<Rightarrow> int \<Rightarrow> event_dict \<Rightarrow> event_dict" where
  "tracker_record instance_id total_instances event_dict = add_domain_event TRACKER_DOMAIN_EVENTS
     (add_runtime_context ''tracker'' ''tracker'' (runtime_fields instance_id total_instances) event_dict)"

text \<open>\<open>SectionLogger.process\<close>.\<close>

definition section_message :: "string \<Rightarrow> string \<Rightarrow> string" where
  "section_message section_name msg = ''['' @ section_name @ ''] '' @ msg"

section \<open>Lemmas\<close>

lemma set_levels_other: "name \<notin> set names \<Longrightarrow> set_levels names l ls name = ls name"
  unfolding set_levels_def by (induction names arbitrary: ls) auto

lemma set_levels_named: "name \<in> set names \<Longrightarrow> set_levels names l ls name = Some l"
proof (induction names arbitrary: ls)
  case (Cons n ns)
  then show ?case using set_levels_other [of name ns l "ls(n \<mapsto> l)"]
    by (cases "name \<in> set ns") (auto simp: set_levels_def)
qed simp

lemma set_levels_eq: "set_levels names l ls name = (if name \<in> set names then Some l else ls name)"
  by (simp add: set_levels_other set_levels_named)

text \<open>Which loggers have a level of their own.\<close>

lemma tracker_levels_eq:
  "tracker_levels debug live name =
    (if name \<in> (\<lambda>x. ''funding_tracker.exchanges.'' @ x @ ''.live'') ` set (parse_csv live) \<or>
        name \<in> (\<lambda>x. ''funding_tracker.exchanges.'' @ x) ` set (parse_csv debug) then Some DEBUG
     else if name \<in> {''httpx'', ''apscheduler'', ''httpcore''} then Some WARNING
     else if name = '''' then Some INFO else None)"
  by (auto simp: tracker_levels_def configure_live_debug_logging_def configure_exchange_debug_logging_def
      configure_logging_def configure_json_logging_def set_levels_eq)

lemma parse_csv_nonempty: "[] \<notin> set (parse_csv value)"
  by (auto simp: parse_csv_def split: option.splits)

text \<open>A logger inherits along its name, which the dots divide.\<close>

lemma log_ancestors_snoc:
  assumes "p \<noteq> []" "CHR ''.'' \<notin> set s"
  shows "log_ancestors (p @ ''.'' @ s) = (p @ ''.'' @ s) # log_ancestors p"
proof -
  let ?n = "p @ ''.'' @ s" and ?l = "length p"
  let ?c = "\<lambda>i. if ?n ! i = CHR ''.'' then [take i ?n] else []"
  have split: "[1..<length ?n] = [1..<?l] @ ?l # [Suc ?l..<length ?n]"
    using assms(1) upt_add_eq_append [of 1 ?l "Suc (length s)"] upt_conv_Cons [of ?l "?l + Suc (length s)"]
    by (simp add: Suc_leI del: upt_Suc)
  have late: "concat (map ?c [Suc ?l..<length ?n]) = []"
    using assms(2) by (auto simp: nth_append nth_Cons' in_set_conv_nth)
  have early: "map ?c [1..<?l] = map (\<lambda>i. if p ! i = CHR ''.'' then [take i p] else []) [1..<?l]"
    by (rule map_cong) (auto simp: nth_append)
  have "?c ?l = [p]" by (simp add: nth_append)
  then have "concat (map ?c [1..<length ?n]) =
      concat (map (\<lambda>i. if p ! i = CHR ''.'' then [take i p] else []) [1..<?l]) @ [p]"
    unfolding split map_append concat_append list.map concat.simps late early by simp
  then show ?thesis unfolding log_ancestors_def by (simp only: rev_append) simp
qed

lemma effective_level_none:
  "levels name = None \<Longrightarrow> log_ancestors name = name # log_ancestors p \<Longrightarrow>
   effective_level levels name = effective_level levels p"
  by (simp add: effective_level_def List.map_filter_def)

lemma effective_level_own: "levels name = Some l \<Longrightarrow> effective_level levels name = l"
  by (simp add: effective_level_def log_ancestors_def List.map_filter_def)

lemma tracker_root_levels:
  "tracker_levels debug live ''funding_tracker.exchanges'' = None"
  "tracker_levels debug live ''funding_tracker'' = None" "tracker_levels debug live '''' = Some INFO"
  by (auto simp: tracker_levels_eq)

text \<open>Above an adapter's logger nothing but the root has a level.\<close>

lemma tracker_parent_level: "effective_level (tracker_levels debug live) ''funding_tracker.exchanges'' = INFO"
proof -
  have "log_ancestors ''funding_tracker.exchanges'' = [''funding_tracker.exchanges'', ''funding_tracker'', '''']"
    by (simp add: log_ancestors_def upt_rec numeral_nat)
  then show ?thesis
    by (simp only: effective_level_def) (simp add: List.map_filter_def tracker_root_levels)
qed

lemma logger_names:
  "exchange_logger e = ''funding_tracker.exchanges'' @ ''.'' @ e" "logger_live e = exchange_logger e @ ''.'' @ ''live''"
  by (simp_all add: exchange_logger_def logger_live_def)

lemma named_levels:
  assumes "CHR ''.'' \<notin> set e" "e \<noteq> []"
  shows "tracker_levels debug live (exchange_logger e) = (if e \<in> set (parse_csv debug) then Some DEBUG else None)"
    "tracker_levels debug live (logger_live e) =
      (if e \<in> set (parse_csv live) \<or> e @ ''.live'' \<in> set (parse_csv debug) then Some DEBUG else None)"
  using assms by (auto simp: tracker_levels_eq exchange_logger_def logger_live_def)

text \<open>The options name no logger of a module.\<close>

lemma module_level_none:
  assumes "a \<noteq> ''''" "take (length a) ''fundingpulse'' = take 12 a"
  shows "tracker_levels debug live a = None"
proof -
  have no: "a \<noteq> ''funding_tracker.exchanges.'' @ x" for x
  proof
    assume a: "a = ''funding_tracker.exchanges.'' @ x"
    then have "12 \<le> length a" by simp
    then have "take 12 a = ''fundingpulse''" using assms(2) by simp
    then show False using a by simp
  qed
  have "a \<notin> {''httpx'', ''apscheduler'', ''httpcore''}" using assms(2) by auto
  moreover have "a \<notin> (\<lambda>x. ''funding_tracker.exchanges.'' @ x @ ''.live'') ` A"
    "a \<notin> (\<lambda>x. ''funding_tracker.exchanges.'' @ x) ` A" for A
    using no by blast+
  ultimately show ?thesis unfolding tracker_levels_eq using assms(1) by (simp only: if_False simp_thms)
qed

lemma map_filter_snoc: "List.map_filter f xs = [] \<Longrightarrow> f y = Some z \<Longrightarrow> List.map_filter f (xs @ [y]) = [z]"
  by (simp add: List.map_filter_def)

lemma prefix_agrees: "take (length (take i (p @ m))) p = take (length p) (take i (p @ m))"
  by (simp add: min_def)

lemma module_logger_level:
  assumes "starts_with ''fundingpulse'' name"
  shows "effective_level (tracker_levels debug live) name = INFO"
proof -
  have len: "length ''fundingpulse'' = 12" by simp
  have n: "name = ''fundingpulse'' @ drop 12 name"
  proof -
    have "take 12 name = ''fundingpulse''" using assms len unfolding starts_with_def by metis
    then show ?thesis by (metis append_take_drop_id)
  qed
  have "tracker_levels debug live a = None" if a: "a \<in> set (butlast (log_ancestors name))" for a
  proof -
    have "set (butlast (log_ancestors name)) \<subseteq> (\<lambda>i. take i name) ` {0<..Suc (length name)}"
      unfolding log_ancestors_def by (auto simp: butlast_append Suc_le_eq image_iff intro!: bexI [of _ "Suc (length name)"] split: if_splits)
    from subsetD [OF this a] obtain i where i: "0 < i" "a = take i name" by (auto simp: image_iff)
    have "name \<noteq> ''''" using n by auto
    then have "a \<noteq> ''''" using i by simp
    moreover have "take (length a) ''fundingpulse'' = take 12 a"
      using prefix_agrees [of i "''fundingpulse''" "drop 12 name"] unfolding i(2) n [symmetric] len .
    ultimately show ?thesis by (rule module_level_none)
  qed
  then have "List.map_filter (tracker_levels debug live) (butlast (log_ancestors name)) = []"
    by (simp add: List.map_filter_def filter_empty_iff_all)
  from map_filter_snoc [of _ _ "''''", OF this tracker_root_levels(3)]
  have "List.map_filter (tracker_levels debug live) (log_ancestors name) = [INFO]"
    by (simp add: log_ancestors_def butlast_append)
  then show ?thesis by (simp add: effective_level_def)
qed

text \<open>C38. The debug options of the tracker reach exactly the loggers \<open>funding_tracker.exchanges.<id>\<close>: the adapter's
  own logger is at \<open>DEBUG\<close> iff the first option lists the exchange, its live logger iff one of the
  options does (the first also as \<open><id>.live\<close>), and every other exchange stays at \<open>INFO\<close>. The loggers
  of the program's modules, on which all but one of the adapters' debug messages are logged,
  stay at \<open>INFO\<close> whatever the options are.\<close>

theorem debug_options_exact:
  assumes "CHR ''.'' \<notin> set e" and "e \<noteq> []" and "starts_with ''fundingpulse'' module_name"
  shows "effective_level (tracker_levels debug live) (exchange_logger e) =
      (if e \<in> set (parse_csv debug) then DEBUG else INFO) \<and>
    effective_level (tracker_levels debug live) (logger_live e) =
      (if e \<in> set (parse_csv debug) \<union> set (parse_csv live) \<or> e @ ''.live'' \<in> set (parse_csv debug) then DEBUG else INFO) \<and>
    effective_level (tracker_levels debug live) module_name = INFO"
proof -
  let ?L = "tracker_levels debug live"
  note own = named_levels [OF assms(1,2), of debug live]
  have anc: "log_ancestors (exchange_logger e) = exchange_logger e # log_ancestors ''funding_tracker.exchanges''"
    "log_ancestors (logger_live e) = logger_live e # log_ancestors (exchange_logger e)"
    using log_ancestors_snoc [of "''funding_tracker.exchanges''" e] log_ancestors_snoc [of "exchange_logger e" "''live''"] assms(1)
    by (simp_all add: exchange_logger_def logger_live_def)
  have 1: "effective_level ?L (exchange_logger e) = (if e \<in> set (parse_csv debug) then DEBUG else INFO)"
    using own(1) effective_level_none [OF _ anc(1), of ?L] effective_level_own [of ?L "exchange_logger e"] tracker_parent_level
    by auto
  have 2: "effective_level ?L (logger_live e) = (if e \<in> set (parse_csv live) \<or> e @ ''.live'' \<in> set (parse_csv debug)
      then DEBUG else effective_level ?L (exchange_logger e))"
    using own(2) effective_level_none [OF _ anc(2), of ?L] effective_level_own [of ?L "logger_live e"] by auto
  show ?thesis using 1 2 module_logger_level [OF assms(3)] by auto
qed

theorem debug_options_exact_witness:
  "effective_level (tracker_levels (Some ''bybit, okx'') None) (logger_live ''bybit'') = DEBUG \<and>
   effective_level (tracker_levels (Some ''bybit, okx'') None) ''fundingpulse.tracker.exchanges.bybit'' = INFO"
proof -
  have "''bybit'' \<in> set (parse_csv (Some ''bybit, okx''))" "starts_with ''fundingpulse'' ''fundingpulse.tracker.exchanges.bybit''"
    by code_simp+
  then show ?thesis
    using debug_options_exact [of "''bybit''" "''fundingpulse.tracker.exchanges.bybit''" "Some ''bybit, okx''" None] by simp
qed

text \<open>What the processors guarantee of a record: the service and the component are the tracker's, and it has
  the label of a domain event iff it belongs to a workflow and its event is in the vocabulary; no
  record can set them itself, and no other field but the runtime fields changes.\<close>

lemma dict_update_lookup: "map_of (dict_update d fs) = map_of d ++ map_of (rev fs)"
  by (induction fs arbitrary: d) (auto simp: dict_update_def update_conv' fun_eq_iff map_add_def split: option.splits)

lemma tracker_record_fields:
  "map_of (tracker_record i n ev) ''service'' = Some (JStr ''tracker'')"
  "map_of (tracker_record i n ev) ''component'' = Some (JStr ''tracker'')"
  "map_of (tracker_record i n ev) ''domain_event'' = (case map_of ev ''event'' of
     Some (JStr x) \<Rightarrow> if map_of ev ''workflow'' \<noteq> None \<and> x \<in> set TRACKER_DOMAIN_EVENTS then Some (JStr x) else None
   | _ \<Rightarrow> None)"
  "k \<notin> {''service'', ''component'', ''domain_event'', ''instance_id'', ''total_instances''} \<Longrightarrow>
    map_of (tracker_record i n ev) k = map_of ev k"
  by (auto simp: tracker_record_def add_domain_event_def add_runtime_context_def runtime_fields_def Let_def
      dict_update_lookup update_conv' delete_conv' map_add_def split: option.splits json.splits)

end
