(* ===== verification/Entrypoints.thy ===== *)
theory Entrypoints
  imports Jobs LiveWorker Services Logging
begin

text \<open>
  The processes: \<open>tracker/main.py\<close>, \<open>ingestion/main.py\<close>, \<open>ingestion/live_worker_main.py\<close>, the scope
  of \<open>db.py\<close> and the settings of \<open>tracker/settings.py\<close> and \<open>ingestion/settings.py\<close>.

  A process holds the engine, the HTTP client, the jobs of a started scheduler and the levels of
  its loggers; \<open>pr_world\<close> is what it can change outside. A coroutine returns, raises, or is still
  waiting, when its \<open>finally\<close> blocks have not run. \<open>Interrupt\<close> is the signal of the operator, which
  \<open>asyncio.run\<close> delivers by cancelling the coroutine and then raises as \<open>KeyboardInterrupt\<close>.
  Parameters: \<open>create\<close>, what the construction of the engine raises; \<open>connect\<close>, what the connection of
  the first transaction raises; and when the signal arrives.
\<close>

section \<open>Settings\<close>

record env =
  env_connection_url :: "string res"
  env_engine_kwargs :: kwargs
  env_session_kwargs :: kwargs
  env_enabled_exchanges :: "string option"
  env_app :: app_settings
  env_live :: live_settings

definition build_settings :: "env \<Rightarrow> settings res" where
  "build_settings e = rbind (env_connection_url e) (\<lambda>url.
     rbind (build_db_tuning (env_engine_kwargs e) (env_session_kwargs e)) (\<lambda>t.
     Inr \<lparr>connection_url = url, tuning = t, enabled_exchanges = parse_exchange_ids (env_enabled_exchanges e),
        app = env_app e\<rparr>))"

record ingestion_settings =
  is_url :: string
  is_tuning :: db_tuning
  is_exchanges :: "string list option"
  is_live :: live_settings

definition ing_build_settings :: "env \<Rightarrow> ingestion_settings res" where
  "ing_build_settings e = rbind (env_connection_url e) (\<lambda>url.
     rbind (build_db_tuning (env_engine_kwargs e) (env_session_kwargs e)) (\<lambda>t.
     rbind (mk_live_settings (env_live e)) (\<lambda>live.
     Inr \<lparr>is_url = url, is_tuning = t, is_exchanges = parse_exchange_ids (env_enabled_exchanges e), is_live = live\<rparr>)))"

section \<open>Coroutines with resources\<close>

datatype abort = Exc pyexc | Interrupt

datatype 'a outcome = Returned 'a | Threw abort | Waiting

record 'w process =
  pr_engine :: bool
  pr_http :: http_client
  pr_jobs :: "job list option"
  pr_levels :: log_levels
  pr_world :: 'w

type_synonym 'w coroutine = "'w process \<Rightarrow> unit outcome \<times> 'w process"

definition try_finally :: "('w process \<Rightarrow> 'w process) \<Rightarrow> unit outcome \<times> 'w process \<Rightarrow> unit outcome \<times> 'w process" where
  "try_finally cleanup r = (case r of (Waiting, p) \<Rightarrow> (Waiting, p) | (out, p) \<Rightarrow> (out, cleanup p))"

definition close_http :: "'w process \<Rightarrow> 'w process" where
  "close_http p = p\<lparr>pr_http := snd (http_shutdown (pr_http p))\<rparr>"

definition ing_close_http :: "'w process \<Rightarrow> 'w process" where
  "ing_close_http p = p\<lparr>pr_http := snd (ing_http_shutdown (pr_http p))\<rparr>"

definition db_session_factory_scope :: "unit res \<Rightarrow> 'w coroutine \<Rightarrow> 'w coroutine" where
  "db_session_factory_scope create body p = (case create of
     Inl e \<Rightarrow> (Threw (Exc e), p)
   | Inr _ \<Rightarrow> try_finally (\<lambda>p. p\<lparr>pr_engine := False\<rparr>) (body (p\<lparr>pr_engine := True\<rparr>)))"

section \<open>The tracker\<close>

text \<open>\<open>bootstrap\<close> opens a connection if it has sections to seed.\<close>

definition connected_bootstrap ::
  "utc \<Rightarrow> abort + unit \<Rightarrow> string list option \<Rightarrow> string list \<Rightarrow> bool \<Rightarrow> db \<Rightarrow> abort + job list \<times> db" where
  "connected_bootstrap now connect exchanges registry_exchanges owns_singleton_jobs d =
     (case bootstrap now exchanges (Some registry_exchanges) owns_singleton_jobs d of
        Inl e \<Rightarrow> Inl (Exc e)
      | Inr r \<Rightarrow> if bootstrap_exchanges exchanges (Some registry_exchanges) owns_singleton_jobs = Inr ([], []) then Inr r
          else (case connect of Inl a \<Rightarrow> Inl a | Inr _ \<Rightarrow> Inr r))"

definition run_scheduler ::
  "utc \<Rightarrow> unit res \<Rightarrow> abort + unit \<Rightarrow> bool \<Rightarrow> string list option \<Rightarrow> string list \<Rightarrow> bool \<Rightarrow> db coroutine" where
  "run_scheduler now create connect interrupted exchanges registry_exchanges owns_singleton_jobs =
     db_session_factory_scope create (\<lambda>p.
       case http_startup (int (http_max_connections_for_exchanges exchanges (Some registry_exchanges))) (pr_http p) of
         (Inl e, c) \<Rightarrow> (Threw (Exc e), p\<lparr>pr_http := c\<rparr>)
       | (Inr _, c) \<Rightarrow> try_finally close_http
           (let p = p\<lparr>pr_http := c\<rparr> in
            case connected_bootstrap now connect exchanges registry_exchanges owns_singleton_jobs (pr_world p) of
              Inl a \<Rightarrow> (Threw a, p)
            | Inr (jobs, d') \<Rightarrow>
                (if interrupted then Threw Interrupt else Waiting, p\<lparr>pr_jobs := Some jobs, pr_world := d'\<rparr>)))"

text \<open>How \<open>main\<close> ends: it still runs, or exits with a status.\<close>

datatype ending = Runs | Exits int

definition run_main :: "unit outcome \<times> 'w process \<Rightarrow> ending \<times> 'w process" where
  "run_main r = (case fst r of Waiting \<Rightarrow> Runs | Threw (Exc e) \<Rightarrow> Exits 1 | _ \<Rightarrow> Exits 0, snd r)"

definition tracker_main ::
  "utc \<Rightarrow> (runtime_config \<Rightarrow> unit res) \<Rightarrow> abort + unit \<Rightarrow> bool \<Rightarrow> cli_args \<Rightarrow> env \<Rightarrow> db process \<Rightarrow> ending \<times> db process" where
  "tracker_main now create connect interrupted args e p =
     (case rbind (build_settings e) (\<lambda>st. build_runtime_config args st EXCHANGES) of
        Inl _ \<Rightarrow> (Exits 1, p)
      | Inr c \<Rightarrow> run_main (run_scheduler now (create c) connect interrupted (rc_exchanges c)
          (rc_registry_exchanges c) (rc_owns_singleton_jobs c)
          (p\<lparr>pr_levels := configure_live_debug_logging (rc_debug_exchanges_live c)
             (configure_exchange_debug_logging (rc_debug_exchanges c) (configure_logging (pr_levels p)))\<rparr>)))"

section \<open>Live ingestion\<close>

definition ing_run_scheduler :: "(ingestion_settings \<Rightarrow> unit res) \<Rightarrow> bool \<Rightarrow> env \<Rightarrow> 'w coroutine" where
  "ing_run_scheduler create interrupted e p =
     (case rbind (ing_build_settings e) (\<lambda>st. rbind (resolve_enabled_exchanges (is_exchanges st) EXCHANGES)
            (\<lambda>exchanges. Inr (st, exchanges))) of
        Inl x \<Rightarrow> (Threw (Exc x), p)
      | Inr (st, exchanges) \<Rightarrow> db_session_factory_scope (create st) (\<lambda>p.
          try_finally (\<lambda>p. p\<lparr>pr_jobs := None\<rparr>)
            (if interrupted then Threw Interrupt else Waiting, p\<lparr>pr_jobs := Some (bootstrap_scheduler exchanges)\<rparr>)) p)"

definition ing_main :: "(ingestion_settings \<Rightarrow> unit res) \<Rightarrow> bool \<Rightarrow> env \<Rightarrow> 'w process \<Rightarrow> ending \<times> 'w process" where
  "ing_main create interrupted e p =
     run_main (ing_run_scheduler create interrupted e (p\<lparr>pr_levels := ing_configure_logging (pr_levels p)\<rparr>))"

definition LIVE_WORKER_HTTP_MAX_CONNECTIONS :: int where "LIVE_WORKER_HTTP_MAX_CONNECTIONS = 100"

text \<open>\<open>execute\<close> is \<open>execute_one_live_task\<close> with the worker's identity, adapters and configuration. The
  signal arrives in iteration \<open>n\<close>, which leaves the world \<open>partial\<close> makes of it.\<close>

definition run_worker ::
  "(ingestion_settings \<Rightarrow> unit res) \<Rightarrow> (string \<rightharpoonup> 'a) \<Rightarrow>
   (string \<Rightarrow> (string, 'a) dict \<Rightarrow> worker_config \<Rightarrow> nat \<Rightarrow> 'w \<Rightarrow> exec_result res \<times> 'w) \<Rightarrow>
   string \<times> int \<Rightarrow> (nat \<times> ('w \<Rightarrow> 'w)) option \<Rightarrow> env \<Rightarrow> string option \<Rightarrow> 'w coroutine" where
  "run_worker create live_adapters execute host interrupted e worker_id p =
     (case rbind (ing_build_settings e) (\<lambda>st. rbind (resolve_enabled_exchanges (is_exchanges st) EXCHANGES)
            (\<lambda>exchanges. Inr (st, exchanges))) of
        Inl x \<Rightarrow> (Threw (Exc x), p)
      | Inr (st, exchanges) \<Rightarrow>
          (let adapters = build_live_exchange_adapters live_adapters exchanges;
               worker = resolved_worker_id worker_id (fst host) (snd host) in
           db_session_factory_scope (create st) (\<lambda>p.
             case ing_http_startup LIVE_WORKER_HTTP_MAX_CONNECTIONS (pr_http p) of
               (Inl x, c) \<Rightarrow> (Threw (Exc x), p\<lparr>pr_http := c\<rparr>)
             | (Inr _, c) \<Rightarrow> try_finally ing_close_http
                 (let p = p\<lparr>pr_http := c\<rparr> in
                  case interrupted of
                    None \<Rightarrow> (Waiting, p)
                  | Some (n, partial) \<Rightarrow>
                      (case run_live_worker_loop (Suc n) (\<lambda>k. k = n)
                              (execute worker adapters (to_worker_config (is_live st))) 0 (pr_world p) [] of
                         None \<Rightarrow> (Waiting, p)
                       | Some (_, w) \<Rightarrow> (Threw Interrupt, p\<lparr>pr_world := partial w\<rparr>)))) p))"

definition worker_main ::
  "(ingestion_settings \<Rightarrow> unit res) \<Rightarrow> (string \<rightharpoonup> 'a) \<Rightarrow>
   (string \<Rightarrow> (string, 'a) dict \<Rightarrow> worker_config \<Rightarrow> nat \<Rightarrow> 'w \<Rightarrow> exec_result res \<times> 'w) \<Rightarrow>
   string \<times> int \<Rightarrow> (nat \<times> ('w \<Rightarrow> 'w)) option \<Rightarrow> env \<Rightarrow> string option \<Rightarrow> 'w process \<Rightarrow> ending \<times> 'w process" where
  "worker_main create live_adapters execute host interrupted e worker_id p =
     run_main (run_worker create live_adapters execute host interrupted e worker_id
       (p\<lparr>pr_levels := ing_configure_logging (pr_levels p)\<rparr>))"

section \<open>Lemmas\<close>

definition released :: "'w process \<Rightarrow> bool" where
  "released p \<longleftrightarrow> \<not> pr_engine p \<and> pr_http p = None"

definition holds_resources :: "'w process \<Rightarrow> bool" where
  "holds_resources p \<longleftrightarrow> pr_engine p \<and> pr_http p \<noteq> None"

lemma close_http_simps [simp]:
  "pr_http (close_http p) = None" "pr_engine (close_http p) = pr_engine p" "pr_jobs (close_http p) = pr_jobs p"
  "pr_world (close_http p) = pr_world p"
  by (simp_all add: close_http_def http_shutdown_def)

lemma try_finally_simps [simp]:
  "try_finally f (Waiting, p) = (Waiting, p)" "try_finally f (Threw a, p) = (Threw a, f p)"
  "try_finally f (Returned x, p) = (Returned x, f p)"
  by (simp_all add: try_finally_def)

lemma ing_close_http_same [simp]: "ing_close_http = close_http"
  by (intro ext) (simp add: ing_close_http_def close_http_def ing_http_same)

lemma http_startup_fresh: "0 < n \<Longrightarrow> http_startup n None = (Inr (), Some (nat n))"
  by (simp add: http_startup_def)

lemma connections_positive: "0 < http_max_connections_for_exchanges a b"
  by (simp add: http_max_connections_for_exchanges_def Let_def)

lemma run_main_simps [simp]:
  "run_main (Waiting, p) = (Runs, p)" "run_main (Threw (Exc e), p) = (Exits 1, p)" "run_main (Threw Interrupt, p) = (Exits 0, p)"
  by (simp_all add: run_main_def)

text \<open>The three coroutines from a process that holds nothing.\<close>

lemma run_scheduler_fresh:
  assumes "released p"
  shows "run_scheduler now create connect interrupted exchanges registry owns p = (case create of
     Inl e \<Rightarrow> (Threw (Exc e), p)
   | Inr _ \<Rightarrow> (case connected_bootstrap now connect exchanges registry owns (pr_world p) of
       Inl a \<Rightarrow> (Threw a, p)
     | Inr (jobs, d') \<Rightarrow> if interrupted then (Threw Interrupt, p\<lparr>pr_jobs := Some jobs, pr_world := d'\<rparr>)
         else (Waiting, p\<lparr>pr_engine := True, pr_http := Some (http_max_connections_for_exchanges exchanges (Some registry)),
           pr_jobs := Some jobs, pr_world := d'\<rparr>)))"
  using assms connections_positive [of exchanges "Some registry"]
  by (cases p) (auto simp: run_scheduler_def db_session_factory_scope_def released_def http_startup_fresh close_http_def
      http_shutdown_def Let_def split: sum.splits prod.splits)

lemma ing_run_scheduler_ends:
  assumes "ing_run_scheduler create interrupted e p = (out, q)" and "released p" and "pr_jobs p = None"
  shows "(out = Waiting \<longrightarrow> pr_engine q) \<and> (out \<noteq> Waiting \<longrightarrow> released q \<and> pr_jobs q = None) \<and>
    (\<forall>x. out \<noteq> Returned x) \<and> (out = Threw Interrupt \<longrightarrow> interrupted)"
  using assms by (auto simp: ing_run_scheduler_def db_session_factory_scope_def released_def Let_def
      split: sum.splits prod.splits if_splits)

lemma worker_loop_interrupted: "\<exists>acc w'. run_live_worker_loop (Suc n) (\<lambda>k. k = n) execute 0 w [] = Some (acc, w')"
  using worker_loop_survives_failures [of n "\<lambda>k. k = n" 0 "Suc n" execute w] by auto

lemma run_worker_ends:
  assumes "run_worker create live_adapters execute host interrupted e worker_id p = (out, q)" and "released p"
  shows "(out = Waiting \<longrightarrow> holds_resources q) \<and> (out \<noteq> Waiting \<longrightarrow> released q) \<and>
    (\<forall>x. out \<noteq> Returned x) \<and> (out = Threw Interrupt \<longrightarrow> interrupted \<noteq> None)"
  using assms
  by (auto simp: run_worker_def db_session_factory_scope_def released_def holds_resources_def http_startup_fresh ing_http_same
      LIVE_WORKER_HTTP_MAX_CONNECTIONS_def Let_def split: sum.splits prod.splits option.splits)

lemma run_main_ends:
  assumes "\<forall>x. fst r \<noteq> Returned x"
  shows "fst (run_main r) = Runs \<longleftrightarrow> fst r = Waiting" "fst (run_main r) = Exits 0 \<longleftrightarrow> fst r = Threw Interrupt"
    "snd (run_main r) = snd r" "fst (run_main r) \<in> {Runs, Exits 0, Exits 1}"
  using assms by (cases r; auto simp: run_main_def split: outcome.splits abort.splits)+

lemma run_scheduler_ends:
  assumes "run_scheduler now create connect interrupted exchanges registry owns p = (out, q)" and "released p"
  shows "(out = Waiting \<longrightarrow> holds_resources q) \<and> (out \<noteq> Waiting \<longrightarrow> released q) \<and>
    (\<forall>x. out \<noteq> Returned x) \<and> (out = Threw Interrupt \<longrightarrow> interrupted \<or> connect = Inl Interrupt)"
  using assms(1,2) unfolding run_scheduler_fresh [OF assms(2)]
  by (auto simp: released_def holds_resources_def connected_bootstrap_def split: sum.splits prod.splits if_splits)

lemma released_levels [simp]: "released (p\<lparr>pr_levels := l\<rparr>) = released p"
  by (simp add: released_def)

text \<open>The three \<open>main\<close> functions.\<close>

lemma tracker_main_ends:
  assumes "tracker_main now create connect interrupted args e p = (r, p')" and "released p"
  shows "r \<in> {Runs, Exits 0, Exits 1} \<and> (if r = Runs then holds_resources p' else released p') \<and>
    (r = Exits 0 \<longrightarrow> interrupted \<or> connect = Inl Interrupt)"
proof (cases "rbind (build_settings e) (\<lambda>st. build_runtime_config args st EXCHANGES)")
  case (Inr c)
  obtain o1 p1 where r: "run_scheduler now (create c) connect interrupted (rc_exchanges c) (rc_registry_exchanges c)
      (rc_owns_singleton_jobs c) (p\<lparr>pr_levels := configure_live_debug_logging (rc_debug_exchanges_live c)
         (configure_exchange_debug_logging (rc_debug_exchanges c) (configure_logging (pr_levels p)))\<rparr>) = (o1, p1)"
    by fastforce
  have m: "run_main (o1, p1) = (r, p')" using assms(1) Inr r by (simp add: tracker_main_def)
  show ?thesis using run_scheduler_ends [OF r] run_main_ends [of "(o1, p1)", unfolded m] assms(2) by auto
qed (use assms in \<open>auto simp: tracker_main_def\<close>)

lemma ing_main_ends:
  assumes "ing_main create interrupted e p = (r, p')" and "released p" and "pr_jobs p = None"
  shows "r \<in> {Runs, Exits 0, Exits 1} \<and> (if r = Runs then pr_engine p' else released p' \<and> pr_jobs p' = None) \<and>
    (r = Exits 0 \<longrightarrow> interrupted)"
proof -
  obtain o1 p1 where r: "ing_run_scheduler create interrupted e (p\<lparr>pr_levels := ing_configure_logging (pr_levels p)\<rparr>) = (o1, p1)"
    by fastforce
  have m: "run_main (o1, p1) = (r, p')" using assms(1) r by (simp add: ing_main_def)
  show ?thesis using ing_run_scheduler_ends [OF r] run_main_ends [of "(o1, p1)", unfolded m] assms(2,3) by auto
qed

lemma worker_main_ends:
  assumes "worker_main create live_adapters execute host interrupted e worker_id p = (r, p')" and "released p"
  shows "r \<in> {Runs, Exits 0, Exits 1} \<and> (if r = Runs then holds_resources p' else released p') \<and>
    (r = Exits 0 \<longrightarrow> interrupted \<noteq> None)"
proof -
  obtain o1 p1 where r: "run_worker create live_adapters execute host interrupted e worker_id
      (p\<lparr>pr_levels := ing_configure_logging (pr_levels p)\<rparr>) = (o1, p1)" by fastforce
  have m: "run_main (o1, p1) = (r, p')" using assms(1) r by (simp add: worker_main_def)
  show ?thesis using run_worker_ends [OF r] run_main_ends [of "(o1, p1)", unfolded m] assms(2) by auto
qed

text \<open>A started instance.\<close>

lemma connections_enough:
  assumes "bootstrap_exchanges exchanges (Some registry) owns = Inr (own, reg)"
  shows "100 * card (set own \<union> set reg) \<le> http_max_connections_for_exchanges exchanges (Some registry)"
proof -
  have s: "set ys \<subseteq> set (or_env xs EXCHANGES)" if "resolve_exchanges xs = Inr ys" for xs ys
    using that by (cases xs) (auto simp: resolve_exchanges_def or_env_def Let_def split: if_splits)
  obtain req where r: "resolve_exchanges exchanges = Inr own" "resolve_exchanges (Some registry) = Inr req" "reg = (if owns then req else [])"
    using assms by (auto simp: bootstrap_exchanges_def or_env_def res_simps)
  let ?all = "set (or_env (Some registry) [] @ or_env exchanges EXCHANGES)"
  have "set own \<union> set reg \<subseteq> ?all" using s [OF r(1)] s [OF r(2)] r(3) by (auto simp: or_env_def)
  then have "card (set own \<union> set reg) \<le> card ?all" by (intro card_mono) auto
  also have "\<dots> = length (remdups (or_env (Some registry) [] @ or_env exchanges EXCHANGES))" by (metis length_remdups_card_conv)
  finally show ?thesis by (simp add: http_max_connections_for_exchanges_def Let_def)
qed

lemma ensure_sections_names:
  assumes "ensure_sections names d = Inr (u, d')"
  shows "s_name ` set (sections d') = s_name ` set (sections d) \<union> set names"
proof (cases "names = []")
  case False
  then have "sections d' = fst (insert_ignore s_name (sections d) (map (\<lambda>n. \<lparr>s_name = n, s_special = JObj []\<rparr>) names))"
    using assms by (auto simp: ensure_sections_def bulk_insert_ignore)
  then show ?thesis by (simp add: insert_ignore_keys image_image)
qed (use assms in \<open>simp add: ensure_sections_def\<close>)

lemma instance_sections:
  assumes "bootstrap now exchanges (Some registry) owns d = Inr (jobs, d')"
    and "bootstrap_exchanges exchanges (Some registry) owns = Inr (own, reg)"
  shows "s_name ` set (sections d') = s_name ` set (sections d) \<union> set own \<union> set reg"
proof -
  have "ensure_sections (sorted_set (own @ reg)) d = Inr ((), d')" using assms by (auto simp: bootstrap_def res_simps)
  from ensure_sections_names [OF this] show ?thesis by (simp add: Un_assoc)
qed

section \<open>Properties\<close>

text \<open>C37. A tracker instance whose configuration is valid starts, whatever is in the database: it runs with the
  jobs of its share of the exchanges, the registry and the services on instance 0 only, with a
  section for each of its exchanges, which the registry's inserts rely on, and with at least a
  hundred HTTP connections for each of them. Only the engine, the connection or the operator can stop it.\<close>

theorem tracker_main_starts:
  assumes "build_settings e = Inr st" and "resolve_enabled_exchanges (requested_exchanges args st) EXCHANGES = Inr sel"
    and "arg_instance_id args = Some i" and "arg_total_instances args = Some n" and "0 \<le> i" and "i < n" and "released p"
  defines "own \<equiv> step_slice (nat i) (nat n) sel" and "reg \<equiv> if i = 0 then sel else []"
  shows "\<exists>p' m. tracker_main now (\<lambda>_. Inr ()) (Inr ()) False args e p = (Runs, p') \<and> pr_engine p' \<and> pr_http p' = Some m \<and>
    100 * card (set own \<union> set reg) \<le> m \<and>
    pr_jobs p' = Some (exchange_jobs now own @ contract_registry_jobs now reg @ (if i = 0 then service_jobs now else [])) \<and>
    s_name ` set (sections (pr_world p')) = s_name ` set (sections (pr_world p)) \<union> set own \<union> set reg"
proof -
  have args: "args\<lparr>arg_instance_id := Some i, arg_total_instances := Some n\<rparr> = args"
    using assms(3,4) by (cases args) simp
  obtain d' where b: "instance_bootstrap args st i n now (pr_world p) =
      Inr (exchange_jobs now own @ contract_registry_jobs now reg @ (if i = 0 then service_jobs now else []), d')"
    using instance_jobs [OF assms(2,5,6)] unfolding own_def reg_def by metis
  then obtain c where c: "build_runtime_config args st EXCHANGES = Inr c"
    "bootstrap now (rc_exchanges c) (Some (rc_registry_exchanges c)) (rc_owns_singleton_jobs c) (pr_world p) =
      Inr (exchange_jobs now own @ contract_registry_jobs now reg @ (if i = 0 then service_jobs now else []), d')"
    unfolding instance_bootstrap_def args by (auto simp: res_simps)
  have "own = sel" if "\<not> 1 < n"
  proof -
    have "n = 1" "i = 0" using that assms(5,6) by auto
    then show ?thesis unfolding own_def by (intro nth_equalityI) (simp_all add: step_slice_def)
  qed
  then have ex: "bootstrap_exchanges (rc_exchanges c) (Some (rc_registry_exchanges c)) (rc_owns_singleton_jobs c) = Inr (own, reg)"
    using instance_exchanges_eq [OF assms(2,5,6)] assms(5,6) c(1)
    unfolding instance_exchanges_def args c(1) own_def [symmetric] reg_def by (auto split: if_splits)
  show ?thesis
    using connections_enough [OF ex] instance_sections [OF c(2) ex] assms(7)
    by (simp add: tracker_main_def assms(1) c run_scheduler_fresh connected_bootstrap_def)
qed

text \<open>Each of the three processes ends with status 0 only on the operator's signal and with status 1 on any
  exception, a bad configuration included; however it ends, the engine is disposed of and the
  HTTP client closed, and the ingestion scheduler is shut down; while it runs it holds them.\<close>

theorem entry_points_release:
  assumes "released p" and "released q" and "pr_jobs q = None" and "released v"
    and "tracker_main now create connect interrupted args e p = (r1, p')"
    and "ing_main ing_create interrupted e q = (r2, q')"
    and "worker_main ing_create live_adapters execute host struck e worker_id v = (r3, v')"
  shows "{r1, r2, r3} \<subseteq> {Runs, Exits 0, Exits 1} \<and>
    (if r1 = Runs then holds_resources p' else released p') \<and>
    (if r2 = Runs then pr_engine q' else released q' \<and> pr_jobs q' = None) \<and>
    (if r3 = Runs then holds_resources v' else released v') \<and>
    (r1 = Exits 0 \<longrightarrow> interrupted \<or> connect = Inl Interrupt) \<and> (r2 = Exits 0 \<longrightarrow> interrupted) \<and>
    (r3 = Exits 0 \<longrightarrow> struck \<noteq> None)"
proof -
  note tracker_main_ends [OF assms(5,1)] ing_main_ends [OF assms(6,2,3)] worker_main_ends [OF assms(7,4)]
  then show ?thesis by (elim conjE, intro conjI) (simp, assumption+)
qed

text \<open>Instance 1 of 2 for two exchanges.\<close>

definition w_env :: env where
  "w_env = \<lparr>env_connection_url = Inr ''db'', env_engine_kwargs = [], env_session_kwargs = [],
     env_enabled_exchanges = Some ''okx, bybit'', env_app = app w_settings,
     env_live = \<lparr>enqueue_timeout_seconds = 45, task_timeout_seconds = 45, stale_running_grace_seconds = 15,
       worker_poll_interval_seconds = 1\<rparr>\<rparr>"

definition w_second :: cli_args where
  "w_second = \<lparr>arg_exchanges = None, arg_debug_exchanges = None, arg_debug_exchanges_live = None,
     arg_instance_id = Some 1, arg_total_instances = Some 2\<rparr>"

definition w_process :: "'w \<Rightarrow> 'w process" where
  "w_process w = \<lparr>pr_engine = False, pr_http = None, pr_jobs = None, pr_levels = Map.empty, pr_world = w\<rparr>"

lemma w_process_simps: "released (w_process w)" "pr_jobs (w_process w) = None" "pr_world (w_process w) = w"
  by (simp_all add: w_process_def released_def)

theorem tracker_main_starts_witness:
  "\<exists>p'. tracker_main 7 (\<lambda>_. Inr ()) (Inr ()) False w_second w_env (w_process w_fresh_db) = (Runs, p') \<and>
     map job_work (the (pr_jobs p')) = [Backfill_history ''okx'', Update_history ''okx'', Update_live ''okx''] \<and>
     s_name ` set (sections (pr_world p')) = {''okx''}"
proof -
  obtain st where st: "build_settings w_env = Inr st" "enabled_exchanges st = Some [''okx'', ''bybit'']"
  proof -
    have "map_sum id enabled_exchanges (build_settings w_env) = Inr (Some [''okx'', ''bybit''])" by code_simp
    then show thesis using that by (cases "build_settings w_env") auto
  qed
  have "resolve_enabled_exchanges (Some [''okx'', ''bybit'']) EXCHANGES = Inr [''bybit'', ''okx'']" by code_simp
  then have sel: "resolve_enabled_exchanges (requested_exchanges w_second st) EXCHANGES = Inr [''bybit'', ''okx'']"
    by (simp add: requested_exchanges_def w_second_def st(2))
  have i: "arg_instance_id w_second = Some 1" "arg_total_instances w_second = Some 2" by (simp_all add: w_second_def)
  have less: "(1::int) < 2" and zero: "((1::int) = 0) = False" by simp_all
  have own: "step_slice (nat 1) (nat 2) [''bybit'', ''okx''] = [''okx'']" by code_simp
  have works: "map job_work (exchange_jobs 7 [''okx'']) = [Backfill_history ''okx'', Update_history ''okx'', Update_live ''okx'']"
    by (simp add: exchange_jobs_def Let_def history_backfill_job_def history_update_job_def live_job_def enumerate_eq_zip)
  obtain p' m where t: "tracker_main 7 (\<lambda>_. Inr ()) (Inr ()) False w_second w_env (w_process w_fresh_db) = (Runs, p')"
    "pr_jobs p' = Some (exchange_jobs 7 [''okx''] @ contract_registry_jobs 7 [] @ [])"
    "s_name ` set (sections (pr_world p')) = s_name ` set (sections w_fresh_db) \<union> set [''okx''] \<union> set []"
    using tracker_main_starts [OF st(1) sel i zero_le_one less w_process_simps(1), of 7 w_fresh_db,
      unfolded own w_process_simps zero if_False]
    by (elim exE conjE) (rule that, assumption+)
  have "map job_work (the (pr_jobs p')) = [Backfill_history ''okx'', Update_history ''okx'', Update_live ''okx'']"
    unfolding t(2) by (simp add: works contract_registry_jobs_def)
  moreover have "s_name ` set (sections (pr_world p')) = {''okx''}" unfolding t(3) by (simp add: w_fresh_db_def)
  ultimately show ?thesis using t(1) by (intro exI conjI)
qed

text \<open>The database refuses the connection, and the operator stops the two ingestion processes, the worker in its
  third iteration.\<close>

theorem entry_points_release_witness:
  "\<exists>p' q' v'. tracker_main 7 (\<lambda>_. Inr ()) (Inl (Exc DBAPIError)) True w_second w_env (w_process w_fresh_db) = (Exits 1, p') \<and>
     ing_main (\<lambda>_. Inr ()) True w_env (w_process (0::nat)) = (Exits 0, q') \<and>
     worker_main (\<lambda>_. Inr ()) (\<lambda>_. Some (0::nat)) (\<lambda>_ _ _ k w. (Inl RuntimeError, w + k)) (''host'', 1) (Some (2, Suc)) w_env None
       (w_process (0::nat)) = (Exits 0, v') \<and>
     released p' \<and> released q' \<and> released v'"
proof -
  let ?t = "tracker_main 7 (\<lambda>_. Inr ()) (Inl (Exc DBAPIError)) True w_second w_env (w_process w_fresh_db)"
  let ?q = "ing_main (\<lambda>_. Inr ()) True w_env (w_process (0::nat))"
  let ?w = "worker_main (\<lambda>_. Inr ()) (\<lambda>_. Some (0::nat)) (\<lambda>_ _ _ k w. (Inl RuntimeError, w + k)) (''host'', 1) (Some (2, Suc))
    w_env None (w_process (0::nat))"
  have f: "fst ?t = Exits 1" "fst ?q = Exits 0" "fst ?w = Exits 0" by code_simp+
  obtain p' q' v' where e: "?t = (Exits 1, p')" "?q = (Exits 0, q')" "?w = (Exits 0, v')"
    using f by (metis prod.collapse)
  have "released p'" "released q'" "released v'"
    using entry_points_release [OF w_process_simps(1) w_process_simps(1,2) w_process_simps(1) e] by simp_all
  with e show ?thesis by (intro exI conjI)
qed

end
