(* ===== verification/Spec2Isabelle.thy ===== *)
theory Spec2Isabelle
  imports BulkUpsert Maintenance MigrationRerun MigrationWalk MigrationEnv ApiApp AsterBackfill LiveRound AdaptersAgree ContractSearch VerifyTool Served Entrypoints
begin

text \<open>
  A model of fundingpulse, a service that collects the funding rates of perpetual futures from
  fifteen exchange sections and serves them through a read API. All paths below are under
  \<open>src/fundingpulse/\<close>.

  \<^bold>\<open>The program.\<close> Four kinds of process share one PostgreSQL database.
  \<^item> The \<^emph>\<open>tracker\<close> (\<open>tracker/\<close>), possibly several instances: the scheduler runs, per exchange
    the instance owns, the contract registry (singleton), the live collector, the incremental
    history update and the history backfill, and, on instance 0, the ranking update and the check
    of the materialized view \<open>contract_enriched\<close>.
  \<^item> \<^emph>\<open>Live ingestion\<close> (\<open>ingestion/\<close>): an enqueuing scheduler and any number of workers, which
    communicate through the table \<open>ingestion_task\<close> only.
  \<^item> The \<^emph>\<open>API\<close> (\<open>api/\<close>), which only reads.
  \<^item> PostgreSQL with TimescaleDB, which is represented by the tables, the views and the policies of
    \<open>migrations/\<close> and by the statements the code issues.

  Jobs reach an exchange through an \<^emph>\<open>adapter\<close> (\<open>tracker/exchanges/\<close>, \<open>ingestion/exchanges/\<close>),
  which turns HTTP answers into contracts and funding points. Contracts flow into the registry,
  points into the history and live tables, both into the API's queries. The registry signals the
  refresher of the view when the set of contracts has changed.

  \<^bold>\<open>Theories and the code they model.\<close>
  \<^item> \<open>Prelude\<close>: exceptions (\<open>pyexc\<close>), results (\<open>'a res\<close>: \<open>Inl\<close> an exception, \<open>Inr\<close> a value),
    insertion-ordered dictionaries, Python's string operations.
  \<^item> \<open>PyFloat\<close>, \<open>PyTime\<close>, \<open>PyIso\<close>: binary64 rounding on rationals, \<open>time.py\<close>; instants are
    microseconds since the epoch. Every float operation of the source is rounded where the source
    rounds.
  \<^item> \<open>PyJson\<close>: the values \<open>response.json()\<close> returns and the operations that raise on them.
  \<^item> \<open>Store\<close>: the tables of \<open>models/\<close> as the record \<open>db\<close>, and the statements of
    \<open>tracker/queries/\<close> and \<open>ingestion/live/queries.py\<close>, each with its constraints. The locale
    \<open>point_table\<close> is the contract of an insert that skips existing points; all three insert
    functions interpret it. \<open>BulkUpsert\<close>: the update mode of \<open>bulk_insert\<close>.
  \<^item> \<open>Selection\<close>: \<open>exchange_selection.py\<close>, \<open>tracker/runtime.py\<close>, \<open>tracker/main.py\<close>
    (pool sizes), \<open>db_settings.py\<close>. \<open>Logging\<close>: both \<open>logging_setup.py\<close>, \<open>observability/logging.py\<close>.
  \<^item> \<open>Entrypoints\<close>: the three \<open>main\<close> functions (\<open>tracker/main.py\<close>, \<open>ingestion/main.py\<close>,
    \<open>ingestion/live_worker_main.py\<close>), the settings and the scope of \<open>db.py\<close>, as coroutines over the
    resources of a process.
  \<^item> \<open>Registry\<close>: \<open>tracker/orchestration/contract_registry.py\<close>, \<open>tracker/queries/contracts.py\<close>.
    The abstract view \<open>section_view\<close> of a section is a map from (asset, quote) to the active flag
    and the funding interval; \<open>sync_spec\<close> is what a run promises on it.
  \<^item> \<open>History\<close>: \<open>tracker/orchestration/history_update.py\<close>, \<open>history_backfill.py\<close>,
    \<open>historical_persistence.py\<close>; \<open>HistoryState\<close>: all writers of these tables as the step
    relation \<open>db_step\<close> and its reachable states.
  \<^item> \<open>LiveQueue\<close>: the task table with \<open>ingestion/live/queries.py\<close> and \<open>enqueuer.py\<close>, as the step
    relation \<open>task_step\<close>; \<open>LiveWorker\<close>: \<open>tracker/orchestration/live_collector.py\<close> and
    \<open>ingestion/live/collector.py\<close>, \<open>worker.py\<close>, \<open>runtime.py\<close>; \<open>LiveRound\<close>: both together, from the
    tick to the live table.
  \<^item> \<open>Adapter\<close>: both \<open>base.py\<close>, with the locales \<open>live_adapter\<close> (what every live collection
    promises of its result) and \<open>page_walk\<close> (a paging loop). \<open>AdaptersBinance\<close>, \<open>AdaptersCex\<close>,
    \<open>AdaptersDex\<close>, \<open>AdaptersPaged\<close> and \<open>AdaptersStateful\<close> hold the adapters, named after the
    exchange, with the prefix \<open>ing\<close> for those of live ingestion; \<open>AdaptersAgree\<close> compares the two
    services.
  \<^item> \<open>Pipeline\<close>: the backfill workflow on top of the Binance adapter; the theorem about the composition
    is in this theory. \<open>AsterBackfill\<close>: on top of the Aster adapter, whose windows hold more records
    than one answer.
  \<^item> \<open>Services\<close>: \<open>tracker/materialized_view_refresher.py\<close>, \<open>tracker/services/asset_ranking.py\<close>, the
    two \<open>infrastructure/http_client.py\<close>.
  \<^item> \<open>Jobs\<close>: job registration in \<open>tracker/bootstrap.py\<close>, \<open>ingestion/scheduler.py\<close>,
    \<open>ingestion/settings.py\<close>.
  \<^item> \<open>ApiQueries\<close>, \<open>Api\<close>: \<open>api/queries/funding_sql_composer.py\<close>, \<open>api/queries/funding_data.py\<close>,
    \<open>api/queries/meta.py\<close>, \<open>api/api/v0/funding_data.py\<close>, \<open>api/api/v0/meta.py\<close>; \<open>ContractSearch\<close>:
    \<open>api/queries/contract_search.py\<close> with the SQL function of \<open>migrations/versions/006\<close>.
  \<^item> \<open>Schema\<close>: \<open>migrations/versions/\<close> 002, 003, 004, 005, 007 and 008: the multiplier function, the
    views \<open>contract_enriched\<close> and \<open>lfp_smart\<close>, the aggregates with their refresh and retention
    policies, and the data migration. \<open>Served\<close>: from a registry run to the rows of the API.
  \<^item> \<open>Ddl\<close>: the language of the migrations, its effect on the catalogue of the database, interrupted
    scripts, and the locale \<open>revision_chain\<close>. \<open>Migrations\<close>: all nine upgrades and downgrades of
    \<open>migrations/versions/\<close> as lists of statements, and the tables that \<open>models/\<close> declares;
    \<open>MigratedSchema\<close> compares the two, \<open>MigrationRerun\<close> repeats interrupted migrations, and
    \<open>MigrationWalk\<close> interprets the locale. \<open>MigrationEnv\<close>: the numbering of revisions in
    \<open>migrations/env.py\<close>.
  \<^item> \<open>ApiApp\<close>: \<open>api/main.py\<close>, \<open>api/db.py\<close>, \<open>api/settings.py\<close>, the routers and the wrappers of responses.
  \<^item> \<open>VerifyTool\<close>: the operator's tool \<open>tracker/tools/verify_exchange.py\<close>. \<open>Maintenance\<close>: the commit hook
    \<open>check_no_datetime_usage.py\<close>, in the directory \<open>scripts/\<close> of the repository.

  \<^bold>\<open>Conventions.\<close> Functions keep the names of the source. A committed transaction is a function
  \<open>db \<Rightarrow> 'a res\<close> whose error leaves the caller the database it had, which is the rollback; a
  function of several transactions returns the database after each exit. What lies outside is an
  argument: the answers of an exchange (\<open>api\<close>, by number of request), the clock (\<open>now\<close>,
  \<open>clock\<close>), fresh identifiers (\<open>uuids\<close>), the commits of other processes between two transactions
  (\<open>meanwhile\<close>, \<open>others\<close>), which tasks a timeout cancels (\<open>cancel\<close>, \<open>budget\<close>), and the choices of
  PostgreSQL that SQL leaves open (record \<open>pg\<close>: order of summation, \<open>time_bucket\<close>; \<open>plan\<close>: the order of ties,
  which each statement chooses anew).

  \<^bold>\<open>Bounds and fuel.\<close> No loop of the program has a bound of its own, so the models take one and tell
  when it is not enough.
  \<^item> \<open>backfill_loop\<close> takes a number of iterations and returns \<open>Cancelled\<close> at 0, which is also what
    the run's timeout does; \<open>backfill_complete_and_isolated\<close> shows that one more than the number of
    settlements of the exchange is enough.
  \<^item> The paging loops of Bybit, Derive and Pacifica return \<open>None\<close> at 0; \<open>bybit_collects_all_pages\<close>
    and \<open>derive_collects_all_pages\<close> show that the number of pages is enough.
  \<^item> \<open>http_retry\<close> returns \<open>None\<close> at 0; \<open>request_attempts_bounded\<close> shows that ten attempts are enough with
    the waits of the retry policy.
  \<^item> \<open>run_live_worker_loop\<close> returns \<open>None\<close> at 0; \<open>worker_loop_survives_failures\<close> shows that the number
    of iterations before the stop event is enough, whatever they raise. \<open>run_worker\<close> has no stop
    event: it waits forever, or a signal stops the loop after some iteration.

  \<^bold>\<open>What the lemmas show.\<close>
  \<^item> Registry: a run refines \<open>sync_spec\<close>, fails exactly on a duplicated key and then changes nothing,
    is idempotent, and signals exactly on a change.
  \<^item> History: a backfill against an exchange that answers truthfully stores the whole archive, also
    when it resumes one that a timeout or an exception stopped; whatever the exchanges answer, it
    only appends what they answered, and changes no row but the state of pending contracts; an update closes the gap;
    counters account for every contract. Over all interleavings, bounds are the exact minimum and
    maximum of the stored points and no point is lost or rewritten.
  \<^item> Live queue: unique keys, at most one active task per exchange, first in first out, exclusive
    claims, status moves forward only, exact stale recovery, ownership at finalization, and every
    claimed task is settled by its worker; after a tick, a worker that runs alone collects every
    exchange that answers, each rate under its contract and instant.
  \<^item> Adapters: exact batches, isolated failures, symbol round trips, equality of the two services'
    live rates (with Lighter's renamed markets as the exception), complete listings, exact windows, and the aggregation of Paradex against a reference.
  \<^item> Selection, jobs and entry points: instances partition the exchanges, each job runs exactly once in
    a fleet, a valid configuration starts, and every process releases its resources. The debug
    options reach the loggers they name and no others.
  \<^item> Services: staleness of the view has a pending cause, with the lost signal as the exception, and
    the ranking has the last coin of a symbol.
  \<^item> API: the rows of each query as sets of contracts, paging up to ties, which it can lose, window sums, the
    statuses, and the matches of a search. What a feed lists is what the API serves after a refresh of the view.
  \<^item> Schema: the data migration establishes the invariants of the history tables, the smart view has no
    gap over complete aggregates, and the retention of raw points against the refreshes.
  \<^item> Migrations: they lead to the schema of the models, upgrades and downgrades succeed in any order and
    determine the schema, and what repeating an interrupted migration does.
  \<^item> API application: routes, the form of the bodies, and what an error shows.
  \<^item> Verification tool: its two modes agree, up to two differences of their options. The commit hook passes exactly the files without a
    forbidden import.
  \<^item> Bulk inserts: chunks do not matter without or with \<open>ignore\<close>; in the update mode a repeated key is
    an error in one chunk, and overwrites across chunks.

  \<^bold>\<open>Not modelled.\<close> Log messages, their rendering and output. Privileges and storage
  in the migrations, and the runs of \<open>migrations/env.py\<close>, which are calls into Alembic. The middleware of
  the FastAPI application; its CORS settings are arguments that are passed on. The schedulers
  (APScheduler) and the event loop beyond what jobs, cancellations and signals observe. The semaphores of the HTTP client, which bound concurrency
  only. Markup of the lines the verification tool prints. Trigram similarity, regular expressions,
  \<open>AVG\<close>, \<open>time_bucket\<close> and the order of ties are parameters. The script
  that exports the schema of the API, which is one call into FastAPI.
\<close>

section \<open>Properties across components\<close>

text \<open>C7. The backfill job of the Binance USD-M section, with the adapter's own windows, requests, parsing
  and time conversions, against an exchange that serves its records as documented: if what is stored
  for a contract is a gapless newest part of the exchange's history (or nothing), the run ends with
  the whole history stored, to the microsecond, and the contract marked synced; and every point it
  adds is a record of the exchange with its rate. Limits: gaps between settlements of at most 999
  hours, no more than 1000 settlements in 1000 hours, and more iterations before the timeout than
  settlements. Other contracts may fail or be cancelled.\<close>

theorem binance_backfill_complete:
  assumes "run_history_backfill budget (\<lambda>c. usdm_backward (api c) now c) clock sec d = (ok, q, d')"
    and "db_ok d" and "bounds_tight d"
    and "(c, s) \<in> set (get_contracts_pending_history_backfill_by_section d sec)"
    and "\<And>k. binance_serves (api c k) c ss \<and> recent ss (now k)"
    and "settlements_ok ss" and "windows_fit ss" and "length ss < budget c"
    and "set (times_of d (c_id c)) \<subseteq> set (instants ss)"
    and "\<And>t u. t \<in> set (times_of d (c_id c)) \<Longrightarrow> u \<in> set (instants ss) \<Longrightarrow> t \<le> u \<Longrightarrow> u \<in> set (times_of d (c_id c))"
  shows "set (times_of d' (c_id c)) = set (instants ss) \<and> synced_now d' (c_id c) \<and>
    set (points_of d' (c_id c)) \<subseteq> set (points_of d (c_id c)) \<union> record_of (c_id c) ` settled ` set ss"
proof -
  let ?I = "set (instants ss)" and ?T = "set (times_of d (c_id c))" and ?b = "initial_before_timestamp s"
  note pf = pending_facts [OF assms(4)] and sp = spaced_instants [OF assms(6)]
  have b: "?b = (if times_of d (c_id c) = [] then None else Some (Min ?T - seconds 1))"
    using initial_frontier [OF assms(3) pf(1)] unfolding pf(2) frontier_def .
  have min: "Min ?T \<in> ?T" "\<And>t. t \<in> ?T \<Longrightarrow> Min ?T \<le> t" if "times_of d (c_id c) \<noteq> []"
    using that by simp_all
  have held: "held_bound ss ?b"
  proof (cases "times_of d (c_id c) = []")
    case False
    then have "Min ?T \<in> ?I" using min(1) assms(9) by blast
    then show ?thesis using b False by (auto simp: held_bound_def instants_def)
  qed (simp add: b held_bound_def)
  have el: "?T \<union> eligible (instants ss) ?b = ?I"
  proof (intro equalityI subsetI)
    fix u assume u: "u \<in> ?I"
    show "u \<in> ?T \<union> eligible (instants ss) ?b"
    proof (cases "times_of d (c_id c) = []")
      case False
      define m where "m = Min ?T"
      have m: "m \<in> ?T" using min(1) [OF False] by (simp only: m_def)
      have "u + seconds 1 \<le> m" if "u < m" using sp u m assms(9) that unfolding spaced_def by blast
      then have "u \<in> ?T \<or> u \<le> m - seconds 1" using assms(10) [OF m u] by linarith
      then show ?thesis using u b False by (auto simp: eligible_def m_def [symmetric])
    qed (use u b in \<open>simp add: eligible_def\<close>)
  qed (use assms(9) in \<open>auto simp: eligible_def\<close>)
  have "card (eligible (instants ss) ?b) \<le> card ?I" by (intro card_mono) (auto simp: eligible_def)
  also have "\<dots> \<le> length ss" by (metis card_length instants_def length_map)
  finally have bud: "card (eligible (instants ss) ?b) < budget c" using assms(8) by simp
  from backfill_run_complete [OF assms(1-4) usdm_task_agrees(1) [OF assms(6,7,5) held] sp bud
      usdm_task_agrees(2) [OF assms(6,7,5) held]]
  have t: "set (times_of d' (c_id c)) = ?I" "times_of d' (c_id c) \<noteq> [] \<longrightarrow> synced_now d' (c_id c)"
    using el by simp_all
  have "?I \<noteq> {}" using assms(6) by (simp add: settlements_ok_def instants_def)
  then have "synced_now d' (c_id c)" using t by auto
  then show ?thesis using t(1) usdm_run_points [OF assms(1,2,4,6)] assms(5) by simp
qed


text \<open>An exchange that answers as documented.\<close>

definition w_binance :: "contract_row \<Rightarrow> settlement list \<Rightarrow> api" where
  "w_binance c ss k r = (case map snd (rq_args r) of
     [_, JInt a, JInt b, _] \<Rightarrow> Inr (JArr (map (funding_record (usdm_format_symbol c)) (take 1000 (filter (asked_for a b) ss))))
   | _ \<Rightarrow> Inl HTTPError)"

definition w_settlements :: "settlement list" where
  "w_settlements = map (\<lambda>h. (h * ms_per_hour, ''0.0001'')) [8, 16, 24, 32, 40]"

theorem binance_backfill_complete_witness:
  "\<exists>ok q d'. run_history_backfill (\<lambda>_. 9)
      (\<lambda>c. usdm_backward (\<lambda>_. w_binance c w_settlements) (\<lambda>_. hours 50) c) (\<lambda>_. hours 50) ''okx'' h_db = (ok, q, d') \<and>
    set (times_of d' 3) = hours ` {8, 16, 24, 32, 40} \<and> synced_now d' 3"
proof -
  let ?run = "run_history_backfill (\<lambda>_. 9)
      (\<lambda>c. usdm_backward (\<lambda>_. w_binance c w_settlements) (\<lambda>_. hours 50) c) (\<lambda>_. hours 50) ''okx'' h_db"
  let ?s = "hd (history_states h_db)"
  obtain ok q d' where r: "?run = (ok, q, d')" by (cases ?run) auto
  have inv: "db_ok h_db" "bounds_tight h_db" by code_simp+
  have pend: "(h_contract, ?s) \<in> set (get_contracts_pending_history_backfill_by_section h_db ''okx'')"
    by code_simp
  have "recent w_settlements (hours 50)" by code_simp
  then have api: "binance_serves (w_binance h_contract w_settlements) h_contract w_settlements \<and>
      recent w_settlements (hours 50)"
    by (simp add: binance_serves_def w_binance_def api_get_def)
  have ok: "settlements_ok w_settlements" by code_simp
  have len: "length w_settlements = 5" by (simp add: w_settlements_def)
  have fit: "windows_fit w_settlements"
    unfolding windows_fit_def
  proof
    fix b show "length (filter (asked_for (b - 1000 * 3600 * 1000) b) w_settlements) \<le> 1000"
      using length_filter_le [of "asked_for (b - 1000 * 3600 * 1000) b" w_settlements] len by linarith
  qed
  have old: "set (times_of h_db 3) = {hours 40}" by code_simp
  have id: "c_id h_contract = 3" by (simp add: h_contract_def)
  have ins: "set (instants w_settlements) = hours ` {8, 16, 24, 32, 40}"
    by (simp add: instants_def w_settlements_def ms_per_hour_def hours_def)
  have "length w_settlements < 9" "set (times_of h_db (c_id h_contract)) \<subseteq> set (instants w_settlements)"
    using len by (simp_all add: id old ins)
  from binance_backfill_complete [OF r inv pend api ok fit this]
  have "set (times_of d' 3) = hours ` {8, 16, 24, 32, 40} \<and> synced_now d' 3"
    unfolding id old ins by (auto simp: hours_def)
  with r show ?thesis by blast
qed


text \<open>C29. What a section's feed lists is what the API serves: after a registry run that committed and a refresh of
  the materialized view, the latest live rates of the section, asked for with any normalization, are
  one entry per listing, with its asset, quote and funding interval, and nothing else; none occurs
  twice.\<close>

theorem feed_reaches_api:
  assumes "register_contracts uuids now sec (Inr feed) d = Inr ((r, sigs), d')"
    and "feed \<noteq> []" and "db_ok d" and "bounds_tight d"
    and "contract_enriched div_numeric d' = Inr rows" and "sec \<noteq> ''all''"
  shows "\<exists>ps. live_latest_endpoint now' (map er_contract rows) d' (None, Some [sec], None) n = Inr ps \<and>
    latest_triple ` set ps = listing_triple ` set feed \<and> distinct (map latest_triple ps)"
proof -
  let ?ps = "get_live_latest now' (map er_contract rows) d' None (Some [sec]) None n"
  have ok: "db_ok d'" using register_db_ok [OF assms(1,3,4)] by blast
  note view = latest_of_section [OF ok assms(5,6), of now' n]
  have "latest_triple ` set ?ps = contract_triple ` {c \<in> set (contracts d'). c_section c = sec \<and> \<not> c_deprecated c}"
    using arg_cong [OF view, of set] by simp
  moreover have "live_latest_endpoint now' (map er_contract rows) d' (None, Some [sec], None) n = Inr ?ps"
    by (simp add: live_latest_endpoint_def require_contract_slice_def no_names_def)
  ultimately show ?thesis using registered_active [OF assms(1-4)] triples_distinct [OF ok] view by simp
qed

theorem feed_reaches_api_witness:
  "\<exists>r sigs d' rows ps. register_contracts Suc 0 ''okx'' (Inr w_feed) w_db = Inr ((r, sigs), d') \<and>
     contract_enriched (/) d' = Inr rows \<and>
     live_latest_endpoint 0 (map er_contract rows) d' (None, Some [''okx''], None) RAW = Inr ps \<and>
     map latest_triple ps = [(''ETH'', ''USDT'', 4)]"
proof -
  let ?reg = "register_contracts Suc 0 ''okx'' (Inr w_feed) w_db"
  have ok: "db_ok w_db" "bounds_tight w_db" "w_feed \<noteq> []" by code_simp+
  have "\<not> isl ?reg" by code_simp
  then obtain r sigs d' where reg: "?reg = Inr ((r, sigs), d')" by (cases ?reg) auto
  have "\<not> isl (contract_enriched (/) (snd (projr ?reg)))" by code_simp
  then obtain rows where rows: "contract_enriched (/) d' = Inr rows"
    unfolding reg by (cases "contract_enriched (/) d'") auto
  have one: "listing_triple ` set w_feed = {(''ETH'', ''USDT'', 4)}" by (simp add: w_feed_def listing_triple_def)
  obtain ps where ps: "live_latest_endpoint 0 (map er_contract rows) d' (None, Some [''okx''], None) RAW = Inr ps"
    "set (map latest_triple ps) = {(''ETH'', ''USDT'', 4)}" "distinct (map latest_triple ps)"
    using feed_reaches_api [OF reg ok(3,1,2) rows, of 0 RAW] one by auto
  have "length (map latest_triple ps) = 1" using distinct_card [OF ps(3)] ps(2) by simp
  then have "map latest_triple ps = [(''ETH'', ''USDT'', 4)]"
    using ps(2) by (cases "map latest_triple ps") auto
  with reg rows ps(1) show ?thesis by (intro exI conjI)
qed

end
